(* ===== verification/Prelude.thy ===== *)
theory Prelude
  imports Main "HOL-Library.Word" "HOL-Library.Multiset"
begin

text \<open>
  The vocabulary every component shares.
  \<^item> status codes (\<open>libs/binder/ndk/include_ndk/android/binder_status.h\<close>, which mirrors the
    \<open>status_t\<close> values of libutils), the limits of \<open>int32_t\<close> and of a 64-bit \<open>size_t\<close>, and
    \<open>size_t\<close> addition with its wrap-around written out;
  \<^item> \<open>crash\<close> and \<open>bind_run\<close>: a call of the C++ code either returns (\<open>Inr\<close>) or does not
    (\<open>Inl Abort\<close> for \<open>LOG_ALWAYS_FATAL\<close> and \<open>CHECK\<close>, \<open>Inl Fault\<close> for an access
    outside an allocation, \<open>Inl Hang\<close> for a loop that never ends);
  \<^item> \<open>and_then\<close>: the same for a loop modelled as a partial function, whose value is \<open>None\<close> when it
    does not end;
  \<^item> byte buffers: \<open>peek\<close>, \<open>poke\<close> and the little-endian integer encoding;
  \<^item> masks of low bits, read as division and remainder;
  \<^item> the locale \<open>transition_system\<close>: reachable states and the invariant rule the state
    machines of the development instantiate.
\<close>

section \<open>Collections used by the component proofs\<close>

named_theorems run_simps \<open>rewriting of runs\<close>
named_theorems buffer_simps \<open>lengths and contents of byte buffers\<close>

section \<open>Machine types and limits\<close>

type_synonym byte = "8 word"
type_synonym u16 = "16 word"
type_synonym u32 = "32 word"
type_synonym u64 = "64 word"
type_synonym status_t = int

abbreviation INT32_MAX :: nat where "INT32_MAX \<equiv> 2147483647"
abbreviation SIZE_MAX :: nat where "SIZE_MAX \<equiv> 18446744073709551615"

definition size_add :: "nat \<Rightarrow> nat \<Rightarrow> nat" where
  "size_add a b = (a + b) mod 18446744073709551616"

lemma size_add_exact [simp]: "a + b \<le> SIZE_MAX \<Longrightarrow> size_add a b = a + b"
  by (simp add: size_add_def)

lemma size_add_le: "size_add a b \<le> a + b"
  by (simp add: size_add_def)

definition size_mul :: "nat \<Rightarrow> nat \<Rightarrow> nat" where
  "size_mul a b = (a * b) mod 18446744073709551616"

lemma size_mul_exact [simp]: "a * b \<le> SIZE_MAX \<Longrightarrow> size_mul a b = a * b"
  by (simp add: size_mul_def)

subsection \<open>Status codes\<close>

abbreviation OK :: status_t where "OK \<equiv> 0"
abbreviation NO_ERROR :: status_t where "NO_ERROR \<equiv> 0"
abbreviation UNKNOWN_ERROR :: status_t where "UNKNOWN_ERROR \<equiv> - 2147483648"
abbreviation NO_MEMORY :: status_t where "NO_MEMORY \<equiv> - 12"
abbreviation INVALID_OPERATION :: status_t where "INVALID_OPERATION \<equiv> - 38"
abbreviation BAD_VALUE :: status_t where "BAD_VALUE \<equiv> - 22"
abbreviation BAD_TYPE :: status_t where "BAD_TYPE \<equiv> - 2147483647"
abbreviation NAME_NOT_FOUND :: status_t where "NAME_NOT_FOUND \<equiv> - 2"
abbreviation PERMISSION_DENIED :: status_t where "PERMISSION_DENIED \<equiv> - 1"
abbreviation DEAD_OBJECT :: status_t where "DEAD_OBJECT \<equiv> - 32"
abbreviation FAILED_TRANSACTION :: status_t where "FAILED_TRANSACTION \<equiv> - 2147483646"
abbreviation NOT_ENOUGH_DATA :: status_t where "NOT_ENOUGH_DATA \<equiv> - 61"
abbreviation UNKNOWN_TRANSACTION :: status_t where "UNKNOWN_TRANSACTION \<equiv> - 74"
abbreviation FDS_NOT_ALLOWED :: status_t where "FDS_NOT_ALLOWED \<equiv> - 2147483641"
abbreviation UNEXPECTED_NULL :: status_t where "UNEXPECTED_NULL \<equiv> - 2147483640"

section \<open>Runs\<close>

datatype crash = Abort | Fault | Hang

definition bind_run :: "crash + 'a \<Rightarrow> ('a \<Rightarrow> crash + 'b) \<Rightarrow> crash + 'b" where
  "bind_run r f = (case r of Inl c \<Rightarrow> Inl c | Inr a \<Rightarrow> f a)"

lemma bind_run_Inl [simp, run_simps]: "bind_run (Inl c) f = Inl c"
  by (simp add: bind_run_def)

lemma bind_run_Inr [simp, run_simps]: "bind_run (Inr a) f = f a"
  by (simp add: bind_run_def)

lemma bind_run_eq_Inr:
  "bind_run r f = Inr b \<longleftrightarrow> (\<exists>a. r = Inr a \<and> f a = Inr b)"
  by (cases r) auto

lemma bind_run_cong [fundef_cong]:
  "r = r' \<Longrightarrow> (\<And>a. r' = Inr a \<Longrightarrow> f a = g a) \<Longrightarrow> bind_run r f = bind_run r' g"
  by (cases r') auto

text \<open>A run that may not end, and what follows it.\<close>

definition and_then :: "(crash + 'a) option \<Rightarrow> ('a \<Rightarrow> (crash + 'b) option) \<Rightarrow> (crash + 'b) option" where
  "and_then r f = Option.bind r (\<lambda>x. case x of Inl c \<Rightarrow> Some (Inl c) | Inr a \<Rightarrow> f a)"

lemma and_then_mono [partial_function_mono]:
  assumes "mono_option B" and "\<And>y. mono_option (\<lambda>f. C y f)"
  shows "mono_option (\<lambda>f. and_then (B f) (\<lambda>y. C y f))"
  unfolding and_then_def
proof (rule bind_mono [OF assms(1)])
  show "mono_option (\<lambda>f. case y of Inl c \<Rightarrow> Some (Inl c) | Inr a \<Rightarrow> C a f)" for y
    by (cases y) (simp_all add: assms(2) option.const_mono)
qed

lemma and_then_Some [simp]: "and_then (Some (Inr x)) f = f x" "and_then (Some (Inl c)) f = Some (Inl c)"
  by (simp_all add: and_then_def)

lemma and_then_eq_Inr: "and_then r f = Some (Inr y) \<longleftrightarrow> (\<exists>x. r = Some (Inr x) \<and> f x = Some (Inr y))"
  by (cases r; cases "the r") (auto simp: and_then_def)

section \<open>Byte buffers\<close>

definition peek :: "nat \<Rightarrow> nat \<Rightarrow> 'a list \<Rightarrow> 'a list" where
  "peek pos n buf = take n (drop pos buf)"

definition poke :: "nat \<Rightarrow> 'a list \<Rightarrow> 'a list \<Rightarrow> 'a list" where
  "poke pos bs buf = take pos buf @ bs @ drop (pos + length bs) buf"

lemma length_peek [simp]: "length (peek pos n buf) = min n (length buf - pos)"
  by (simp add: peek_def)

lemma length_poke [simp, buffer_simps]:
  "pos + length bs \<le> length buf \<Longrightarrow> length (poke pos bs buf) = length buf"
  by (simp add: poke_def)

lemma poke_Nil [simp]: "poke pos [] buf = buf"
  by (simp add: poke_def)

lemma take_poke [buffer_simps]:
  "pos \<le> length buf \<Longrightarrow> take (pos + length bs) (poke pos bs buf) = take pos buf @ bs"
  by (simp add: poke_def)

lemma take_poke_before [buffer_simps]:
  "n \<le> pos \<Longrightarrow> pos \<le> length buf \<Longrightarrow> take n (poke pos bs buf) = take n buf"
  by (simp add: poke_def min_def)

lemma drop_poke_after [buffer_simps]:
  "pos + length bs \<le> n \<Longrightarrow> pos + length bs \<le> length buf \<Longrightarrow> drop n (poke pos bs buf) = drop n buf"
  by (simp add: poke_def)

lemma peek_poke_same [buffer_simps]:
  "pos \<le> length buf \<Longrightarrow> peek pos (length bs) (poke pos bs buf) = bs"
  by (simp add: peek_def poke_def)

lemma poke_append_left:
  "pos + length bs \<le> length xs \<Longrightarrow> poke pos bs (xs @ ys) = poke pos bs xs @ ys"
  by (simp add: poke_def)

lemma poke_poke_adjacent:
  "pos \<le> length buf \<Longrightarrow>
   poke (pos + length as) bs (poke pos as buf) = poke pos (as @ bs) buf"
  by (simp add: poke_def add.assoc add.commute add.left_commute)

lemma take_poke_inside [buffer_simps]:
  "pos + length bs \<le> n \<Longrightarrow> pos \<le> length buf \<Longrightarrow> take n (poke pos bs buf) = poke pos bs (take n buf)"
  by (cases "pos = n") (auto simp: poke_def min_def drop_take)

lemma poke_inside_poke:
  "pos \<le> length buf \<Longrightarrow> i + length cs \<le> length bs \<Longrightarrow>
   poke (pos + i) cs (poke pos bs buf) = poke pos (poke i cs bs) buf"
  by (simp add: poke_def add.assoc)

lemma length_poke_max:
  "pos \<le> length buf \<Longrightarrow> length (poke pos bs buf) = max (length buf) (pos + length bs)"
  by (auto simp: poke_def max_def)

subsection \<open>Little-endian integers\<close>

fun enc_nat :: "nat \<Rightarrow> nat \<Rightarrow> byte list" where
  "enc_nat 0 x = []"
| "enc_nat (Suc n) x = of_nat x # enc_nat n (x div 256)"

fun dec_nat :: "byte list \<Rightarrow> nat" where
  "dec_nat [] = 0"
| "dec_nat (b # bs) = unat b + 256 * dec_nat bs"

lemma length_enc_nat [simp]: "length (enc_nat n x) = n"
  by (induction n arbitrary: x) auto

lemma dec_enc_nat: "dec_nat (enc_nat n x) = x mod 256 ^ n"
proof (induction n arbitrary: x)
  case 0
  then show ?case by simp
next
  case (Suc n)
  have "unat (of_nat x :: byte) = x mod 256"
    by (simp add: unat_of_nat)
  then show ?case
    using Suc.IH [of "x div 256"] by (simp add: mod_mult2_eq)
qed

lemma dec_nat_less: "dec_nat bs < 256 ^ length bs"
proof (induction bs)
  case Nil
  then show ?case by simp
next
  case (Cons b bs)
  have "unat b < 256" using unsigned_less [of b, where 'a = nat] by simp
  with Cons.IH show ?case by simp
qed

lemma enc_dec_nat: "enc_nat (length bs) (dec_nat bs) = bs"
proof (induction bs)
  case Nil
  then show ?case by simp
next
  case (Cons b bs)
  have b: "unat b < 256" using unsigned_less [of b, where 'a = nat] by simp
  have zero: "(256 :: byte) = 0" by simp
  have "(of_nat (unat b + 256 * dec_nat bs) :: byte) = of_nat (unat b) + 256 * of_nat (dec_nat bs)"
    by (simp only: of_nat_add of_nat_mult of_nat_numeral)
  also have "\<dots> = b"
    by (simp only: zero mult_zero_left add_0_right) simp
  finally have "(of_nat (unat b + 256 * dec_nat bs) :: byte) = b" .
  with b Cons.IH show ?case by simp
qed

definition enc16 :: "u16 \<Rightarrow> byte list" where "enc16 w = enc_nat 2 (unat w)"
definition dec16 :: "byte list \<Rightarrow> u16" where "dec16 bs = of_nat (dec_nat bs)"
definition enc32 :: "u32 \<Rightarrow> byte list" where "enc32 w = enc_nat 4 (unat w)"
definition dec32 :: "byte list \<Rightarrow> u32" where "dec32 bs = of_nat (dec_nat bs)"
definition enc64 :: "u64 \<Rightarrow> byte list" where "enc64 w = enc_nat 8 (unat w)"
definition dec64 :: "byte list \<Rightarrow> u64" where "dec64 bs = of_nat (dec_nat bs)"

lemma length_enc16 [simp]: "length (enc16 w) = 2" by (simp add: enc16_def)
lemma length_enc32 [simp]: "length (enc32 w) = 4" by (simp add: enc32_def)
lemma length_enc64 [simp]: "length (enc64 w) = 8" by (simp add: enc64_def)

lemma dec_enc16 [simp]: "dec16 (enc16 w) = w"
  using unsigned_less [of w, where 'a = nat] by (simp add: dec16_def enc16_def dec_enc_nat)

lemma dec_enc32 [simp]: "dec32 (enc32 w) = w"
  using unsigned_less [of w, where 'a = nat] by (simp add: dec32_def enc32_def dec_enc_nat)

lemma dec_enc64 [simp]: "dec64 (enc64 w) = w"
  using unsigned_less [of w, where 'a = nat] by (simp add: dec64_def enc64_def dec_enc_nat)

section \<open>Lists\<close>

lemma distinct_map_filter_nth:
  assumes "distinct (map f (filter P xs))" and "i < length xs" and "j < length xs"
    and "P (xs ! i)" and "P (xs ! j)" and "f (xs ! i) = f (xs ! j)"
  shows "i = j"
  using assms
proof (induction xs arbitrary: i j)
  case (Cons x xs)
  have later: "f x \<noteq> f (xs ! k)" if "P x" "k < length xs" "P (xs ! k)" for k
    using Cons.prems(1) that by (auto simp: image_iff)
  show ?case
    using Cons later by (cases i; cases j) (fastforce split: if_splits)+
qed simp

section \<open>Bit masks\<close>

unbundle bit_operations_syntax

lemma unat_and_mask: "unat (x AND mask k) = unat (x :: 'a :: len word) mod 2 ^ k"
proof -
  have "unat (x AND mask k) = unat (take_bit k x)" by (simp only: take_bit_eq_mask)
  also have "\<dots> = take_bit k (unat x)" by (rule unsigned_take_bit_eq)
  finally show ?thesis by (simp only: take_bit_eq_mod)
qed

lemma unat_and_not_mask:
  "unat (x AND NOT (mask k)) = unat (x :: 'a :: len word) div 2 ^ k * 2 ^ k"
proof -
  have "x AND NOT (mask k) = push_bit k (drop_bit k x)"
    by (rule bit_word_eqI) (auto simp: bit_simps)
  moreover have tb: "take_bit LENGTH('a) (unat x) = unat x"
    by (rule take_bit_nat_eq_self) (rule unsigned_less)
  ultimately have "unat (x AND NOT (mask k)) = take_bit LENGTH('a) (push_bit k (drop_bit k (unat x)))"
    by (simp only: unsigned_push_bit_eq unsigned_drop_bit_eq tb)
  also have "\<dots> = (unat x div 2 ^ k * 2 ^ k) mod 2 ^ LENGTH('a)"
    by (simp only: push_bit_eq_mult drop_bit_eq_div take_bit_eq_mod)
  also have "\<dots> = unat x div 2 ^ k * 2 ^ k"
    by (rule mod_less) (rule le_less_trans [OF div_times_less_eq_dividend unsigned_less])
  finally show ?thesis .
qed

lemma power_minus_one_mask: "k < LENGTH('a) \<Longrightarrow> (of_nat (2 ^ k) :: 'a :: len word) - 1 = mask k"
  by (simp add: mask_eq_exp_minus_1)

lemma unat_neg_mod:
  assumes "x < 2 ^ LENGTH('a)" and "k \<le> LENGTH('a)"
  shows "(x + unat (- (of_nat x) :: 'a :: len word)) mod 2 ^ k = 0"
proof -
  have "(of_nat (x + unat (- (of_nat x) :: 'a word)) :: 'a word) = 0" by simp
  then have "2 ^ LENGTH('a) dvd x + unat (- (of_nat x) :: 'a word)"
    by (simp only: of_nat_eq_0_iff exp_dvd_iff_exp_udvd word_of_nat_eq_0_iff)
  then show ?thesis
    using assms(2) by (meson dvd_trans le_imp_power_dvd mod_0_imp_dvd dvd_imp_mod_0)
qed

section \<open>Reachable states\<close>

locale transition_system =
  fixes init :: "'s \<Rightarrow> bool"
    and step :: "'s \<Rightarrow> 'e \<Rightarrow> 's \<Rightarrow> bool"
begin

inductive reach :: "'s \<Rightarrow> bool" where
  reach_init: "init s \<Longrightarrow> reach s"
| reach_step: "reach s \<Longrightarrow> step s e t \<Longrightarrow> reach t"

lemma invariant_rule:
  assumes "\<And>s. init s \<Longrightarrow> I s"
    and "\<And>s e t. reach s \<Longrightarrow> I s \<Longrightarrow> step s e t \<Longrightarrow> I t"
    and "reach s"
  shows "I s"
  using assms(3) by (induction rule: reach.induct) (auto intro: assms(1,2))

end

end
