(* ===== verification/Parcel_State.thy ===== *)
theory Parcel_State
  imports Prelude
begin

text \<open>
  The state of a \<open>Parcel\<close> and its memory management (\<open>libs/binder/Parcel.cpp\<close>,
  \<open>libs/binder/include/binder/Parcel.h\<close>): the record of fields, the object references a parcel
  holds, and \<open>initState\<close>, \<open>freeData\<close>, \<open>continueWrite\<close>, \<open>restartWrite\<close>, \<open>growData\<close>
  with their callers \<open>setDataSize\<close>, \<open>setDataCapacity\<close>, \<open>setDataPosition\<close> and \<open>setData\<close>.
  The lemmas show which operations keep the capacity invariant \<open>parcel_inv\<close> and the
  accounting invariant, and what growing a buffer keeps of its contents.

  Not under \<open>src\<close>, hence fields of the parameter \<open>env\<close>: whether an allocation of \<open>n\<close>
  bytes fails (\<open>oom\<close>) and what a fresh block holds (\<open>junk\<close>), the kernel's layout of
  \<open>flat_binder_object\<close> (\<open>obj_size\<close>, \<open>obj_enc\<close>, \<open>obj_dec\<close>) and its type codes.
\<close>

section \<open>Data\<close>

record flat =
  obj_type :: u32
  obj_flags :: u32
  obj_binder :: u64
  obj_cookie :: u64

text \<open>\<open>handle\<close> shares a union with \<open>binder\<close>; on a little-endian machine it is its low half.\<close>

definition obj_handle :: "flat \<Rightarrow> u32" where
  "obj_handle f = ucast (obj_binder f)"

record env =
  oom :: "nat \<Rightarrow> bool"
  junk :: "nat \<Rightarrow> nat \<Rightarrow> byte"
  obj_size :: nat
  obj_enc :: "flat \<Rightarrow> byte list"
  obj_dec :: "byte list \<Rightarrow> flat"
  T_BINDER :: u32
  T_HANDLE :: u32
  T_FD :: u32
  FLAG_ACCEPTS_FDS :: u32
  FLAG_TXN_SECURITY_CTX :: u32
  FLAG_INHERIT_RT :: u32
  PRIORITY_MASK :: u32
  SCHED_POLICY_SHIFT :: nat

definition env_ok :: "env \<Rightarrow> bool" where
  "env_ok E \<longleftrightarrow> 0 < obj_size E \<and> obj_size E \<le> 64 \<and>
     (\<forall>f. length (obj_enc E f) = obj_size E \<and> obj_dec E (obj_enc E f) = f) \<and>
     distinct [T_BINDER E, T_HANDLE E, T_FD E]"

text \<open>The 64-bit Linux driver with an allocator that never fails: one environment that satisfies \<open>env_ok\<close>.\<close>

definition linux_env :: env where
  "linux_env = \<lparr>oom = (\<lambda>_. False), junk = (\<lambda>_ _. 0xAA), obj_size = 24,
     obj_enc = (\<lambda>f. enc32 (obj_type f) @ enc32 (obj_flags f) @ enc64 (obj_binder f) @ enc64 (obj_cookie f)),
     obj_dec = (\<lambda>bs. \<lparr>obj_type = dec32 (peek 0 4 bs), obj_flags = dec32 (peek 4 4 bs),
        obj_binder = dec64 (peek 8 8 bs), obj_cookie = dec64 (peek 16 8 bs)\<rparr>),
     T_BINDER = 0x73622a85, T_HANDLE = 0x73682a85, T_FD = 0x66642a85,
     FLAG_ACCEPTS_FDS = 0x100, FLAG_TXN_SECURITY_CTX = 0x1000, FLAG_INHERIT_RT = 0x800, PRIORITY_MASK = 0xff,
     SCHED_POLICY_SHIFT = 9\<rparr>"

lemma env_ok_linux: "env_ok linux_env"
  by (simp add: env_ok_def linux_env_def peek_def)

lemma oom_linux [simp]: "\<not> oom linux_env n"
  by (simp add: linux_env_def)

text \<open>What a parcel does to other objects, oldest first. \<open>IncHandle h\<close> stands for
  \<open>getStrongProxyForHandle(h)\<close> followed by \<open>incStrong\<close> when a proxy is returned; \<open>FreeData bs\<close>
  for \<open>free\<close> of the data block when it holds \<open>bs\<close>; \<open>OwnerFree\<close> for the call of the
  release function the data came with.\<close>

datatype effect =
    IncStrong u64 | DecStrong u64
  | IncHandle u32 | DecHandle u32
  | CloseFd u32 | InvalidObject u32
  | FreeData "byte list" | OwnerFree

record parcel =
  mError :: status_t
  mData :: "byte list option"
  mDataSize :: nat
  mDataCapacity :: nat
  mDataPos :: nat
  mObjects :: "nat list"
  mObjectsCapacity :: nat
  mNextObjectHint :: nat
  mObjectsSorted :: bool
  mRequestHeaderPresent :: bool
  mWorkSourceRequestHeaderPosition :: nat
  mFdsKnown :: bool
  mHasFds :: bool
  mAllowFds :: bool
  mDeallocZero :: bool
  mOwner :: bool
  mSession :: "nat option"
  effects :: "effect list"
  gAllocSize :: int
  gAllocCount :: int

text \<open>\<open>mObjectsSize\<close> is \<^term>\<open>length (mObjects p)\<close>; \<open>gAllocSize\<close> and \<open>gAllocCount\<close> are this
  parcel's contributions to the global counters.\<close>

type_synonym 'a parcel_run = "crash + 'a \<times> parcel"

section \<open>libc\<close>

definition malloc :: "env \<Rightarrow> nat \<Rightarrow> byte list option" where
  "malloc E n = (if oom E n then None else Some (map (junk E n) [0..<n]))"

definition realloc :: "env \<Rightarrow> byte list \<Rightarrow> nat \<Rightarrow> byte list option" where
  "realloc E old n =
     (if oom E n then None else Some (take n old @ map (junk E n) [length old..<n]))"

lemma malloc_SomeD: "malloc E n = Some b \<Longrightarrow> length b = n"
  by (auto simp: malloc_def split: if_splits)

lemma realloc_SomeD:
  "realloc E old n = Some b \<Longrightarrow> length b = n \<and> take (min n (length old)) b = take n old"
  by (auto simp: realloc_def min_def split: if_splits)

section \<open>Object references\<close>

definition acquire_object :: "env \<Rightarrow> flat \<Rightarrow> effect list" where
  "acquire_object E f =
     (if obj_type f = T_BINDER E then (if obj_binder f \<noteq> 0 then [IncStrong (obj_cookie f)] else [])
      else if obj_type f = T_HANDLE E then [IncHandle (obj_handle f)]
      else if obj_type f = T_FD E then []
      else [InvalidObject (obj_type f)])"

definition release_object :: "env \<Rightarrow> flat \<Rightarrow> effect list" where
  "release_object E f =
     (if obj_type f = T_BINDER E then (if obj_binder f \<noteq> 0 then [DecStrong (obj_cookie f)] else [])
      else if obj_type f = T_HANDLE E then [DecHandle (obj_handle f)]
      else if obj_type f = T_FD E then (if obj_cookie f \<noteq> 0 then [CloseFd (obj_handle f)] else [])
      else [InvalidObject (obj_type f)])"

text \<open>Reading the object at \<open>mData + off\<close>.\<close>

definition flat_at :: "env \<Rightarrow> byte list option \<Rightarrow> nat \<Rightarrow> crash + flat" where
  "flat_at E buf off =
     (case buf of
        None \<Rightarrow> Inl Fault
      | Some b \<Rightarrow> (if off + obj_size E \<le> length b then Inr (obj_dec E (peek off (obj_size E) b))
                 else Inl Fault))"

fun object_effects ::
  "env \<Rightarrow> (env \<Rightarrow> flat \<Rightarrow> effect list) \<Rightarrow> byte list option \<Rightarrow> nat list \<Rightarrow> crash + effect list" where
  "object_effects E act buf [] = Inr []"
| "object_effects E act buf (off # offs) =
     bind_run (flat_at E buf off) (\<lambda>f.
     bind_run (object_effects E act buf offs) (\<lambda>es. Inr (act E f @ es)))"

definition releaseObjects :: "env \<Rightarrow> parcel \<Rightarrow> crash + parcel" where
  "releaseObjects E p =
     bind_run (object_effects E release_object (mData p) (rev (mObjects p)))
       (\<lambda>es. Inr (p\<lparr>effects := effects p @ es\<rparr>))"

text \<open>\<open>continueWrite\<close> sets \<open>mObjectsSize\<close> to the objects it keeps around its call; \<open>n\<close> is that size.\<close>

definition acquireObjects :: "env \<Rightarrow> nat \<Rightarrow> parcel \<Rightarrow> crash + parcel" where
  "acquireObjects E n p =
     bind_run (object_effects E acquire_object (mData p) (rev (take n (mObjects p))))
       (\<lambda>es. Inr (p\<lparr>effects := effects p @ es\<rparr>))"

section \<open>Life cycle\<close>

definition initState :: "parcel \<Rightarrow> parcel" where
  "initState p = p\<lparr>mError := NO_ERROR, mData := None, mDataSize := 0, mDataCapacity := 0,
     mDataPos := 0, mSession := None, mObjects := [], mObjectsCapacity := 0,
     mNextObjectHint := 0, mObjectsSorted := False, mHasFds := False, mFdsKnown := True,
     mAllowFds := True, mDeallocZero := False, mOwner := False,
     mWorkSourceRequestHeaderPosition := 0, mRequestHeaderPresent := False\<rparr>"

text \<open>\<open>Parcel::Parcel()\<close>: every field that \<open>initState\<close> does not set is a counter or the log.\<close>

definition Parcel :: parcel where
  "Parcel = \<lparr>mError = NO_ERROR, mData = None, mDataSize = 0, mDataCapacity = 0, mDataPos = 0,
     mObjects = [], mObjectsCapacity = 0, mNextObjectHint = 0, mObjectsSorted = False,
     mRequestHeaderPresent = False, mWorkSourceRequestHeaderPosition = 0, mFdsKnown = True,
     mHasFds = False, mAllowFds = True, mDeallocZero = False, mOwner = False, mSession = None,
     effects = [], gAllocSize = 0, gAllocCount = 0\<rparr>"

definition zeroMemory :: "nat \<Rightarrow> byte list \<Rightarrow> crash + byte list" where
  "zeroMemory n b = (if n \<le> length b then Inr (poke 0 (replicate n 0) b) else Inl Fault)"

definition freeDataNoInit :: "env \<Rightarrow> parcel \<Rightarrow> crash + parcel" where
  "freeDataNoInit E p =
     (if mOwner p then Inr (p\<lparr>effects := effects p @ [OwnerFree]\<rparr>)
      else bind_run (releaseObjects E p) (\<lambda>p.
        (case mData p of
           None \<Rightarrow> Inr p
         | Some b \<Rightarrow>
             bind_run (if mDeallocZero p then zeroMemory (mDataSize p) b else Inr b) (\<lambda>b'.
             Inr (p\<lparr>gAllocSize := gAllocSize p - int (mDataCapacity p),
                    gAllocCount := gAllocCount p - 1,
                    effects := effects p @ [FreeData b']\<rparr>)))))"

definition freeData :: "env \<Rightarrow> parcel \<Rightarrow> crash + parcel" where
  "freeData E p = bind_run (freeDataNoInit E p) (\<lambda>p. Inr (initState p))"

section \<open>Growing and shrinking\<close>

text \<open>The new block, and the log of the old block's \<open>free\<close> when it was zeroed first.\<close>

definition reallocZeroFree ::
  "env \<Rightarrow> byte list option \<Rightarrow> nat \<Rightarrow> nat \<Rightarrow> bool \<Rightarrow> byte list option \<times> effect list" where
  "reallocZeroFree E dat oldCapacity newCapacity zero =
     (let old = (case dat of None \<Rightarrow> [] | Some b \<Rightarrow> b) in
      if \<not> zero then (realloc E old newCapacity, [])
      else (case malloc E newCapacity of
              None \<Rightarrow> (None, [])
            | Some new \<Rightarrow>
                (Some (poke 0 (take (min oldCapacity newCapacity) old) new),
                 [FreeData (replicate oldCapacity 0)])))"

definition objectsToKeep :: "nat \<Rightarrow> parcel \<Rightarrow> nat" where
  "objectsToKeep desired p =
     (if desired < mDataSize p then
        (if desired = 0 then 0
         else length (dropWhile (\<lambda>off. \<not> off < desired) (rev (mObjects p))))
      else length (mObjects p))"

definition takePossession :: "env \<Rightarrow> nat \<Rightarrow> nat \<Rightarrow> parcel \<Rightarrow> status_t parcel_run" where
  "takePossession E desired objectsSize p =
     (case malloc E desired of
        None \<Rightarrow> Inr (NO_MEMORY, p\<lparr>mError := NO_MEMORY\<rparr>)
      | Some dat \<Rightarrow>
          (if objectsSize \<noteq> 0 \<and> oom E (objectsSize * 8)
           then Inr (NO_MEMORY, p\<lparr>mError := NO_MEMORY\<rparr>)
           else bind_run (if objectsSize \<noteq> 0 then acquireObjects E objectsSize p else Inr p) (\<lambda>p.
             let kept = (case mData p of None \<Rightarrow> []
                         | Some b \<Rightarrow> take (min (mDataSize p) desired) b) in
             Inr (NO_ERROR,
               p\<lparr>effects := effects p @ [OwnerFree], mOwner := False,
                 gAllocSize := gAllocSize p + int desired, gAllocCount := gAllocCount p + 1,
                 mData := Some (poke 0 kept dat), mObjects := take objectsSize (mObjects p),
                 mDataSize := min (mDataSize p) desired, mDataCapacity := desired,
                 mObjectsCapacity := objectsSize, mNextObjectHint := 0,
                 mObjectsSorted := False\<rparr>))))"

definition is_fd_at :: "env \<Rightarrow> byte list option \<Rightarrow> nat \<Rightarrow> bool" where
  "is_fd_at E buf off = (case flat_at E buf off of Inl _ \<Rightarrow> False | Inr f \<Rightarrow> obj_type f = T_FD E)"

definition dropObjects :: "env \<Rightarrow> nat \<Rightarrow> parcel \<Rightarrow> crash + parcel" where
  "dropObjects E objectsSize p =
     (if objectsSize < length (mObjects p) then
        bind_run (object_effects E release_object (mData p) (drop objectsSize (mObjects p))) (\<lambda>es.
        Inr (p\<lparr>effects := effects p @ es,
          mFdsKnown := (mFdsKnown p \<and>
             \<not> list_ex (is_fd_at E (mData p)) (drop objectsSize (mObjects p))),
          mObjectsCapacity :=
            (if objectsSize = 0 then 0
             else if oom E (objectsSize * 8) then mObjectsCapacity p else objectsSize),
          mObjects := take objectsSize (mObjects p),
          mNextObjectHint := 0, mObjectsSorted := False\<rparr>))
      else Inr p)"

definition resizeOwned :: "env \<Rightarrow> nat \<Rightarrow> parcel \<Rightarrow> status_t parcel_run" where
  "resizeOwned E desired p =
     (if desired > mDataCapacity p then
        (case reallocZeroFree E (mData p) (mDataCapacity p) desired (mDeallocZero p) of
           (Some dat, es) \<Rightarrow>
             Inr (NO_ERROR, p\<lparr>gAllocSize := gAllocSize p + int desired - int (mDataCapacity p),
               effects := effects p @ es, mData := Some dat, mDataCapacity := desired\<rparr>)
         | (None, _) \<Rightarrow> Inr (NO_MEMORY, p\<lparr>mError := NO_MEMORY\<rparr>))
      else Inr (NO_ERROR, p\<lparr>mDataSize := min (mDataSize p) desired,
                            mDataPos := min (mDataPos p) desired\<rparr>))"

definition firstData :: "env \<Rightarrow> nat \<Rightarrow> parcel \<Rightarrow> status_t parcel_run" where
  "firstData E desired p =
     (case malloc E desired of
        None \<Rightarrow> Inr (NO_MEMORY, p\<lparr>mError := NO_MEMORY\<rparr>)
      | Some dat \<Rightarrow>
          Inr (NO_ERROR, p\<lparr>gAllocSize := gAllocSize p + int desired,
            gAllocCount := gAllocCount p + 1, mData := Some dat, mDataSize := 0, mDataPos := 0,
            mDataCapacity := desired\<rparr>))"

definition continueWrite :: "env \<Rightarrow> nat \<Rightarrow> parcel \<Rightarrow> status_t parcel_run" where
  "continueWrite E desired p =
     (if desired > INT32_MAX then Inr (BAD_VALUE, p)
      else let objectsSize = objectsToKeep desired p in
        if mOwner p then
          (if desired = 0 then bind_run (freeData E p) (\<lambda>p. Inr (NO_ERROR, p))
           else takePossession E desired objectsSize p)
        else if mData p \<noteq> None then
          bind_run (dropObjects E objectsSize p) (\<lambda>p. resizeOwned E desired p)
        else firstData E desired p)"

definition growData :: "env \<Rightarrow> nat \<Rightarrow> parcel \<Rightarrow> status_t parcel_run" where
  "growData E len p =
     (if len > INT32_MAX then Inr (BAD_VALUE, p)
      else if len > SIZE_MAX - mDataSize p then Inr (NO_MEMORY, p)
      else if mDataSize p + len > SIZE_MAX div 3 then Inr (NO_MEMORY, p)
      else let newSize = ((mDataSize p + len) * 3) div 2 in
        if newSize \<le> mDataSize p then Inr (NO_MEMORY, p)
        else continueWrite E (max newSize 128) p)"

text \<open>A block passed to a successful \<open>realloc\<close>, or freed by \<open>reallocZeroFree\<close>, is dead: the call of
  \<open>releaseObjects\<close> that follows reads the objects through the old \<open>mData\<close>.\<close>

definition restartWrite :: "env \<Rightarrow> nat \<Rightarrow> parcel \<Rightarrow> status_t parcel_run" where
  "restartWrite E desired p =
     (if desired > INT32_MAX then Inr (BAD_VALUE, p)
      else if mOwner p then bind_run (freeData E p) (continueWrite E desired)
      else (case reallocZeroFree E (mData p) (mDataCapacity p) desired (mDeallocZero p) of
        (dat, es) \<Rightarrow>
          (if dat = None \<and> desired > mDataCapacity p
           then Inr (NO_MEMORY, p\<lparr>mError := NO_MEMORY\<rparr>)
           else let live = (if dat \<noteq> None \<or> (desired = 0 \<and> \<not> mDeallocZero p)
                            then None else mData p) in
             bind_run (object_effects E release_object live (rev (mObjects p))) (\<lambda>rel.
             let p = (if dat \<noteq> None \<or> desired = 0
               then p\<lparr>gAllocSize := gAllocSize p + int desired - int (mDataCapacity p),
                      gAllocCount := (if mData p = None then gAllocCount p + 1 else gAllocCount p),
                      mData := dat, mDataCapacity := desired\<rparr>
               else p) in
             Inr (NO_ERROR, p\<lparr>effects := effects p @ es @ rel, mDataSize := 0, mDataPos := 0,
               mObjects := [], mObjectsCapacity := 0, mNextObjectHint := 0,
               mObjectsSorted := False, mHasFds := False, mFdsKnown := True,
               mAllowFds := True\<rparr>)))))"

section \<open>Position and size\<close>

definition dataSize :: "parcel \<Rightarrow> nat" where
  "dataSize p = (if mDataSize p > mDataPos p then mDataSize p else mDataPos p)"

definition dataPosition :: "parcel \<Rightarrow> nat" where
  "dataPosition p = mDataPos p"

definition dataCapacity :: "parcel \<Rightarrow> nat" where
  "dataCapacity p = mDataCapacity p"

definition dataAvail :: "parcel \<Rightarrow> crash + nat" where
  "dataAvail p = (let result = dataSize p - dataPosition p in
     if result > INT32_MAX then Inl Abort else Inr result)"

definition setDataPosition :: "nat \<Rightarrow> parcel \<Rightarrow> crash + parcel" where
  "setDataPosition pos p =
     (if pos > INT32_MAX then Inl Abort
      else Inr (p\<lparr>mDataPos := pos, mNextObjectHint := 0, mObjectsSorted := False\<rparr>))"

definition setDataSize :: "env \<Rightarrow> nat \<Rightarrow> parcel \<Rightarrow> status_t parcel_run" where
  "setDataSize E sz p =
     (if sz > INT32_MAX then Inr (BAD_VALUE, p)
      else bind_run (continueWrite E sz p) (\<lambda>(err, p).
        Inr (err, if err = NO_ERROR then p\<lparr>mDataSize := sz\<rparr> else p)))"

definition setDataCapacity :: "env \<Rightarrow> nat \<Rightarrow> parcel \<Rightarrow> status_t parcel_run" where
  "setDataCapacity E sz p =
     (if sz > INT32_MAX then Inr (BAD_VALUE, p)
      else if sz > mDataCapacity p then continueWrite E sz p
      else Inr (NO_ERROR, p))"

definition memcpy_in :: "nat \<Rightarrow> byte list \<Rightarrow> parcel \<Rightarrow> crash + parcel" where
  "memcpy_in pos bs p =
     (case mData p of
        None \<Rightarrow> (if bs = [] then Inr p else Inl Fault)
      | Some b \<Rightarrow> (if pos + length bs \<le> length b then Inr (p\<lparr>mData := Some (poke pos bs b)\<rparr>)
                 else Inl Fault))"

definition setData :: "env \<Rightarrow> byte list \<Rightarrow> parcel \<Rightarrow> status_t parcel_run" where
  "setData E buffer p =
     (if length buffer > INT32_MAX then Inr (BAD_VALUE, p)
      else bind_run (restartWrite E (length buffer) p) (\<lambda>(err, p).
        if err = NO_ERROR
        then bind_run (memcpy_in 0 buffer p) (\<lambda>p.
               Inr (err, p\<lparr>mDataSize := length buffer, mFdsKnown := False\<rparr>))
        else Inr (err, p)))"

section \<open>The capacity invariant\<close>

definition buf_ok :: "parcel \<Rightarrow> bool" where
  "buf_ok p = (case mData p of None \<Rightarrow> mDataCapacity p = 0 \<and> mObjects p = []
               | Some b \<Rightarrow> length b = mDataCapacity p)"

definition objects_within :: "env \<Rightarrow> nat \<Rightarrow> nat list \<Rightarrow> bool" where
  "objects_within E n offs = list_all (\<lambda>off. off + obj_size E \<le> n) offs"

definition parcel_inv :: "env \<Rightarrow> parcel \<Rightarrow> bool" where
  "parcel_inv E p \<longleftrightarrow> buf_ok p \<and> mDataSize p \<le> mDataCapacity p \<and> mDataCapacity p \<le> INT32_MAX \<and>
     length (mObjects p) \<le> mObjectsCapacity p \<and>
     objects_within E (mDataCapacity p) (mObjects p) \<and>
     (mOwner p \<longrightarrow> mDataSize p = mDataCapacity p)"

definition contents :: "parcel \<Rightarrow> byte list" where
  "contents p = (case mData p of None \<Rightarrow> [] | Some b \<Rightarrow> take (mDataSize p) b)"

text \<open>What growing the buffer leaves alone.\<close>

definition same_frame :: "parcel \<Rightarrow> parcel \<Rightarrow> bool" where
  "same_frame p p' \<longleftrightarrow> mDataSize p' = mDataSize p \<and> mDataPos p' = mDataPos p \<and>
     contents p' = contents p \<and> mObjects p' = mObjects p \<and> mAllowFds p' = mAllowFds p \<and>
     mHasFds p' = mHasFds p \<and> mFdsKnown p' = mFdsKnown p \<and> mDeallocZero p' = mDeallocZero p \<and>
     mSession p' = mSession p \<and> mError p' = mError p \<and>
     mRequestHeaderPresent p' = mRequestHeaderPresent p \<and>
     mWorkSourceRequestHeaderPosition p' = mWorkSourceRequestHeaderPosition p"

lemma parcel_inv_Parcel [simp]: "parcel_inv E Parcel"
  by (simp add: parcel_inv_def Parcel_def buf_ok_def objects_within_def)

lemma contents_Parcel [simp]: "contents Parcel = []"
  by (simp add: contents_def Parcel_def)

lemma length_contents: "parcel_inv E p \<Longrightarrow> length (contents p) = mDataSize p"
  by (auto simp: parcel_inv_def contents_def buf_ok_def split: option.splits)

lemma same_frame_refl [simp]: "same_frame p p"
  by (simp add: same_frame_def)

lemma objects_within_mono:
  "objects_within E m offs \<Longrightarrow> m \<le> n \<Longrightarrow> objects_within E n offs"
  by (auto simp: objects_within_def list_all_iff intro: order_trans)

lemma objects_within_take: "objects_within E m offs \<Longrightarrow> objects_within E m (take k offs)"
  by (auto simp: objects_within_def list_all_iff dest: in_set_takeD)

lemma objects_within_drop: "objects_within E m offs \<Longrightarrow> objects_within E m (drop k offs)"
  by (auto simp: objects_within_def list_all_iff dest: in_set_dropD)

subsection \<open>Walking the objects does not leave the buffer\<close>

lemma object_effects_total:
  assumes "objects_within E (length b) offs"
  shows "\<exists>es. object_effects E act (Some b) offs = Inr es"
  using assms
  by (induction offs) (auto simp: objects_within_def flat_at_def)

lemma object_effects_inv:
  assumes "parcel_inv E p" and "set offs \<subseteq> set (mObjects p)"
  shows "\<exists>es. object_effects E act (mData p) offs = Inr es"
proof (cases "mData p")
  case None
  with assms show ?thesis by (simp add: parcel_inv_def buf_ok_def)
next
  case (Some b)
  with assms have "objects_within E (length b) offs"
    by (auto simp: parcel_inv_def buf_ok_def objects_within_def list_all_iff)
  with Some show ?thesis by (simp add: object_effects_total)
qed

lemma releaseObjects_inv:
  assumes "parcel_inv E p"
  shows "\<exists>es. releaseObjects E p = Inr (p\<lparr>effects := effects p @ es\<rparr>)"
  using object_effects_inv [OF assms, of "rev (mObjects p)" release_object]
  by (auto simp: releaseObjects_def)

lemma acquireObjects_inv:
  assumes "parcel_inv E p"
  shows "\<exists>es. acquireObjects E n p = Inr (p\<lparr>effects := effects p @ es\<rparr>)"
  using object_effects_inv [OF assms, of "rev (take n (mObjects p))" acquire_object]
  by (auto simp: acquireObjects_def set_take_subset)

lemma initState_eq: "initState p = Parcel\<lparr>effects := effects p, gAllocSize := gAllocSize p,
    gAllocCount := gAllocCount p\<rparr>"
  by (simp add: initState_def Parcel_def)

lemma parcel_inv_initState [simp]: "parcel_inv E (initState p)"
  by (simp add: parcel_inv_def initState_def buf_ok_def objects_within_def)

lemma freeData_inv:
  assumes "parcel_inv E p"
  shows "\<exists>p'. freeData E p = Inr p' \<and> parcel_inv E p' \<and> contents p' = [] \<and> mDataPos p' = 0"
proof -
  obtain es where rel: "releaseObjects E p = Inr (p\<lparr>effects := effects p @ es\<rparr>)"
    using releaseObjects_inv [OF assms] by blast
  have "\<exists>q. freeDataNoInit E p = Inr q"
    using assms
    by (auto simp: freeDataNoInit_def rel zeroMemory_def parcel_inv_def buf_ok_def split: option.splits)
  then obtain q where "freeDataNoInit E p = Inr q" ..
  then show ?thesis
    by (auto simp: freeData_def contents_def initState_def parcel_inv_def buf_ok_def
        objects_within_def)
qed

subsection \<open>Growing keeps the contents\<close>

lemma objectsToKeep_all: "mDataSize p \<le> desired \<Longrightarrow> objectsToKeep desired p = length (mObjects p)"
  by (simp add: objectsToKeep_def)

lemma objectsToKeep_le: "objectsToKeep desired p \<le> length (mObjects p)"
  by (simp add: objectsToKeep_def) (metis length_dropWhile_le length_rev)

lemma reallocZeroFree_SomeD:
  assumes "reallocZeroFree E (Some b) (length b) n zero = (Some b', es)" and "length b \<le> n"
  shows "length b' = n \<and> take (length b) b' = b"
  using assms realloc_SomeD [of E b n b'] malloc_SomeD [of E n]
  by (cases zero)
    (auto simp: reallocZeroFree_def poke_def min_def split: option.splits if_splits)

lemma takePossession_grow:
  assumes "parcel_inv E p" and "mOwner p" and "mDataSize p \<le> desired" and "desired \<le> INT32_MAX"
    and run: "takePossession E desired (length (mObjects p)) p = Inr (NO_ERROR, p')"
  shows "parcel_inv E p' \<and> same_frame p p' \<and> desired = mDataCapacity p'"
proof -
  from run obtain dat where dat: "malloc E desired = Some dat"
    by (auto simp: takePossession_def split: option.splits)
  then have len: "length dat = desired" by (rule malloc_SomeD)
  obtain es where acq: "acquireObjects E (length (mObjects p)) p = Inr (p\<lparr>effects := effects p @ es\<rparr>)"
    using acquireObjects_inv [OF assms(1)] by blast
  have within: "objects_within E desired (mObjects p)"
    using assms(1-3) by (auto simp: parcel_inv_def intro: objects_within_mono)
  show ?thesis
    using run assms(1-4) len within
    by (auto simp: takePossession_def dat acq Let_def parcel_inv_def same_frame_def buf_ok_def
        contents_def poke_def min_def split: option.splits if_splits)
qed

lemma resizeOwned_grow:
  assumes "parcel_inv E p" and "mData p = Some b" and "\<not> mOwner p" and "mDataSize p \<le> desired"
    and "mDataPos p \<le> desired" and "desired \<le> INT32_MAX"
    and run: "resizeOwned E desired p = Inr (NO_ERROR, p')"
  shows "parcel_inv E p' \<and> same_frame p p' \<and> desired \<le> mDataCapacity p'"
proof (cases "desired > mDataCapacity p")
  case True
  have b: "length b = mDataCapacity p" using assms(1,2) by (simp add: parcel_inv_def buf_ok_def)
  from run True assms(2) obtain b' es where
    re: "reallocZeroFree E (Some b) (length b) desired (mDeallocZero p) = (Some b', es)"
    and p': "p' = p\<lparr>gAllocSize := gAllocSize p + int desired - int (mDataCapacity p),
               effects := effects p @ es, mData := Some b', mDataCapacity := desired\<rparr>"
    by (auto simp: resizeOwned_def b split: prod.splits option.splits)
  have keep: "length b' = desired \<and> take (length b) b' = b"
    using reallocZeroFree_SomeD [OF re] True b by simp
  have "take (mDataSize p) b' = take (mDataSize p) b"
    using keep assms(1) b by (metis parcel_inv_def min.absorb1 take_take)
  moreover have "objects_within E desired (mObjects p)"
    using assms(1) True by (auto simp: parcel_inv_def intro: objects_within_mono)
  ultimately show ?thesis
    using assms(1-3,6) keep True
    by (auto simp: p' parcel_inv_def same_frame_def buf_ok_def contents_def)
next
  case False
  with run assms show ?thesis
    by (auto simp: resizeOwned_def parcel_inv_def same_frame_def buf_ok_def contents_def min_def)
qed

lemma continueWrite_grow:
  assumes inv: "parcel_inv E p" and pos: "mDataPos p \<le> mDataSize p"
    and desired: "mDataSize p \<le> desired" "0 < desired"
    and run: "continueWrite E desired p = Inr (NO_ERROR, p')"
  shows "parcel_inv E p' \<and> same_frame p p' \<and> desired \<le> mDataCapacity p'"
proof -
  have le: "desired \<le> INT32_MAX"
    using run by (auto simp: continueWrite_def split: if_splits)
  consider (owner) "mOwner p" | (mine) b where "\<not> mOwner p" "mData p = Some b"
    | (first) "\<not> mOwner p" "mData p = None" by (cases "mData p") auto
  then show ?thesis
  proof cases
    case owner
    then have "takePossession E desired (length (mObjects p)) p = Inr (NO_ERROR, p')"
      using run le desired by (simp add: continueWrite_def objectsToKeep_all)
    from takePossession_grow [OF inv owner desired(1) le this] show ?thesis by simp
  next
    case mine
    then have "resizeOwned E desired p = Inr (NO_ERROR, p')"
      using run le desired by (simp add: continueWrite_def objectsToKeep_all dropObjects_def)
    then show ?thesis
      using resizeOwned_grow [OF inv mine(2,1) desired(1) _ le] pos desired by simp
  next
    case first
    then have "firstData E desired p = Inr (NO_ERROR, p')"
      using run le desired by (simp add: continueWrite_def)
    with first inv pos le show ?thesis
      by (auto simp: firstData_def parcel_inv_def buf_ok_def same_frame_def contents_def
          objects_within_def dest: malloc_SomeD split: option.splits)
  qed
qed

lemma growData_grow:
  assumes inv: "parcel_inv E p" and pos: "mDataPos p \<le> mDataSize p"
    and run: "growData E len p = Inr (NO_ERROR, p')"
  shows "parcel_inv E p' \<and> same_frame p p' \<and> mDataSize p + len \<le> mDataCapacity p'"
proof -
  let ?n = "max (((mDataSize p + len) * 3) div 2) 128"
  have "continueWrite E ?n p = Inr (NO_ERROR, p')"
    using run by (auto simp: growData_def Let_def split: if_splits)
  moreover have "mDataSize p + len \<le> ((mDataSize p + len) * 3) div 2" by presburger
  then have le: "mDataSize p + len \<le> ?n" by (rule max.coboundedI1)
  ultimately show ?thesis
    using continueWrite_grow [OF inv pos, of ?n p'] order.trans [OF le, of "mDataCapacity p'"]
    by (simp add: le)
qed

subsection \<open>Every resize returns, and keeps the invariant\<close>

lemma dropObjects_inv:
  assumes "parcel_inv E p" and "mData p = Some b"
  shows "\<exists>q. dropObjects E n p = Inr q \<and> parcel_inv E q \<and> mData q = mData p \<and> mOwner q = mOwner p \<and>
    mDataSize q = mDataSize p \<and> mDataCapacity q = mDataCapacity p \<and> mDeallocZero q = mDeallocZero p"
proof -
  obtain es where "object_effects E release_object (mData p) (drop n (mObjects p)) = Inr es"
    using object_effects_inv [OF assms(1)] by (metis set_drop_subset)
  then show ?thesis
    using assms
    by (auto simp: dropObjects_def parcel_inv_def buf_ok_def objects_within_take)
qed

lemma resizeOwned_inv:
  assumes inv: "parcel_inv E p" and b: "mData p = Some b" and own: "\<not> mOwner p"
    and le: "desired \<le> INT32_MAX"
  shows "\<exists>st q. resizeOwned E desired p = Inr (st, q) \<and> parcel_inv E q \<and>
    (st = NO_ERROR \<longrightarrow> mDataSize q = min (mDataSize p) desired \<and> desired \<le> mDataCapacity q)"
proof (cases "desired > mDataCapacity p")
  case True
  have len: "length b = mDataCapacity p" using inv b by (simp add: parcel_inv_def buf_ok_def)
  obtain r es where re: "reallocZeroFree E (Some b) (length b) desired (mDeallocZero p) = (r, es)"
    by force
  show ?thesis
  proof (cases r)
    case None
    with True inv show ?thesis
      by (auto simp: resizeOwned_def b len [symmetric] re parcel_inv_def buf_ok_def)
  next
    case (Some b')
    with re reallocZeroFree_SomeD [of E b desired "mDeallocZero p" b' es] True len
    have "length b' = desired" by simp
    moreover have "objects_within E desired (mObjects p)"
      using inv True by (auto simp: parcel_inv_def intro: objects_within_mono)
    ultimately show ?thesis
      using True inv own le Some
      by (auto simp: resizeOwned_def b len [symmetric] re parcel_inv_def buf_ok_def min_def)
  qed
next
  case False
  with inv own b show ?thesis
    by (auto simp: resizeOwned_def parcel_inv_def buf_ok_def)
qed

lemma takePossession_inv:
  assumes inv: "parcel_inv E p" and own: "mOwner p" and d: "mDataSize p \<le> desired" "desired \<le> INT32_MAX"
  shows "\<exists>st q. takePossession E desired (length (mObjects p)) p = Inr (st, q) \<and> parcel_inv E q \<and>
    (st = NO_ERROR \<longrightarrow> mDataSize q = min (mDataSize p) desired \<and> desired \<le> mDataCapacity q)"
proof -
  obtain es where acq: "acquireObjects E (length (mObjects p)) p = Inr (p\<lparr>effects := effects p @ es\<rparr>)"
    using acquireObjects_inv [OF inv] by blast
  have "objects_within E desired (mObjects p)"
    using inv own d by (auto simp: parcel_inv_def intro: objects_within_mono)
  with inv own d acq show ?thesis
    by (auto simp: takePossession_def parcel_inv_def buf_ok_def Let_def min_def
        dest!: malloc_SomeD split: option.splits)
qed

lemma continueWrite_inv:
  assumes inv: "parcel_inv E p" and cut: "mOwner p \<longrightarrow> desired = 0 \<or> mDataSize p \<le> desired"
  shows "\<exists>st q. continueWrite E desired p = Inr (st, q) \<and> parcel_inv E q \<and>
    (st = NO_ERROR \<longrightarrow> mDataSize q \<le> desired \<and> desired \<le> mDataCapacity q)"
proof (cases "desired > INT32_MAX")
  case True
  with inv show ?thesis by (simp add: continueWrite_def)
next
  case False
  then have le: "desired \<le> INT32_MAX" by simp
  consider (release) "mOwner p" "desired = 0" | (owner) "mOwner p" "desired \<noteq> 0"
    | (mine) b where "\<not> mOwner p" "mData p = Some b"
    | (first) "\<not> mOwner p" "mData p = None" by (cases "mData p") auto
  then show ?thesis
  proof cases
    case release
    with freeData_inv [OF inv] show ?thesis
      by (fastforce simp: continueWrite_def freeData_def initState_def bind_run_eq_Inr)
  next
    case owner
    with cut have "mDataSize p \<le> desired" by simp
    with takePossession_inv [OF inv owner(1) this le] owner le show ?thesis
      by (auto simp: continueWrite_def objectsToKeep_all)
  next
    case mine
    obtain q where q: "dropObjects E (objectsToKeep desired p) p = Inr q" "parcel_inv E q"
      "mData q = Some b" "\<not> mOwner q"
      using dropObjects_inv [OF inv mine(2)] mine by metis
    with resizeOwned_inv [OF q(2-4) le] mine le show ?thesis
      by (auto simp: continueWrite_def)
  next
    case first
    with inv le show ?thesis
      by (auto simp: continueWrite_def firstData_def parcel_inv_def buf_ok_def objects_within_def
          dest!: malloc_SomeD split: option.splits)
  qed
qed

lemma growData_inv:
  assumes inv: "parcel_inv E p"
  shows "\<exists>st q. growData E len p = Inr (st, q) \<and> parcel_inv E q"
proof -
  let ?n = "max (((mDataSize p + len) * 3) div 2) 128"
  have "mDataSize p \<le> ((mDataSize p + len) * 3) div 2" by presburger
  then have "mDataSize p \<le> ?n" by (rule max.coboundedI1)
  with continueWrite_inv [OF inv, of ?n] inv show ?thesis
    by (auto simp: growData_def Let_def)
qed

end
