(* ===== verification/Parcel_Write.thy ===== *)
theory Parcel_Write
  imports Parcel_State
begin

text \<open>
  Writing into a \<open>Parcel\<close> (\<open>libs/binder/Parcel.cpp\<close>): the aligned, unpadded and padded
  primitives, the scalars, strings and arrays built on them, and the objects (\<open>writeObject\<close>,
  file descriptors). \<open>wrote E p bs q\<close> says that a call put exactly the bytes \<open>bs\<close> at the
  position and moved past them; the lemmas give every writer such a law under \<open>writable\<close>, which
  asks for a position inside the data, no allocation failure and room below \<open>INT32_MAX\<close>.

  \<open>int32_t\<close> and \<open>int64_t\<close> values are words in two's complement; \<open>float\<close> and \<open>double\<close> are
  their bit patterns, which is what the code copies.
\<close>

section \<open>Primitives\<close>

text \<open>\<open>PAD_SIZE_UNSAFE\<close>: clearing the two low bits of \<open>s + 3\<close>.\<close>

definition padded_len :: "nat \<Rightarrow> nat" where
  "padded_len s = 4 * ((s + 3) div 4)"

definition pad_size :: "nat \<Rightarrow> crash + nat" where
  "pad_size s = (if s > SIZE_MAX - 3 then Inl Abort else Inr (padded_len s))"

definition finishWrite :: "nat \<Rightarrow> parcel \<Rightarrow> status_t parcel_run" where
  "finishWrite len p =
     (if len > INT32_MAX then Inr (BAD_VALUE, p)
      else let p = p\<lparr>mDataPos := size_add (mDataPos p) len\<rparr> in
        Inr (NO_ERROR, if mDataPos p > mDataSize p then p\<lparr>mDataSize := mDataPos p\<rparr> else p))"

text \<open>The code after the label \<open>restart_write\<close> of \<open>writeAligned\<close> and \<open>writeUnpadded\<close>.\<close>

definition restart_write :: "byte list \<Rightarrow> parcel \<Rightarrow> status_t parcel_run" where
  "restart_write dat p =
     bind_run (memcpy_in (mDataPos p) dat p) (\<lambda>p. finishWrite (length dat) p)"

definition writeAligned :: "env \<Rightarrow> byte list \<Rightarrow> parcel \<Rightarrow> status_t parcel_run" where
  "writeAligned E val p =
     (if size_add (mDataPos p) (length val) \<le> mDataCapacity p then restart_write val p
      else bind_run (growData E (length val) p) (\<lambda>(err, p).
        if err = NO_ERROR then restart_write val p else Inr (err, p)))"

definition writeUnpadded :: "env \<Rightarrow> byte list \<Rightarrow> parcel \<Rightarrow> status_t parcel_run" where
  "writeUnpadded E dat p =
     (let len = length dat; stop = size_add (mDataPos p) len in
      if len > INT32_MAX then Inr (BAD_VALUE, p)
      else if stop < mDataPos p then Inr (BAD_VALUE, p)
      else if stop \<le> mDataCapacity p then restart_write dat p
      else bind_run (growData E len p) (\<lambda>(err, p).
        if err = NO_ERROR then restart_write dat p else Inr (err, p)))"

text \<open>A returned pointer into the data is its offset, and \<open>None\<close> the null pointer. Masking the
  last word with \<open>mask[padded - len]\<close> clears its last \<open>padded - len\<close> bytes.\<close>

definition restart_write_inplace :: "nat \<Rightarrow> nat \<Rightarrow> parcel \<Rightarrow> nat option parcel_run" where
  "restart_write_inplace len padded p =
     (let dat = (if mData p = None then None else Some (mDataPos p)) in
      bind_run (if padded \<noteq> len then memcpy_in (mDataPos p + len) (replicate (padded - len) 0) p
                else if mDataPos p \<le> mDataCapacity p then Inr p else Inl Fault) (\<lambda>p.
      bind_run (finishWrite padded p) (\<lambda>(_, p). Inr (dat, p))))"

definition writeInplace :: "env \<Rightarrow> nat \<Rightarrow> parcel \<Rightarrow> nat option parcel_run" where
  "writeInplace E len p =
     (if len > INT32_MAX then Inr (None, p)
      else bind_run (pad_size len) (\<lambda>padded.
        if size_add (mDataPos p) padded < mDataPos p then Inr (None, p)
        else if size_add (mDataPos p) padded \<le> mDataCapacity p
        then restart_write_inplace len padded p
        else bind_run (growData E padded p) (\<lambda>(err, p).
          if err = NO_ERROR then restart_write_inplace len padded p else Inr (None, p))))"

definition parcel_write :: "env \<Rightarrow> byte list option \<Rightarrow> nat \<Rightarrow> parcel \<Rightarrow> status_t parcel_run" where
  "parcel_write E dat len p =
     (if len > INT32_MAX then Inr (BAD_VALUE, p)
      else bind_run (writeInplace E len p) (\<lambda>(d, p).
        case (d, dat) of
          (Some d, Some bs) \<Rightarrow> bind_run (memcpy_in d (take len bs) p) (\<lambda>p. Inr (NO_ERROR, p))
        | _ \<Rightarrow> Inr (mError p, p)))"

section \<open>Scalars\<close>

definition writeInt32 :: "env \<Rightarrow> u32 \<Rightarrow> parcel \<Rightarrow> status_t parcel_run" where
  "writeInt32 E val p = writeAligned E (enc32 val) p"

definition writeUint32 :: "env \<Rightarrow> u32 \<Rightarrow> parcel \<Rightarrow> status_t parcel_run" where
  "writeUint32 E val p = writeAligned E (enc32 val) p"

definition writeInt64 :: "env \<Rightarrow> u64 \<Rightarrow> parcel \<Rightarrow> status_t parcel_run" where
  "writeInt64 E val p = writeAligned E (enc64 val) p"

definition writeUint64 :: "env \<Rightarrow> u64 \<Rightarrow> parcel \<Rightarrow> status_t parcel_run" where
  "writeUint64 E val p = writeAligned E (enc64 val) p"

definition writePointer :: "env \<Rightarrow> u64 \<Rightarrow> parcel \<Rightarrow> status_t parcel_run" where
  "writePointer E val p = writeAligned E (enc64 val) p"

definition writeFloat :: "env \<Rightarrow> u32 \<Rightarrow> parcel \<Rightarrow> status_t parcel_run" where
  "writeFloat E val p = writeAligned E (enc32 val) p"

definition writeDouble :: "env \<Rightarrow> u64 \<Rightarrow> parcel \<Rightarrow> status_t parcel_run" where
  "writeDouble E val p = writeAligned E (enc64 val) p"

definition writeBool :: "env \<Rightarrow> bool \<Rightarrow> parcel \<Rightarrow> status_t parcel_run" where
  "writeBool E val p = writeInt32 E (if val then 1 else 0) p"

definition writeChar :: "env \<Rightarrow> u16 \<Rightarrow> parcel \<Rightarrow> status_t parcel_run" where
  "writeChar E val p = writeInt32 E (ucast val) p"

definition writeByte :: "env \<Rightarrow> byte \<Rightarrow> parcel \<Rightarrow> status_t parcel_run" where
  "writeByte E val p = writeInt32 E (scast val) p"

section \<open>Arrays and strings\<close>

definition writeInt32Array :: "env \<Rightarrow> u32 list option \<Rightarrow> nat \<Rightarrow> parcel \<Rightarrow> status_t parcel_run" where
  "writeInt32Array E val len p =
     (if len > INT32_MAX then Inr (BAD_VALUE, p)
      else (case val of
        None \<Rightarrow> writeInt32 E (- 1) p
      | Some xs \<Rightarrow>
          bind_run (writeInt32 E (of_nat len) p) (\<lambda>(ret, p).
          if ret = NO_ERROR then parcel_write E (Some (concat (map enc32 xs))) (len * 4) p
          else Inr (ret, p))))"

definition writeByteArray :: "env \<Rightarrow> byte list option \<Rightarrow> nat \<Rightarrow> parcel \<Rightarrow> status_t parcel_run" where
  "writeByteArray E val len p =
     (if len > INT32_MAX then Inr (BAD_VALUE, p)
      else (case val of
        None \<Rightarrow> writeInt32 E (- 1) p
      | Some xs \<Rightarrow>
          bind_run (writeInt32 E (of_nat len) p) (\<lambda>(ret, p).
          if ret = NO_ERROR then parcel_write E (Some xs) len p else Inr (ret, p))))"

text \<open>The argument of \<open>writeCString\<close> is the bytes up to the terminator.\<close>

definition writeCString :: "env \<Rightarrow> byte list \<Rightarrow> parcel \<Rightarrow> status_t parcel_run" where
  "writeCString E str p =
     (let s = takeWhile (\<lambda>c. c \<noteq> 0) str in parcel_write E (Some (s @ [0])) (length s + 1) p)"

definition writeString8 :: "env \<Rightarrow> byte list option \<Rightarrow> parcel \<Rightarrow> status_t parcel_run" where
  "writeString8 E str p =
     (case str of
        None \<Rightarrow> writeInt32 E (- 1) p
      | Some s \<Rightarrow>
          bind_run (writeInt32 E (of_nat (length s)) p) (\<lambda>(err, p).
          if err = NO_ERROR then
            bind_run (writeInplace E (size_add (length s) 1) p) (\<lambda>(dat, p).
            case dat of
              Some d \<Rightarrow>
                bind_run (memcpy_in d s p) (\<lambda>p.
                bind_run (memcpy_in (d + length s) [0] p) (\<lambda>p. Inr (NO_ERROR, p)))
            | None \<Rightarrow> Inr (mError p, p))
          else Inr (err, p)))"

definition enc_chars :: "u16 list \<Rightarrow> byte list" where
  "enc_chars s = concat (map enc16 s)"

definition writeString16 :: "env \<Rightarrow> u16 list option \<Rightarrow> parcel \<Rightarrow> status_t parcel_run" where
  "writeString16 E str p =
     (case str of
        None \<Rightarrow> writeInt32 E (- 1) p
      | Some s \<Rightarrow>
          bind_run (writeInt32 E (of_nat (length s)) p) (\<lambda>(err, p).
          if err = NO_ERROR then
            let len = size_mul (length s) 2 in
            bind_run (writeInplace E (size_add len 2) p) (\<lambda>(dat, p).
            case dat of
              Some d \<Rightarrow>
                bind_run (memcpy_in d (take len (enc_chars s)) p) (\<lambda>p.
                bind_run (memcpy_in (d + len) [0, 0] p) (\<lambda>p. Inr (NO_ERROR, p)))
            | None \<Rightarrow> Inr (mError p, p))
          else Inr (err, p)))"

section \<open>What a writer does\<close>

definition writable :: "env \<Rightarrow> nat \<Rightarrow> parcel \<Rightarrow> bool" where
  "writable E n p \<longleftrightarrow> parcel_inv E p \<and> mDataPos p \<le> mDataSize p \<and> mError p = NO_ERROR \<and>
     (\<forall>k. \<not> oom E k) \<and> ((mDataSize p + n) * 3) div 2 \<le> INT32_MAX"

definition same_flags :: "parcel \<Rightarrow> parcel \<Rightarrow> bool" where
  "same_flags p q \<longleftrightarrow> mObjects q = mObjects p \<and> mAllowFds q = mAllowFds p \<and>
     mHasFds q = mHasFds p \<and> mFdsKnown q = mFdsKnown p \<and> mDeallocZero q = mDeallocZero p \<and>
     mSession q = mSession p \<and> mError q = mError p \<and>
     mRequestHeaderPresent q = mRequestHeaderPresent p \<and>
     mWorkSourceRequestHeaderPosition q = mWorkSourceRequestHeaderPosition p"

definition wrote :: "env \<Rightarrow> parcel \<Rightarrow> byte list \<Rightarrow> parcel \<Rightarrow> bool" where
  "wrote E p bs q \<longleftrightarrow> parcel_inv E q \<and> contents q = poke (mDataPos p) bs (contents p) \<and>
     mDataPos q = mDataPos p + length bs \<and> mDataSize q = max (mDataSize p) (mDataPos p + length bs) \<and>
     same_flags p q"

lemma writable_mono: "writable E n p \<Longrightarrow> m \<le> n \<Longrightarrow> writable E m p"
  by (auto simp: writable_def elim!: order_trans [rotated])

lemma writable_fresh: "(n * 3) div 2 \<le> INT32_MAX \<Longrightarrow> writable linux_env n Parcel"
  by (simp add: writable_def Parcel_def parcel_inv_def buf_ok_def objects_within_def)

lemma no_objects_fresh: "objects_within E n (mObjects Parcel)"
  by (simp add: objects_within_def Parcel_def)

lemma wrote_refl: "parcel_inv E p \<Longrightarrow> mDataPos p \<le> mDataSize p \<Longrightarrow> wrote E p [] p"
  by (simp add: wrote_def same_flags_def max_def)

lemma wrote_trans:
  assumes "wrote E p as q" and "wrote E q bs r" and "mDataPos p \<le> mDataSize p" and "parcel_inv E p"
  shows "wrote E p (as @ bs) r"
  using assms length_contents [of E p]
  by (auto simp: wrote_def same_flags_def poke_poke_adjacent max_def)

lemma wrote_writable:
  assumes "wrote E p bs q" and "writable E (length bs + n) p"
  shows "writable E n q"
proof -
  have "mDataSize q + n \<le> mDataSize p + (length bs + n)"
    using assms by (simp add: wrote_def writable_def)
  then have "(mDataSize q + n) * 3 div 2 \<le> (mDataSize p + (length bs + n)) * 3 div 2"
    by (simp add: div_le_mono)
  with assms show ?thesis
    by (auto simp: wrote_def writable_def same_flags_def elim: order_trans)
qed

lemma wrote_same_frame: "same_frame p p' \<Longrightarrow> wrote E p' bs q \<Longrightarrow> wrote E p bs q"
  by (auto simp: same_frame_def wrote_def same_flags_def)

lemma parcel_inv_poke:
  "parcel_inv E q \<Longrightarrow> mData q = Some b \<Longrightarrow> pos + length bs \<le> length b \<Longrightarrow>
   parcel_inv E (q\<lparr>mData := Some (poke pos bs b)\<rparr>)"
  by (simp add: parcel_inv_def buf_ok_def)

lemma wrote_patch:
  assumes w: "wrote E p bs q" and p: "parcel_inv E p" "mDataPos p \<le> mDataSize p"
    and i: "i + length cs \<le> length bs"
  shows "\<exists>r. memcpy_in (mDataPos p + i) cs q = Inr r \<and> wrote E p (poke i cs bs) r"
proof (cases "mData q")
  case None
  then have "bs = []"
    using w length_contents [OF p(1)] by (auto simp: wrote_def contents_def poke_def)
  with None w i show ?thesis by (auto simp: memcpy_in_def)
next
  case (Some b)
  have size: "mDataPos p + (i + length cs) \<le> mDataSize q" "mDataSize q \<le> length b"
    using w i Some by (auto simp: wrote_def parcel_inv_def buf_ok_def)
  have c: "take (mDataSize q) b = poke (mDataPos p) bs (contents p)"
  proof -
    have "contents q = poke (mDataPos p) bs (contents p)" using w by (simp add: wrote_def)
    with Some show ?thesis by (simp add: contents_def [of q])
  qed
  have "take (mDataSize q) (poke (mDataPos p + i) cs b) = poke (mDataPos p + i) cs (take (mDataSize q) b)"
    using size by (intro take_poke_inside) auto
  also have "\<dots> = poke (mDataPos p) (poke i cs bs) (contents p)"
    unfolding c using i p(2) length_contents [OF p(1)] by (intro poke_inside_poke) auto
  finally have "take (mDataSize q) (poke (mDataPos p + i) cs b) = poke (mDataPos p) (poke i cs bs) (contents p)" .
  then have "wrote E p (poke i cs bs) (q\<lparr>mData := Some (poke (mDataPos p + i) cs b)\<rparr>)"
    using w i size parcel_inv_poke [of E q b "mDataPos p + i" cs] Some
    by (simp add: wrote_def same_flags_def contents_def [of "mData_update _ _"])
  with size Some show ?thesis by (simp add: memcpy_in_def add.assoc)
qed

subsection \<open>The primitives\<close>

lemma finishWrite_eq:
  "mDataPos p + len \<le> INT32_MAX \<Longrightarrow> finishWrite len p =
     Inr (NO_ERROR, p\<lparr>mDataPos := mDataPos p + len, mDataSize := max (mDataSize p) (mDataPos p + len)\<rparr>)"
  by (cases p) (simp add: finishWrite_def Let_def max_def)

lemma restart_write_ok:
  assumes inv: "parcel_inv E p" and pos: "mDataPos p \<le> mDataSize p"
    and room: "mDataPos p + length bs \<le> mDataCapacity p"
  shows "\<exists>q. restart_write bs p = Inr (NO_ERROR, q) \<and> wrote E p bs q"
proof (cases "mData p")
  case None
  with inv room pos show ?thesis
    by (auto simp: restart_write_def memcpy_in_def finishWrite_eq wrote_def same_flags_def
        parcel_inv_def buf_ok_def contents_def)
next
  case (Some b)
  let ?n = "max (mDataSize p) (mDataPos p + length bs)"
  have len: "length b = mDataCapacity p" "mDataCapacity p \<le> INT32_MAX" "mDataSize p \<le> length b"
    using inv Some by (auto simp: parcel_inv_def buf_ok_def)
  have "take ?n (poke (mDataPos p) bs b) = poke (mDataPos p) bs (take (mDataSize p) b)"
  proof (cases "mDataSize p \<le> mDataPos p + length bs")
    case True
    with pos len room show ?thesis
      by (simp add: max_def take_poke) (simp add: poke_def min_def)
  next
    case False
    with pos len show ?thesis by (simp add: max_def take_poke_inside)
  qed
  with Some inv pos room len show ?thesis
    by (auto simp: restart_write_def memcpy_in_def finishWrite_eq wrote_def same_flags_def
        parcel_inv_def buf_ok_def contents_def)
qed

lemma continueWrite_ok:
  assumes inv: "parcel_inv E p" and noom: "\<forall>k. \<not> oom E k"
    and d: "mDataSize p \<le> desired" "0 < desired" "desired \<le> INT32_MAX"
  shows "\<exists>q. continueWrite E desired p = Inr (NO_ERROR, q)"
proof -
  obtain es where "acquireObjects E (length (mObjects p)) p = Inr (p\<lparr>effects := effects p @ es\<rparr>)"
    using acquireObjects_inv [OF inv] by blast
  with noom d show ?thesis
    by (auto simp: continueWrite_def objectsToKeep_all takePossession_def malloc_def Let_def
        dropObjects_def resizeOwned_def reallocZeroFree_def realloc_def firstData_def
        split: option.splits)
qed

lemma three_halves: "n \<le> (n * 3) div 2" for n :: nat
  by presburger

lemma three_halves_less: "0 < n \<Longrightarrow> m < ((m + n) * 3) div 2" for n :: nat
  by presburger

lemma growData_ok:
  assumes "writable E n p" and "0 < n"
  shows "\<exists>q. growData E n p = Inr (NO_ERROR, q) \<and> parcel_inv E q \<and> same_frame p q \<and>
    mDataSize p + n \<le> mDataCapacity q"
proof -
  let ?n = "((mDataSize p + n) * 3) div 2"
  have le: "?n \<le> INT32_MAX" "mDataSize p < ?n"
    using assms three_halves_less [of n "mDataSize p"] by (auto simp: writable_def)
  have small: "mDataSize p + n \<le> INT32_MAX" using le(1) three_halves order_trans by blast
  have "mDataSize p \<le> max ?n 128" "0 < max ?n 128" "max ?n 128 \<le> INT32_MAX"
    using le by auto
  then obtain q where "continueWrite E (max ?n 128) p = Inr (NO_ERROR, q)"
    using continueWrite_ok [of E p "max ?n 128"] assms(1) by (auto simp: writable_def)
  then have "growData E n p = Inr (NO_ERROR, q)"
    using small le(2) by (simp add: growData_def Let_def)
  with growData_grow [of E p n q] assms(1) show ?thesis by (auto simp: writable_def)
qed

lemma writable_small:
  assumes "writable E n p"
  shows "mDataPos p + n \<le> INT32_MAX"
proof -
  have "mDataPos p + n \<le> mDataSize p + n" using assms by (simp add: writable_def)
  also note three_halves
  also have "(mDataSize p + n) * 3 div 2 \<le> INT32_MAX" using assms by (simp add: writable_def)
  finally show ?thesis .
qed

lemma restart_grown_ok:
  assumes "writable E (length bs) p" and "0 < length bs"
  shows "\<exists>q. bind_run (growData E (length bs) p) (\<lambda>(err, p).
      if err = NO_ERROR then restart_write bs p else Inr (err, p)) = Inr (NO_ERROR, q) \<and> wrote E p bs q"
proof -
  obtain p' where g: "growData E (length bs) p = Inr (NO_ERROR, p')" "parcel_inv E p'"
    "same_frame p p'" "mDataSize p + length bs \<le> mDataCapacity p'"
    using growData_ok [OF assms] by blast
  have "mDataPos p' \<le> mDataSize p'" "mDataPos p' + length bs \<le> mDataCapacity p'"
    using g assms(1) by (auto simp: same_frame_def writable_def)
  from restart_write_ok [OF g(2) this] g(1,3) show ?thesis
    by (auto intro: wrote_same_frame)
qed

lemma writeAligned_ok:
  assumes "writable E (length bs) p"
  shows "\<exists>q. writeAligned E bs p = Inr (NO_ERROR, q) \<and> wrote E p bs q"
proof (cases "mDataPos p + length bs \<le> mDataCapacity p")
  case True
  with assms writable_small [OF assms] restart_write_ok [of E p bs] show ?thesis
    by (simp add: writeAligned_def writable_def)
next
  case False
  then have "0 < length bs" using assms by (auto simp: writable_def parcel_inv_def)
  with False writable_small [OF assms] restart_grown_ok [OF assms] show ?thesis
    by (simp add: writeAligned_def)
qed

lemma writeUnpadded_ok:
  assumes "writable E (length bs) p"
  shows "\<exists>q. writeUnpadded E bs p = Inr (NO_ERROR, q) \<and> wrote E p bs q"
proof (cases "mDataPos p + length bs \<le> mDataCapacity p")
  case True
  with assms writable_small [OF assms] restart_write_ok [of E p bs] show ?thesis
    by (simp add: writeUnpadded_def writable_def Let_def)
next
  case False
  then have "0 < length bs" using assms by (auto simp: writable_def parcel_inv_def)
  with False writable_small [OF assms] restart_grown_ok [OF assms] show ?thesis
    by (simp add: writeUnpadded_def Let_def)
qed

lemma padded_len_ge [simp]: "n \<le> padded_len n"
  unfolding padded_len_def by presburger

lemma padded_len_less: "padded_len n < n + 4"
  unfolding padded_len_def by presburger

lemma padded_len_pos: "0 < n \<Longrightarrow> 0 < padded_len n"
  by (rule less_le_trans [OF _ padded_len_ge])

lemma padded_len_0 [simp]: "padded_len 0 = 0"
  by (simp add: padded_len_def)

lemma padded_len_mult4: "n mod 4 = 0 \<Longrightarrow> padded_len n = n"
  unfolding padded_len_def by presburger

lemma pad_size_ok [simp]: "n \<le> INT32_MAX \<Longrightarrow> pad_size n = Inr (padded_len n)"
  by (simp add: pad_size_def)

definition pad_bytes :: "byte list \<Rightarrow> byte list" where
  "pad_bytes bs = bs @ replicate (padded_len (length bs) - length bs) 0"

lemma length_pad_bytes [simp]: "length (pad_bytes bs) = padded_len (length bs)"
  by (simp add: pad_bytes_def)

lemma poke_peek_same: "pos + n \<le> length b \<Longrightarrow> poke pos (peek pos n b) b = b"
  by (simp add: poke_def peek_def min_def)
    (metis append_take_drop_id drop_drop add.commute)

lemma poke_keep_prefix:
  assumes "pos + n + length zs \<le> length b"
  shows "poke (pos + n) zs b = poke pos (peek pos n b @ zs) b"
proof -
  have "poke pos (peek pos n b @ zs) b = poke (pos + length (peek pos n b)) zs (poke pos (peek pos n b) b)"
    using assms by (intro poke_poke_adjacent [symmetric]) simp
  with assms show ?thesis by (simp add: poke_peek_same)
qed

lemma restart_write_inplace_eq:
  assumes "mData p = Some b" and "length b = mDataCapacity p" and "n \<le> pd"
    and "mDataPos p + pd \<le> mDataCapacity p"
  shows "restart_write_inplace n pd p =
    bind_run (restart_write (peek (mDataPos p) n b @ replicate (pd - n) 0) p)
      (\<lambda>(_, q). Inr (Some (mDataPos p), q))"
proof (cases "pd = n")
  case True
  have same: "p\<lparr>mData := Some b\<rparr> = p" using assms(1) by (cases p) simp
  with True assms have "memcpy_in (mDataPos p) (peek (mDataPos p) n b) p = Inr p"
    by (simp add: memcpy_in_def poke_peek_same)
  with True assms show ?thesis
    by (simp add: restart_write_inplace_def restart_write_def)
next
  case False
  with assms poke_keep_prefix [of "mDataPos p" n "replicate (pd - n) 0" b] show ?thesis
    by (simp add: restart_write_inplace_def restart_write_def memcpy_in_def)
qed

lemma restart_write_inplace_ok:
  assumes inv: "parcel_inv E p" and "mDataPos p \<le> mDataSize p" and "mData p \<noteq> None"
    and room: "mDataPos p + padded_len n \<le> mDataCapacity p"
  shows "\<exists>js q. restart_write_inplace n (padded_len n) p = Inr (Some (mDataPos p), q) \<and> length js = n \<and>
    wrote E p (js @ replicate (padded_len n - n) 0) q"
proof -
  obtain b where b: "mData p = Some b" "length b = mDataCapacity p"
    using inv assms(3) by (auto simp: parcel_inv_def buf_ok_def)
  let ?js = "peek (mDataPos p) n b"
  have le: "n \<le> length b - mDataPos p" using room b padded_len_ge [of n] by linarith
  then have "length ?js = n" by simp
  moreover from this obtain q where
    "restart_write (?js @ replicate (padded_len n - n) 0) p = Inr (NO_ERROR, q)"
    "wrote E p (?js @ replicate (padded_len n - n) 0) q"
    using restart_write_ok [OF inv assms(2), of "?js @ replicate (padded_len n - n) 0"] room
    by auto
  ultimately show ?thesis
    using restart_write_inplace_eq [OF b padded_len_ge room] by (intro exI [of _ ?js]) auto
qed

lemma same_frame_data:
  "parcel_inv E q \<Longrightarrow> 0 < mDataCapacity q \<Longrightarrow> mData q \<noteq> None"
  by (cases "mData q") (simp_all add: parcel_inv_def buf_ok_def)

lemma writeInplace_ok:
  assumes w: "writable E (padded_len n) p" and nonnull: "mData p \<noteq> None \<or> 0 < n"
  shows "\<exists>js q. writeInplace E n p = Inr (Some (mDataPos p), q) \<and> length js = n \<and>
    wrote E p (js @ replicate (padded_len n - n) 0) q"
proof -
  have small: "mDataPos p + padded_len n \<le> INT32_MAX" using writable_small [OF w] .
  then have n: "n \<le> INT32_MAX" using padded_len_ge [of n] by linarith
  show ?thesis
  proof (cases "mDataPos p + padded_len n \<le> mDataCapacity p")
    case True
    then have "mData p \<noteq> None"
      using nonnull w padded_len_pos [of n] same_frame_data [of E p] by (auto simp: writable_def)
    with True small n w restart_write_inplace_ok [of E p n] show ?thesis
      by (simp add: writeInplace_def writable_def)
  next
    case False
    then have "0 < padded_len n" using w by (cases n) (auto simp: writable_def parcel_inv_def padded_len_pos)
    from growData_ok [OF w this] obtain p' where g: "growData E (padded_len n) p = Inr (NO_ERROR, p')"
      "parcel_inv E p'" "same_frame p p'" "mDataSize p + padded_len n \<le> mDataCapacity p'" by blast
    have pos: "mDataPos p' = mDataPos p" "mDataPos p' \<le> mDataSize p'"
      "mDataPos p' + padded_len n \<le> mDataCapacity p'"
      using g w by (auto simp: same_frame_def writable_def)
    have "mData p' \<noteq> None"
      using same_frame_data [OF g(2)] g(4) \<open>0 < padded_len n\<close> by linarith
    from restart_write_inplace_ok [OF g(2) pos(2) this pos(3)] g(1,3) False small n pos(1)
    show ?thesis
      by (auto simp: writeInplace_def intro: wrote_same_frame)
  qed
qed

lemma writeInplace_null:
  assumes "writable E 0 p" and "mData p = None"
  shows "writeInplace E 0 p = Inr (None, p)"
proof -
  have "mDataCapacity p = 0" "mDataPos p = 0" "mDataSize p = 0"
    using assms by (auto simp: writable_def parcel_inv_def buf_ok_def)
  with assms show ?thesis
    by (cases p) (simp add: writeInplace_def restart_write_inplace_def finishWrite_def)
qed

lemma parcel_write_ok:
  assumes w: "writable E (padded_len (length bs)) p"
  shows "\<exists>q. parcel_write E (Some bs) (length bs) p = Inr (NO_ERROR, q) \<and> wrote E p (pad_bytes bs) q"
proof (cases "mData p = None \<and> bs = []")
  case True
  with w writeInplace_null [of E p] show ?thesis
    by (auto simp: parcel_write_def writable_def pad_bytes_def intro: wrote_refl)
next
  case False
  let ?z = "replicate (padded_len (length bs) - length bs) 0"
  have "length bs \<le> INT32_MAX"
    using writable_small [OF w] padded_len_ge [of "length bs"] by linarith
  moreover obtain js q where q: "writeInplace E (length bs) p = Inr (Some (mDataPos p), q)"
    "length js = length bs" "wrote E p (js @ ?z) q"
    using writeInplace_ok [OF w] False by auto
  moreover obtain r where "memcpy_in (mDataPos p + 0) bs q = Inr r" "wrote E p (poke 0 bs (js @ ?z)) r"
    using wrote_patch [OF q(3), of 0 bs] w q(2) by (auto simp: writable_def)
  moreover have "poke 0 bs (js @ ?z) = pad_bytes bs" using q(2) by (simp add: poke_def pad_bytes_def)
  ultimately show ?thesis by (simp add: parcel_write_def)
qed

subsection \<open>The encodings\<close>

definition enc_bool :: "bool \<Rightarrow> byte list" where
  "enc_bool b = enc32 (if b then 1 else 0)"

definition enc_char :: "u16 \<Rightarrow> byte list" where
  "enc_char c = enc32 (ucast c)"

definition enc_byte :: "byte \<Rightarrow> byte list" where
  "enc_byte c = enc32 (scast c)"

definition enc_string8 :: "byte list option \<Rightarrow> byte list" where
  "enc_string8 str = (case str of None \<Rightarrow> enc32 (- 1)
     | Some s \<Rightarrow> enc32 (of_nat (length s)) @ pad_bytes (s @ [0]))"

definition enc_string16 :: "u16 list option \<Rightarrow> byte list" where
  "enc_string16 str = (case str of None \<Rightarrow> enc32 (- 1)
     | Some s \<Rightarrow> enc32 (of_nat (length s)) @ pad_bytes (enc_chars s @ [0, 0]))"

definition enc_int32s :: "u32 list option \<Rightarrow> byte list" where
  "enc_int32s val = (case val of None \<Rightarrow> enc32 (- 1)
     | Some xs \<Rightarrow> enc32 (of_nat (length xs)) @ concat (map enc32 xs))"

definition enc_bytes :: "byte list option \<Rightarrow> byte list" where
  "enc_bytes val = (case val of None \<Rightarrow> enc32 (- 1)
     | Some xs \<Rightarrow> enc32 (of_nat (length xs)) @ pad_bytes xs)"

lemma length_enc_chars [simp]: "length (enc_chars s) = 2 * length s"
  by (induction s) (simp_all add: enc_chars_def)

lemma length_concat_enc32 [simp]: "length (concat (map enc32 xs)) = 4 * length xs"
  by (induction xs) simp_all

lemma writeInt32_ok:
  "writable E 4 p \<Longrightarrow> \<exists>q. writeInt32 E v p = Inr (NO_ERROR, q) \<and> wrote E p (enc32 v) q"
  using writeAligned_ok [of E "enc32 v" p] by (simp add: writeInt32_def)

lemma writeInt64_ok:
  "writable E 8 p \<Longrightarrow> \<exists>q. writeInt64 E v p = Inr (NO_ERROR, q) \<and> wrote E p (enc64 v) q"
  using writeAligned_ok [of E "enc64 v" p] by (simp add: writeInt64_def)

text \<open>A header word, then a body written at the new position.\<close>

lemma wrote_header:
  assumes w: "writable E (4 + n) p"
    and body: "\<And>q. writable E n q \<Longrightarrow> mData q \<noteq> None \<Longrightarrow> \<exists>r. f q = Inr (st, r) \<and> wrote E q bs r"
  shows "\<exists>q r. writeInt32 E v p = Inr (NO_ERROR, q) \<and> f q = Inr (st, r) \<and> wrote E p (enc32 v @ bs) r"
proof -
  obtain q where q: "writeInt32 E v p = Inr (NO_ERROR, q)" "wrote E p (enc32 v) q"
    using writeInt32_ok [OF writable_mono [OF w]] by auto
  have "writable E n q" using wrote_writable [of E p "enc32 v" q n] q(2) w by simp
  moreover have "mData q \<noteq> None"
    using same_frame_data [of E q] q(2) by (auto simp: wrote_def parcel_inv_def)
  ultimately obtain r where "f q = Inr (st, r)" "wrote E q bs r" using body by blast
  with q w show ?thesis by (auto simp: writable_def intro: wrote_trans)
qed

lemma writeInplace_fill:
  assumes w: "writable E (padded_len (length xs + length ys)) p" and d: "mData p \<noteq> None"
  shows "\<exists>q r s. writeInplace E (length xs + length ys) p = Inr (Some (mDataPos p), q) \<and>
    memcpy_in (mDataPos p) xs q = Inr r \<and> memcpy_in (mDataPos p + length xs) ys r = Inr s \<and>
    wrote E p (pad_bytes (xs @ ys)) s"
proof -
  let ?n = "length xs + length ys"
  let ?z = "replicate (padded_len ?n - ?n) 0"
  have inv: "parcel_inv E p" "mDataPos p \<le> mDataSize p" using w by (auto simp: writable_def)
  obtain js q where q: "writeInplace E ?n p = Inr (Some (mDataPos p), q)"
    "length js = ?n" "wrote E p (js @ ?z) q"
    using writeInplace_ok [OF w] d by auto
  obtain r where r: "memcpy_in (mDataPos p) xs q = Inr r" "wrote E p (poke 0 xs (js @ ?z)) r"
    using wrote_patch [OF q(3) inv, of 0 xs] q(2) order_trans [OF le_add1 padded_len_ge] by auto
  obtain s where s: "memcpy_in (mDataPos p + length xs) ys r = Inr s"
    "wrote E p (poke (length xs) ys (poke 0 xs (js @ ?z))) s"
    using wrote_patch [OF r(2) inv, of "length xs" ys] q(2)
    by (auto simp: length_poke_max max.coboundedI1)
  have "poke (length xs) ys (poke 0 xs (js @ ?z)) = pad_bytes (xs @ ys)"
    using q(2) by (simp add: poke_def pad_bytes_def)
  with q(1) r(1) s show ?thesis by auto
qed

lemma writeString8_ok:
  assumes "writable E (length (enc_string8 str)) p"
  shows "\<exists>q. writeString8 E str p = Inr (NO_ERROR, q) \<and> wrote E p (enc_string8 str) q"
proof (cases str)
  case None
  with assms writeInt32_ok [of E p "- 1"] show ?thesis
    by (simp add: writeString8_def enc_string8_def)
next
  case (Some s)
  let ?f = "\<lambda>p. bind_run (writeInplace E (size_add (length s) 1) p) (\<lambda>(dat, p).
      case dat of Some d \<Rightarrow> bind_run (memcpy_in d s p) (\<lambda>p.
          bind_run (memcpy_in (d + length s) [0] p) (\<lambda>p. Inr (NO_ERROR, p)))
      | None \<Rightarrow> Inr (mError p, p))"
  have w: "writable E (4 + padded_len (length s + 1)) p"
    using assms Some by (simp add: enc_string8_def)
  have small: "length s \<le> INT32_MAX" using writable_small [OF w] padded_len_ge [of "length s + 1"] by linarith
  have "\<exists>r. ?f q = Inr (NO_ERROR, r) \<and> wrote E q (pad_bytes (s @ [0])) r"
    if "writable E (padded_len (length s + 1)) q" "mData q \<noteq> None" for q
    using writeInplace_fill [of E s "[0]" q] that small by auto
  from wrote_header [OF w this, of "of_nat (length s)"] Some show ?thesis
    by (auto simp: writeString8_def enc_string8_def)
qed

lemma writeString16_ok:
  assumes "writable E (length (enc_string16 str)) p"
  shows "\<exists>q. writeString16 E str p = Inr (NO_ERROR, q) \<and> wrote E p (enc_string16 str) q"
proof (cases str)
  case None
  with assms writeInt32_ok [of E p "- 1"] show ?thesis
    by (simp add: writeString16_def enc_string16_def)
next
  case (Some s)
  let ?f = "\<lambda>p. let len = size_mul (length s) 2 in
      bind_run (writeInplace E (size_add len 2) p) (\<lambda>(dat, p).
      case dat of Some d \<Rightarrow> bind_run (memcpy_in d (take len (enc_chars s)) p) (\<lambda>p.
          bind_run (memcpy_in (d + len) [0, 0] p) (\<lambda>p. Inr (NO_ERROR, p)))
      | None \<Rightarrow> Inr (mError p, p))"
  have w: "writable E (4 + padded_len (2 * length s + 2)) p"
    using assms Some by (simp add: enc_string16_def)
  have small: "length s \<le> INT32_MAX" using writable_small [OF w] padded_len_ge [of "2 * length s + 2"] by linarith
  have "\<exists>r. ?f q = Inr (NO_ERROR, r) \<and> wrote E q (pad_bytes (enc_chars s @ [0, 0])) r"
    if "writable E (padded_len (2 * length s + 2)) q" "mData q \<noteq> None" for q
    using writeInplace_fill [of E "enc_chars s" "[0, 0]" q] that small
    by (auto simp: mult.commute)
  from wrote_header [OF w this, of "of_nat (length s)"] Some show ?thesis
    by (auto simp: writeString16_def enc_string16_def)
qed

lemma writeInt32Array_ok:
  assumes "writable E (length (enc_int32s (Some xs))) p"
  shows "\<exists>q. writeInt32Array E (Some xs) (length xs) p = Inr (NO_ERROR, q) \<and>
    wrote E p (enc_int32s (Some xs)) q"
proof -
  have w: "writable E (4 + length xs * 4) p" using assms by (simp add: enc_int32s_def mult.commute)
  have small: "length xs \<le> INT32_MAX" using writable_small [OF w] by linarith
  have "\<exists>r. parcel_write E (Some (concat (map enc32 xs))) (length xs * 4) q = Inr (NO_ERROR, r) \<and>
      wrote E q (concat (map enc32 xs)) r" if "writable E (length xs * 4) q" for q
    using parcel_write_ok [of E "concat (map enc32 xs)" q] that
    by (simp add: padded_len_mult4 pad_bytes_def mult.commute)
  from wrote_header [OF w this, of "of_nat (length xs)"] small show ?thesis
    by (auto simp: writeInt32Array_def enc_int32s_def)
qed

lemma writeByteArray_ok:
  assumes "writable E (length (enc_bytes (Some xs))) p"
  shows "\<exists>q. writeByteArray E (Some xs) (length xs) p = Inr (NO_ERROR, q) \<and>
    wrote E p (enc_bytes (Some xs)) q"
proof -
  have w: "writable E (4 + padded_len (length xs)) p" using assms by (simp add: enc_bytes_def)
  have small: "length xs \<le> INT32_MAX"
    using writable_small [OF w] padded_len_ge [of "length xs"] by linarith
  from wrote_header [OF w parcel_write_ok [of E xs], where v = "of_nat (length xs)"] small
  show ?thesis by (auto simp: writeByteArray_def enc_bytes_def)
qed

end
