(* ===== verification/Parcel_Read.thy ===== *)
theory Parcel_Read
  imports Parcel_Write
begin

text \<open>
  Reading from a \<open>Parcel\<close> (\<open>libs/binder/Parcel.cpp\<close>): \<open>validateReadData\<close> with its in-place
  insertion sort, the aligned, padded and in-place primitives, and the scalars, strings and
  sizes built on them. A reader returns \<open>Inl\<close> of the status it fails with or \<open>Inr\<close> of the
  value it stores through its out-parameter.

  The lemmas show that the insertion sort sorts, that \<open>validateReadData\<close> accepts a range exactly when
  the range meets no object, that every read returns bytes of the parcel's own data and moves
  forward, and that a reader gives back what the corresponding writer wrote.
\<close>

type_synonym 'a read_run = "(status_t + 'a) parcel_run"

section \<open>validateReadData\<close>

text \<open>The backward walk of \<open>currObj\<close> and \<open>prevObj\<close>; the argument is the array from its end.\<close>

fun sorted_from_end :: "nat list \<Rightarrow> bool" where
  "sorted_from_end (currObj # prevObj # objs) =
     (if prevObj > currObj then False else sorted_from_end (prevObj # objs))"
| "sorted_from_end objs = True"

text \<open>The inner loop: \<open>j\<close> is \<open>iter1 + 1\<close>.\<close>

fun shift_insert :: "nat \<Rightarrow> nat \<Rightarrow> nat list \<Rightarrow> nat list" where
  "shift_insert 0 temp objs = objs[0 := temp]"
| "shift_insert (Suc j) temp objs =
     (if objs ! j > temp then shift_insert j temp (objs[Suc j := objs ! j])
      else objs[Suc j := temp])"

definition insertion_sort :: "nat list \<Rightarrow> nat list" where
  "insertion_sort objs =
     fold (\<lambda>i objs. shift_insert i (objs ! i) objs) [1..<length objs] objs"

text \<open>The loop below \<open>data_sorted\<close>, over the objects from the hint on: \<open>None\<close> when an object overlaps the
  range from \<open>pos\<close> to \<open>upperBound\<close>, else how many objects were passed.\<close>

fun pass_objects :: "nat \<Rightarrow> nat \<Rightarrow> nat \<Rightarrow> nat list \<Rightarrow> nat option" where
  "pass_objects sz pos upperBound [] = Some 0"
| "pass_objects sz pos upperBound (off # offs) =
     (if upperBound > off then
        (if pos < size_add off sz then None
         else map_option Suc (pass_objects sz pos upperBound offs))
      else Some 0)"

definition data_sorted :: "env \<Rightarrow> nat \<Rightarrow> parcel \<Rightarrow> status_t \<times> parcel" where
  "data_sorted E upperBound p =
     (case pass_objects (obj_size E) (mDataPos p) upperBound (drop (mNextObjectHint p) (mObjects p)) of
        None \<Rightarrow> (PERMISSION_DENIED, p)
      | Some n \<Rightarrow> (NO_ERROR, p\<lparr>mNextObjectHint := mNextObjectHint p + n\<rparr>))"

definition validateReadData :: "env \<Rightarrow> nat \<Rightarrow> parcel \<Rightarrow> status_t \<times> parcel" where
  "validateReadData E upperBound p =
     (if mObjectsSorted p \<or> length (mObjects p) \<le> 1 then data_sorted E upperBound p
      else if sorted_from_end (rev (mObjects p))
      then data_sorted E upperBound (p\<lparr>mObjectsSorted := True\<rparr>)
      else data_sorted E upperBound
        (p\<lparr>mObjects := insertion_sort (mObjects p), mNextObjectHint := 0, mObjectsSorted := True\<rparr>))"

section \<open>Primitives\<close>

definition memcpy_out :: "nat \<Rightarrow> nat \<Rightarrow> parcel \<Rightarrow> crash + byte list" where
  "memcpy_out pos len p =
     (case mData p of
        None \<Rightarrow> (if len = 0 then Inr [] else Inl Fault)
      | Some b \<Rightarrow> (if pos + len \<le> length b then Inr (peek pos len b) else Inl Fault))"

text \<open>The check every non-object read makes once the range is known to be inside the data: the
  position moves past \<open>step\<close> bytes whether or not the range is protected.\<close>

definition check_objects :: "env \<Rightarrow> nat \<Rightarrow> parcel \<Rightarrow> status_t \<times> parcel" where
  "check_objects E step p =
     (if length (mObjects p) > 0 then
        (case validateReadData E (size_add (mDataPos p) step) p of
           (err, p) \<Rightarrow> if err \<noteq> NO_ERROR then (err, p\<lparr>mDataPos := size_add (mDataPos p) step\<rparr>)
                      else (NO_ERROR, p))
      else (NO_ERROR, p))"

definition readAligned :: "env \<Rightarrow> nat \<Rightarrow> parcel \<Rightarrow> byte list read_run" where
  "readAligned E n p =
     (if size_add (mDataPos p) n \<le> mDataSize p then
        (case check_objects E n p of
           (err, p) \<Rightarrow>
             if err \<noteq> NO_ERROR then Inr (Inl err, p)
             else bind_run (memcpy_out (mDataPos p) n p) (\<lambda>bs.
               Inr (Inr bs, p\<lparr>mDataPos := size_add (mDataPos p) n\<rparr>)))
      else Inr (Inl NOT_ENOUGH_DATA, p))"

definition parcel_read :: "env \<Rightarrow> nat \<Rightarrow> parcel \<Rightarrow> byte list read_run" where
  "parcel_read E len p =
     (if len > INT32_MAX then Inr (Inl BAD_VALUE, p)
      else bind_run (pad_size len) (\<lambda>padded.
        if size_add (mDataPos p) padded \<ge> mDataPos p \<and> size_add (mDataPos p) padded \<le> mDataSize p
           \<and> len \<le> padded then
          (case check_objects E padded p of
             (err, p) \<Rightarrow>
               if err \<noteq> NO_ERROR then Inr (Inl err, p)
               else bind_run (memcpy_out (mDataPos p) len p) (\<lambda>bs.
                 Inr (Inr bs, p\<lparr>mDataPos := size_add (mDataPos p) padded\<rparr>)))
        else Inr (Inl NOT_ENOUGH_DATA, p)))"

text \<open>The returned pointer is an offset into the data, \<open>None\<close> the null pointer.\<close>

definition readInplace :: "env \<Rightarrow> nat \<Rightarrow> parcel \<Rightarrow> nat option parcel_run" where
  "readInplace E len p =
     (if len > INT32_MAX then Inr (None, p)
      else bind_run (pad_size len) (\<lambda>padded.
        if size_add (mDataPos p) padded \<ge> mDataPos p \<and> size_add (mDataPos p) padded \<le> mDataSize p
           \<and> len \<le> padded then
          (case check_objects E padded p of
             (err, p) \<Rightarrow>
               if err \<noteq> NO_ERROR then Inr (None, p)
               else Inr (if mData p = None then None else Some (mDataPos p),
                         p\<lparr>mDataPos := size_add (mDataPos p) padded\<rparr>))
        else Inr (None, p)))"

section \<open>Scalars\<close>

definition map_read :: "('a \<Rightarrow> 'b) \<Rightarrow> 'a read_run \<Rightarrow> 'b read_run" where
  "map_read f r = bind_run r (\<lambda>(x, p). Inr (map_sum id f x, p))"

definition readInt32 :: "env \<Rightarrow> parcel \<Rightarrow> u32 read_run" where
  "readInt32 E p = map_read dec32 (readAligned E 4 p)"

text \<open>\<open>int32_t readInt32() const\<close>: 0 on failure.\<close>

definition readInt32_value :: "env \<Rightarrow> parcel \<Rightarrow> u32 parcel_run" where
  "readInt32_value E p = bind_run (readInt32 E p) (\<lambda>(x, p).
     Inr (case x of Inl _ \<Rightarrow> 0 | Inr v \<Rightarrow> v, p))"

definition readUint32 :: "env \<Rightarrow> parcel \<Rightarrow> u32 read_run" where
  "readUint32 E p = map_read dec32 (readAligned E 4 p)"

definition readInt64 :: "env \<Rightarrow> parcel \<Rightarrow> u64 read_run" where
  "readInt64 E p = map_read dec64 (readAligned E 8 p)"

definition readUint64 :: "env \<Rightarrow> parcel \<Rightarrow> u64 read_run" where
  "readUint64 E p = map_read dec64 (readAligned E 8 p)"

definition readPointer :: "env \<Rightarrow> parcel \<Rightarrow> u64 read_run" where
  "readPointer E p = map_read dec64 (readAligned E 8 p)"

definition readFloat :: "env \<Rightarrow> parcel \<Rightarrow> u32 read_run" where
  "readFloat E p = map_read dec32 (readAligned E 4 p)"

definition readDouble :: "env \<Rightarrow> parcel \<Rightarrow> u64 read_run" where
  "readDouble E p = map_read dec64 (readAligned E 8 p)"

definition readBool :: "env \<Rightarrow> parcel \<Rightarrow> bool read_run" where
  "readBool E p = map_read (\<lambda>tmp. tmp \<noteq> 0) (readInt32 E p)"

definition readChar :: "env \<Rightarrow> parcel \<Rightarrow> u16 read_run" where
  "readChar E p = map_read ucast (readInt32 E p)"

definition readByte :: "env \<Rightarrow> parcel \<Rightarrow> byte read_run" where
  "readByte E p = map_read ucast (readInt32 E p)"

section \<open>Strings\<close>

text \<open>The result is the offset and length of the string, \<open>None\<close> for a null pointer; the test
  for the terminator reads the data at the end of the string.\<close>

definition readString8Inplace :: "env \<Rightarrow> parcel \<Rightarrow> (nat \<times> nat) option parcel_run" where
  "readString8Inplace E p =
     bind_run (readInt32_value E p) (\<lambda>(v, p).
     if 0 \<le> sint v \<and> sint v < int INT32_MAX then
       let sz = nat (sint v) in
       bind_run (readInplace E (sz + 1) p) (\<lambda>(str, p).
       case str of
         Some d \<Rightarrow> bind_run (memcpy_out (d + sz) 1 p) (\<lambda>bs.
                    Inr (if bs = [0] then Some (d, sz) else None, p))
       | None \<Rightarrow> Inr (None, p))
     else Inr (None, p))"

definition readString16Inplace :: "env \<Rightarrow> parcel \<Rightarrow> (nat \<times> nat) option parcel_run" where
  "readString16Inplace E p =
     bind_run (readInt32_value E p) (\<lambda>(v, p).
     if 0 \<le> sint v \<and> sint v < int INT32_MAX then
       let sz = nat (sint v) in
       bind_run (readInplace E ((sz + 1) * 2) p) (\<lambda>(str, p).
       case str of
         Some d \<Rightarrow> bind_run (memcpy_out (d + sz * 2) 2 p) (\<lambda>bs.
                    Inr (if bs = [0, 0] then Some (d, sz) else None, p))
       | None \<Rightarrow> Inr (None, p))
     else Inr (None, p))"

fun dec_chars :: "byte list \<Rightarrow> u16 list" where
  "dec_chars (a # b # bs) = dec16 [a, b] # dec_chars bs"
| "dec_chars _ = []"

definition readString8 :: "env \<Rightarrow> parcel \<Rightarrow> byte list read_run" where
  "readString8 E p =
     bind_run (readString8Inplace E p) (\<lambda>(str, p).
     case str of
       Some (d, len) \<Rightarrow> bind_run (memcpy_out d len p) (\<lambda>bs. Inr (Inr bs, p))
     | None \<Rightarrow> Inr (Inl UNEXPECTED_NULL, p))"

definition readString16 :: "env \<Rightarrow> parcel \<Rightarrow> u16 list read_run" where
  "readString16 E p =
     bind_run (readString16Inplace E p) (\<lambda>(str, p).
     case str of
       Some (d, len) \<Rightarrow> bind_run (memcpy_out d (len * 2) p) (\<lambda>bs. Inr (Inr (dec_chars bs), p))
     | None \<Rightarrow> Inr (Inl UNEXPECTED_NULL, p))"

text \<open>\<open>readCString\<close> looks for the terminator in what is left of the data and does not check objects.\<close>

definition readCString :: "env \<Rightarrow> parcel \<Rightarrow> byte list option parcel_run" where
  "readCString E p =
     (if mDataPos p < mDataSize p then
        bind_run (memcpy_out (mDataPos p) (mDataSize p - mDataPos p) p) (\<lambda>str.
        if 0 \<in> set str then
          let s = takeWhile (\<lambda>c. c \<noteq> 0) str in
          bind_run (pad_size (length s + 1)) (\<lambda>padded.
          Inr (Some s, p\<lparr>mDataPos := size_add (mDataPos p) padded\<rparr>))
        else Inr (None, p))
      else Inr (None, p))"

section \<open>Sizes of vectors to allocate\<close>

definition readOutVectorSizeWithCheck :: "env \<Rightarrow> nat \<Rightarrow> parcel \<Rightarrow> u32 read_run" where
  "readOutVectorSizeWithCheck E elmSize p =
     bind_run (readInt32 E p) (\<lambda>(r, p).
     case r of
       Inl status \<Rightarrow> Inr (Inl status, p)
     | Inr sz \<Rightarrow>
         if sint sz < 0 then Inr (Inr sz, p)
         else if elmSize > INT32_MAX then Inl Abort
         else let allocationSize = int elmSize * sint sz in
           if allocationSize > int INT32_MAX then Inr (Inl NO_MEMORY, p)
           else if allocationSize \<ge> 1000000 then Inr (Inl NO_MEMORY, p)
           else Inr (Inr sz, p))"

section \<open>The sort\<close>

lemma sorted_from_end_rev: "sorted_from_end (rev objs) \<longleftrightarrow> sorted objs"
proof -
  have "sorted_from_end xs \<longleftrightarrow> sorted_wrt (\<ge>) xs" for xs
    by (induction xs rule: sorted_from_end.induct) (auto simp: sorted_wrt2)
  then show ?thesis by (simp add: sorted_wrt_rev)
qed

lemma insort_last: "sorted (ys @ [t]) \<Longrightarrow> insort t ys = ys @ [t]" for t :: nat
  using properties_for_sort [of "ys @ [t]" "t # ys"] by (simp add: sorted_append sorted_sort_id)

lemma insort_append_last: "sorted (ys @ [y]) \<Longrightarrow> t < y \<Longrightarrow> insort t (ys @ [y]) = insort t ys @ [y]" for t :: nat
  using properties_for_sort [of "insort t ys @ [y]" "t # ys @ [y]"]
  by (auto simp: sorted_append sorted_insort set_insort_key sorted_sort_id)

lemma shift_insert_eq:
  "j < length objs \<Longrightarrow> sorted (take j objs) \<Longrightarrow>
   shift_insert j temp objs = insort temp (take j objs) @ drop (Suc j) objs"
proof (induction j arbitrary: objs)
  case 0
  then show ?case by (simp add: upd_conv_take_nth_drop)
next
  case (Suc j)
  have last: "take (Suc j) objs = take j objs @ [objs ! j]"
    using Suc.prems by (simp add: take_Suc_conv_app_nth)
  show ?case
  proof (cases "objs ! j > temp")
    case True
    let ?objs = "objs[Suc j := objs ! j]"
    have "shift_insert j temp ?objs = insort temp (take j objs) @ drop (Suc j) ?objs"
      using Suc.IH [of ?objs] Suc.prems last by (simp add: sorted_append)
    moreover have "drop (Suc j) ?objs = objs ! j # drop (Suc (Suc j)) objs"
      using Suc.prems by (simp add: upd_conv_take_nth_drop)
    ultimately show ?thesis
      using True Suc.prems(2) last insort_append_last [of "take j objs" "objs ! j" temp] by simp
  next
    case False
    have "sorted (take (Suc j) objs @ [temp])"
      using Suc.prems(2) False last by (auto simp: sorted_append)
    with False Suc.prems show ?thesis
      by (simp add: insort_last upd_conv_take_nth_drop)
  qed
qed

lemma insertion_sort_prefix:
  "m < length objs \<Longrightarrow>
   fold (\<lambda>i objs. shift_insert i (objs ! i) objs) [1..<Suc m] objs
     = sort (take (Suc m) objs) @ drop (Suc m) objs"
proof (induction m)
  case 0
  then show ?case by (cases objs) auto
next
  case (Suc m)
  let ?xs = "sort (take (Suc m) objs) @ drop (Suc m) objs"
  have "shift_insert (Suc m) (?xs ! Suc m) ?xs
      = insort (objs ! Suc m) (sort (take (Suc m) objs)) @ drop (Suc (Suc m)) objs"
    using Suc.prems shift_insert_eq [of "Suc m" ?xs "?xs ! Suc m"]
    by (simp add: nth_append min_def del: shift_insert.simps)
  moreover have "sort (take (Suc (Suc m)) objs) = insort (objs ! Suc m) (sort (take (Suc m) objs))"
    using Suc.prems properties_for_sort [of "insort (objs ! Suc m) (sort (take (Suc m) objs))"
        "take (Suc (Suc m)) objs"]
    by (simp add: take_Suc_conv_app_nth [of "Suc m"] sorted_insort)
  moreover have "[1..<Suc (Suc m)] = [1..<Suc m] @ [Suc m]" by simp
  ultimately show ?case
    using Suc.IH Suc.prems by (simp del: upt_Suc shift_insert.simps)
qed

lemma insertion_sort_eq: "insertion_sort objs = sort objs"
proof (cases objs rule: rev_cases)
  case Nil
  then show ?thesis by (simp add: insertion_sort_def)
next
  case (snoc ys y)
  then show ?thesis
    using insertion_sort_prefix [of "length ys" objs] by (simp add: insertion_sort_def)
qed

section \<open>What a read may see\<close>

text \<open>The objects the hint has passed end before the position. A position is set below \<open>INT32_MAX\<close> or
  reached by a read, which leaves it at most three bytes past the data.\<close>

definition read_inv :: "env \<Rightarrow> parcel \<Rightarrow> bool" where
  "read_inv E p \<longleftrightarrow> mDataPos p \<le> 4294967295 \<and> (mObjectsSorted p \<longrightarrow> sorted (mObjects p)) \<and>
     (sorted (mObjects p) \<longrightarrow>
        list_all (\<lambda>off. off + obj_size E \<le> mDataPos p) (take (mNextObjectHint p) (mObjects p)))"

definition clear_of_objects :: "env \<Rightarrow> nat \<Rightarrow> nat \<Rightarrow> parcel \<Rightarrow> bool" where
  "clear_of_objects E lo hi p \<longleftrightarrow> list_all (\<lambda>off. off + obj_size E \<le> lo \<or> hi \<le> off) (mObjects p)"

text \<open>All a read changes: the position, the hint, the order of the object index.\<close>

definition read_frame :: "parcel \<Rightarrow> parcel \<Rightarrow> bool" where
  "read_frame p q \<longleftrightarrow> mset (mObjects q) = mset (mObjects p) \<and>
     q = p\<lparr>mObjects := mObjects q, mNextObjectHint := mNextObjectHint q,
           mObjectsSorted := mObjectsSorted q, mDataPos := mDataPos q\<rparr>"

lemma read_frame_refl [simp]: "read_frame p p"
  by (cases p) (simp add: read_frame_def)

lemma read_frame_trans: "read_frame p q \<Longrightarrow> read_frame q r \<Longrightarrow> read_frame p r"
  unfolding read_frame_def by (cases p; cases q; cases r) simp

lemma read_frame_set_sorted: "read_frame p (p\<lparr>mObjectsSorted := b\<rparr>)"
  by (cases p) (simp add: read_frame_def)

lemma read_frameD:
  assumes "read_frame p q"
  shows "contents q = contents p" "mData q = mData p" "mDataSize q = mDataSize p"
    "mDataCapacity q = mDataCapacity p" "set (mObjects q) = set (mObjects p)"
    "length (mObjects q) = length (mObjects p)" "mError q = mError p" "mSession q = mSession p"
    "effects q = effects p" "mOwner q = mOwner p" "mObjectsCapacity q = mObjectsCapacity p"
proof -
  obtain os h s d where q: "q = p\<lparr>mObjects := os, mNextObjectHint := h, mObjectsSorted := s, mDataPos := d\<rparr>"
    and "mset os = mset (mObjects p)" using assms unfolding read_frame_def by blast
  moreover from this have "set os = set (mObjects p)" "length os = length (mObjects p)"
    by (metis set_mset_mset, metis size_mset)
  ultimately show "contents q = contents p" "mData q = mData p" "mDataSize q = mDataSize p"
    "mDataCapacity q = mDataCapacity p" "set (mObjects q) = set (mObjects p)"
    "length (mObjects q) = length (mObjects p)" "mError q = mError p" "mSession q = mSession p"
    "effects q = effects p" "mOwner q = mOwner p" "mObjectsCapacity q = mObjectsCapacity p"
    by (simp_all add: contents_def split: option.split)
qed

lemma read_frame_Nil: "read_frame p q \<Longrightarrow> mObjects p = [] \<Longrightarrow> mObjects q = []"
  using read_frameD(6) by fastforce

lemma read_frame_inv: "read_frame p q \<Longrightarrow> parcel_inv E p \<Longrightarrow> parcel_inv E q"
  by (auto intro: read_frame_Nil
      simp: parcel_inv_def buf_ok_def objects_within_def list_all_iff read_frameD split: option.splits)

lemma pass_objects_eq:
  assumes "sorted offs" and "\<And>off. off \<in> set offs \<Longrightarrow> off + sz \<le> SIZE_MAX"
  shows "pass_objects sz pos hi offs =
    (if list_all (\<lambda>off. off + sz \<le> pos \<or> hi \<le> off) offs
     then Some (length (takeWhile (\<lambda>off. off < hi) offs)) else None)"
  using assms
proof (induction offs)
  case Nil
  then show ?case by simp
next
  case (Cons off offs)
  show ?case
  proof (cases "off < hi")
    case True
    with Cons show ?thesis by auto
  next
    case False
    with Cons.prems(1) have "list_all (\<lambda>o'. o' + sz \<le> pos \<or> hi \<le> o') (off # offs)"
      by (auto simp: list_all_iff)
    with False show ?thesis by auto
  qed
qed

lemma parcel_inv_offset:
  "parcel_inv E p \<Longrightarrow> off \<in> set (mObjects p) \<Longrightarrow> off + obj_size E \<le> SIZE_MAX"
  by (auto simp: parcel_inv_def objects_within_def list_all_iff)

lemma data_sorted_correct:
  assumes inv: "parcel_inv E p" and srt: "sorted (mObjects p)" and hint: "read_inv E p"
    and run: "data_sorted E hi p = (st, q)"
  shows "(st = NO_ERROR \<longleftrightarrow> clear_of_objects E (mDataPos p) hi p) \<and> read_frame p q \<and>
    mDataPos q = mDataPos p \<and> mObjects q = mObjects p \<and> read_inv E q \<and> st \<in> {NO_ERROR, PERMISSION_DENIED}"
proof -
  let ?todo = "drop (mNextObjectHint p) (mObjects p)"
  let ?n = "length (takeWhile (\<lambda>off. off < hi) ?todo)"
  have todo: "sorted ?todo" "\<And>off. off \<in> set ?todo \<Longrightarrow> off + obj_size E \<le> SIZE_MAX"
    using srt inv by (auto simp: sorted_wrt_drop dest: parcel_inv_offset in_set_dropD)
  have before: "list_all (\<lambda>off. off + obj_size E \<le> mDataPos p) (take (mNextObjectHint p) (mObjects p))"
    using hint srt by (simp add: read_inv_def)
  have clear: "clear_of_objects E (mDataPos p) hi p \<longleftrightarrow>
      list_all (\<lambda>off. off + obj_size E \<le> mDataPos p \<or> hi \<le> off) ?todo"
    using before unfolding clear_of_objects_def list_all_iff
    by (metis append_take_drop_id in_set_conv_decomp Un_iff set_append)
  have pass: "list_all (\<lambda>off. off + obj_size E \<le> mDataPos p)
      (take (mNextObjectHint p + ?n) (mObjects p))"
    if "list_all (\<lambda>off. off + obj_size E \<le> mDataPos p \<or> hi \<le> off) ?todo"
    using before that
    by (fastforce simp: take_add takeWhile_eq_take [symmetric] list_all_iff dest: set_takeWhileD)
  show ?thesis
  proof (cases "list_all (\<lambda>off. off + obj_size E \<le> mDataPos p \<or> hi \<le> off) ?todo")
    case True
    with run have "st = NO_ERROR" "q = p\<lparr>mNextObjectHint := mNextObjectHint p + ?n\<rparr>"
      by (auto simp: data_sorted_def pass_objects_eq [OF todo])
    with True clear pass hint show ?thesis
      by (cases p) (simp add: read_inv_def read_frame_def)
  next
    case False
    with run have "st = PERMISSION_DENIED" "q = p"
      by (auto simp: data_sorted_def pass_objects_eq [OF todo])
    with False clear hint show ?thesis by simp
  qed
qed

lemma validateReadData_correct:
  assumes inv: "parcel_inv E p" and hint: "read_inv E p"
    and run: "validateReadData E hi p = (st, q)"
  shows "(st = NO_ERROR \<longleftrightarrow> clear_of_objects E (mDataPos p) hi p) \<and> read_frame p q \<and>
    mDataPos q = mDataPos p \<and> read_inv E q \<and> st \<in> {NO_ERROR, PERMISSION_DENIED}"
proof (cases "sorted (mObjects p)")
  case True
  let ?p = "if mObjectsSorted p \<or> length (mObjects p) \<le> 1 then p else p\<lparr>mObjectsSorted := True\<rparr>"
  have "data_sorted E hi ?p = (st, q)"
    using run True by (auto simp: validateReadData_def sorted_from_end_rev)
  moreover have "parcel_inv E ?p" "read_inv E ?p" "sorted (mObjects ?p)" "read_frame p ?p"
    "clear_of_objects E (mDataPos ?p) hi ?p = clear_of_objects E (mDataPos p) hi p" "mDataPos ?p = mDataPos p"
    using inv hint True
    by (simp_all add: read_frame_inv [OF read_frame_set_sorted] read_inv_def clear_of_objects_def
        read_frame_set_sorted)
  ultimately show ?thesis
    using data_sorted_correct [of E ?p hi st q] read_frame_trans [of p ?p q] by auto
next
  case False
  let ?p = "p\<lparr>mObjects := sort (mObjects p), mNextObjectHint := 0, mObjectsSorted := True\<rparr>"
  have short: "\<not> (mObjectsSorted p \<or> length (mObjects p) \<le> 1)"
  proof -
    have "\<not> length (mObjects p) \<le> 1" using False by (cases "mObjects p") auto
    with False hint show ?thesis by (auto simp: read_inv_def)
  qed
  with run False have run': "data_sorted E hi ?p = (st, q)"
    by (simp add: validateReadData_def sorted_from_end_rev insertion_sort_eq)
  have fr: "read_frame p ?p" by (cases p) (simp add: read_frame_def)
  have "read_inv E ?p" using hint by (simp add: read_inv_def)
  from data_sorted_correct [OF read_frame_inv [OF fr inv] _ this run'] fr read_frame_trans [OF fr]
  show ?thesis by (auto simp: clear_of_objects_def list_all_iff)
qed

section \<open>What a reader does\<close>

definition advanced :: "env \<Rightarrow> parcel \<Rightarrow> nat \<Rightarrow> parcel \<Rightarrow> bool" where
  "advanced E p n q \<longleftrightarrow> read_frame p q \<and> parcel_inv E q \<and> read_inv E q \<and> mDataPos q = mDataPos p + n"

definition readable :: "env \<Rightarrow> byte list \<Rightarrow> parcel \<Rightarrow> bool" where
  "readable E bs p \<longleftrightarrow> parcel_inv E p \<and> read_inv E p \<and> mDataPos p + length bs \<le> mDataSize p \<and>
     peek (mDataPos p) (length bs) (contents p) = bs \<and>
     clear_of_objects E (mDataPos p) (mDataPos p + length bs) p"

lemma peek_append:
  "pos + length (as @ bs) \<le> length c \<Longrightarrow>
   peek pos (length (as @ bs)) c = as @ bs \<longleftrightarrow>
   peek pos (length as) c = as \<and> peek (pos + length as) (length bs) c = bs"
  by (auto simp: peek_def take_add drop_drop add.commute)

lemma readable_append:
  assumes "readable E (as @ bs) p"
  shows "readable E as p" and "advanced E p (length as) q \<Longrightarrow> readable E bs q"
proof -
  have len: "length (contents p) = mDataSize p" using assms length_contents by (auto simp: readable_def)
  then have pk: "peek (mDataPos p) (length as) (contents p) = as"
    "peek (mDataPos p + length as) (length bs) (contents p) = bs"
    using assms peek_append [of "mDataPos p" as bs "contents p"] by (auto simp: readable_def)
  then show "readable E as p"
    using assms by (auto simp: readable_def clear_of_objects_def list_all_iff)
  show "readable E bs q" if "advanced E p (length as) q"
    using assms that pk
    by (auto simp: readable_def advanced_def read_frameD clear_of_objects_def list_all_iff add.assoc
        intro: trans_le_add1)
qed

lemma advanced_trans: "advanced E p m q \<Longrightarrow> advanced E q n r \<Longrightarrow> advanced E p (m + n) r"
  by (auto simp: advanced_def intro: read_frame_trans)

lemma read_frame_setPos: "read_frame p q \<Longrightarrow> read_frame p (q\<lparr>mDataPos := d\<rparr>)"
  unfolding read_frame_def by (cases p; cases q) simp

lemma read_inv_setPos:
  "read_inv E q \<Longrightarrow> mDataPos q \<le> d \<Longrightarrow> d \<le> 4294967295 \<Longrightarrow> read_inv E (q\<lparr>mDataPos := d\<rparr>)"
  by (auto simp: read_inv_def list_all_iff)

lemma check_objects_correct:
  assumes inv: "parcel_inv E p" "read_inv E p" and room: "mDataPos p + n \<le> mDataSize p"
    and run: "check_objects E n p = (st, q)"
  shows "(st = NO_ERROR \<longleftrightarrow> clear_of_objects E (mDataPos p) (mDataPos p + n) p) \<and>
    st \<in> {NO_ERROR, PERMISSION_DENIED} \<and>
    read_frame p q \<and> parcel_inv E q \<and> read_inv E q \<and>
    mDataPos q = (if st = NO_ERROR then mDataPos p else mDataPos p + n)"
proof -
  have small: "mDataPos p + n \<le> INT32_MAX" using room inv(1) by (simp add: parcel_inv_def)
  show ?thesis
  proof (cases "mObjects p")
    case Nil
    with run inv show ?thesis by (simp add: check_objects_def clear_of_objects_def)
  next
    case (Cons off offs)
    obtain st' p' where v: "validateReadData E (mDataPos p + n) p = (st', p')" by force
    note c = validateReadData_correct [OF inv v]
    have "st = st'" "q = (if st = NO_ERROR then p' else p'\<lparr>mDataPos := mDataPos p + n\<rparr>)"
      using run Cons small v c by (auto simp: check_objects_def split: if_splits)
    moreover have "parcel_inv E p'" using c read_frame_inv inv(1) by blast
    moreover have "read_inv E (p'\<lparr>mDataPos := mDataPos p + n\<rparr>)"
      using c small by (intro read_inv_setPos) auto
    moreover have "read_frame p (p'\<lparr>mDataPos := mDataPos p + n\<rparr>)"
      using c read_frame_setPos by blast
    ultimately show ?thesis using c read_frame_inv [OF _ inv(1)] by auto
  qed
qed

lemma memcpy_out_contents:
  assumes "parcel_inv E p" and "pos + n \<le> mDataSize p"
  shows "memcpy_out pos n p = Inr (peek pos n (contents p))"
proof (cases "mData p")
  case None
  with assms show ?thesis by (simp add: memcpy_out_def parcel_inv_def buf_ok_def contents_def peek_def)
next
  case (Some b)
  with assms have "pos + n \<le> length b" by (simp add: parcel_inv_def buf_ok_def)
  with Some assms(2) show ?thesis
    by (simp add: memcpy_out_def contents_def peek_def drop_take min_def)
qed

text \<open>The three primitives share one shape: inside the data and clear of objects, or refused.\<close>

lemma readAligned_correct:
  assumes inv: "parcel_inv E p" "read_inv E p" and n: "n \<le> INT32_MAX"
  shows "\<exists>r q. readAligned E n p = Inr (r, q) \<and> read_frame p q \<and> parcel_inv E q \<and> read_inv E q \<and>
    (case r of
       Inl st \<Rightarrow> st \<in> {NOT_ENOUGH_DATA, PERMISSION_DENIED} \<and>
         \<not> (mDataPos p + n \<le> mDataSize p \<and> clear_of_objects E (mDataPos p) (mDataPos p + n) p)
     | Inr bs \<Rightarrow> mDataPos p + n \<le> mDataSize p \<and> clear_of_objects E (mDataPos p) (mDataPos p + n) p \<and>
         bs = peek (mDataPos p) n (contents p) \<and> mDataPos q = mDataPos p + n)"
proof -
  have wrap: "size_add (mDataPos p) n = mDataPos p + n"
    using inv(2) n by (simp add: read_inv_def)
  show ?thesis
  proof (cases "mDataPos p + n \<le> mDataSize p")
    case False
    with wrap inv show ?thesis by (simp add: readAligned_def)
  next
    case True
    obtain st p' where c: "check_objects E n p = (st, p')" by force
    note ok = check_objects_correct [OF inv True c]
    show ?thesis
    proof (cases "st = NO_ERROR")
      case False
      with ok c True wrap show ?thesis by (auto simp: readAligned_def)
    next
      case ok': True
      with ok have fr: "read_frame p p'" "mDataPos p' = mDataPos p" "parcel_inv E p'" "read_inv E p'" by auto
      have out: "memcpy_out (mDataPos p) n p' = Inr (peek (mDataPos p) n (contents p))"
        using memcpy_out_contents [OF fr(3), of "mDataPos p" n] True fr(1) by (simp add: read_frameD)
      let ?q = "p'\<lparr>mDataPos := mDataPos p + n\<rparr>"
      have "mDataPos p + n \<le> 4294967295" using True inv(1) by (simp add: parcel_inv_def)
      then have "read_frame p ?q" "read_inv E ?q"
        using fr read_inv_setPos [of E p'] read_frame_setPos by auto
      then show ?thesis
        using True wrap c ok ok' fr out read_frame_inv [OF _ inv(1), of ?q]
        by (simp add: readAligned_def)
    qed
  qed
qed

lemma readInplace_correct:
  assumes inv: "parcel_inv E p" "read_inv E p"
  shows "\<exists>r q. readInplace E n p = Inr (r, q) \<and> read_frame p q \<and> parcel_inv E q \<and> read_inv E q \<and>
    (case r of
       None \<Rightarrow> mData p = None \<or> INT32_MAX < n \<or>
         \<not> (mDataPos p + padded_len n \<le> mDataSize p \<and>
            clear_of_objects E (mDataPos p) (mDataPos p + padded_len n) p)
     | Some d \<Rightarrow> d = mDataPos p \<and> n \<le> INT32_MAX \<and> mDataPos p + padded_len n \<le> mDataSize p \<and>
         clear_of_objects E (mDataPos p) (mDataPos p + padded_len n) p \<and>
         mDataPos q = mDataPos p + padded_len n)"
proof (cases "n \<le> INT32_MAX \<and> mDataPos p + padded_len n \<le> mDataSize p")
  case True
  have wrap: "size_add (mDataPos p) (padded_len n) = mDataPos p + padded_len n"
    "mDataPos p + padded_len n \<le> INT32_MAX"
    using True inv(1) by (auto simp: parcel_inv_def)
  obtain st p' where c: "check_objects E (padded_len n) p = (st, p')" by force
  note ok = check_objects_correct [OF inv conjunct2 [OF True] c]
  let ?q = "p'\<lparr>mDataPos := mDataPos p + padded_len n\<rparr>"
  have "read_frame p ?q" "st = NO_ERROR \<Longrightarrow> read_inv E ?q"
    using ok wrap read_inv_setPos [of E p'] read_frame_setPos by auto
  then show ?thesis
    using True wrap c ok read_frame_inv [OF _ inv(1), of ?q] read_frameD(2) [of p p']
    by (cases "st = NO_ERROR"; cases "mData p") (auto simp: readInplace_def)
next
  case False
  have "size_add (mDataPos p) (padded_len n) = mDataPos p + padded_len n" if "n \<le> INT32_MAX"
    using that padded_len_less [of n] inv(2) by (simp add: read_inv_def)
  with False inv show ?thesis by (auto simp: readInplace_def)
qed

lemma parcel_read_correct:
  assumes inv: "parcel_inv E p" "read_inv E p"
  shows "\<exists>r q. parcel_read E n p = Inr (r, q) \<and> read_frame p q \<and> parcel_inv E q \<and> read_inv E q \<and>
    (case r of
       Inl st \<Rightarrow> st \<in> {BAD_VALUE, NOT_ENOUGH_DATA, PERMISSION_DENIED} \<and>
         \<not> (n \<le> INT32_MAX \<and> mDataPos p + padded_len n \<le> mDataSize p \<and>
            clear_of_objects E (mDataPos p) (mDataPos p + padded_len n) p)
     | Inr bs \<Rightarrow> mDataPos p + padded_len n \<le> mDataSize p \<and>
         clear_of_objects E (mDataPos p) (mDataPos p + padded_len n) p \<and>
         bs = peek (mDataPos p) n (contents p) \<and> mDataPos q = mDataPos p + padded_len n)"
proof (cases "n \<le> INT32_MAX \<and> mDataPos p + padded_len n \<le> mDataSize p")
  case True
  have wrap: "size_add (mDataPos p) (padded_len n) = mDataPos p + padded_len n"
    "mDataPos p + padded_len n \<le> INT32_MAX"
    using True inv(1) by (auto simp: parcel_inv_def)
  obtain st p' where c: "check_objects E (padded_len n) p = (st, p')" by force
  note ok = check_objects_correct [OF inv conjunct2 [OF True] c]
  let ?q = "p'\<lparr>mDataPos := mDataPos p + padded_len n\<rparr>"
  have q: "read_frame p ?q" "st = NO_ERROR \<Longrightarrow> read_inv E ?q"
    using ok wrap read_inv_setPos [of E p'] read_frame_setPos by auto
  have "mDataPos p + n \<le> mDataSize p" using True padded_len_ge [of n] by linarith
  then have "memcpy_out (mDataPos p) n p' = Inr (peek (mDataPos p) n (contents p))"
    using memcpy_out_contents [of E p' "mDataPos p" n] ok read_frameD(1,3) [of p p'] by simp
  with q show ?thesis
    using True wrap c ok read_frame_inv [OF _ inv(1), of ?q]
    by (cases "st = NO_ERROR") (auto simp: parcel_read_def)
next
  case False
  have "size_add (mDataPos p) (padded_len n) = mDataPos p + padded_len n" if "n \<le> INT32_MAX"
    using that padded_len_less [of n] inv(2) by (simp add: read_inv_def)
  with False inv show ?thesis by (auto simp: parcel_read_def)
qed

subsection \<open>Reading back\<close>

lemma readAligned_ok:
  assumes "readable E bs p"
  shows "\<exists>q. readAligned E (length bs) p = Inr (Inr bs, q) \<and> advanced E p (length bs) q"
proof -
  have "length bs \<le> INT32_MAX" using assms by (auto simp: readable_def parcel_inv_def)
  with readAligned_correct [of E p "length bs"] assms show ?thesis
    by (fastforce simp: readable_def advanced_def split: sum.splits)
qed

lemma readInt32_ok:
  "readable E (enc32 v) p \<Longrightarrow> \<exists>q. readInt32 E p = Inr (Inr v, q) \<and> advanced E p 4 q"
  using readAligned_ok [of E "enc32 v" p] by (auto simp: readInt32_def map_read_def)

lemma readInt64_ok:
  "readable E (enc64 v) p \<Longrightarrow> \<exists>q. readInt64 E p = Inr (Inr v, q) \<and> advanced E p 8 q"
  using readAligned_ok [of E "enc64 v" p] by (auto simp: readInt64_def map_read_def)

lemma readInt32_value_ok:
  "readable E (enc32 v) p \<Longrightarrow> \<exists>q. readInt32_value E p = Inr (v, q) \<and> advanced E p 4 q"
  using readInt32_ok [of E v p] by (auto simp: readInt32_value_def)

lemma readBool_ok:
  "readable E (enc_bool v) p \<Longrightarrow> \<exists>q. readBool E p = Inr (Inr v, q) \<and> advanced E p 4 q"
  using readInt32_ok [of E "if v then 1 else 0" p]
  by (auto simp: readBool_def map_read_def enc_bool_def split: if_splits)

lemma ucast_ucast_char: "ucast (ucast c :: u32) = c" for c :: u16
  by (rule bit_word_eqI) (auto simp: bit_ucast_iff bit_simps)

lemma ucast_scast_byte: "ucast (scast c :: u32) = c" for c :: byte
  by (rule bit_word_eqI) (auto simp: bit_ucast_iff bit_simps)

lemma readChar_ok:
  "readable E (enc_char v) p \<Longrightarrow> \<exists>q. readChar E p = Inr (Inr v, q) \<and> advanced E p 4 q"
  using readInt32_ok [of E "ucast v" p]
  by (auto simp: readChar_def map_read_def enc_char_def ucast_ucast_char)

lemma readByte_ok:
  "readable E (enc_byte v) p \<Longrightarrow> \<exists>q. readByte E p = Inr (Inr v, q) \<and> advanced E p 4 q"
  using readInt32_ok [of E "scast v" p]
  by (auto simp: readByte_def map_read_def enc_byte_def ucast_scast_byte)

lemma readInplace_ok:
  assumes r: "readable E (bs @ zs) p" and len: "length (bs @ zs) = padded_len (length bs)"
    and d: "mData p \<noteq> None"
  shows "\<exists>q. readInplace E (length bs) p = Inr (Some (mDataPos p), q) \<and> advanced E p (length (bs @ zs)) q \<and>
    (\<forall>i n. i + n \<le> length bs \<longrightarrow> memcpy_out (mDataPos p + i) n q = Inr (peek i n bs))"
proof -
  have inv: "parcel_inv E p" "read_inv E p" and room: "mDataPos p + length (bs @ zs) \<le> mDataSize p"
    and pk: "peek (mDataPos p) (length (bs @ zs)) (contents p) = bs @ zs"
    using r by (auto simp: readable_def)
  have "length bs \<le> INT32_MAX" using inv(1) room by (auto simp: parcel_inv_def)
  with readInplace_correct [OF inv, of "length bs"] r d len room obtain q
    where q: "readInplace E (length bs) p = Inr (Some (mDataPos p), q)" "read_frame p q"
      "parcel_inv E q" "read_inv E q" "mDataPos q = mDataPos p + length (bs @ zs)"
    by (auto simp: readable_def split: option.splits)
  have "memcpy_out (mDataPos p + i) n q = Inr (peek i n bs)" if "i + n \<le> length bs" for i n
  proof -
    have "memcpy_out (mDataPos p + i) n q = Inr (peek (mDataPos p + i) n (contents p))"
      using memcpy_out_contents [OF q(3), of "mDataPos p + i" n] room that read_frameD(1,3) [OF q(2)]
      by simp
    also have "peek (mDataPos p + i) n (contents p) = peek i n (peek (mDataPos p) (length (bs @ zs)) (contents p))"
      using that by (simp add: peek_def drop_take min_def add.commute)
    also have "\<dots> = peek i n bs" unfolding pk using that by (simp add: peek_def)
    finally show ?thesis .
  qed
  with q show ?thesis by (auto simp: advanced_def)
qed

lemma readInplace_pad_ok:
  assumes "readable E (pad_bytes bs) p" and "mData p \<noteq> None"
  shows "\<exists>q. readInplace E (length bs) p = Inr (Some (mDataPos p), q) \<and>
    advanced E p (padded_len (length bs)) q \<and>
    (\<forall>i n. i + n \<le> length bs \<longrightarrow> memcpy_out (mDataPos p + i) n q = Inr (peek i n bs))"
  using readInplace_ok [of E bs "replicate (padded_len (length bs) - length bs) 0" p] assms
  by (simp add: pad_bytes_def)

lemma sint_of_nat_small: "n \<le> INT32_MAX \<Longrightarrow> sint (of_nat n :: u32) = int n"
  by (simp add: signed_of_nat signed_take_bit_int_eq_self)

lemma dec_enc_chars [simp]: "dec_chars (enc_chars s) = s"
proof (induction s)
  case Nil
  then show ?case by (simp add: enc_chars_def)
next
  case (Cons c s)
  obtain a b where "enc16 c = [a, b]" by (auto simp: enc16_def numeral_2_eq_2)
  with dec_enc16 [of c] Cons show ?case by (simp add: enc_chars_def)
qed

text \<open>A length word and then a padded body: how both string readers start.\<close>

lemma read_counted:
  assumes r: "readable E (enc32 (of_nat n) @ pad_bytes (xs @ ys)) p" and n: "n < length (xs @ ys)"
  shows "\<exists>q r. readInt32_value E p = Inr (of_nat n, q) \<and> sint (of_nat n :: u32) = int n \<and> n < INT32_MAX \<and>
    readInplace E (length (xs @ ys)) q = Inr (Some (mDataPos q), r) \<and>
    memcpy_out (mDataPos q) (length xs) r = Inr xs \<and>
    memcpy_out (mDataPos q + length xs) (length ys) r = Inr ys \<and>
    advanced E p (4 + padded_len (length (xs @ ys))) r"
proof -
  let ?bs = "xs @ ys"
  have "4 + padded_len (length ?bs) \<le> INT32_MAX" using r by (auto simp: readable_def parcel_inv_def)
  then have small: "length ?bs \<le> INT32_MAX" using padded_len_ge [of "length ?bs"] by linarith
  obtain q where q: "readInt32_value E p = Inr (of_nat n, q)" "advanced E p 4 q"
    using readInt32_value_ok readable_append(1) [OF r] by blast
  have body: "readable E (pad_bytes ?bs) q"
    using readable_append(2) [OF r, of q] q(2) by simp
  have "0 < length ?bs" using n by linarith
  from padded_len_pos [OF this] have "contents q \<noteq> []"
    using body length_contents [of E q] by (auto simp: readable_def)
  then have "mData q \<noteq> None" by (auto simp: contents_def split: option.splits)
  with readInplace_pad_ok [OF body] obtain r where r: "readInplace E (length ?bs) q = Inr (Some (mDataPos q), r)"
    "advanced E q (padded_len (length ?bs)) r"
    "\<And>i m. i + m \<le> length ?bs \<Longrightarrow> memcpy_out (mDataPos q + i) m r = Inr (peek i m ?bs)" by blast
  have "memcpy_out (mDataPos q) (length xs) r = Inr xs"
    "memcpy_out (mDataPos q + length xs) (length ys) r = Inr ys"
    using r(3) [of 0 "length xs"] r(3) [of "length xs" "length ys"] by (auto simp: peek_def)
  with r q small n advanced_trans [OF q(2)] show ?thesis by (auto simp: sint_of_nat_small)
qed

lemma readString8_ok:
  assumes "readable E (enc_string8 (Some s)) p"
  shows "\<exists>q. readString8 E p = Inr (Inr s, q) \<and> advanced E p (length (enc_string8 (Some s))) q"
proof -
  have r: "readable E (enc32 (of_nat (length s)) @ pad_bytes (s @ [0])) p"
    using assms by (simp add: enc_string8_def)
  from read_counted [OF r] show ?thesis
    by (auto simp: readString8_def readString8Inplace_def enc_string8_def)
qed

lemma readString16_ok:
  assumes "readable E (enc_string16 (Some s)) p"
  shows "\<exists>q. readString16 E p = Inr (Inr s, q) \<and> advanced E p (length (enc_string16 (Some s))) q"
proof -
  have r: "readable E (enc32 (of_nat (length s)) @ pad_bytes (enc_chars s @ [0, 0])) p"
    using assms by (simp add: enc_string16_def)
  from read_counted [OF r] show ?thesis
    by (auto simp: readString16_def readString16Inplace_def enc_string16_def mult.commute numeral_2_eq_2)
qed

lemma readString16_null:
  assumes "readable E (enc_string16 None) p"
  shows "\<exists>q. readString16 E p = Inr (Inl UNEXPECTED_NULL, q) \<and> advanced E p 4 q"
  using readInt32_value_ok [of E "- 1" p] assms
  by (auto simp: enc_string16_def readString16_def readString16Inplace_def)

end
