(* ===== verification/Parcel_Codec.thy ===== *)
theory Parcel_Codec
  imports Parcel_Read
begin

text \<open>
  The \<open>writeData\<close> and \<open>readData\<close> templates of \<open>libs/binder/include/binder/Parcel.h\<close>: vectors,
  fixed-size arrays, nullable values and parcelables, each over the writer and reader of its
  element type, and the sizes of output vectors.

  The locale \<open>parcel_codec\<close> is the contract between a writer and a reader of one type: the writer
  puts an encoding at the position, the reader consumes exactly that encoding and gives the
  value back. Its client lemmas are the round trip of one value, of a sequence, of a vector and of
  a nullable value. It is interpreted on every scalar and string of the \<open>Parcel\<close>.
\<close>

section \<open>writeData\<close>

fun writeElements ::
  "(env \<Rightarrow> 'a \<Rightarrow> parcel \<Rightarrow> status_t parcel_run) \<Rightarrow> env \<Rightarrow> 'a list \<Rightarrow> parcel \<Rightarrow> status_t parcel_run" where
  "writeElements wr E [] p = Inr (OK, p)"
| "writeElements wr E (t # c) p =
     bind_run (wr E t p) (\<lambda>(status, p).
     if status \<noteq> OK then Inr (status, p) else writeElements wr E c p)"

text \<open>The status of writing the size is not looked at.\<close>

definition writeVector ::
  "(env \<Rightarrow> 'a \<Rightarrow> parcel \<Rightarrow> status_t parcel_run) \<Rightarrow> env \<Rightarrow> 'a list \<Rightarrow> parcel \<Rightarrow> status_t parcel_run" where
  "writeVector wr E c p =
     (if length c > INT32_MAX then Inr (BAD_VALUE, p)
      else bind_run (writeInt32 E (of_nat (length c)) p) (\<lambda>(_, p). writeElements wr E c p))"

text \<open>Element types the code copies as they lie in memory: \<open>enc\<close> gives an element's bytes, \<open>sz\<close> is
  \<open>sizeof(T)\<close>. The data pointer of an empty vector is null.\<close>

definition writePodVector ::
  "('a \<Rightarrow> byte list) \<Rightarrow> nat \<Rightarrow> env \<Rightarrow> 'a list \<Rightarrow> parcel \<Rightarrow> status_t parcel_run" where
  "writePodVector enc sz E c p =
     (if length c > INT32_MAX then Inr (BAD_VALUE, p)
      else bind_run (writeInt32 E (of_nat (length c)) p) (\<lambda>(_, p).
        if length c > SIZE_MAX div sz then Inr (BAD_VALUE, p)
        else parcel_write E (if c = [] then None else Some (concat (map enc c))) (length c * sz) p))"

text \<open>\<open>bool\<close> and \<open>char16_t\<close> elements, each widened to an \<open>int32_t\<close>.\<close>

definition writeWideVector ::
  "('a \<Rightarrow> u32) \<Rightarrow> env \<Rightarrow> 'a list \<Rightarrow> parcel \<Rightarrow> status_t parcel_run" where
  "writeWideVector widen E c p =
     (if length c > INT32_MAX then Inr (BAD_VALUE, p)
      else bind_run (writeInt32 E (of_nat (length c)) p) (\<lambda>(_, p).
        bind_run (writeInplace E (length c * 4) p) (\<lambda>(dat, p).
        case dat of
          None \<Rightarrow> Inr (BAD_VALUE, p)
        | Some d \<Rightarrow> bind_run (memcpy_in d (concat (map (\<lambda>t. enc32 (widen t)) c)) p) (\<lambda>p.
                     Inr (OK, p)))))"

definition writeArray ::
  "(env \<Rightarrow> 'a \<Rightarrow> parcel \<Rightarrow> status_t parcel_run) \<Rightarrow> env \<Rightarrow> 'a list \<Rightarrow> parcel \<Rightarrow> status_t parcel_run" where
  "writeArray wr E val p =
     bind_run (writeInt32 E (of_nat (length val)) p) (\<lambda>(status, p).
     if status \<noteq> OK then Inr (status, p) else writeElements wr E val p)"

definition writeNullable ::
  "u32 \<Rightarrow> (env \<Rightarrow> 'a \<Rightarrow> parcel \<Rightarrow> status_t parcel_run) \<Rightarrow> env \<Rightarrow> 'a option \<Rightarrow> parcel \<Rightarrow>
   status_t parcel_run" where
  "writeNullable null wr E c p =
     (case c of None \<Rightarrow> writeInt32 E null p | Some t \<Rightarrow> wr E t p)"

definition kNonNullParcelableFlag :: u32 where "kNonNullParcelableFlag = 1"
definition kNullParcelableFlag :: u32 where "kNullParcelableFlag = 0"
definition kNullVectorSize :: u32 where "kNullVectorSize = - 1"

definition writeParcelable ::
  "(env \<Rightarrow> 'a \<Rightarrow> parcel \<Rightarrow> status_t parcel_run) \<Rightarrow> env \<Rightarrow> 'a \<Rightarrow> parcel \<Rightarrow> status_t parcel_run" where
  "writeParcelable writeToParcel E t p =
     bind_run (writeInt32 E kNonNullParcelableFlag p) (\<lambda>(status, p).
     if status \<noteq> OK then Inr (status, p) else writeToParcel E t p)"

definition writeVectorSize :: "env \<Rightarrow> 'a list option \<Rightarrow> parcel \<Rightarrow> status_t parcel_run" where
  "writeVectorSize E val p =
     (case val of
        None \<Rightarrow> writeInt32 E (- 1) p
      | Some xs \<Rightarrow> (if length xs > INT32_MAX then Inr (BAD_VALUE, p)
                   else writeInt32 E (of_nat (length xs)) p))"

section \<open>readData\<close>

text \<open>Sequencing of reads: a status other than \<open>OK\<close> returns.\<close>

definition bind_read :: "'a read_run \<Rightarrow> ('a \<Rightarrow> parcel \<Rightarrow> 'b read_run) \<Rightarrow> 'b read_run" where
  "bind_read r f = bind_run r (\<lambda>(x, p). case x of Inl st \<Rightarrow> Inr (Inl st, p) | Inr a \<Rightarrow> f a p)"

fun readElements :: "(env \<Rightarrow> parcel \<Rightarrow> 'a read_run) \<Rightarrow> env \<Rightarrow> nat \<Rightarrow> parcel \<Rightarrow> 'a list read_run" where
  "readElements rd E 0 p = Inr (Inr [], p)"
| "readElements rd E (Suc n) p =
     bind_read (rd E p) (\<lambda>t p. map_read (\<lambda>c. t # c) (readElements rd E n p))"

text \<open>The size of a vector, bounded by the bytes left.\<close>

definition readVectorSize :: "env \<Rightarrow> parcel \<Rightarrow> nat read_run" where
  "readVectorSize E p =
     bind_read (readInt32 E p) (\<lambda>sz p.
     if sint sz < 0 then Inr (Inl UNEXPECTED_NULL, p)
     else bind_run (dataAvail p) (\<lambda>availableBytes.
       if nat (sint sz) > availableBytes then Inr (Inl BAD_VALUE, p)
       else Inr (Inr (nat (sint sz)), p)))"

definition readVector :: "(env \<Rightarrow> parcel \<Rightarrow> 'a read_run) \<Rightarrow> env \<Rightarrow> parcel \<Rightarrow> 'a list read_run" where
  "readVector rd E p = bind_read (readVectorSize E p) (\<lambda>n p. readElements rd E n p)"

fun dec_seq :: "nat \<Rightarrow> (byte list \<Rightarrow> 'a) \<Rightarrow> nat \<Rightarrow> byte list \<Rightarrow> 'a list" where
  "dec_seq sz dec 0 bs = []"
| "dec_seq sz dec (Suc n) bs = dec (take sz bs) # dec_seq sz dec n (drop sz bs)"

definition readPodVector ::
  "(byte list \<Rightarrow> 'a) \<Rightarrow> nat \<Rightarrow> env \<Rightarrow> parcel \<Rightarrow> 'a list read_run" where
  "readPodVector dec sz E p =
     bind_read (readVectorSize E p) (\<lambda>n p.
     bind_run (readInplace E (n * sz) p) (\<lambda>(dat, p).
     case dat of
       None \<Rightarrow> Inr (Inl BAD_VALUE, p)
     | Some d \<Rightarrow> bind_run (memcpy_out d (n * sz) p) (\<lambda>bs. Inr (Inr (dec_seq sz dec n bs), p))))"

definition readWideVector :: "(u32 \<Rightarrow> 'a) \<Rightarrow> env \<Rightarrow> parcel \<Rightarrow> 'a list read_run" where
  "readWideVector narrow E p = readPodVector (\<lambda>bs. narrow (dec32 bs)) 4 E p"

definition readArray ::
  "(env \<Rightarrow> parcel \<Rightarrow> 'a read_run) \<Rightarrow> nat \<Rightarrow> env \<Rightarrow> parcel \<Rightarrow> 'a list read_run" where
  "readArray rd n E p =
     bind_read (readInt32 E p) (\<lambda>sz p.
     if sint sz < 0 then Inr (Inl UNEXPECTED_NULL, p)
     else if sint sz \<noteq> int n then Inr (Inl BAD_VALUE, p)
     else readElements rd E n p)"

definition readNullable ::
  "u32 \<Rightarrow> (env \<Rightarrow> parcel \<Rightarrow> 'a read_run) \<Rightarrow> env \<Rightarrow> parcel \<Rightarrow> 'a option read_run" where
  "readNullable null rd E p =
     (let startPos = dataPosition p in
      bind_read (readInt32 E p) (\<lambda>peek p.
      if peek = null then Inr (Inr None, p)
      else bind_run (setDataPosition startPos p) (\<lambda>p. map_read Some (rd E p))))"

definition readParcelable :: "(env \<Rightarrow> parcel \<Rightarrow> 'a read_run) \<Rightarrow> env \<Rightarrow> parcel \<Rightarrow> 'a read_run" where
  "readParcelable readFromParcel E p =
     bind_read (readInt32 E p) (\<lambda>present p.
     if present \<noteq> kNonNullParcelableFlag then Inr (Inl UNEXPECTED_NULL, p) else readFromParcel E p)"

text \<open>The vector is only resized; the result is its new size, \<open>None\<close> for a null optional.\<close>

definition resizeOutVector :: "nat \<Rightarrow> env \<Rightarrow> parcel \<Rightarrow> nat read_run" where
  "resizeOutVector elmSize E p =
     bind_read (readOutVectorSizeWithCheck E elmSize p) (\<lambda>sz p.
     if sint sz < 0 then Inr (Inl UNEXPECTED_NULL, p) else Inr (Inr (nat (sint sz)), p))"

definition resizeOutVector_optional :: "nat \<Rightarrow> env \<Rightarrow> parcel \<Rightarrow> nat option read_run" where
  "resizeOutVector_optional elmSize E p =
     bind_read (readOutVectorSizeWithCheck E elmSize p) (\<lambda>sz p.
     Inr (Inr (if sint sz \<ge> 0 then Some (nat (sint sz)) else None), p))"

section \<open>Rewinding\<close>

definition rewound :: "nat \<Rightarrow> parcel \<Rightarrow> parcel" where
  "rewound pos q = q\<lparr>mDataPos := pos, mNextObjectHint := 0, mObjectsSorted := False\<rparr>"

lemma setDataPosition_ok: "pos \<le> INT32_MAX \<Longrightarrow> setDataPosition pos q = Inr (rewound pos q)"
  by (simp add: setDataPosition_def rewound_def)

lemma rewound_simps [simp]:
  "contents (rewound pos q) = contents q" "mDataPos (rewound pos q) = pos"
  "parcel_inv E (rewound pos q) = parcel_inv E q" "mDataSize (rewound pos q) = mDataSize q"
  "mObjects (rewound pos q) = mObjects q" "mData (rewound pos q) = mData q"
  by (simp_all add: rewound_def contents_def parcel_inv_def buf_ok_def split: option.split)

lemma read_inv_rewound [simp]: "read_inv E (rewound pos q) \<longleftrightarrow> pos \<le> 4294967295"
  by (simp add: rewound_def read_inv_def)

text \<open>What was written at \<open>pos\<close> can be read at \<open>pos\<close>.\<close>

lemma wrote_readable:
  assumes w: "wrote E p bs q" and p: "parcel_inv E p" "mDataPos p \<le> mDataSize p"
    and objs: "objects_within E (mDataPos p) (mObjects p)"
  shows "readable E bs (rewound (mDataPos p) q)"
proof -
  have "peek (mDataPos p) (length bs) (contents q) = bs"
    using w p length_contents [of E p] by (simp add: wrote_def peek_poke_same)
  moreover have "mDataPos p \<le> INT32_MAX" using p by (simp add: parcel_inv_def)
  ultimately show ?thesis
    using w objs
    by (auto simp: readable_def wrote_def same_flags_def clear_of_objects_def objects_within_def
        list_all_iff)
qed

section \<open>The contract of a writer and a reader\<close>

locale parcel_codec =
  fixes wr :: "env \<Rightarrow> 'a \<Rightarrow> parcel \<Rightarrow> status_t parcel_run"
    and rd :: "env \<Rightarrow> parcel \<Rightarrow> 'a read_run"
    and enc :: "'a \<Rightarrow> byte list"
  assumes wr_ok: "writable E (length (enc v)) p \<Longrightarrow> \<exists>q. wr E v p = Inr (OK, q) \<and> wrote E p (enc v) q"
    and rd_ok: "readable E (enc v) p \<Longrightarrow>
      \<exists>q. rd E p = Inr (Inr v, q) \<and> advanced E p (length (enc v)) q"
begin

lemma roundtrip:
  assumes w: "writable E (length (enc v)) p" and objs: "objects_within E (mDataPos p) (mObjects p)"
  shows "\<exists>q s. wr E v p = Inr (OK, q) \<and> setDataPosition (mDataPos p) q = Inr (rewound (mDataPos p) q) \<and>
    rd E (rewound (mDataPos p) q) = Inr (Inr v, s) \<and> mDataPos s = mDataPos q \<and> contents s = contents q"
proof -
  have inv: "parcel_inv E p" "mDataPos p \<le> mDataSize p" using w by (auto simp: writable_def)
  have pos: "mDataPos p \<le> INT32_MAX" using inv by (simp add: parcel_inv_def)
  obtain q where q: "wr E v p = Inr (OK, q)" "wrote E p (enc v) q" using wr_ok [OF w] by blast
  obtain s where "rd E (rewound (mDataPos p) q) = Inr (Inr v, s)"
    "advanced E (rewound (mDataPos p) q) (length (enc v)) s"
    using rd_ok [OF wrote_readable [OF q(2) inv objs]] by blast
  with q pos show ?thesis
    by (auto simp: setDataPosition_ok advanced_def wrote_def dest: read_frameD(1))
qed

lemma writeElements_ok:
  assumes "writable E (length (concat (map enc c))) p"
  shows "\<exists>q. writeElements wr E c p = Inr (OK, q) \<and> wrote E p (concat (map enc c)) q"
  using assms
proof (induction c arbitrary: p)
  case Nil
  then show ?case by (auto simp: writable_def intro: wrote_refl)
next
  case (Cons t c)
  have w: "writable E (length (enc t) + length (concat (map enc c))) p" using Cons.prems by simp
  obtain q where q: "wr E t p = Inr (OK, q)" "wrote E p (enc t) q"
    using wr_ok [OF writable_mono [OF w le_add1]] by blast
  from Cons.IH [OF wrote_writable [OF q(2) w]] q w show ?case
    by (auto simp: writable_def intro: wrote_trans)
qed

lemma readElements_ok:
  assumes "readable E (concat (map enc c)) p"
  shows "\<exists>q. readElements rd E (length c) p = Inr (Inr c, q) \<and>
    advanced E p (length (concat (map enc c))) q"
  using assms
proof (induction c arbitrary: p)
  case Nil
  then show ?case by (simp add: readable_def advanced_def)
next
  case (Cons t c)
  have r: "readable E (enc t @ concat (map enc c)) p" using Cons.prems by simp
  obtain q where q: "rd E p = Inr (Inr t, q)" "advanced E p (length (enc t)) q"
    using rd_ok [OF readable_append(1) [OF r]] by blast
  from Cons.IH [OF readable_append(2) [OF r q(2)]] q advanced_trans [OF q(2)] show ?case
    by (auto simp: bind_read_def map_read_def)
qed

end

text \<open>An element type whose encoding is never empty: the number of elements is bounded by the bytes left.\<close>

locale parcel_element = parcel_codec +
  assumes enc_nonempty: "enc v \<noteq> []"
begin

lemma length_elements: "length c \<le> length (concat (map enc c))"
proof (induction c)
  case Nil
  then show ?case by simp
next
  case (Cons t c)
  moreover have "1 \<le> length (enc t)" using enc_nonempty [of t] by (cases "enc t") auto
  ultimately show ?case by (simp del: One_nat_def)
qed

end

definition enc_vector :: "('a \<Rightarrow> byte list) \<Rightarrow> 'a list \<Rightarrow> byte list" where
  "enc_vector enc c = enc32 (of_nat (length c)) @ concat (map enc c)"

lemma readVectorSize_ok:
  assumes r: "readable E (enc32 (of_nat n) @ bs) p" and n: "n \<le> length bs"
  shows "\<exists>q. readVectorSize E p = Inr (Inr n, q) \<and> advanced E p 4 q \<and> readable E bs q"
proof -
  have small: "length bs \<le> INT32_MAX" using r by (auto simp: readable_def parcel_inv_def)
  obtain q where q: "readInt32 E p = Inr (Inr (of_nat n), q)" "advanced E p 4 q"
    using readInt32_ok readable_append(1) [OF r] by blast
  have bs: "readable E bs q" using readable_append(2) [OF r] q(2) by simp
  then have "dataAvail q = Inr (mDataSize q - mDataPos q)" "length bs \<le> mDataSize q - mDataPos q"
    by (auto simp: dataAvail_def dataSize_def dataPosition_def Let_def readable_def parcel_inv_def)
  with q bs small n show ?thesis
    by (auto simp: readVectorSize_def bind_read_def sint_of_nat_small)
qed

context parcel_element
begin

lemma vector_codec: "parcel_codec (writeVector wr) (readVector rd) (enc_vector enc)"
proof
  fix E c p
  assume "writable E (length (enc_vector enc c)) p"
  then have w: "writable E (4 + length (concat (map enc c))) p" by (simp add: enc_vector_def)
  have "length c \<le> INT32_MAX" using writable_small [OF w] length_elements [of c] by linarith
  with wrote_header [OF w writeElements_ok [of E c], where v = "of_nat (length c)"]
  show "\<exists>q. writeVector wr E c p = Inr (OK, q) \<and> wrote E p (enc_vector enc c) q"
    by (auto simp: writeVector_def enc_vector_def)
next
  fix E c p
  assume r: "readable E (enc_vector enc c) p"
  obtain q where q: "readVectorSize E p = Inr (Inr (length c), q)" "advanced E p 4 q"
    "readable E (concat (map enc c)) q"
    using readVectorSize_ok [of E "length c" "concat (map enc c)" p] r length_elements
    by (auto simp: enc_vector_def)
  from readElements_ok [OF q(3)] q(1) advanced_trans [OF q(2)]
  show "\<exists>q. readVector rd E p = Inr (Inr c, q) \<and> advanced E p (length (enc_vector enc c)) q"
    by (auto simp: readVector_def bind_read_def enc_vector_def)
qed

end

subsection \<open>Nullable values\<close>

text \<open>The first word of an encoding tells it from the null flag.\<close>

definition enc_nullable :: "u32 \<Rightarrow> ('a \<Rightarrow> byte list) \<Rightarrow> 'a option \<Rightarrow> byte list" where
  "enc_nullable null enc c = (case c of None \<Rightarrow> enc32 null | Some v \<Rightarrow> enc v)"

locale parcel_nullable = parcel_element +
  fixes null :: u32 and head :: "'a \<Rightarrow> u32" and tail :: "'a \<Rightarrow> byte list"
  assumes enc_head: "enc v = enc32 (head v) @ tail v"
    and head_not_null: "readable E (enc v) p \<Longrightarrow> head v \<noteq> null"
begin

lemma readable_rewound:
  assumes r: "readable E bs p" and q: "advanced E p n q"
  shows "readable E bs (rewound (mDataPos p) q)"
proof -
  have "mDataPos p \<le> 4294967295" using r by (simp add: readable_def read_inv_def)
  with assms show ?thesis
    by (auto simp: readable_def advanced_def read_frameD(1,3,5) [of p q] clear_of_objects_def list_all_iff)
qed

lemma nullable_codec: "parcel_codec (writeNullable null wr) (readNullable null rd) (enc_nullable null enc)"
proof
  fix E c p
  assume "writable E (length (enc_nullable null enc c)) p"
  then show "\<exists>q. writeNullable null wr E c p = Inr (OK, q) \<and> wrote E p (enc_nullable null enc c) q"
    using wr_ok writeInt32_ok [of E p null]
    by (cases c) (auto simp: writeNullable_def enc_nullable_def)
next
  fix E c p
  assume r: "readable E (enc_nullable null enc c) p"
  show "\<exists>q. readNullable null rd E p = Inr (Inr c, q) \<and> advanced E p (length (enc_nullable null enc c)) q"
  proof (cases c)
    case None
    with r readInt32_ok [of E null p] show ?thesis
      by (auto simp: readNullable_def bind_read_def enc_nullable_def Let_def)
  next
    case (Some v)
    with r have rv: "readable E (enc v) p" by (simp add: enc_nullable_def)
    then have pos: "mDataPos p \<le> INT32_MAX" by (auto simp: readable_def parcel_inv_def)
    obtain q where q: "readInt32 E p = Inr (Inr (head v), q)" "advanced E p 4 q"
      using readInt32_ok readable_append(1) rv enc_head by metis
    from rd_ok [OF readable_rewound [OF rv q(2)]] obtain s
      where s: "rd E (rewound (mDataPos p) q) = Inr (Inr v, s)"
        "advanced E (rewound (mDataPos p) q) (length (enc v)) s" by blast
    have "read_frame p (rewound (mDataPos p) q)"
      using q(2) unfolding advanced_def read_frame_def rewound_def by (cases p; cases q) simp
    with s have "advanced E p (length (enc v)) s"
      using read_frame_trans by (auto simp: advanced_def)
    with q s Some head_not_null [OF rv] pos show ?thesis
      by (auto simp: readNullable_def bind_read_def map_read_def dataPosition_def enc_nullable_def
          Let_def setDataPosition_ok)
  qed
qed

end

subsection \<open>Elements copied as they lie in memory\<close>

definition enc_pod :: "('a \<Rightarrow> byte list) \<Rightarrow> 'a list \<Rightarrow> byte list" where
  "enc_pod enc c = enc32 (of_nat (length c)) @ pad_bytes (concat (map enc c))"

locale pod_element =
  fixes enc :: "'a \<Rightarrow> byte list" and dec :: "byte list \<Rightarrow> 'a" and sz :: nat
  assumes enc_length: "length (enc v) = sz" and dec_enc: "dec (enc v) = v"
    and sz: "0 < sz" "sz \<le> 8"
begin

lemma length_pods [simp]: "length (concat (map enc c)) = length c * sz"
  by (induction c) (simp_all add: enc_length)

lemma dec_seq_enc: "dec_seq sz dec (length c) (concat (map enc c)) = c"
  by (induction c) (simp_all add: enc_length dec_enc)

lemma count_le: "length c \<le> length c * sz"
  using sz by simp

lemma write_pods_ok:
  assumes "writable E (padded_len (length c * sz)) q" and "mData q \<noteq> None"
  shows "\<exists>r. parcel_write E (if c = [] then None else Some (concat (map enc c))) (length c * sz) q
    = Inr (OK, r) \<and> wrote E q (pad_bytes (concat (map enc c))) r"
proof (cases c)
  case Nil
  from writeInplace_ok [of E 0 q] assms obtain r where "writeInplace E 0 q = Inr (Some (mDataPos q), r)" "wrote E q [] r"
    using Nil by auto
  with Nil assms show ?thesis
    by (auto simp: parcel_write_def pad_bytes_def writable_def wrote_def same_flags_def)
next
  case Cons
  with parcel_write_ok [of E "concat (map enc c)" q] assms show ?thesis by (simp add: enc_length)
qed

lemma pod_codec: "parcel_codec (writePodVector enc sz) (readPodVector dec sz) (enc_pod enc)"
proof
  fix E c p
  assume "writable E (length (enc_pod enc c)) p"
  then have w: "writable E (4 + padded_len (length c * sz)) p" by (simp add: enc_pod_def)
  have "length c * sz \<le> INT32_MAX"
    using writable_small [OF w] padded_len_ge [of "length c * sz"] by linarith
  then have "length c \<le> INT32_MAX" "length c \<le> SIZE_MAX div sz"
    using count_le [of c] sz by (linarith, simp add: less_eq_div_iff_mult_less_eq)
  with wrote_header [OF w write_pods_ok [of E c], where v = "of_nat (length c)"]
  show "\<exists>q. writePodVector enc sz E c p = Inr (OK, q) \<and> wrote E p (enc_pod enc c) q"
    by (auto simp: writePodVector_def enc_pod_def)
next
  fix E c p
  assume r: "readable E (enc_pod enc c) p"
  have "length c \<le> length (pad_bytes (concat (map enc c)))"
    using order_trans [OF count_le padded_len_ge, of c] by (simp only: length_pad_bytes length_pods)
  then obtain q where q: "readVectorSize E p = Inr (Inr (length c), q)" "advanced E p 4 q"
    "readable E (pad_bytes (concat (map enc c))) q"
    using readVectorSize_ok r unfolding enc_pod_def by blast
  have "parcel_inv E q" "0 < mDataCapacity q"
    using q(2,3) by (auto simp: advanced_def readable_def parcel_inv_def)
  then have "mData q \<noteq> None" by (rule same_frame_data)
  from readInplace_pad_ok [OF q(3) this] obtain s where
    s: "readInplace E (length c * sz) q = Inr (Some (mDataPos q), s)"
      "advanced E q (padded_len (length c * sz)) s"
      "\<And>i n. i + n \<le> length c * sz \<Longrightarrow> memcpy_out (mDataPos q + i) n s = Inr (peek i n (concat (map enc c)))"
    by auto
  have "memcpy_out (mDataPos q) (length c * sz) s = Inr (concat (map enc c))"
    using s(3) [of 0 "length c * sz"] by (simp add: peek_def)
  with s q(1) advanced_trans [OF q(2) s(2)]
  show "\<exists>q. readPodVector dec sz E p = Inr (Inr c, q) \<and> advanced E p (length (enc_pod enc c)) q"
    by (auto simp: readPodVector_def bind_read_def enc_pod_def dec_seq_enc)
qed

end

text \<open>Elements widened to a word each.\<close>

lemma memcpy_in_Nil: "memcpy_in pos [] p = Inr q \<Longrightarrow> q = p"
  by (cases p) (auto simp: memcpy_in_def split: option.splits if_splits)

locale wide_element =
  fixes widen :: "'a \<Rightarrow> u32" and narrow :: "u32 \<Rightarrow> 'a"
  assumes narrow_widen: "narrow (widen v) = v"
begin

sublocale wide: pod_element "\<lambda>v. enc32 (widen v)" "\<lambda>bs. narrow (dec32 bs)" 4
  by unfold_locales (simp_all add: narrow_widen)

lemma wide_codec:
  "parcel_codec (writeWideVector widen) (readWideVector narrow) (enc_pod (\<lambda>v. enc32 (widen v)))"
proof
  fix E c p
  let ?bs = "concat (map (\<lambda>v. enc32 (widen v)) c)"
  assume "writable E (length (enc_pod (\<lambda>v. enc32 (widen v)) c)) p"
  then have w: "writable E (4 + padded_len (length c * 4)) p" by (simp add: enc_pod_def)
  have small: "length c \<le> INT32_MAX"
    using writable_small [OF w] padded_len_ge [of "length c * 4"] by linarith
  let ?f = "\<lambda>p. bind_run (writeInplace E (length c * 4) p) (\<lambda>(dat, p).
      case dat of None \<Rightarrow> Inr (BAD_VALUE, p) | Some d \<Rightarrow> bind_run (memcpy_in d ?bs p) (\<lambda>p. Inr (OK, p)))"
  have "\<exists>r. ?f q = Inr (OK, r) \<and> wrote E q (pad_bytes ?bs) r"
    if "writable E (padded_len (length c * 4)) q" "mData q \<noteq> None" for q
    using writeInplace_fill [of E ?bs "[]" q] that by (auto dest!: memcpy_in_Nil)
  from wrote_header [OF w this, where v = "of_nat (length c)"] small
  show "\<exists>q. writeWideVector widen E c p = Inr (OK, q) \<and> wrote E p (enc_pod (\<lambda>v. enc32 (widen v)) c) q"
    by (auto simp: writeWideVector_def enc_pod_def)
next
  fix E c p
  assume "readable E (enc_pod (\<lambda>v. enc32 (widen v)) c) p"
  then show "\<exists>q. readWideVector narrow E p = Inr (Inr c, q) \<and>
      advanced E p (length (enc_pod (\<lambda>v. enc32 (widen v)) c)) q"
    using parcel_codec.rd_ok [OF wide.pod_codec] unfolding readWideVector_def by blast
qed

end

section \<open>The codecs of the Parcel\<close>

lemma enc_scalar_nonempty:
  "enc32 w \<noteq> []" "enc64 d \<noteq> []" "enc_bool b \<noteq> []" "enc_char c \<noteq> []" "enc_byte k \<noteq> []"
  "enc_string16 str \<noteq> []" "enc_string8 str8 \<noteq> []"
proof -
  have word: "enc32 w \<noteq> []" for w using length_enc32 [of w] by fastforce
  then show "enc32 w \<noteq> []" "enc_bool b \<noteq> []" "enc_char c \<noteq> []" "enc_byte k \<noteq> []"
    by (simp_all add: enc_bool_def enc_char_def enc_byte_def)
  show "enc64 d \<noteq> []" using length_enc64 [of d] by fastforce
  show "enc_string16 str \<noteq> []" "enc_string8 str8 \<noteq> []"
    using word by (auto simp: enc_string16_def enc_string8_def split: option.splits)
qed

interpretation int32: parcel_element writeInt32 readInt32 enc32
  by unfold_locales (simp_all add: writeInt32_ok readInt32_ok enc_scalar_nonempty)

interpretation uint32: parcel_element writeUint32 readUint32 enc32
  using int32.parcel_element_axioms
  unfolding writeInt32_def [abs_def] readInt32_def [abs_def] writeUint32_def [abs_def] readUint32_def [abs_def] .

interpretation float32: parcel_element writeFloat readFloat enc32
  using int32.parcel_element_axioms
  unfolding writeInt32_def [abs_def] readInt32_def [abs_def] writeFloat_def [abs_def] readFloat_def [abs_def] .

interpretation int64: parcel_element writeInt64 readInt64 enc64
  by unfold_locales (simp_all add: writeInt64_ok readInt64_ok enc_scalar_nonempty)

interpretation uint64: parcel_element writeUint64 readUint64 enc64
  using int64.parcel_element_axioms
  unfolding writeInt64_def [abs_def] readInt64_def [abs_def] writeUint64_def [abs_def] readUint64_def [abs_def] .

interpretation float64: parcel_element writeDouble readDouble enc64
  using int64.parcel_element_axioms
  unfolding writeInt64_def [abs_def] readInt64_def [abs_def] writeDouble_def [abs_def] readDouble_def [abs_def] .

interpretation boolean: parcel_element writeBool readBool enc_bool
  by unfold_locales (simp_all add: writeBool_def writeInt32_ok enc_bool_def readBool_ok [unfolded enc_bool_def]
      enc_scalar_nonempty)

interpretation char16: parcel_element writeChar readChar enc_char
  by unfold_locales (simp_all add: writeChar_def writeInt32_ok enc_char_def readChar_ok [unfolded enc_char_def]
      enc_scalar_nonempty)

interpretation byte8: parcel_element writeByte readByte enc_byte
  by unfold_locales (simp_all add: writeByte_def writeInt32_ok enc_byte_def readByte_ok [unfolded enc_byte_def]
      enc_scalar_nonempty)

interpretation str8: parcel_element "\<lambda>E s. writeString8 E (Some s)" readString8 "\<lambda>s. enc_string8 (Some s)"
  by unfold_locales (simp_all add: writeString8_ok readString8_ok enc_scalar_nonempty)

lemma size_not_null:
  assumes "readable E (enc32 (of_nat n) @ bs) p" and "n \<le> length bs"
  shows "(of_nat n :: u32) \<noteq> kNullVectorSize"
proof -
  have "n \<le> INT32_MAX" using assms by (auto simp: readable_def parcel_inv_def)
  then have "sint (of_nat n :: u32) = int n" by (rule sint_of_nat_small)
  moreover have "sint kNullVectorSize = - 1" by (simp add: kNullVectorSize_def)
  ultimately show ?thesis by force
qed

lemma string16_not_null:
  assumes "readable E (enc_string16 (Some s)) p"
  shows "(of_nat (length s) :: u32) \<noteq> kNullVectorSize"
proof (rule size_not_null)
  show "readable E (enc32 (of_nat (length s)) @ pad_bytes (enc_chars s @ [0, 0])) p"
    using assms by (simp add: enc_string16_def)
  show "length s \<le> length (pad_bytes (enc_chars s @ [0, 0]))"
    using padded_len_ge [of "2 * length s + 2"] by (simp del: padded_len_ge)
qed

interpretation str16: parcel_nullable "\<lambda>E s. writeString16 E (Some s)" readString16
    "\<lambda>s. enc_string16 (Some s)" kNullVectorSize "\<lambda>s. of_nat (length s)" "\<lambda>s. pad_bytes (enc_chars s @ [0, 0])"
proof
  fix E :: env and s p
  show "enc_string16 (Some s) = enc32 (of_nat (length s)) @ pad_bytes (enc_chars s @ [0, 0])"
    by (simp add: enc_string16_def)
  show "(of_nat (length s) :: u32) \<noteq> kNullVectorSize" if "readable E (enc_string16 (Some s)) p"
    using that by (rule string16_not_null)
qed (simp_all add: writeString16_ok readString16_ok enc_scalar_nonempty)

text \<open>\<open>std::optional<String16>\<close>, vectors of it, and the nullable vector.\<close>

abbreviation "wrString16 \<equiv> \<lambda>E s. writeString16 E (Some s)"
abbreviation "encString16 \<equiv> \<lambda>s. enc_string16 (Some s)"
abbreviation "wrOptString16 \<equiv> writeNullable kNullVectorSize wrString16"
abbreviation "rdOptString16 \<equiv> readNullable kNullVectorSize readString16"
abbreviation "encOptString16 \<equiv> enc_nullable kNullVectorSize encString16"

interpretation opt_str16: parcel_element wrOptString16 rdOptString16 encOptString16
  by (intro parcel_element.intro parcel_element_axioms.intro str16.nullable_codec)
    (auto simp: enc_nullable_def enc_scalar_nonempty split: option.splits)

lemma opt_strings_not_null:
  assumes "readable E (enc_vector encOptString16 c) p"
  shows "(of_nat (length c) :: u32) \<noteq> kNullVectorSize"
  using assms opt_str16.length_elements size_not_null unfolding enc_vector_def by blast

interpretation opt_str16_vec: parcel_nullable "writeVector wrOptString16" "readVector rdOptString16"
    "enc_vector encOptString16" kNullVectorSize "\<lambda>c. of_nat (length c)" "\<lambda>c. concat (map encOptString16 c)"
proof (intro parcel_nullable.intro parcel_element.intro opt_str16.vector_codec)
  show "parcel_element_axioms (enc_vector encOptString16)"
    by unfold_locales (simp add: enc_vector_def enc_scalar_nonempty)
  show "parcel_nullable_axioms (enc_vector encOptString16) kNullVectorSize (\<lambda>c. of_nat (length c))
      (\<lambda>c. concat (map encOptString16 c))"
    by unfold_locales (simp add: enc_vector_def, rule opt_strings_not_null)
qed

interpretation opt_strings: parcel_codec "writeNullable kNullVectorSize (writeVector wrOptString16)"
    "readNullable kNullVectorSize (readVector rdOptString16)"
    "enc_nullable kNullVectorSize (enc_vector encOptString16)"
  by (rule opt_str16_vec.nullable_codec)

interpretation pod32: pod_element enc32 dec32 4
  by unfold_locales simp_all

interpretation pod64: pod_element enc64 dec64 8
  by unfold_locales simp_all

interpretation pod8: pod_element "\<lambda>b. [b]" hd 1
  by unfold_locales simp_all

interpretation int64_vec: parcel_codec "writePodVector enc64 8" "readPodVector dec64 8" "enc_pod enc64"
  by (rule pod64.pod_codec)

interpretation byte_vec: parcel_codec "writePodVector (\<lambda>b. [b]) 1" "readPodVector hd 1" "enc_pod (\<lambda>b. [b])"
  by (rule pod8.pod_codec)

interpretation wide_bool: wide_element "\<lambda>b. if b then 1 else 0" "\<lambda>w. w \<noteq> 0"
  by unfold_locales simp

interpretation wide_char: wide_element ucast "ucast :: u32 \<Rightarrow> u16"
  by unfold_locales (simp add: ucast_ucast_char)

interpretation bool_vec: parcel_codec "writeWideVector (\<lambda>b. if b then 1 else 0)" "readWideVector (\<lambda>w. w \<noteq> 0)"
    "enc_pod (\<lambda>b. enc32 (if b then 1 else 0))"
  by (rule wide_bool.wide_codec)

end
