(* ===== verification/Parcel_Theorems.thy ===== *)
theory Parcel_Theorems
  imports Parcel_Objects
begin

text \<open>
  The properties of the \<open>Parcel\<close>: memory safety of the writers under every allocation failure, what
  growing, reading and freeing do, the round trips of the \<open>writeData\<close> templates, the protection of object
  data, the accounting of references, and the places where the code departs from what it means to do.
\<close>

section \<open>No writer leaves its allocation\<close>

definition safe_run :: "env \<Rightarrow> 'a parcel_run \<Rightarrow> bool" where
  "safe_run E r = (case r of Inl _ \<Rightarrow> False
     | Inr (_, q) \<Rightarrow> parcel_inv E q \<and> mDataPos q \<le> mDataSize q)"

lemma safe_run_Inr [simp]: "safe_run E (Inr (a, q)) \<longleftrightarrow> parcel_inv E q \<and> mDataPos q \<le> mDataSize q"
  by (simp add: safe_run_def)







lemma growData_total: "parcel_inv E p \<Longrightarrow> \<exists>st q. growData E n p = Inr (st, q)"
  using growData_inv by blast










section \<open>Round trips\<close>

text \<open>C1: a nullable vector of nullable strings (\<open>std::optional<std::vector<std::optional<String16>>>\<close>) written
  with \<open>writeData\<close> at any position behind which nothing is indexed is read back by \<open>readData\<close> from that
  position, null entries and null vector included, and both leave the position at the same place.\<close>

theorem nullable_strings_roundtrip:
  assumes "writable E (length (enc_nullable kNullVectorSize (enc_vector encOptString16) v)) p"
    and "objects_within E (mDataPos p) (mObjects p)"
  shows "\<exists>q s. writeNullable kNullVectorSize (writeVector wrOptString16) E v p = Inr (OK, q) \<and>
    setDataPosition (mDataPos p) q = Inr (rewound (mDataPos p) q) \<and>
    readNullable kNullVectorSize (readVector rdOptString16) E (rewound (mDataPos p) q) = Inr (Inr v, s) \<and>
    mDataPos s = mDataPos q \<and> contents s = contents q"
  using assms by (rule opt_strings.roundtrip)

theorem nullable_strings_roundtrip_witness:
  "\<exists>q s. writeNullable kNullVectorSize (writeVector wrOptString16) linux_env (Some [Some [72, 105], None]) Parcel
      = Inr (OK, q) \<and>
    setDataPosition (mDataPos Parcel) q = Inr (rewound (mDataPos Parcel) q) \<and>
    readNullable kNullVectorSize (readVector rdOptString16) linux_env (rewound (mDataPos Parcel) q)
      = Inr (Inr (Some [Some [72, 105], None]), s) \<and>
    mDataPos s = mDataPos q \<and> contents s = contents q"
  by (rule nullable_strings_roundtrip)
    (simp_all add: writable_fresh no_objects_fresh enc_nullable_def enc_vector_def enc_string16_def padded_len_def)

text \<open>vectors of plain values are read back unchanged: 64-bit integers, which the code copies in one block behind
  their number, and booleans, which it widens to one \<open>int32_t\<close> each.\<close>

lemma vector_roundtrips:
  assumes "writable E (length (enc_pod enc64 v)) p" and "objects_within E (mDataPos p) (mObjects p)"
    and "writable E (length (enc_pod (\<lambda>b. enc32 (if b then 1 else 0)) w)) p'" and "objects_within E (mDataPos p') (mObjects p')"
  shows "(\<exists>q s. writePodVector enc64 8 E v p = Inr (OK, q) \<and>
      setDataPosition (mDataPos p) q = Inr (rewound (mDataPos p) q) \<and>
      readPodVector dec64 8 E (rewound (mDataPos p) q) = Inr (Inr v, s) \<and>
      mDataPos s = mDataPos q \<and> contents s = contents q) \<and>
    (\<exists>q s. writeWideVector (\<lambda>b. if b then 1 else 0) E w p' = Inr (OK, q) \<and>
      setDataPosition (mDataPos p') q = Inr (rewound (mDataPos p') q) \<and>
      readWideVector (\<lambda>x. x \<noteq> 0) E (rewound (mDataPos p') q) = Inr (Inr w, s) \<and>
      mDataPos s = mDataPos q \<and> contents s = contents q)"
  using int64_vec.roundtrip [OF assms(1,2)] bool_vec.roundtrip [OF assms(3,4)] by (rule conjI)


section \<open>Object data is protected\<close>

text \<open>A parcel of 64 bytes with two objects, indexed out of order.\<close>

definition two_objects :: parcel where
  "two_objects = Parcel\<lparr>mData := Some (replicate 64 0), mDataSize := 64, mDataCapacity := 64,
     mObjects := [32, 0], mObjectsCapacity := 2\<rparr>"

lemma two_objects_ok: "parcel_inv linux_env two_objects \<and> read_inv linux_env two_objects"
  by (simp add: two_objects_def Parcel_def parcel_inv_def buf_ok_def objects_within_def read_inv_def linux_env_def)



text \<open>C27: \<open>read\<close> never crashes and never sees object data: it either returns the requested bytes of the parcel, from
  a range inside the data that no object overlaps, and moves past their padding, or it refuses
  with \<open>BAD_VALUE\<close>, \<open>NOT_ENOUGH_DATA\<close> or \<open>PERMISSION_DENIED\<close>, and it refuses only when the range is bad.\<close>

theorem parcel_read_confined:
  assumes "parcel_inv E p" and "read_inv E p"
  shows "\<exists>r q. parcel_read E n p = Inr (r, q) \<and> read_frame p q \<and> parcel_inv E q \<and> read_inv E q \<and>
    (case r of
       Inl st \<Rightarrow> st \<in> {BAD_VALUE, NOT_ENOUGH_DATA, PERMISSION_DENIED} \<and>
         \<not> (n \<le> INT32_MAX \<and> mDataPos p + padded_len n \<le> mDataSize p \<and>
            clear_of_objects E (mDataPos p) (mDataPos p + padded_len n) p)
     | Inr bs \<Rightarrow> mDataPos p + padded_len n \<le> mDataSize p \<and>
         clear_of_objects E (mDataPos p) (mDataPos p + padded_len n) p \<and>
         bs = peek (mDataPos p) n (contents p) \<and> mDataPos q = mDataPos p + padded_len n)"
  using assms by (rule parcel_read_correct)

theorem parcel_read_confined_witness:
  "parcel_inv linux_env two_objects \<and> read_inv linux_env two_objects \<and>
   (\<exists>r q. parcel_read linux_env 4 two_objects = Inr (r, q) \<and> read_frame two_objects q)"
  using two_objects_ok parcel_read_confined [of linux_env two_objects 4] by blast

text \<open>the in-place insertion sort of the object index computes the sorted list of its entries.\<close>

lemma object_index_sort: "insertion_sort objs = sort objs"
  by (rule insertion_sort_eq)

section \<open>Memory\<close>



text \<open>\<open>setDataSize\<close> always returns and keeps the capacity invariant, and on success the data has the
  requested size, provided data owned by someone else is not cut short.\<close>

lemma setDataSize_safe:
  assumes inv: "parcel_inv E p" and cut: "mOwner p \<longrightarrow> sz = 0 \<or> mDataSize p \<le> sz"
  shows "\<exists>st q. setDataSize E sz p = Inr (st, q) \<and> parcel_inv E q \<and> (st = NO_ERROR \<longrightarrow> mDataSize q = sz)"
proof (cases "sz > INT32_MAX")
  case True
  with inv show ?thesis by (simp add: setDataSize_def)
next
  case False
  obtain st q where run: "continueWrite E sz p = Inr (st, q)" "parcel_inv E q"
    "st = NO_ERROR \<longrightarrow> mDataSize q \<le> sz \<and> sz \<le> mDataCapacity q"
    using continueWrite_inv [OF inv cut] by blast
  then have "st = NO_ERROR \<Longrightarrow> parcel_inv E (q\<lparr>mDataSize := sz\<rparr>)"
    by (auto simp: parcel_inv_def buf_ok_def split: option.splits)
  with run False show ?thesis by (simp add: setDataSize_def)
qed


text \<open>cutting data owned by someone else through an object leaves the object in the index although its bytes are
  past the new block, so freeing the parcel reads outside the block.\<close>

lemma owner_cut_faults:
  assumes own: "mOwner p" and objs: "mObjects p = [off]" and inv: "parcel_inv E p"
    and noom: "\<forall>k. \<not> oom E k" and cut: "off < desired" "desired < off + obj_size E" "desired < mDataSize p"
  shows "\<exists>q. continueWrite E desired p = Inr (NO_ERROR, q) \<and> mObjects q = [off] \<and>
    mDataCapacity q = desired \<and> freeData E q = Inl Fault"
proof -
  obtain b where b: "mData p = Some b" using inv objs by (cases "mData p") (auto simp: parcel_inv_def buf_ok_def)
  obtain es where acq: "acquireObjects E 1 p = Inr (p\<lparr>effects := effects p @ es\<rparr>)"
    using acquireObjects_inv [OF inv] by blast
  have le: "desired \<le> INT32_MAX" "0 < desired" using inv cut by (auto simp: parcel_inv_def)
  have len: "length b = mDataCapacity p" "mDataSize p \<le> mDataCapacity p"
    using inv b by (auto simp: parcel_inv_def buf_ok_def)
  have "continueWrite E desired p = takePossession E desired 1 p"
    using own le cut objs by (simp add: continueWrite_def objectsToKeep_def)
  moreover have "\<exists>q. takePossession E desired 1 p = Inr (NO_ERROR, q) \<and> mObjects q = [off] \<and>
      mDataCapacity q = desired \<and> \<not> mOwner q \<and> (\<exists>d. mData q = Some d \<and> length d = desired)"
    using noom acq b cut objs len by (simp add: takePossession_def malloc_def)
  moreover have "freeData E q = Inl Fault"
    if "mObjects q = [off]" "\<not> mOwner q" "mData q = Some d" "length d = desired" for q d
    using that cut by (simp add: freeData_def freeDataNoInit_def releaseObjects_def flat_at_def)
  ultimately show ?thesis by metis
qed


text \<open>Freeing a sensitive parcel overwrites the first \<open>mDataSize\<close> bytes of its block and only those: the bytes
  between the size and the capacity are given back as they are.\<close>

lemma sensitive_free_zeroes_size:
  assumes "parcel_inv E p" and "\<not> mOwner p" and "mData p = Some b"
  shows "\<exists>q es. freeDataNoInit E (markSensitive p) = Inr q \<and>
    effects q = effects p @ es @ [FreeData (replicate (mDataSize p) 0 @ drop (mDataSize p) b)]"
proof -
  have inv: "parcel_inv E (markSensitive p)"
    using assms(1,3) by (simp add: parcel_inv_def buf_ok_def markSensitive_def)
  obtain es where "object_effects E release_object (mData (markSensitive p)) (rev (mObjects (markSensitive p))) = Inr es"
    using object_effects_inv [OF inv, of "rev (mObjects (markSensitive p))" release_object] by auto
  from freeDataNoInit_owned [OF _ inv _ this, of b] assms(2,3) show ?thesis
    by (auto simp: markSensitive_def)
qed

text \<open>writing with the position past the grown block leaves the block: \<open>growData\<close> grows from the size and not
  from the position, and the copy that follows it does not check again.\<close>

lemma write_past_end_faults:
  assumes inv: "parcel_inv E p" and own: "\<not> mOwner p" and dat: "mData p \<noteq> None" and noom: "\<forall>k. \<not> oom E k"
    and n: "0 < length bs" "length bs \<le> 8"
    and past: "mDataCapacity p \<le> max (((mDataSize p + length bs) * 3) div 2) 128"
      "max (((mDataSize p + length bs) * 3) div 2) 128 < mDataPos p" "mDataPos p \<le> INT32_MAX"
  shows "writeAligned E bs p = Inl Fault"
proof -
  define d where "d = max (((mDataSize p + length bs) * 3) div 2) 128"
  obtain b where b: "mData p = Some b" "length b = mDataCapacity p"
    using inv dat by (auto simp: parcel_inv_def buf_ok_def)
  have sz: "mDataSize p < ((mDataSize p + length bs) * 3) div 2" using n(1) by (rule three_halves_less)
  have d: "d \<le> INT32_MAX" "mDataSize p \<le> d" "mDataCapacity p \<le> d" "d < mDataPos p"
    using past sz by (auto simp: d_def)
  have small: "mDataSize p + length bs \<le> INT32_MAX + 8" using inv n by (simp add: parcel_inv_def)
  moreover from this have "\<not> SIZE_MAX - mDataSize p < length bs" by linarith
  ultimately have "growData E (length bs) p = continueWrite E d p"
    using n sz by (simp add: growData_def Let_def d_def)
  also have "\<dots> = resizeOwned E d p"
    using d own dat by (simp add: continueWrite_def objectsToKeep_all dropObjects_def)
  finally have grow: "growData E (length bs) p = resizeOwned E d p" .
  have "\<exists>q b'. resizeOwned E d p = Inr (NO_ERROR, q) \<and> mData q = Some b' \<and> length b' = d \<and> d \<le> mDataPos q"
  proof (cases "d > mDataCapacity p")
    case True
    with noom b d show ?thesis
      by (auto simp: resizeOwned_def reallocZeroFree_def realloc_def malloc_def)
  next
    case False
    with d b show ?thesis by (auto simp: resizeOwned_def min_def)
  qed
  then obtain q b' where "resizeOwned E d p = Inr (NO_ERROR, q)" "mData q = Some b'" "length b' = d" "d \<le> mDataPos q"
    by blast
  moreover from this n(1) have "\<not> mDataPos q + length bs \<le> length b'" by linarith
  moreover from this calculation(2) have "restart_write bs q = Inl Fault"
    by (simp add: restart_write_def memcpy_in_def)
  ultimately show ?thesis
    using grow past(3) d n by (simp add: writeAligned_def)
qed


text \<open>a \<open>write\<close> so large that one and a half times the resulting size passes \<open>INT32_MAX\<close> is dropped without
  notice: \<open>writeInplace\<close> returns null without setting \<open>mError\<close>, and \<open>write\<close> returns \<open>mError\<close>, which is
  \<open>NO_ERROR\<close>, with the parcel unchanged.\<close>

lemma large_write_dropped:
  assumes inv: "parcel_inv E p" "mDataPos p \<le> mDataSize p" and ok: "mError p = NO_ERROR" and n: "n \<le> INT32_MAX"
    and full: "mDataPos p + padded_len n > mDataCapacity p"
    and large: "((mDataSize p + padded_len n) * 3) div 2 > INT32_MAX"
  shows "parcel_write E dat n p = Inr (NO_ERROR, p)"
proof -
  have small: "mDataSize p \<le> INT32_MAX" "mDataPos p \<le> INT32_MAX" using inv by (auto simp: parcel_inv_def)
  have pad: "padded_len n \<le> INT32_MAX + 4" using n padded_len_less [of n] by linarith
  have wrap: "size_add (mDataPos p) (padded_len n) = mDataPos p + padded_len n" using small pad by simp
  have "growData E (padded_len n) p = Inr (st, q) \<Longrightarrow> st \<noteq> NO_ERROR \<and> q = p" for st q
    using large by (auto simp: growData_def continueWrite_def Let_def split: if_splits)
  then obtain st where "growData E (padded_len n) p = Inr (st, p)" "st \<noteq> NO_ERROR"
    using growData_total [OF inv(1)] by metis
  with n wrap full ok show ?thesis
    by (auto simp: parcel_write_def writeInplace_def)
qed


section \<open>Objects\<close>

text \<open>an object is only ever read from an indexed offset, and every indexed object is found. \<open>readObject\<close> returns
  a non-null object (or any object when null ones are indexed too) only if the position is in the object index and the
  object lies inside the data, and then it is the object stored there; and on a sorted index the search from the hint,
  forwards and then backwards, finds it wherever the hint stands.\<close>

lemma readObject_exact:
  assumes "parcel_inv E p" and "read_inv E p" and "env_ok E" and "nullMetaData \<or> obj_cookie f \<noteq> 0 \<or> obj_binder f \<noteq> 0"
  shows "((\<exists>q. readObject E nullMetaData p = Inr (Some f, q)) \<longrightarrow>
      mDataPos p \<in> set (mObjects p) \<and> mDataPos p + obj_size E \<le> mDataSize p \<and>
      f = obj_dec E (peek (mDataPos p) (obj_size E) (contents p))) \<and>
    (sorted (mObjects p) \<and> mDataPos p \<in> set (mObjects p) \<and> mDataPos p + obj_size E \<le> mDataSize p \<and>
      f = obj_dec E (peek (mDataPos p) (obj_size E) (contents p)) \<longrightarrow>
      (\<exists>q. readObject E nullMetaData p = Inr (Some f, q)))"
  using readObject_sound [OF assms(1-3) _ assms(4)] readObject_complete [OF assms(1-3), of nullMetaData] by blast


text \<open>C29: writing an object where no other object lies keeps the reference accounting: with allocations that succeed
  \<open>writeObject\<close> stores the object, indexes it exactly when it is non-null or null ones are indexed, and takes exactly the
  references the index then holds.\<close>

theorem writeObject_keeps_refs:
  assumes w: "writable E (obj_size E) p" and ok: "env_ok E" and refs: "refs_ok E p"
    and n: "length (mObjects p) \<le> INT32_MAX" and fds: "obj_type val = T_FD E \<longrightarrow> mAllowFds p"
    and clear: "clear_of_objects E (mDataPos p) (mDataPos p + obj_size E) p"
  shows "\<exists>q. writeObject E val nullMetaData p = Inr (NO_ERROR, q) \<and> refs_ok E q \<and> parcel_inv E q \<and>
    contents q = poke (mDataPos p) (obj_enc E val) (contents p) \<and>
    mObjects q = mObjects p @ (if nullMetaData \<or> obj_binder val \<noteq> 0 then [mDataPos p] else [])"
proof -
  have own: "\<not> mOwner p" using refs by (simp add: refs_ok_def)
  obtain q where q: "writeObject E val nullMetaData p = Inr (NO_ERROR, q)" "object_written E val nullMetaData p q"
    using writeObject_ok [OF w ok own n fds] by blast
  then have "refs_ok E q" using object_written_refs [OF _ _ ok refs clear] w by (auto simp: writable_def)
  with q show ?thesis by (auto simp: object_written_def split: if_splits)
qed

definition binder_object :: flat where
  "binder_object = \<lparr>obj_type = 0x73622a85, obj_flags = 0, obj_binder = 1, obj_cookie = 7\<rparr>"

lemma refs_ok_Parcel: "refs_ok E Parcel"
  by (simp add: refs_ok_def held_def objects_within_def Parcel_def)

theorem writeObject_keeps_refs_witness:
  "\<exists>q. writeObject linux_env binder_object False Parcel = Inr (NO_ERROR, q) \<and> refs_ok linux_env q \<and>
    parcel_inv linux_env q \<and>
    contents q = poke (mDataPos Parcel) (obj_enc linux_env binder_object) (contents Parcel) \<and>
    mObjects q = mObjects Parcel @ (if False \<or> obj_binder binder_object \<noteq> 0 then [mDataPos Parcel] else [])"
proof (rule writeObject_keeps_refs [OF _ env_ok_linux refs_ok_Parcel])
  show "writable linux_env (obj_size linux_env) Parcel" by (rule writable_fresh) (simp add: linux_env_def)
qed (simp_all add: Parcel_def clear_of_objects_def)

text \<open>C30: freeing a parcel gives every reference back: after \<open>freeData\<close> the log of references taken and released balances
  for every local object and every handle.\<close>

theorem freeData_releases_all:
  assumes "parcel_inv E p" and "env_ok E" and "refs_ok E p"
  shows "\<exists>q. freeData E p = Inr q \<and> (\<forall>k. balance (effects q) k = 0) \<and> mObjects q = [] \<and> contents q = []"
  using assms by (rule freeData_balance)

theorem freeData_releases_all_witness:
  "\<exists>q r. writeObject linux_env binder_object False Parcel = Inr (NO_ERROR, q) \<and> mObjects q = [0] \<and>
    freeData linux_env q = Inr r \<and> (\<forall>k. balance (effects r) k = 0)"
proof -
  have w: "writable linux_env (obj_size linux_env) Parcel" by (rule writable_fresh) (simp add: linux_env_def)
  obtain q where q: "writeObject linux_env binder_object False Parcel = Inr (NO_ERROR, q)"
    "object_written linux_env binder_object False Parcel q"
    using writeObject_ok [OF w env_ok_linux, of binder_object False] by (auto simp: Parcel_def)
  moreover have "refs_ok linux_env q"
    using object_written_refs [OF _ _ env_ok_linux refs_ok_Parcel _ q(2)]
    by (simp add: Parcel_def clear_of_objects_def parcel_inv_def buf_ok_def objects_within_def)
  ultimately show ?thesis
    using freeData_releases_all [of linux_env q] env_ok_linux
    by (auto simp: object_written_def binder_object_def Parcel_def)
qed

subsection \<open>Data from the driver\<close>

lemma objects_acceptableD:
  assumes "objects_acceptable E buf m offs = Inr True" and "length buf \<le> INT32_MAX"
  shows "sorted_wrt (\<lambda>a b. a + obj_size E \<le> b) offs \<and> objects_within E (length buf) offs \<and>
    (\<forall>off\<in>set offs. m \<le> off \<and>
       obj_type (obj_dec E (peek off (obj_size E) buf)) \<in> {T_BINDER E, T_HANDLE E, T_FD E})"
  using assms
proof (induction offs arbitrary: m)
  case Nil
  then show ?case by (simp add: objects_within_def)
next
  case (Cons off offs)
  have off: "m \<le> off" "off + obj_size E \<le> length buf"
    "obj_type (obj_dec E (peek off (obj_size E) buf)) \<in> {T_BINDER E, T_HANDLE E, T_FD E}"
    "objects_acceptable E buf (off + obj_size E) offs = Inr True"
    using Cons.prems by (auto simp: flat_at_def bind_run_eq_Inr split: if_splits)
  note ih = Cons.IH [OF off(4) Cons.prems(2)]
  have "\<forall>y\<in>set offs. m \<le> y" using ih off(1) by fastforce
  with ih off(1-3) show ?case by (auto simp: objects_within_def)
qed

lemma scanForFds_fields:
  assumes "scanForFds E p = Inr q"
  shows "\<exists>b. q = p\<lparr>mHasFds := b, mFdsKnown := True\<rparr>"
proof -
  obtain r :: "status_t + bool" where r: "q = (case r of Inl _ \<Rightarrow> p\<lparr>mFdsKnown := True\<rparr> | Inr b \<Rightarrow> p\<lparr>mHasFds := b, mFdsKnown := True\<rparr>)"
    using assms by (auto simp: scanForFds_def bind_run_eq_Inr)
  have eq: "p\<lparr>mFdsKnown := True\<rparr> = p\<lparr>mHasFds := mHasFds p, mFdsKnown := True\<rparr>" by (cases p) simp
  show ?thesis
  proof (cases r)
    case Inl
    show ?thesis unfolding r Inl sum.case by (rule exI, rule eq)
  next
    case Inr
    show ?thesis unfolding r Inr sum.case by blast
  qed
qed

text \<open>data taken from the driver ends up with an index that is sorted, without overlaps, inside the data and of known
  object types only: either all offsets the driver gave pass, or the index is emptied. The parcel is then in the state
  every read relies on.\<close>

lemma ipcSetDataReference_index:
  assumes run: "ipcSetDataReference E dat objects relFunc p = Inr q" and len: "length dat \<le> INT32_MAX"
  shows "parcel_inv E q \<and> read_inv E q \<and> mOwner q \<and> (mObjects q = objects \<or> mObjects q = []) \<and>
    sorted_wrt (\<lambda>a b. a + obj_size E \<le> b) (mObjects q) \<and>
    (\<forall>off\<in>set (mObjects q). obj_type (obj_dec E (peek off (obj_size E) dat)) \<in> {T_BINDER E, T_HANDLE E, T_FD E})"
proof -
  obtain p' ok r where p': "freeData E p = Inr p'" and ok: "objects_acceptable E dat 0 objects = Inr ok"
    and scan: "scanForFds E r = Inr q"
    and r: "mData r = Some dat" "mDataSize r = length dat" "mDataCapacity r = length dat"
      "mObjects r = (if ok then objects else [])" "mObjectsCapacity r = length objects" "mOwner r"
      "mDataPos r = mDataPos p'" "mNextObjectHint r = mNextObjectHint p'" "mObjectsSorted r = mObjectsSorted p'"
    using run by (auto simp: ipcSetDataReference_def bind_run_eq_Inr Let_def split: if_splits)
  have zero: "mDataPos p' = 0" "mNextObjectHint p' = 0" "\<not> mObjectsSorted p'"
    using p' by (auto simp: freeData_def bind_run_eq_Inr initState_def)
  have q: "mData q = mData r" "mDataSize q = mDataSize r" "mDataCapacity q = mDataCapacity r"
    "mObjects q = mObjects r" "mObjectsCapacity q = mObjectsCapacity r" "mOwner q = mOwner r"
    "mDataPos q = mDataPos r" "mNextObjectHint q = mNextObjectHint r" "mObjectsSorted q = mObjectsSorted r"
    using scanForFds_fields [OF scan] by auto
  show ?thesis
    using objects_acceptableD [OF _ len, of E 0 objects] ok len zero
    by (cases ok) (auto simp: q r parcel_inv_def buf_ok_def read_inv_def objects_within_def)
qed

lemma dec32_zeros [simp]: "dec32 (replicate 4 0) = 0"
  by (simp add: dec32_def numeral_eq_Suc)


text \<open>on a parcel whose index was emptied because the driver's objects were not acceptable, writing an object past the end
  of the data stores through a null index: \<open>enoughObjects\<close> is decided from the old index capacity, and taking possession of
  the data then drops the index.\<close>

lemma rejected_index_write_faults:
  assumes inv: "parcel_inv E p" and own: "mOwner p" and idx: "mObjects p = []" "0 < mObjectsCapacity p"
    and w: "writable E (obj_size E) p" and ok: "env_ok E" and pos: "mDataPos p = mDataSize p"
    and val: "obj_binder val \<noteq> 0" "obj_type val \<noteq> T_FD E"
  shows "writeObject E val nullMetaData p = Inl Fault"
proof -
  have len: "length (obj_enc E val) = obj_size E" "0 < obj_size E" using ok by (auto simp: env_ok_def)
  have full: "mDataSize p = mDataCapacity p" using inv own by (simp add: parcel_inv_def)
  have wrap: "size_add (mDataPos p) (obj_size E) = mDataPos p + obj_size E"
    using writable_small [OF w] by simp
  define d where "d = max (((mDataSize p + obj_size E) * 3) div 2) 128"
  obtain q where g: "growData E (obj_size E) p = Inr (NO_ERROR, q)" "same_frame p q"
    "mDataSize p + obj_size E \<le> mDataCapacity q" "parcel_inv E q"
    using growData_ok [OF w len(2)] by blast
  have "0 < d" "mDataSize p \<le> d" using three_halves [of "mDataSize p + obj_size E"] by (auto simp: d_def)
  then have "continueWrite E d p = (if d > INT32_MAX then Inr (BAD_VALUE, p) else takePossession E d 0 p)"
    using own idx by (simp add: continueWrite_def objectsToKeep_all)
  moreover have "continueWrite E d p = Inr (NO_ERROR, q)"
    using g(1) by (auto simp: growData_def Let_def d_def split: if_splits)
  ultimately have "takePossession E d 0 p = Inr (NO_ERROR, q)" by (auto split: if_splits)
  then have cap: "mObjectsCapacity q = 0"
    by (auto simp: takePossession_def Let_def split: option.splits if_splits)
  have pos': "mDataPos q = mDataPos p" "mObjects q = []" using g(2) idx by (auto simp: same_frame_def)
  obtain b where b: "mData q = Some b" "length b = mDataCapacity q"
    using g(3,4) len(2) same_frame_data [OF g(4)] by (auto simp: parcel_inv_def buf_ok_def)
  have "restart_write_object E val nullMetaData q = Inl Fault"
    using b g(3) pos pos' len cap val by (simp add: restart_write_object_def memcpy_in_def Let_def)
  moreover have "\<not> mDataPos p + obj_size E \<le> mDataCapacity p" using pos full len(2) by linarith
  ultimately show ?thesis
    using g(1) wrap idx by (simp add: writeObject_def Let_def)
qed


lemma fd_in_range_correct:
  assumes inv: "parcel_inv E p" and sz: "0 < obj_size E" and lim: "limit \<le> mDataSize p"
    and objs: "objects_within E INT32_MAX objs" and srt: "srt \<longrightarrow> sorted objs"
  shows "fd_in_range E (mData p) srt offset limit objs =
    Inr (list_ex (\<lambda>off. offset \<le> off \<and> off + obj_size E \<le> limit \<and> obj_type (object_at E p off) = T_FD E) objs)"
  using objs srt
proof (induction objs)
  case Nil
  then show ?case by simp
next
  case (Cons off offs)
  have wrap: "size_add off (obj_size E) = off + obj_size E" using Cons.prems(1) by (simp add: objects_within_def)
  have tl: "objects_within E INT32_MAX offs" "srt \<longrightarrow> sorted offs" using Cons.prems by (auto simp: objects_within_def)
  consider (before) "off < offset" | (beyond) "offset \<le> off" "limit < off + obj_size E"
    | (inside) "offset \<le> off" "off + obj_size E \<le> limit" by linarith
  then show ?case
  proof cases
    case before
    with Cons.IH [OF tl] show ?thesis by simp
  next
    case beyond
    have "\<not> off' + obj_size E \<le> limit" if "srt" "off' \<in> set offs" for off'
      using Cons.prems(2) beyond that by fastforce
    with beyond Cons.IH [OF tl] wrap show ?thesis by (auto simp: list_ex_iff)
  next
    case inside
    with lim have "off + obj_size E \<le> mDataSize p" by linarith
    from flat_at_contents [OF inv this sz] inside Cons.IH [OF tl] wrap show ?thesis
      by (simp add: object_at_def)
  qed
qed

text \<open>\<open>hasFileDescriptorsInRange\<close> answers whether some indexed object that lies wholly in the range is a descriptor, for
  every range inside the data, as long as \<open>mObjectsSorted\<close> tells the truth about the index.\<close>

lemma hasFileDescriptorsInRange_correct:
  assumes inv: "parcel_inv E p" "read_inv E p" and ok: "env_ok E" and range: "offset + len \<le> mDataSize p"
  shows "hasFileDescriptorsInRange E offset len p = Inr (Inr (list_ex (\<lambda>off. offset \<le> off \<and>
    off + obj_size E \<le> offset + len \<and> obj_type (object_at E p off) = T_FD E) (mObjects p)))"
proof -
  have small: "offset + len \<le> INT32_MAX" using inv(1) range by (simp add: parcel_inv_def)
  have "objects_within E INT32_MAX (mObjects p)" using inv(1) by (auto simp: parcel_inv_def intro: objects_within_mono)
  moreover have "0 < obj_size E" "mObjectsSorted p \<longrightarrow> sorted (mObjects p)"
    using ok inv(2) by (auto simp: env_ok_def read_inv_def)
  ultimately show ?thesis
    using fd_in_range_correct [OF inv(1) _ range] small range
    by (simp add: hasFileDescriptorsInRange_def)
qed


text \<open>\<open>appendFrom\<close> copies the requested bytes to the position, but adds their number to the size whatever the position is:
  when the position is before the end, the contents end with as many bytes of the block that nothing has written.\<close>

lemma appendFrom_copies:
  assumes inv: "parcel_inv E p" "parcel_inv E other" and pos: "mDataPos p \<le> mDataSize p" "mData p = Some b"
    and src: "mObjects other = []" "mSession other = mSession p" "offset + len \<le> mDataSize other" "0 < len"
    and room: "mDataSize p + len \<le> mDataCapacity p"
  shows "\<exists>q. appendFrom E dup other offset len p = Inr (NO_ERROR, q) \<and> mDataPos q = mDataPos p + len \<and>
    mDataSize q = mDataSize p + len \<and>
    contents q = poke (mDataPos p) (peek offset len (contents other)) (take (mDataSize p + len) b)"
proof -
  have small: "mDataCapacity p \<le> INT32_MAX" "mDataCapacity other \<le> INT32_MAX" "mDataSize other \<le> mDataCapacity other"
    "length b = mDataCapacity p"
    using inv pos(2) by (auto simp: parcel_inv_def buf_ok_def)
  have out: "memcpy_out offset len other = Inr (peek offset len (contents other))"
    using memcpy_out_contents [OF inv(2) src(3)] .
  have len: "length (peek offset len (contents other)) = len"
    using src(3) length_contents [OF inv(2)] by simp
  have "take (mDataSize p + len) (poke (mDataPos p) (peek offset len (contents other)) b)
      = poke (mDataPos p) (peek offset len (contents other)) (take (mDataSize p + len) b)"
    using len pos(1) room small by (intro take_poke_inside) auto
  with out len src room pos small show ?thesis
    by (auto simp: appendFrom_def memcpy_in_def Let_def objects_in_range_def
        contents_def [of "mDataSize_update _ _"])
qed


end
