(* ===== verification/Linked_List.thy ===== *)
theory Linked_List
  imports Prelude
begin

text \<open>
  The intrusive doubly linked list of src/libs/binder/MemoryDealer.cpp (class LinkedList).
  The template parameter NODE is the record \<open>node\<close> with an arbitrary extension: the nodes
  live in a store from addresses to nodes, and every dereference of a pointer that holds no node
  is a \<open>Fault\<close>. \<open>represents l st xs\<close> says that the links of the store form exactly
  the list of addresses \<open>xs\<close>; each operation is shown to implement the list operation
  of its name, with the payload of every node untouched.
\<close>

section \<open>Nodes and the list\<close>

type_synonym addr = nat

record node =
  nd_prev :: "addr option"
  nd_next :: "addr option"

type_synonym 'a store = "addr \<Rightarrow> 'a node_scheme option"

record linked_list =
  mFirst :: "addr option"
  mLast :: "addr option"

definition deref :: "'a store \<Rightarrow> addr \<Rightarrow> ('a node_scheme \<Rightarrow> crash + 'b) \<Rightarrow> crash + 'b" where
  "deref st p f = (case st p of None \<Rightarrow> Inl Fault | Some c \<Rightarrow> f c)"

definition assign :: "'a store \<Rightarrow> addr \<Rightarrow> ('a node_scheme \<Rightarrow> 'a node_scheme) \<Rightarrow> crash + 'a store" where
  "assign st p f = deref st p (\<lambda>c. Inr (st(p \<mapsto> f c)))"

lemma deref_Some [simp, run_simps]: "st p = Some c \<Longrightarrow> deref st p f = f c"
  by (simp add: deref_def)

lemma assign_Some [simp, run_simps]: "st p = Some c \<Longrightarrow> assign st p f = Inr (st(p \<mapsto> f c))"
  by (simp add: assign_def)

definition emptyList :: linked_list where
  "emptyList = \<lparr>mFirst = None, mLast = None\<rparr>"

definition isEmpty :: "linked_list \<Rightarrow> bool" where
  "isEmpty l \<longleftrightarrow> mFirst l = None"

definition insertAfter :: "linked_list \<Rightarrow> 'a store \<Rightarrow> addr \<Rightarrow> addr \<Rightarrow> crash + linked_list \<times> 'a store" where
  "insertAfter l st nd newNode =
     deref st nd (\<lambda>c.
     bind_run (assign st newNode (\<lambda>n. n\<lparr>nd_prev := Some nd, nd_next := nd_next c\<rparr>)) (\<lambda>st.
     bind_run (case nd_next c of
                 None \<Rightarrow> Inr (l\<lparr>mLast := Some newNode\<rparr>, st)
               | Some nx \<Rightarrow> bind_run (assign st nx (\<lambda>n. n\<lparr>nd_prev := Some newNode\<rparr>)) (\<lambda>st. Inr (l, st)))
     (\<lambda>(l, st). bind_run (assign st nd (\<lambda>n. n\<lparr>nd_next := Some newNode\<rparr>)) (\<lambda>st. Inr (l, st)))))"

definition insertBefore :: "linked_list \<Rightarrow> 'a store \<Rightarrow> addr \<Rightarrow> addr \<Rightarrow> crash + linked_list \<times> 'a store" where
  "insertBefore l st nd newNode =
     deref st nd (\<lambda>c.
     bind_run (assign st newNode (\<lambda>n. n\<lparr>nd_prev := nd_prev c, nd_next := Some nd\<rparr>)) (\<lambda>st.
     bind_run (case nd_prev c of
                 None \<Rightarrow> Inr (l\<lparr>mFirst := Some newNode\<rparr>, st)
               | Some pv \<Rightarrow> bind_run (assign st pv (\<lambda>n. n\<lparr>nd_next := Some newNode\<rparr>)) (\<lambda>st. Inr (l, st)))
     (\<lambda>(l, st). bind_run (assign st nd (\<lambda>n. n\<lparr>nd_prev := Some newNode\<rparr>)) (\<lambda>st. Inr (l, st)))))"

definition insertHead :: "linked_list \<Rightarrow> 'a store \<Rightarrow> addr \<Rightarrow> crash + linked_list \<times> 'a store" where
  "insertHead l st newNode =
     (case mFirst l of
        None \<Rightarrow> bind_run (assign st newNode (\<lambda>n. n\<lparr>nd_prev := None, nd_next := None\<rparr>))
                 (\<lambda>st. Inr (l\<lparr>mFirst := Some newNode, mLast := Some newNode\<rparr>, st))
      | Some f \<Rightarrow>
          bind_run (assign st newNode (\<lambda>n. n\<lparr>nd_prev := None, nd_next := Some f\<rparr>)) (\<lambda>st.
          bind_run (assign st f (\<lambda>n. n\<lparr>nd_prev := Some newNode\<rparr>)) (\<lambda>st.
          Inr (l\<lparr>mFirst := Some newNode\<rparr>, st))))"

definition insertTail :: "linked_list \<Rightarrow> 'a store \<Rightarrow> addr \<Rightarrow> crash + linked_list \<times> 'a store" where
  "insertTail l st newNode =
     (case mLast l of
        None \<Rightarrow> insertHead l st newNode
      | Some t \<Rightarrow>
          bind_run (assign st newNode (\<lambda>n. n\<lparr>nd_prev := Some t, nd_next := None\<rparr>)) (\<lambda>st.
          bind_run (assign st t (\<lambda>n. n\<lparr>nd_next := Some newNode\<rparr>)) (\<lambda>st.
          Inr (l\<lparr>mLast := Some newNode\<rparr>, st))))"

definition remove :: "linked_list \<Rightarrow> 'a store \<Rightarrow> addr \<Rightarrow> crash + linked_list \<times> 'a store" where
  "remove l st nd =
     deref st nd (\<lambda>c.
     bind_run (case nd_prev c of
                 None \<Rightarrow> Inr (l\<lparr>mFirst := nd_next c\<rparr>, st)
               | Some pv \<Rightarrow> bind_run (assign st pv (\<lambda>n. n\<lparr>nd_next := nd_next c\<rparr>)) (\<lambda>st. Inr (l, st)))
     (\<lambda>(l, st). case nd_next c of
                 None \<Rightarrow> Inr (l\<lparr>mLast := nd_prev c\<rparr>, st)
               | Some nx \<Rightarrow> bind_run (assign st nx (\<lambda>n. n\<lparr>nd_prev := nd_prev c\<rparr>)) (\<lambda>st. Inr (l, st))))"

section \<open>The list of addresses a store represents\<close>

fun head_or :: "addr option \<Rightarrow> addr list \<Rightarrow> addr option" where
  "head_or n [] = n"
| "head_or n (x # xs) = Some x"

fun last_or :: "addr option \<Rightarrow> addr list \<Rightarrow> addr option" where
  "last_or p [] = p"
| "last_or p (x # xs) = last_or (Some x) xs"

fun segment :: "'a store \<Rightarrow> addr option \<Rightarrow> addr list \<Rightarrow> addr option \<Rightarrow> bool" where
  "segment st p [] n = True"
| "segment st p (x # xs) n =
     (case st x of
        None \<Rightarrow> False
      | Some c \<Rightarrow> nd_prev c = p \<and> nd_next c = head_or n xs \<and> segment st (Some x) xs n)"

definition represents :: "linked_list \<Rightarrow> 'a store \<Rightarrow> addr list \<Rightarrow> bool" where
  "represents l st xs \<longleftrightarrow> distinct xs \<and> segment st None xs None \<and>
     mFirst l = head_or None xs \<and> mLast l = last_or None xs"

definition same_payload :: "'a store \<Rightarrow> 'a store \<Rightarrow> bool" where
  "same_payload st st' \<longleftrightarrow> (\<forall>p. map_option node.more (st' p) = map_option node.more (st p))"

lemma head_or_append [simp]: "head_or n (xs @ ys) = head_or (head_or n ys) xs"
  by (cases xs) auto

lemma last_or_append [simp]: "last_or p (xs @ ys) = last_or (last_or p xs) ys"
  by (induction xs arbitrary: p) auto

lemma segment_append [simp]:
  "segment st p (xs @ ys) n \<longleftrightarrow> segment st p xs (head_or n ys) \<and> segment st (last_or p xs) ys n"
  by (induction xs arbitrary: p) (auto split: option.splits)

lemma segment_frame [simp]:
  "x \<notin> set xs \<Longrightarrow> segment (st(x := c)) p xs n = segment st p xs n"
  by (induction xs arbitrary: p) (auto split: option.splits)

lemma segment_alive: "segment st p xs n \<Longrightarrow> x \<in> set xs \<Longrightarrow> \<exists>c. st x = Some c"
  by (induction xs arbitrary: p) (auto split: option.splits)

lemma same_payload_refl [simp]: "same_payload st st"
  by (simp add: same_payload_def)

lemma same_payload_trans: "same_payload st st1 \<Longrightarrow> same_payload st1 st2 \<Longrightarrow> same_payload st st2"
  by (simp add: same_payload_def)

lemma last_or_cases: "last_or None xs = None \<longleftrightarrow> xs = []"
  by (cases xs rule: rev_cases) auto

lemma last_or_Some: "last_or None xs = Some y \<longleftrightarrow> (\<exists>ys. xs = ys @ [y])"
  by (cases xs rule: rev_cases) auto

lemma head_or_Some: "head_or None xs = Some y \<longleftrightarrow> (\<exists>ys. xs = y # ys)"
  by (cases xs) auto

section \<open>Every operation implements its list operation\<close>

lemmas link_simps = represents_def same_payload_def

lemma represents_node:
  "represents l st (as @ a # bs) \<Longrightarrow>
   \<exists>ca. st a = Some ca \<and> nd_next ca = head_or None bs \<and> nd_prev ca = last_or None as"
  by (auto simp: represents_def split: option.splits)

lemma represents_alive: "represents l st xs \<Longrightarrow> x \<in> set xs \<Longrightarrow> \<exists>c. st x = Some c"
  by (auto simp: represents_def intro: segment_alive)

lemma insertAfter_list:
  assumes r: "represents l st (as @ a # bs)" and b: "st b = Some nb" "b \<notin> set (as @ a # bs)"
  shows "\<exists>l' st'. insertAfter l st a b = Inr (l', st') \<and> represents l' st' (as @ a # b # bs)
    \<and> same_payload st st' \<and> dom st' = dom st"
proof -
  from represents_node [OF r] obtain ca
    where ca: "st a = Some ca" "nd_next ca = head_or None bs" "nd_prev ca = last_or None as" by blast
  show ?thesis
  proof (cases bs)
    case Nil
    with r b ca show ?thesis
      by (auto simp: insertAfter_def link_simps split: option.splits)
  next
    case (Cons y ys)
    with r obtain cy where "st y = Some cy"
      by (auto simp: represents_def split: option.splits)
    with r b ca Cons show ?thesis
      by (auto simp: insertAfter_def link_simps split: option.splits)
  qed
qed

lemma insertBefore_list:
  assumes r: "represents l st (as @ a # bs)" and b: "st b = Some nb" "b \<notin> set (as @ a # bs)"
  shows "\<exists>l' st'. insertBefore l st a b = Inr (l', st') \<and> represents l' st' (as @ b # a # bs)
    \<and> same_payload st st' \<and> dom st' = dom st"
proof -
  from represents_node [OF r] obtain ca
    where ca: "st a = Some ca" "nd_next ca = head_or None bs" "nd_prev ca = last_or None as" by blast
  show ?thesis
  proof (cases as rule: rev_cases)
    case Nil
    with r b ca show ?thesis
      by (auto simp: insertBefore_def link_simps split: option.splits)
  next
    case (snoc ys y)
    with r obtain cy where "st y = Some cy"
      by (auto simp: represents_def split: option.splits)
    with r b ca snoc show ?thesis
      by (auto simp: insertBefore_def link_simps split: option.splits)
  qed
qed

lemma insertHead_list:
  assumes r: "represents l st xs" and b: "st b = Some nb" "b \<notin> set xs"
  shows "\<exists>l' st'. insertHead l st b = Inr (l', st') \<and> represents l' st' (b # xs)
    \<and> same_payload st st' \<and> dom st' = dom st"
proof (cases xs)
  case Nil
  with r b show ?thesis by (auto simp: insertHead_def link_simps)
next
  case (Cons y ys)
  with r obtain cy where "st y = Some cy"
    by (auto simp: represents_def split: option.splits)
  with r b Cons show ?thesis
    by (auto simp: insertHead_def link_simps)
qed

lemma insertTail_list:
  assumes r: "represents l st xs" and b: "st b = Some nb" "b \<notin> set xs"
  shows "\<exists>l' st'. insertTail l st b = Inr (l', st') \<and> represents l' st' (xs @ [b])
    \<and> same_payload st st' \<and> dom st' = dom st"
proof (cases xs rule: rev_cases)
  case Nil
  with r b show ?thesis by (auto simp: insertTail_def insertHead_def link_simps)
next
  case (snoc ys y)
  with r obtain cy where "st y = Some cy"
    by (auto simp: represents_def split: option.splits)
  with r b snoc show ?thesis
    by (auto simp: insertTail_def link_simps split: option.splits)
qed

lemma remove_list:
  assumes r: "represents l st (as @ a # bs)"
  shows "\<exists>l' st'. remove l st a = Inr (l', st') \<and> represents l' st' (as @ bs)
    \<and> same_payload st st' \<and> dom st' = dom st"
proof -
  from represents_node [OF r] obtain ca
    where ca: "st a = Some ca" "nd_next ca = head_or None bs" "nd_prev ca = last_or None as" by blast
  have ends: "as = [] \<or> (\<exists>ys y cy. as = ys @ [y] \<and> st y = Some cy)"
    using r represents_alive [OF r] by (cases as rule: rev_cases) auto
  have heads: "bs = [] \<or> (\<exists>y ys cy. bs = y # ys \<and> st y = Some cy)"
    using r represents_alive [OF r] by (cases bs) auto
  from ends heads r ca show ?thesis
    by (elim disjE exE conjE) (auto simp: remove_def link_simps split: option.splits)
qed

text \<open>Deleting a node that is not linked keeps the list.\<close>

lemma represents_delete: "represents l st xs \<Longrightarrow> x \<notin> set xs \<Longrightarrow> represents l (st(x := c)) xs"
  by (simp add: represents_def)

lemma represents_empty: "represents emptyList st []"
  by (simp add: represents_def emptyList_def)

lemma represents_isEmpty: "represents l st xs \<Longrightarrow> isEmpty l \<longleftrightarrow> xs = []"
  by (cases xs) (auto simp: represents_def isEmpty_def)

end
