(* ===== verification/Best_Fit.thy ===== *)
theory Best_Fit
  imports Linked_List
begin

text \<open>
  The allocator of shared memory heaps, class SimpleBestFitAllocator of
  src/libs/binder/MemoryDealer.cpp: a doubly linked list of chunks in units of 32 bytes, searched
  for the smallest free chunk that fits, split on allocation and merged on release. The loops
  follow pointers of the store and are partial functions: \<open>None\<close> is a loop that does
  not end. The answer of getpagesize() is the field \<open>pagesize\<close>.
\<close>

section \<open>Chunks and the allocator\<close>

record chunk_t = node +
  c_start :: nat
  c_size :: nat
  c_free :: bool

type_synonym chunk_store = "addr \<Rightarrow> chunk_t option"

record allocator =
  mList :: linked_list
  mem :: chunk_store
  fresh :: addr
  mHeapSize :: nat
  pagesize :: nat
  NDEBUG :: bool

abbreviation kMemoryAlign :: nat where "kMemoryAlign \<equiv> 32"

text \<open>The field size is a bit-field of 28 bits.\<close>

definition size28 :: "nat \<Rightarrow> nat" where
  "size28 n = n mod 268435456"

definition new_chunk :: "nat \<Rightarrow> nat \<Rightarrow> allocator \<Rightarrow> addr \<times> allocator" where
  "new_chunk start sz al =
     (fresh al,
      al\<lparr>mem := (mem al)(fresh al \<mapsto>
            \<lparr>nd_prev = None, nd_next = None, c_start = start, c_size = size28 sz, c_free = True\<rparr>),
         fresh := Suc (fresh al)\<rparr>)"

definition SimpleBestFitAllocator :: "nat \<Rightarrow> bool \<Rightarrow> nat \<Rightarrow> crash + allocator" where
  "SimpleBestFitAllocator pg ndebug sz =
     (let hs = unat ((of_nat sz + of_nat pg - 1 :: u64) AND NOT (of_nat pg - 1));
          (a, al) = new_chunk 0 (hs div kMemoryAlign)
             \<lparr>mList = emptyList, mem = Map.empty, fresh = 0, mHeapSize = hs, pagesize = pg, NDEBUG = ndebug\<rparr>
      in bind_run (insertHead (mList al) (mem al) a) (\<lambda>(l, st). Inr (al\<lparr>mList := l, mem := st\<rparr>)))"

text \<open>The loop of the destructor.\<close>

partial_function (option) delete_chunks ::
  "linked_list \<Rightarrow> chunk_store \<Rightarrow> (crash + linked_list \<times> chunk_store) option" where
  "delete_chunks l st =
     (case mFirst l of
        None \<Rightarrow> Some (Inr (l, st))
      | Some h \<Rightarrow>
          (case remove l st h of
             Inl e \<Rightarrow> Some (Inl e)
           | Inr r \<Rightarrow> delete_chunks (fst r) ((snd r)(h := None))))"

definition destroy_allocator :: "allocator \<Rightarrow> (crash + chunk_store) option" where
  "destroy_allocator al =
     map_option (map_sum id snd) (delete_chunks (mList al) (mem al))"

definition heap_size :: "allocator \<Rightarrow> nat" where
  "heap_size al = mHeapSize al"

section \<open>Allocation\<close>

abbreviation PAGE_ALIGNED :: u32 where "PAGE_ALIGNED \<equiv> 1"

definition page_extra :: "nat \<Rightarrow> u32 \<Rightarrow> nat \<Rightarrow> nat" where
  "page_extra pg flags start =
     (if flags AND PAGE_ALIGNED \<noteq> 0
      then unat ((- of_nat start :: u64) AND (of_nat (pg div kMemoryAlign) - 1)) else 0)"

definition pick :: "chunk_store \<Rightarrow> addr option \<Rightarrow> addr \<Rightarrow> crash + addr option" where
  "pick st free_chunk cr =
     (case free_chunk of
        None \<Rightarrow> Inr (Some cr)
      | Some f \<Rightarrow> deref st f (\<lambda>cf. deref st cr (\<lambda>c.
          Inr (if c_size c < c_size cf then Some cr else Some f))))"

partial_function (option) search_fit ::
  "nat \<Rightarrow> u32 \<Rightarrow> nat \<Rightarrow> chunk_store \<Rightarrow> addr option \<Rightarrow> addr option \<Rightarrow> (crash + addr option) option"
  where
  "search_fit pg flags sz st free_chunk cr =
     (case cr of
        None \<Rightarrow> Some (Inr free_chunk)
      | Some a \<Rightarrow>
          (case st a of
             None \<Rightarrow> Some (Inl Fault)
           | Some c \<Rightarrow>
               (if c_free c \<and> sz + page_extra pg flags (c_start c) \<le> c_size c
                then (case pick st free_chunk a of
                        Inl e \<Rightarrow> Some (Inl e)
                      | Inr free_chunk' \<Rightarrow>
                          if c_size c = sz then Some (Inr free_chunk')
                          else search_fit pg flags sz st free_chunk' (nd_next c))
                else search_fit pg flags sz st free_chunk (nd_next c))))"

text \<open>The part of alloc after the search: the found chunk is shrunk and the rest split off.\<close>

definition split_front :: "allocator \<Rightarrow> addr \<Rightarrow> nat \<Rightarrow> crash + allocator" where
  "split_front al a extra =
     (if extra = 0 then Inr al
      else deref (mem al) a (\<lambda>c.
        let (s, al) = new_chunk (c_start c) extra al in
        bind_run (assign (mem al) a (\<lambda>c. c\<lparr>c_start := c_start c + extra\<rparr>)) (\<lambda>st.
        bind_run (insertBefore (mList al) st a s) (\<lambda>(l, st).
        Inr (al\<lparr>mList := l, mem := st\<rparr>)))))"

definition split_back :: "allocator \<Rightarrow> addr \<Rightarrow> int \<Rightarrow> crash + allocator" where
  "split_back al a tail_free =
     (if tail_free > 0
      then deref (mem al) a (\<lambda>c.
        let (s, al) = new_chunk (c_start c + c_size c) (nat tail_free) al in
        bind_run (insertAfter (mList al) (mem al) a s) (\<lambda>(l, st).
        Inr (al\<lparr>mList := l, mem := st\<rparr>)))
      else Inr al)"

definition carve :: "allocator \<Rightarrow> addr \<Rightarrow> nat \<Rightarrow> u32 \<Rightarrow> crash + int \<times> allocator" where
  "carve al a sz flags =
     deref (mem al) a (\<lambda>c.
       let free_size = c_size c;
           al = al\<lparr>mem := (mem al)(a \<mapsto> c\<lparr>c_free := False, c_size := size28 sz\<rparr>)\<rparr> in
       bind_run
         (if free_size > sz
          then (let extra = page_extra (pagesize al) flags (c_start c) in
                bind_run (split_front al a extra) (\<lambda>al.
                split_back al a (int free_size - int (sz + extra))))
          else Inr al)
         (\<lambda>al. deref (mem al) a (\<lambda>c. Inr (int (c_start c * kMemoryAlign), al))))"

definition alloc :: "allocator \<Rightarrow> nat \<Rightarrow> u32 \<Rightarrow> (crash + int \<times> allocator) option" where
  "alloc al sz flags =
     (if sz = 0 then Some (Inr (0, al))
      else let units = size_add sz (kMemoryAlign - 1) div kMemoryAlign in
        (case search_fit (pagesize al) flags units (mem al) None (mFirst (mList al)) of
           None \<Rightarrow> None
         | Some (Inl e) \<Rightarrow> Some (Inl e)
         | Some (Inr None) \<Rightarrow> Some (Inr (NO_MEMORY, al))
         | Some (Inr (Some a)) \<Rightarrow> Some (carve al a units flags)))"

definition allocate :: "allocator \<Rightarrow> nat \<Rightarrow> (crash + int \<times> allocator) option" where
  "allocate al sz = alloc al sz 0"

section \<open>Release\<close>

partial_function (option) find_start :: "chunk_store \<Rightarrow> nat \<Rightarrow> addr option \<Rightarrow> (crash + addr option) option"
  where
  "find_start st start cr =
     (case cr of
        None \<Rightarrow> Some (Inr None)
      | Some a \<Rightarrow>
          (case st a of
             None \<Rightarrow> Some (Inl Fault)
           | Some c \<Rightarrow> if c_start c = start then Some (Inr (Some a)) else find_start st start (nd_next c)))"

text \<open>One round of the merging loop: the chunk is merged into its predecessor when that one is free.\<close>

definition merge_prev :: "allocator \<Rightarrow> addr \<Rightarrow> addr \<Rightarrow> crash + addr \<times> allocator" where
  "merge_prev al cr freed =
     deref (mem al) cr (\<lambda>c.
     (case nd_prev c of
        None \<Rightarrow> Inr (freed, al)
      | Some p \<Rightarrow> deref (mem al) p (\<lambda>cp.
          if c_free cp \<or> c_size c = 0
          then bind_run (assign (mem al) p (\<lambda>cp. cp\<lparr>c_size := size28 (c_size cp + c_size c)\<rparr>)) (\<lambda>st.
               bind_run (remove (mList al) st cr) (\<lambda>(l, st).
               Inr (p, al\<lparr>mList := l, mem := st(cr := None)\<rparr>)))
          else Inr (freed, al))))"

partial_function (option) merge_loop ::
  "allocator \<Rightarrow> addr \<Rightarrow> addr \<Rightarrow> (crash + addr \<times> allocator) option" where
  "merge_loop al cr freed =
     (case mem al cr of
        None \<Rightarrow> Some (Inl Fault)
      | Some c \<Rightarrow>
          (case merge_prev al cr freed of
             Inl e \<Rightarrow> Some (Inl e)
           | Inr r \<Rightarrow>
               (case nd_next c of
                  None \<Rightarrow> Some (Inr r)
                | Some n \<Rightarrow>
                    (case mem (snd r) n of
                       None \<Rightarrow> Some (Inl Fault)
                     | Some cn \<Rightarrow> if c_free cn then merge_loop (snd r) n (fst r) else Some (Inr r)))))"

definition dealloc :: "allocator \<Rightarrow> nat \<Rightarrow> (crash + addr option \<times> allocator) option" where
  "dealloc al start =
     (case find_start (mem al) (start div kMemoryAlign) (mFirst (mList al)) of
        None \<Rightarrow> None
      | Some (Inl e) \<Rightarrow> Some (Inl e)
      | Some (Inr None) \<Rightarrow> Some (Inr (None, al))
      | Some (Inr (Some a)) \<Rightarrow>
          (case mem al a of
             None \<Rightarrow> Some (Inl Fault)
           | Some c \<Rightarrow>
               if c_free c \<and> \<not> NDEBUG al then Some (Inl Abort)
               else
                 (case merge_loop (al\<lparr>mem := (mem al)(a \<mapsto> c\<lparr>c_free := True\<rparr>)\<rparr>) a a of
                    None \<Rightarrow> None
                  | Some (Inl e) \<Rightarrow> Some (Inl e)
                  | Some (Inr (freed, al)) \<Rightarrow>
                      Some (deref (mem al) freed (\<lambda>cf.
                        if \<not> c_free cf \<and> \<not> NDEBUG al then Inl Abort else Inr (Some freed, al))))))"

definition deallocate :: "allocator \<Rightarrow> nat \<Rightarrow> (crash + status_t \<times> allocator) option" where
  "deallocate al offset =
     (case dealloc al offset of
        None \<Rightarrow> None
      | Some (Inl e) \<Rightarrow> Some (Inl e)
      | Some (Inr (freed, al)) \<Rightarrow> Some (Inr (if freed = None then NAME_NOT_FOUND else NO_ERROR, al)))"

end
