(* ===== verification/Best_Fit_Refinement.thy ===== *)
theory Best_Fit_Refinement
  imports Best_Fit
begin

text \<open>
  The allocator on lists of regions, and the proof that the pointer loops of \<open>Best_Fit\<close>
  implement it: \<open>allocator_rep al xs cs\<close> relates an allocator to the addresses of its
  chunks and to the regions they describe, and every operation of the code is shown to return and
  to end in an allocator that represents the result of the list operation.
\<close>

section \<open>The allocator on lists\<close>

type_synonym region = "nat \<times> nat \<times> bool"

definition region_start :: "region \<Rightarrow> nat" where "region_start r = fst r"
definition region_size :: "region \<Rightarrow> nat" where "region_size r = fst (snd r)"
definition region_free :: "region \<Rightarrow> bool" where "region_free r = snd (snd r)"

lemmas region_simps [simp] = region_start_def region_size_def region_free_def

definition fits :: "nat \<Rightarrow> u32 \<Rightarrow> nat \<Rightarrow> region \<Rightarrow> bool" where
  "fits pg flags sz r \<longleftrightarrow> region_free r \<and> sz + page_extra pg flags (region_start r) \<le> region_size r"

fun best_fit :: "(region \<Rightarrow> bool) \<Rightarrow> region list \<Rightarrow> nat option" where
  "best_fit P [] = None"
| "best_fit P (r # rs) =
     (case best_fit P rs of
        None \<Rightarrow> if P r then Some 0 else None
      | Some i \<Rightarrow> if P r \<and> region_size r \<le> region_size (rs ! i) then Some 0 else Some (Suc i))"

definition pieces :: "nat \<Rightarrow> u32 \<Rightarrow> nat \<Rightarrow> region \<Rightarrow> region list" where
  "pieces pg flags sz r =
     (let e = page_extra pg flags (region_start r); s = region_start r + e in
      (if e = 0 then [] else [(region_start r, e, True)]) @ [(s, sz, False)] @
      (if sz + e < region_size r then [(s + sz, region_size r - (sz + e), True)] else []))"

definition units :: "nat \<Rightarrow> nat" where
  "units n = size_add n (kMemoryAlign - 1) div kMemoryAlign"

definition alloc_regions :: "nat \<Rightarrow> u32 \<Rightarrow> nat \<Rightarrow> region list \<Rightarrow> int \<times> region list" where
  "alloc_regions pg flags n cs =
     (if n = 0 then (0, cs)
      else case best_fit (fits pg flags (units n)) cs of
        None \<Rightarrow> (NO_MEMORY, cs)
      | Some i \<Rightarrow>
          (int ((region_start (cs ! i) + page_extra pg flags (region_start (cs ! i))) * kMemoryAlign),
           take i cs @ pieces pg flags (units n) (cs ! i) @ drop (Suc i) cs))"

fun release_regions :: "nat \<Rightarrow> region list \<Rightarrow> region list option" where
  "release_regions s [] = None"
| "release_regions s (r # rs) =
     (if region_start r = s then Some ((s, region_size r, True) # rs)
      else map_option ((#) r) (release_regions s rs))"

fun coalesce :: "region list \<Rightarrow> region list" where
  "coalesce (r # q # rs) =
     (if region_free r \<and> region_free q
      then coalesce ((region_start r, region_size r + region_size q, True) # rs)
      else r # coalesce (q # rs))"
| "coalesce rs = rs"

definition dealloc_regions :: "nat \<Rightarrow> region list \<Rightarrow> region list option" where
  "dealloc_regions offset cs = map_option coalesce (release_regions (offset div kMemoryAlign) cs)"

section \<open>The relation\<close>

definition view :: "chunk_t \<Rightarrow> region" where
  "view c = (c_start c, c_size c, c_free c)"

definition holds :: "chunk_store \<Rightarrow> addr \<Rightarrow> region \<Rightarrow> bool" where
  "holds st x r \<longleftrightarrow> map_option view (st x) = Some r"

definition chained :: "linked_list \<Rightarrow> chunk_store \<Rightarrow> addr list \<Rightarrow> region list \<Rightarrow> bool" where
  "chained l st xs cs \<longleftrightarrow> represents l st xs \<and> list_all2 (holds st) xs cs"

definition allocator_rep :: "allocator \<Rightarrow> addr list \<Rightarrow> region list \<Rightarrow> bool" where
  "allocator_rep al xs cs \<longleftrightarrow> chained (mList al) (mem al) xs cs \<and> dom (mem al) = set xs \<and>
     (\<forall>x \<in> set xs. x < fresh al)"

lemma same_payload_holds:
  assumes "same_payload st st'"
  shows "holds st' = holds st"
proof (intro ext)
  fix x r
  have "map_option node.more (st' x) = map_option node.more (st x)"
    using assms by (simp add: same_payload_def)
  then show "holds st' x r = holds st x r"
    by (cases "st x"; cases "st' x"; cases "the (st x)"; cases "the (st' x)")
       (auto simp: holds_def view_def)
qed

lemma holds_upd [simp]: "holds (st(a := c)) x r = (if x = a then map_option view c = Some r else holds st x r)"
  by (simp add: holds_def)

lemma list_all2_holds_upd:
  "a \<notin> set xs \<Longrightarrow> list_all2 (holds (st(a := c))) xs cs = list_all2 (holds st) xs cs"
  by (rule list.rel_cong) auto

lemma chained_extra: "chained l st xs cs \<Longrightarrow> b \<notin> set xs \<Longrightarrow> chained l (st(b := c)) xs cs"
  by (auto simp: chained_def represents_def list_all2_holds_upd)

lemma chained_insertBefore:
  assumes "chained l st (as @ a # bs) (cas @ r # cbs)" and "length as = length cas"
    and "st b = Some nb" and "b \<notin> set (as @ a # bs)"
  shows "\<exists>l' st'. insertBefore l st a b = Inr (l', st') \<and>
    chained l' st' (as @ b # a # bs) (cas @ view nb # r # cbs) \<and> dom st' = dom st"
proof -
  obtain l' st' where *: "insertBefore l st a b = Inr (l', st')" "represents l' st' (as @ b # a # bs)"
      "same_payload st st'" "dom st' = dom st"
    using insertBefore_list assms(1,3,4) unfolding chained_def by blast
  have "list_all2 (holds st') (as @ b # a # bs) (cas @ view nb # r # cbs)"
    using assms(1,2,3) same_payload_holds [OF *(3)]
    by (auto simp: chained_def list_all2_append holds_def)
  with * show ?thesis by (auto simp: chained_def)
qed

lemma chained_insertAfter:
  assumes "chained l st (as @ a # bs) (cas @ r # cbs)" and "length as = length cas"
    and "st b = Some nb" and "b \<notin> set (as @ a # bs)"
  shows "\<exists>l' st'. insertAfter l st a b = Inr (l', st') \<and>
    chained l' st' (as @ a # b # bs) (cas @ r # view nb # cbs) \<and> dom st' = dom st"
proof -
  obtain l' st' where *: "insertAfter l st a b = Inr (l', st')" "represents l' st' (as @ a # b # bs)"
      "same_payload st st'" "dom st' = dom st"
    using insertAfter_list assms(1,3,4) unfolding chained_def by blast
  have "list_all2 (holds st') (as @ a # b # bs) (cas @ r # view nb # cbs)"
    using assms(1,2,3) same_payload_holds [OF *(3)]
    by (auto simp: chained_def list_all2_append holds_def)
  with * show ?thesis by (auto simp: chained_def)
qed

lemma chained_remove:
  assumes "chained l st (as @ a # bs) (cas @ r # cbs)" and "length as = length cas"
  shows "\<exists>l' st'. remove l st a = Inr (l', st') \<and>
    chained l' (st'(a := None)) (as @ bs) (cas @ cbs) \<and> dom st' = dom st"
proof -
  obtain l' st' where *: "remove l st a = Inr (l', st')" "represents l' st' (as @ bs)"
      "same_payload st st'" "dom st' = dom st"
    using remove_list assms(1) unfolding chained_def by blast
  have a: "a \<notin> set (as @ bs)"
    using assms(1) by (auto simp: chained_def represents_def)
  have "list_all2 (holds st') (as @ bs) (cas @ cbs)"
    using assms(1,2) same_payload_holds [OF *(3)]
    by (auto simp: chained_def list_all2_append)
  with * have "chained l' st' (as @ bs) (cas @ cbs)" by (simp add: chained_def)
  with * a show ?thesis by (blast intro: chained_extra)
qed

text \<open>Changing the payload of one chunk.\<close>

lemma segment_payload:
  "st a = Some c \<Longrightarrow> nd_prev c' = nd_prev c \<Longrightarrow> nd_next c' = nd_next c \<Longrightarrow>
   segment (st(a \<mapsto> c')) p xs n = segment st p xs n"
  by (induction xs arbitrary: p) (auto split: option.splits)

lemma chained_payload:
  assumes "chained l st (as @ a # bs) (cas @ r # cbs)" and "length as = length cas"
    and "st a = Some c" and "nd_prev c' = nd_prev c" and "nd_next c' = nd_next c"
  shows "chained l (st(a \<mapsto> c')) (as @ a # bs) (cas @ view c' # cbs)"
  using assms unfolding chained_def represents_def
  by (auto simp: list_all2_append list_all2_holds_upd segment_payload)

lemma chained_split:
  assumes "chained l st xs cs" and "i < length cs"
  shows "\<exists>as a bs. xs = as @ a # bs \<and> length as = i \<and>
    chained l st (as @ a # bs) (take i cs @ cs ! i # drop (Suc i) cs) \<and> length as = length (take i cs)"
proof -
  have len: "length xs = length cs" using assms(1) by (auto simp: chained_def dest: list_all2_lengthD)
  have "xs = take i xs @ xs ! i # drop (Suc i) xs" "cs = take i cs @ cs ! i # drop (Suc i) cs"
    using assms(2) len by (auto simp: id_take_nth_drop)
  with assms len show ?thesis
    by (intro exI [of _ "take i xs"] exI [of _ "xs ! i"] exI [of _ "drop (Suc i) xs"]) auto
qed

lemma chained_node:
  assumes "chained l st (as @ a # bs) (cas @ r # cbs)" and "length as = length cas"
  shows "\<exists>c. st a = Some c \<and> view c = r \<and> nd_prev c = last_or None as \<and> nd_next c = head_or None bs"
  using assms represents_node [of l st as a bs]
  by (auto simp: chained_def list_all2_append holds_def)

section \<open>The search\<close>

lemma best_fit_SomeD: "best_fit P rs = Some i \<Longrightarrow> i < length rs \<and> P (rs ! i)"
  by (induction rs arbitrary: i) (auto split: option.splits if_splits)

lemma best_fit_None: "best_fit P rs = None \<longleftrightarrow> (\<forall>r \<in> set rs. \<not> P r)"
  by (induction rs) (auto split: option.splits)

lemma best_fit_least:
  "best_fit P rs = Some i \<Longrightarrow> r \<in> set rs \<Longrightarrow> P r \<Longrightarrow> region_size (rs ! i) \<le> region_size r"
  by (induction rs arbitrary: i) (force simp: best_fit_None split: option.splits if_splits)+

lemma best_fit_first:
  "best_fit P rs = Some i \<Longrightarrow> j < i \<Longrightarrow> P (rs ! j) \<Longrightarrow> region_size (rs ! i) < region_size (rs ! j)"
proof (induction rs arbitrary: i j)
  case (Cons r rs)
  then show ?case
    by (cases j) (auto split: option.splits if_splits)
qed simp

definition size_of :: "chunk_store \<Rightarrow> addr \<Rightarrow> nat" where
  "size_of st a = (case st a of None \<Rightarrow> 0 | Some c \<Rightarrow> c_size c)"

lemma holds_size: "holds st a r \<Longrightarrow> size_of st a = region_size r"
  by (auto simp: holds_def size_of_def view_def)

definition closer :: "chunk_store \<Rightarrow> addr option \<Rightarrow> addr option \<Rightarrow> addr option" where
  "closer st free_chunk found =
     (case free_chunk of
        None \<Rightarrow> found
      | Some f \<Rightarrow> (case found of None \<Rightarrow> Some f
                   | Some a \<Rightarrow> if size_of st a < size_of st f then Some a else Some f))"

lemma closer_None [simp]: "closer st None x = x" "closer st f None = f"
  by (simp_all add: closer_def split: option.splits)

lemma closer_assoc: "closer st (closer st x y) z = closer st x (closer st y z)"
  by (auto simp: closer_def split: option.splits)

lemma pick_closer:
  "(\<forall>f. free_chunk = Some f \<longrightarrow> st f \<noteq> None) \<Longrightarrow> st a = Some c \<Longrightarrow>
   pick st free_chunk a = Inr (closer st free_chunk (Some a))"
  by (auto simp: pick_def closer_def size_of_def split: option.splits)

lemma search_fit_best:
  assumes "segment st p xs None" and "list_all2 (holds st) xs cs"
    and "\<forall>f. free_chunk = Some f \<longrightarrow> st f \<noteq> None"
  shows "search_fit pg flags sz st free_chunk (head_or None xs) =
    Some (Inr (closer st free_chunk (map_option ((!) xs) (best_fit (fits pg flags sz) cs))))"
  using assms
proof (induction xs arbitrary: p cs free_chunk)
  case Nil
  then show ?case by (subst search_fit.simps) simp
next
  case (Cons x xs)
  from Cons.prems(2) obtain r rs where cs: "cs = r # rs" and r: "holds st x r" and rs: "list_all2 (holds st) xs rs"
    by (auto simp: list_all2_Cons1)
  from r obtain c where c: "st x = Some c" "view c = r" by (auto simp: holds_def)
  have nxt: "nd_next c = head_or None xs" and seg: "segment st (Some x) xs None"
    using Cons.prems(1) c by auto
  have fits: "fits pg flags sz r \<longleftrightarrow> c_free c \<and> sz + page_extra pg flags (c_start c) \<le> c_size c"
    and size_r: "region_size r = c_size c"
    using c(2) by (auto simp: fits_def view_def)
  have at: "size_of st (xs ! i) = region_size (rs ! i)" if "i < length rs" for i
    by (rule holds_size) (rule list_all2_nthD2 [OF rs that])
  note bounds = best_fit_SomeD [of "fits pg flags sz" rs]
  show ?case
  proof (cases "fits pg flags sz r")
    case False
    then show ?thesis
      using Cons.IH [OF seg rs Cons.prems(3)] c nxt fits
      by (subst search_fit.simps) (auto simp: cs option.map_comp o_def split: option.splits)
  next
    case True
    have p: "pick st free_chunk x = Inr (closer st free_chunk (Some x))"
      by (rule pick_closer [OF Cons.prems(3) c(1)])
    have best: "map_option ((!) (x # xs)) (best_fit (fits pg flags sz) cs) =
        closer st (Some x) (map_option ((!) xs) (best_fit (fits pg flags sz) rs))"
      using True at bounds c(1) size_r by (auto simp: cs closer_def size_of_def split: option.splits)
    show ?thesis
    proof (cases "c_size c = sz")
      case exact: True
      have "closer st (Some x) (map_option ((!) xs) (best_fit (fits pg flags sz) rs)) = Some x"
        using at bounds c(1) exact
        by (fastforce simp: closer_def size_of_def fits_def split: option.splits)
      moreover have "search_fit pg flags sz st free_chunk (head_or None (x # xs)) =
          Some (Inr (closer st free_chunk (Some x)))"
        using True fits c(1) p exact by (subst search_fit.simps) simp
      ultimately show ?thesis by (simp only: best)
    next
      case False
      have ok: "\<forall>f. closer st free_chunk (Some x) = Some f \<longrightarrow> st f \<noteq> None"
        using Cons.prems(3) c(1) by (auto simp: closer_def split: option.splits if_splits)
      show ?thesis
        using True fits c(1) p False best Cons.IH [OF seg rs ok] nxt
        by (subst search_fit.simps) (simp add: closer_assoc)
    qed
  qed
qed

section \<open>Splitting the found chunk\<close>

definition same_setup :: "allocator \<Rightarrow> allocator \<Rightarrow> bool" where
  "same_setup al al' \<longleftrightarrow> pagesize al' = pagesize al \<and> NDEBUG al' = NDEBUG al \<and> mHeapSize al' = mHeapSize al"

lemma same_setup_trans: "same_setup a b \<Longrightarrow> same_setup b c \<Longrightarrow> same_setup a c"
  by (simp add: same_setup_def)

lemma same_setup_lists [simp]:
  "same_setup al (al\<lparr>mem := m\<rparr>)" "same_setup al (al\<lparr>mList := l, mem := m\<rparr>)" "same_setup al al"
  "same_setup al (al\<lparr>mem := m, fresh := x, mList := l\<rparr>)"
  by (simp_all add: same_setup_def)

lemma new_chunk_fresh:
  assumes "allocator_rep al xs cs"
  shows "fresh al \<notin> set xs" and "mem al (fresh al) = None"
  using assms by (auto simp: allocator_rep_def dom_def)

lemma split_front_list:
  assumes rep: "allocator_rep al (as @ a # bs) (cas @ (s, n, f) # cbs)" and len: "length as = length cas"
    and e: "0 < e" "e < 268435456"
  shows "\<exists>al'. split_front al a e = Inr al' \<and> same_setup al al' \<and>
    allocator_rep al' (as @ fresh al # a # bs) (cas @ (s, e, True) # (s + e, n, f) # cbs)"
proof -
  define nb where "nb = \<lparr>nd_prev = None, nd_next = None, c_start = s, c_size = size28 e, c_free = True\<rparr>"
  from rep have ch: "chained (mList al) (mem al) (as @ a # bs) (cas @ (s, n, f) # cbs)"
    by (simp add: allocator_rep_def)
  from chained_node [OF this len] obtain c where c: "mem al a = Some c" "view c = (s, n, f)" by blast
  have fr: "fresh al \<notin> set (as @ a # bs)" by (rule new_chunk_fresh [OF rep])
  define st where "st = ((mem al)(fresh al \<mapsto> nb))(a \<mapsto> c\<lparr>c_start := c_start c + e\<rparr>)"
  have ch2: "chained (mList al) st (as @ a # bs) (cas @ view (c\<lparr>c_start := c_start c + e\<rparr>) # cbs)"
    unfolding st_def using c fr by (intro chained_payload [OF chained_extra [OF ch fr] len]) auto
  have stb: "st (fresh al) = Some nb" and dom: "dom st = insert (fresh al) (dom (mem al))"
    using c fr by (auto simp: st_def)
  from chained_insertBefore [OF ch2 len stb fr] obtain l' st' where
    ins: "insertBefore (mList al) st a (fresh al) = Inr (l', st')" and
    res: "chained l' st' (as @ fresh al # a # bs)
       (cas @ view nb # view (c\<lparr>c_start := c_start c + e\<rparr>) # cbs)" "dom st' = dom st" by blast
  have run: "split_front al a e = Inr (al\<lparr>mem := st', fresh := Suc (fresh al), mList := l'\<rparr>)"
    using e c fr ins by (auto simp: split_front_def new_chunk_def st_def nb_def view_def)
  show ?thesis
    using run res e rep dom c(2)
    by (auto simp: allocator_rep_def nb_def view_def size28_def less_Suc_eq)
qed

lemma split_back_list:
  assumes rep: "allocator_rep al (as @ a # bs) (cas @ (s, n, f) # cbs)" and len: "length as = length cas"
    and e: "0 < e" "e < 268435456"
  shows "\<exists>al'. split_back al a (int e) = Inr al' \<and> same_setup al al' \<and>
    allocator_rep al' (as @ a # fresh al # bs) (cas @ (s, n, f) # (s + n, e, True) # cbs)"
proof -
  define nb where "nb = \<lparr>nd_prev = None, nd_next = None, c_start = s + n, c_size = size28 e, c_free = True\<rparr>"
  from rep have ch: "chained (mList al) (mem al) (as @ a # bs) (cas @ (s, n, f) # cbs)"
    by (simp add: allocator_rep_def)
  from chained_node [OF this len] obtain c where c: "mem al a = Some c" "view c = (s, n, f)" by blast
  have fr: "fresh al \<notin> set (as @ a # bs)" by (rule new_chunk_fresh [OF rep])
  define st where "st = (mem al)(fresh al \<mapsto> nb)"
  have ch2: "chained (mList al) st (as @ a # bs) (cas @ (s, n, f) # cbs)"
    unfolding st_def by (rule chained_extra [OF ch fr])
  have stb: "st (fresh al) = Some nb" and dom: "dom st = insert (fresh al) (dom (mem al))"
    by (auto simp: st_def)
  from chained_insertAfter [OF ch2 len stb fr] obtain l' st' where
    ins: "insertAfter (mList al) st a (fresh al) = Inr (l', st')" and
    res: "chained l' st' (as @ a # fresh al # bs) (cas @ (s, n, f) # view nb # cbs)" "dom st' = dom st" by blast
  have run: "split_back al a (int e) = Inr (al\<lparr>mem := st', fresh := Suc (fresh al), mList := l'\<rparr>)"
    using e c fr ins by (auto simp: split_back_def new_chunk_def st_def nb_def view_def)
  show ?thesis
    using run res e rep dom
    by (auto simp: allocator_rep_def nb_def view_def size28_def less_Suc_eq)
qed

lemma allocator_rep_payload:
  assumes "allocator_rep al (as @ a # bs) (cas @ r # cbs)" and "length as = length cas"
    and "mem al a = Some c" and "nd_prev c' = nd_prev c" and "nd_next c' = nd_next c"
  shows "allocator_rep (al\<lparr>mem := (mem al)(a \<mapsto> c')\<rparr>) (as @ a # bs) (cas @ view c' # cbs)"
proof -
  have "chained (mList al) ((mem al)(a \<mapsto> c')) (as @ a # bs) (cas @ view c' # cbs)"
    using assms by (intro chained_payload [of _ _ as a bs cas r cbs c]) (auto simp: allocator_rep_def)
  with assms(1,3) show ?thesis by (auto simp: allocator_rep_def)
qed

lemma allocator_rep_start:
  assumes "allocator_rep al (as @ a # bs) (cas @ (s, n, f) # cbs)" and "length as = length cas"
  shows "deref (mem al) a (\<lambda>c. Inr (g (c_start c))) = Inr (g s)"
  using assms chained_node [of "mList al" "mem al" as a bs cas "(s, n, f)" cbs]
  by (auto simp: allocator_rep_def view_def)

lemma split_front_cases:
  assumes rep: "allocator_rep al (as @ a # bs) (cas @ (s, n, f) # cbs)" and len: "length as = length cas"
    and e: "e < 268435456"
  shows "\<exists>al' as'. split_front al a e = Inr al' \<and> same_setup al al' \<and>
    length as' = length (cas @ (if e = 0 then [] else [(s, e, True)])) \<and>
    allocator_rep al' (as' @ a # bs) ((cas @ (if e = 0 then [] else [(s, e, True)])) @ (s + e, n, f) # cbs)"
proof (cases "e = 0")
  case True
  then show ?thesis
    using rep len by (intro exI [of _ al] exI [of _ as]) (simp add: split_front_def)
next
  case False
  then obtain al' where "split_front al a e = Inr al'" "same_setup al al'"
    "allocator_rep al' (as @ fresh al # a # bs) (cas @ (s, e, True) # (s + e, n, f) # cbs)"
    using split_front_list [OF rep len, of e] e by blast
  with False len show ?thesis
    by (intro exI [of _ al'] exI [of _ "as @ [fresh al]"]) simp
qed

lemma split_back_cases:
  assumes rep: "allocator_rep al (as @ a # bs) (cas @ (s, m, f) # cbs)" and len: "length as = length cas"
    and n: "n < 268435456" and k: "k \<le> n"
  shows "\<exists>al' bs'. split_back al a (int n - int k) = Inr al' \<and> same_setup al al' \<and>
    allocator_rep al' (as @ a # bs')
      (cas @ (s, m, f) # (if k < n then [(s + m, n - k, True)] else []) @ cbs)"
proof (cases "k < n")
  case True
  then have "int n - int k = int (n - k)" by simp
  then show ?thesis
    using split_back_list [OF rep len, of "n - k"] n True by (auto simp del: of_nat_diff)
next
  case False
  then show ?thesis using rep k by (intro exI [of _ al] exI [of _ bs]) (simp add: split_back_def)
qed

lemma carve_list:
  assumes rep: "allocator_rep al (as @ a # bs) (cas @ (s, n, True) # cbs)" and len: "length as = length cas"
    and n: "n < 268435456" and fit: "fits (pagesize al) flags sz (s, n, True)"
  shows "\<exists>al' xs. carve al a sz flags = Inr (int ((s + page_extra (pagesize al) flags s) * kMemoryAlign), al')
    \<and> same_setup al al' \<and> allocator_rep al' xs (cas @ pieces (pagesize al) flags sz (s, n, True) @ cbs)"
proof -
  define e where "e = page_extra (pagesize al) flags s"
  have bnd: "sz + e \<le> n" "e < 268435456" using fit n by (simp_all add: fits_def e_def)
  from rep have "chained (mList al) (mem al) (as @ a # bs) (cas @ (s, n, True) # cbs)"
    by (simp add: allocator_rep_def)
  from chained_node [OF this len] obtain c where c: "mem al a = Some c" "view c = (s, n, True)" by blast
  define al1 where "al1 = al\<lparr>mem := (mem al)(a \<mapsto> c\<lparr>c_free := False, c_size := size28 sz\<rparr>)\<rparr>"
  have "view (c\<lparr>c_free := False, c_size := size28 sz\<rparr>) = (s, sz, False)"
    using c(2) bnd n by (simp add: view_def size28_def)
  then have rep1: "allocator_rep al1 (as @ a # bs) (cas @ (s, sz, False) # cbs)"
    using allocator_rep_payload [OF rep len c(1), of "c\<lparr>c_free := False, c_size := size28 sz\<rparr>"]
    by (simp add: al1_def)
  from split_front_cases [OF rep1 len bnd(2)] obtain al2 as' where
    sf: "split_front al1 a e = Inr al2" "same_setup al1 al2"
      "length as' = length (cas @ (if e = 0 then [] else [(s, e, True)]))" and
    rep2: "allocator_rep al2 (as' @ a # bs)
      ((cas @ (if e = 0 then [] else [(s, e, True)])) @ (s + e, sz, False) # cbs)" by blast
  from split_back_cases [OF rep2 sf(3) n bnd(1)] obtain al3 bs' where
    sb: "split_back al2 a (int n - int (sz + e)) = Inr al3" "same_setup al2 al3" and
    rep3: "allocator_rep al3 (as' @ a # bs') ((cas @ (if e = 0 then [] else [(s, e, True)])) @
      (s + e, sz, False) # (if sz + e < n then [(s + e + sz, n - (sz + e), True)] else []) @ cbs)" by blast
  have "carve al a sz flags = bind_run
      (if sz < n then bind_run (split_front al1 a e) (\<lambda>al. split_back al a (int n - int (sz + e)))
       else Inr al1) (\<lambda>al. deref (mem al) a (\<lambda>c. Inr (int (c_start c * kMemoryAlign), al)))"
    using c by (simp add: carve_def al1_def e_def view_def Let_def)
  moreover have "(if sz < n then bind_run (split_front al1 a e) (\<lambda>al. split_back al a (int n - int (sz + e)))
      else Inr al1) = Inr al3"
    using sf(1) sb(1) bnd(1) by (auto simp: split_front_def split_back_def)
  ultimately have "carve al a sz flags = deref (mem al3) a (\<lambda>c. Inr (int (c_start c * kMemoryAlign), al3))"
    by simp
  then have "carve al a sz flags = Inr (int ((s + e) * kMemoryAlign), al3)"
    using allocator_rep_start [OF rep3 sf(3), of "\<lambda>x. (int (x * kMemoryAlign), al3)"] by simp
  moreover have "same_setup al al3"
    using same_setup_trans [OF same_setup_trans [OF _ sf(2)] sb(2)] by (simp add: al1_def)
  ultimately show ?thesis
    using rep3 unfolding pieces_def Let_def region_simps fst_conv snd_conv e_def [symmetric] append_assoc
    by auto
qed

section \<open>Allocation refines the list operation\<close>

definition bounded :: "region list \<Rightarrow> bool" where
  "bounded cs \<longleftrightarrow> (\<forall>r \<in> set cs. region_size r < 268435456)"

lemma search_fit_list:
  assumes "allocator_rep al xs cs"
  shows "search_fit (pagesize al) flags sz (mem al) None (mFirst (mList al)) =
    Some (Inr (map_option ((!) xs) (best_fit (fits (pagesize al) flags sz) cs)))"
  using assms search_fit_best [of "mem al" None xs cs None]
  by (auto simp: allocator_rep_def chained_def represents_def)

lemma alloc_list:
  assumes rep: "allocator_rep al xs cs" and b: "bounded cs"
  shows "\<exists>al' xs'. alloc al n flags = Some (Inr (fst (alloc_regions (pagesize al) flags n cs), al')) \<and>
    same_setup al al' \<and> allocator_rep al' xs' (snd (alloc_regions (pagesize al) flags n cs))"
proof (cases "n = 0")
  case True
  with rep show ?thesis by (auto simp: alloc_def alloc_regions_def)
next
  case False
  note sf = search_fit_list [OF rep, of flags "units n", unfolded units_def]
  show ?thesis
  proof (cases "best_fit (fits (pagesize al) flags (units n)) cs")
    case None
    with False rep sf show ?thesis by (auto simp: alloc_def alloc_regions_def units_def)
  next
    case (Some i)
    then have i: "i < length cs" "fits (pagesize al) flags (units n) (cs ! i)"
      using best_fit_SomeD by blast+
    obtain s m f where r: "cs ! i = (s, m, f)" by (cases "cs ! i")
    have f: "f" and m: "m < 268435456"
      using i r b nth_mem [OF i(1)] by (auto simp: fits_def bounded_def)
    from rep have "chained (mList al) (mem al) xs cs" by (simp add: allocator_rep_def)
    from chained_split [OF this i(1)] obtain as a bs where xs: "xs = as @ a # bs" and
      len: "length as = length (take i cs)" "length as = i" by blast
    have rep2: "allocator_rep al (as @ a # bs) (take i cs @ (s, m, True) # drop (Suc i) cs)"
      using rep xs r f id_take_nth_drop [OF i(1)] by simp
    have "fits (pagesize al) flags (units n) (s, m, True)" using i(2) r f by simp
    from carve_list [OF rep2 len(1) m this] obtain al' xs' where
      "carve al a (units n) flags = Inr (int ((s + page_extra (pagesize al) flags s) * kMemoryAlign), al')"
      "same_setup al al'"
      "allocator_rep al' xs' (take i cs @ pieces (pagesize al) flags (units n) (s, m, True) @ drop (Suc i) cs)"
      by blast
    moreover have "xs ! i = a" using xs len by (simp add: nth_append)
    ultimately show ?thesis
      using False Some r f sf by (auto simp: alloc_def alloc_regions_def units_def)
  qed
qed

section \<open>Release refines the list operation\<close>

lemma find_start_list:
  assumes "segment st p xs None" and "list_all2 (holds st) xs cs"
  shows "case release_regions s cs of
      None \<Rightarrow> find_start st s (head_or None xs) = Some (Inr None)
    | Some cs' \<Rightarrow> \<exists>as a bs cas n f cbs. find_start st s (head_or None xs) = Some (Inr (Some a)) \<and>
        xs = as @ a # bs \<and> cs = cas @ (s, n, f) # cbs \<and> cs' = cas @ (s, n, True) # cbs \<and>
        length as = length cas"
  using assms
proof (induction xs arbitrary: p cs)
  case Nil
  then show ?case by (subst find_start.simps) simp
next
  case (Cons x xs)
  from Cons.prems(2) obtain r rs where cs: "cs = r # rs" and r: "holds st x r" and rs: "list_all2 (holds st) xs rs"
    by (auto simp: list_all2_Cons1)
  from r obtain c where c: "st x = Some c" "view c = r" by (auto simp: holds_def)
  have nxt: "nd_next c = head_or None xs" and seg: "segment st (Some x) xs None"
    using Cons.prems(1) c by auto
  obtain n f where start: "r = (c_start c, n, f)" using c(2) by (auto simp: view_def)
  show ?case
  proof (cases "c_start c = s")
    case True
    then have "find_start st s (head_or None (x # xs)) = Some (Inr (Some x))"
      using c by (subst find_start.simps) simp
    moreover have "release_regions s cs = Some ([] @ (s, n, True) # rs)" "cs = [] @ (s, n, f) # rs"
      "x # xs = [] @ x # xs" "length ([] :: addr list) = length ([] :: region list)"
      using True cs start by simp_all
    ultimately show ?thesis by (simp only: option.case) blast
  next
    case False
    have step: "find_start st s (head_or None (x # xs)) = find_start st s (head_or None xs)"
      using False c nxt by (subst find_start.simps) simp
    show ?thesis
    proof (cases "release_regions s rs")
      case None
      then show ?thesis using Cons.IH [OF seg rs] step False cs start by simp
    next
      case (Some rs')
      then obtain as a bs cas m g cbs where
        found: "find_start st s (head_or None xs) = Some (Inr (Some a))" and
        parts: "xs = as @ a # bs" "rs = cas @ (s, m, g) # cbs" "rs' = cas @ (s, m, True) # cbs"
          "length as = length cas"
        using Cons.IH [OF seg rs] by auto
      have "find_start st s (head_or None (x # xs)) = Some (Inr (Some a))" using step found by simp
      moreover have "release_regions s cs = Some ((r # cas) @ (s, m, True) # cbs)"
          "cs = (r # cas) @ (s, m, g) # cbs" "x # xs = (x # as) @ a # bs" "length (x # as) = length (r # cas)"
        using Some False cs start parts by simp_all
      ultimately show ?thesis by (simp only: option.case) blast
    qed
  qed
qed

lemma merge_prev_keeps:
  assumes rep: "allocator_rep al (as @ a # bs) (cas @ (s, n, f) # cbs)" and len: "length as = length cas"
    and stay: "cas = [] \<or> (\<not> region_free (last cas) \<and> 0 < n)"
  shows "merge_prev al a freed = Inr (freed, al)"
proof -
  from rep have ch: "chained (mList al) (mem al) (as @ a # bs) (cas @ (s, n, f) # cbs)"
    by (simp add: allocator_rep_def)
  from chained_node [OF this len] obtain c where
    c: "mem al a = Some c" "view c = (s, n, f)" "nd_prev c = last_or None as" by blast
  show ?thesis
  proof (cases cas rule: rev_cases)
    case Nil
    with len c show ?thesis by (simp add: merge_prev_def)
  next
    case (snoc cas' q)
    then obtain as' p where as: "as = as' @ [p]" "length as' = length cas'"
      using len by (cases as rule: rev_cases) auto
    then have "\<exists>cp. mem al p = Some cp \<and> view cp = q"
      using chained_node [of "mList al" "mem al" as' p "a # bs" cas' q "(s, n, f) # cbs"] ch snoc by auto
    with snoc as stay c show ?thesis by (auto simp: merge_prev_def view_def)
  qed
qed

lemma merge_prev_joins:
  assumes rep: "allocator_rep al (as @ p # a # bs) (cas @ (sp, np, True) # (s, n, f) # cbs)"
    and len: "length as = length cas" and small: "np + n < 268435456"
  shows "\<exists>al'. merge_prev al a freed = Inr (p, al') \<and> same_setup al al' \<and>
    allocator_rep al' (as @ p # bs) (cas @ (sp, np + n, True) # cbs)"
proof -
  from rep have ch: "chained (mList al) (mem al) (as @ p # a # bs) (cas @ (sp, np, True) # (s, n, f) # cbs)"
    by (simp add: allocator_rep_def)
  from chained_node [OF this len] obtain cp where
    cp: "mem al p = Some cp" "view cp = (sp, np, True)" by blast
  from chained_node [of "mList al" "mem al" "as @ [p]" a bs "cas @ [(sp, np, True)]" "(s, n, f)" cbs] ch len
  obtain c where c: "mem al a = Some c" "view c = (s, n, f)" "nd_prev c = Some p" by auto
  define cp' where "cp' = cp\<lparr>c_size := size28 (c_size cp + c_size c)\<rparr>"
  have v: "view cp' = (sp, np + n, True)"
    using cp(2) c(2) small by (simp add: cp'_def view_def size28_def)
  have rep2: "allocator_rep (al\<lparr>mem := (mem al)(p \<mapsto> cp')\<rparr>) (as @ p # a # bs)
      (cas @ (sp, np + n, True) # (s, n, f) # cbs)"
    using allocator_rep_payload [OF rep len cp(1), of cp'] v by (simp add: cp'_def)
  then have "chained (mList al) ((mem al)(p \<mapsto> cp')) ((as @ [p]) @ a # bs)
      ((cas @ [(sp, np + n, True)]) @ (s, n, f) # cbs)" by (simp add: allocator_rep_def)
  from chained_remove [OF this] len obtain l' st' where
    rm: "remove (mList al) ((mem al)(p \<mapsto> cp')) a = Inr (l', st')" and
    res: "chained l' (st'(a := None)) ((as @ [p]) @ bs) ((cas @ [(sp, np + n, True)]) @ cbs)"
      "dom st' = dom ((mem al)(p \<mapsto> cp'))" by auto
  have "merge_prev al a freed = Inr (p, al\<lparr>mList := l', mem := st'(a := None)\<rparr>)"
    using c cp rm by (simp add: merge_prev_def view_def cp'_def)
  moreover have "allocator_rep (al\<lparr>mList := l', mem := st'(a := None)\<rparr>) (as @ p # bs) (cas @ (sp, np + n, True) # cbs)"
    using res rep ch by (auto simp: allocator_rep_def chained_def represents_def)
  ultimately show ?thesis by simp
qed

text \<open>No two neighbours are free.\<close>

fun apart :: "region list \<Rightarrow> bool" where
  "apart (r # q # rs) = (\<not> (region_free r \<and> region_free q) \<and> apart (q # rs))"
| "apart rs = True"

definition total_size :: "region list \<Rightarrow> nat" where
  "total_size cs = sum_list (map region_size cs)"

lemma total_size_append [simp]: "total_size (xs @ ys) = total_size xs + total_size ys"
  by (simp add: total_size_def)

lemma total_size_Cons [simp]: "total_size (r # rs) = region_size r + total_size rs"
  by (simp add: total_size_def)

lemma total_size_Nil [simp]: "total_size [] = 0"
  by (simp add: total_size_def)

lemma apart_coalesce: "apart cs \<Longrightarrow> coalesce cs = cs"
  by (induction cs rule: apart.induct) auto

lemma apart_append:
  "apart (xs @ ys) \<longleftrightarrow> apart xs \<and> apart ys \<and> \<not> (xs \<noteq> [] \<and> ys \<noteq> [] \<and> region_free (last xs) \<and> region_free (hd ys))"
proof (induction xs)
  case (Cons x xs)
  then show ?case by (cases xs; cases ys) auto
qed simp

lemma coalesce_join:
  "apart (cas @ [(sp, np, True)]) \<Longrightarrow>
   coalesce (cas @ (sp, np, True) # (s, n, True) # cbs) = coalesce (cas @ (sp, np + n, True) # cbs)"
proof (induction cas)
  case (Cons x xs)
  then show ?case by (cases x; cases xs) auto
qed simp

lemma merge_loop_stops:
  assumes rep: "allocator_rep al (as @ a # bs) (cas @ (s, n, f) # cbs)" and len: "length as = length cas"
    and m: "merge_prev al a freed = Inr (p, al')" and rep': "allocator_rep al' (as' @ bs) (cas' @ cbs)"
    and len': "length as' = length cas'" and stop: "cbs = [] \<or> \<not> region_free (hd cbs)"
  shows "merge_loop al a freed = Some (Inr (p, al'))"
proof -
  from rep have ch: "chained (mList al) (mem al) (as @ a # bs) (cas @ (s, n, f) # cbs)"
    by (simp add: allocator_rep_def)
  from chained_node [OF this len] obtain c where
    c: "mem al a = Some c" "nd_next c = head_or None bs" by blast
  have lens: "length bs = length cbs"
    using ch len by (auto simp: chained_def dest: list_all2_lengthD)
  show ?thesis
  proof (cases bs)
    case Nil
    with c m show ?thesis by (subst merge_loop.simps) simp
  next
    case (Cons b bs')
    then obtain q cbs' where cbs: "cbs = q # cbs'" using lens by (cases cbs) auto
    then obtain cb where "mem al' b = Some cb" "view cb = q"
      using chained_node [of "mList al'" "mem al'" as' b bs' cas' q cbs'] rep' len' Cons
      by (auto simp: allocator_rep_def)
    with Cons c m cbs stop show ?thesis by (subst merge_loop.simps) (auto simp: view_def)
  qed
qed

lemma merge_loop_goes_on:
  assumes rep: "allocator_rep al (as @ a # b # bs) (cas @ (s, n, f) # (sb, nb, True) # cbs)" and len: "length as = length cas"
    and m: "merge_prev al a freed = Inr (p, al')" and rep': "allocator_rep al' (as' @ b # bs) (cas' @ (sb, nb, True) # cbs)"
    and len': "length as' = length cas'"
  shows "merge_loop al a freed = merge_loop al' b p"
proof -
  from rep have "chained (mList al) (mem al) (as @ a # b # bs) (cas @ (s, n, f) # (sb, nb, True) # cbs)"
    by (simp add: allocator_rep_def)
  from chained_node [OF this len] obtain c where
    c: "mem al a = Some c" "nd_next c = Some b" by auto
  obtain cb where "mem al' b = Some cb" "view cb = (sb, nb, True)"
    using chained_node [of "mList al'" "mem al'" as' b bs cas' "(sb, nb, True)" cbs] rep' len'
    by (auto simp: allocator_rep_def)
  with c m show ?thesis by (subst merge_loop.simps) (auto simp: view_def)
qed

text \<open>The first round merges the freed chunk to the left, the second one the chunk on its right.\<close>

lemma merge_left:
  assumes rep: "allocator_rep al (as @ a # bs) (cas @ (s, n, True) # cbs)" and len: "length as = length cas"
    and ap: "apart cas" and n: "0 < n" and small: "total_size cas + n < 268435456"
  shows "\<exists>p al' as' cas' s' n'. merge_prev al a a = Inr (p, al') \<and> same_setup al al' \<and> length as' = length cas' \<and>
    allocator_rep al' (as' @ p # bs) (cas' @ (s', n', True) # cbs) \<and> apart (cas' @ [(s', n', True)]) \<and>
    total_size cas' + n' = total_size cas + n \<and> 0 < n' \<and>
    coalesce (cas @ (s, n, True) # cbs) = coalesce (cas' @ (s', n', True) # cbs)"
proof (cases "cas = [] \<or> \<not> region_free (last cas)")
  case True
  with merge_prev_keeps [OF rep len, of a] n ap rep len show ?thesis
    by (intro exI [of _ a] exI [of _ al] exI [of _ as] exI [of _ cas] exI [of _ s] exI [of _ n])
       (auto simp: apart_append)
next
  case False
  then obtain cas' sp np where cas: "cas = cas' @ [(sp, np, True)]"
    by (cases cas rule: rev_cases) auto
  then obtain as' p where as: "as = as' @ [p]" "length as' = length cas'"
    using len by (cases as rule: rev_cases) auto
  have "allocator_rep al (as' @ p # a # bs) (cas' @ (sp, np, True) # (s, n, True) # cbs)"
    using rep as cas by simp
  from merge_prev_joins [OF this as(2)] small cas obtain al' where
    "merge_prev al a a = Inr (p, al')" "same_setup al al'"
    "allocator_rep al' (as' @ p # bs) (cas' @ (sp, np + n, True) # cbs)" by auto
  with as cas ap n coalesce_join [of cas' sp np s n cbs] show ?thesis
    by (intro exI [of _ p] exI [of _ al'] exI [of _ as'] exI [of _ cas'] exI [of _ sp] exI [of _ "np + n"])
       (auto simp: apart_append)
qed

lemma merge_loop_list:
  assumes rep: "allocator_rep al (as @ a # bs) (cas @ (s, n, True) # cbs)" and len: "length as = length cas"
    and ap: "apart cas" "apart cbs" and n: "0 < n" and small: "total_size cas + n + total_size cbs < 268435456"
  shows "\<exists>p al' xs c. merge_loop al a a = Some (Inr (p, al')) \<and> same_setup al al' \<and> mem al' p = Some c \<and> c_free c \<and>
    allocator_rep al' xs (coalesce (cas @ (s, n, True) # cbs))"
proof -
  from merge_left [OF rep len ap(1) n] small obtain p al1 as1 cas1 s1 n1 where
    m: "merge_prev al a a = Inr (p, al1)" "same_setup al al1" and len1: "length as1 = length cas1" and
    rep1: "allocator_rep al1 (as1 @ p # bs) (cas1 @ (s1, n1, True) # cbs)" and
    ap1: "apart (cas1 @ [(s1, n1, True)])" and tot1: "total_size cas1 + n1 = total_size cas + n" "0 < n1" and
    co: "coalesce (cas @ (s, n, True) # cbs) = coalesce (cas1 @ (s1, n1, True) # cbs)" by auto
  have at: "\<exists>c. mem al' q = Some c \<and> c_free c"
    if "allocator_rep al' (as1 @ q # ys) (cas1 @ (s', n', True) # rs)" for al' q ys s' n' rs
    using chained_node [of "mList al'" "mem al'" as1 q ys cas1 "(s', n', True)" rs] that len1
    by (auto simp: allocator_rep_def view_def)
  show ?thesis
  proof (cases "cbs \<noteq> [] \<and> region_free (hd cbs)")
    case False
    have "allocator_rep al1 ((as1 @ [p]) @ bs) ((cas1 @ [(s1, n1, True)]) @ cbs)" using rep1 by simp
    from merge_loop_stops [OF rep len m(1) this] len1 False
    have "merge_loop al a a = Some (Inr (p, al1))" by auto
    moreover have "apart (cas1 @ (s1, n1, True) # cbs)"
      using ap1 ap(2) False apart_append [of "cas1 @ [(s1, n1, True)]" cbs] by auto
    ultimately show ?thesis
      using m(2) rep1 co at [OF rep1] by (auto simp: apart_coalesce)
  next
    case True
    then obtain sb nb cbs' where cbs: "cbs = (sb, nb, True) # cbs'" by (cases cbs) auto
    have "length bs = length cbs"
      using rep len by (auto simp: allocator_rep_def chained_def dest: list_all2_lengthD)
    then obtain b bs' where bs: "bs = b # bs'" using cbs by (cases bs) auto
    have rep1': "allocator_rep al1 ((as1 @ [p]) @ b # bs') ((cas1 @ [(s1, n1, True)]) @ (sb, nb, True) # cbs')"
      using rep1 bs cbs by simp
    have rep': "allocator_rep al (as @ a # b # bs') (cas @ (s, n, True) # (sb, nb, True) # cbs')"
      using rep bs cbs by simp
    have go: "merge_loop al a a = merge_loop al1 b p"
      by (rule merge_loop_goes_on [OF rep' len m(1) rep1']) (simp add: len1)
    have "allocator_rep al1 (as1 @ p # b # bs') (cas1 @ (s1, n1, True) # (sb, nb, True) # cbs')"
      using rep1 bs cbs by simp
    from merge_prev_joins [OF this len1, of p] small tot1 cbs obtain al2 where
      j: "merge_prev al1 b p = Inr (p, al2)" "same_setup al1 al2" and
      rep2: "allocator_rep al2 (as1 @ p # bs') (cas1 @ (s1, n1 + nb, True) # cbs')" by auto
    have stop: "cbs' = [] \<or> \<not> region_free (hd cbs')" using ap(2) cbs by (cases cbs') auto
    have "allocator_rep al2 ((as1 @ [p]) @ bs') ((cas1 @ [(s1, n1 + nb, True)]) @ cbs')" using rep2 by simp
    from merge_loop_stops [OF rep1' _ j(1) this _ stop] len1
    have "merge_loop al1 b p = Some (Inr (p, al2))" by auto
    moreover have "apart (cas1 @ (s1, n1 + nb, True) # cbs')"
      using ap1 ap(2) cbs stop by (cases cbs') (auto simp: apart_append)
    ultimately show ?thesis
      using m(2) j(2) rep2 co coalesce_join [OF ap1] cbs go at [OF rep2]
      by (auto simp: apart_coalesce intro: same_setup_trans)
  qed
qed

lemma release_regions_apart:
  assumes "apart (cas @ (s, n, f) # cbs)"
  shows "apart cas" and "apart cbs"
  using assms by (auto simp: apart_append elim: apart.elims)

lemma dealloc_list:
  assumes rep: "allocator_rep al xs cs" and ap: "apart cs" and pos: "\<forall>r \<in> set cs. 0 < region_size r"
    and small: "total_size cs < 268435456"
  shows "case dealloc_regions offset cs of
      None \<Rightarrow> dealloc al offset = Some (Inr (None, al))
    | Some cs' \<Rightarrow> (offset div kMemoryAlign, True) \<in> (\<lambda>r. (region_start r, region_free r)) ` set cs \<and> \<not> NDEBUG al \<or>
        (\<exists>p al' xs'. dealloc al offset = Some (Inr (Some p, al')) \<and> same_setup al al' \<and> allocator_rep al' xs' cs')"
proof -
  let ?s = "offset div kMemoryAlign"
  have seg: "segment (mem al) None xs None" and hs: "list_all2 (holds (mem al)) xs cs" and
    first: "mFirst (mList al) = head_or None xs"
    using rep by (auto simp: allocator_rep_def chained_def represents_def)
  note fs = find_start_list [OF seg hs, of ?s]
  show ?thesis
  proof (cases "release_regions ?s cs")
    case None
    with fs first show ?thesis by (simp add: dealloc_regions_def dealloc_def)
  next
    case (Some cs')
    with fs obtain as a bs cas n f cbs where
      found: "find_start (mem al) ?s (head_or None xs) = Some (Inr (Some a))" and
      xs: "xs = as @ a # bs" and cs: "cs = cas @ (?s, n, f) # cbs" and
      cs': "cs' = cas @ (?s, n, True) # cbs" and len: "length as = length cas" by auto
    have rep0: "allocator_rep al (as @ a # bs) (cas @ (?s, n, f) # cbs)" using rep xs cs by simp
    then obtain c where c: "mem al a = Some c" "view c = (?s, n, f)"
      using chained_node len unfolding allocator_rep_def by blast
    define al1 where "al1 = al\<lparr>mem := (mem al)(a \<mapsto> c\<lparr>c_free := True\<rparr>)\<rparr>"
    have rep1: "allocator_rep al1 (as @ a # bs) (cas @ (?s, n, True) # cbs)"
      using allocator_rep_payload [OF rep0 len c(1), of "c\<lparr>c_free := True\<rparr>"] c(2)
      by (simp add: al1_def view_def)
    have n: "0 < n" and tot: "total_size cas + n + total_size cbs < 268435456" using pos small cs by auto
    have parts: "apart cas" "apart cbs" using release_regions_apart ap cs by blast+
    from merge_loop_list [OF rep1 len parts n tot] obtain p al' ys cf where
      ml: "merge_loop al1 a a = Some (Inr (p, al'))" "same_setup al1 al'" "mem al' p = Some cf" "c_free cf"
      "allocator_rep al' ys (coalesce (cas @ (?s, n, True) # cbs))" by blast
    show ?thesis
    proof (cases "f \<and> \<not> NDEBUG al")
      case True
      then show ?thesis using Some cs by (force simp: dealloc_regions_def)
    next
      case False
      then have "\<not> (c_free c \<and> \<not> NDEBUG al)" using c(2) by (auto simp: view_def)
      then have "dealloc al offset = Some (Inr (Some p, al'))"
        using found first c(1) ml by (simp add: dealloc_def al1_def split: if_splits)
      moreover have "same_setup al al'" using ml(2) by (simp add: al1_def same_setup_def)
      ultimately show ?thesis using Some cs' ml(5) by (auto simp: dealloc_regions_def)
    qed
  qed
qed

section \<open>The destructor\<close>

lemma delete_chunks_all:
  assumes "chained l st xs cs" and "dom st = set xs"
  shows "\<exists>l'. delete_chunks l st = Some (Inr (l', Map.empty))"
  using assms
proof (induction xs arbitrary: l st cs)
  case Nil
  then show ?case by (subst delete_chunks.simps) (auto simp: chained_def represents_def)
next
  case (Cons x xs)
  then obtain r rs where cs: "cs = r # rs" by (cases cs) (auto simp: chained_def)
  from chained_remove [of l st "[]" x xs "[]" r rs] Cons.prems cs obtain l1 st1 where
    rm: "remove l st x = Inr (l1, st1)" and ch: "chained l1 (st1(x := None)) xs rs" and dom: "dom st1 = dom st" by auto
  have "x \<notin> set xs" using Cons.prems(1) by (simp add: chained_def represents_def)
  then have "dom (st1(x := None)) = set xs" using dom Cons.prems(2) by auto
  note rest = Cons.IH [OF ch this]
  have "mFirst l = Some x" using Cons.prems(1) by (simp add: chained_def represents_def)
  then have "delete_chunks l st = delete_chunks l1 (st1(x := None))"
    using rm by (subst delete_chunks.simps) simp
  with rest show ?case by (simp only:)
qed

lemma destroy_allocator_all:
  "allocator_rep al xs cs \<Longrightarrow> destroy_allocator al = Some (Inr Map.empty)"
  using delete_chunks_all [of "mList al" "mem al" xs cs]
  by (auto simp: allocator_rep_def destroy_allocator_def)

end
