(* ===== verification/Memory_Dealer.thy ===== *)
theory Memory_Dealer
  imports Best_Fit_Refinement
begin

text \<open>
  MemoryDealer and its Allocation objects (src/libs/binder/MemoryDealer.cpp), on top of the
  allocator. \<open>region_inv\<close> is the invariant of the chunk list: the regions tile the heap
  and no two neighbours are free. The locale \<open>block_allocator\<close> is the contract MemoryDealer
  relies on; it is interpreted on the pointer-level allocator, and the dealer with its outstanding
  allocations is a transition system whose reachable states never hold overlapping allocations.
\<close>

section \<open>The invariant of the chunk list\<close>

fun tiles :: "nat \<Rightarrow> region list \<Rightarrow> nat \<Rightarrow> bool" where
  "tiles a [] b \<longleftrightarrow> a = b"
| "tiles a (r # rs) b \<longleftrightarrow> region_start r = a \<and> 0 < region_size r \<and> tiles (a + region_size r) rs b"

definition region_inv :: "nat \<Rightarrow> region list \<Rightarrow> bool" where
  "region_inv tot cs \<longleftrightarrow> tiles 0 cs tot \<and> apart cs \<and> tot < 268435456"

definition live_regions :: "region list \<Rightarrow> (nat \<times> nat) set" where
  "live_regions cs = {(s, n). (s, n, False) \<in> set cs}"

lemma tiles_append: "tiles a (xs @ ys) b \<longleftrightarrow> (\<exists>m. tiles a xs m \<and> tiles m ys b)"
  by (induction xs arbitrary: a) auto

lemma tiles_total: "tiles a cs b \<Longrightarrow> b = a + total_size cs"
  by (induction cs arbitrary: a) fastforce+

lemma tiles_pos: "tiles a cs b \<Longrightarrow> r \<in> set cs \<Longrightarrow> 0 < region_size r"
  by (induction cs arbitrary: a) auto

lemma tiles_range: "tiles a cs b \<Longrightarrow> r \<in> set cs \<Longrightarrow> a \<le> region_start r \<and> region_start r + region_size r \<le> b"
proof (induction cs arbitrary: a)
  case (Cons c cs)
  then show ?case
    using tiles_total [of "a + region_size c" cs b] by fastforce
qed simp

lemma tiles_disjoint:
  "tiles a cs b \<Longrightarrow> r \<in> set cs \<Longrightarrow> q \<in> set cs \<Longrightarrow> r \<noteq> q \<Longrightarrow>
   region_start r + region_size r \<le> region_start q \<or> region_start q + region_size q \<le> region_start r"
proof (induction cs arbitrary: a)
  case (Cons c cs)
  then have later: "region_start c + region_size c \<le> region_start x" if "x \<in> set cs" for x
    using tiles_range [of "a + region_size c" cs b x] that by simp
  from Cons.prems consider "r = c" "q \<in> set cs" | "q = c" "r \<in> set cs" | "r \<in> set cs" "q \<in> set cs"
    by auto
  then show ?case
    by cases (use later Cons in auto)
qed simp

lemma region_inv_bounds:
  assumes "region_inv tot cs"
  shows "bounded cs" and "\<forall>r \<in> set cs. 0 < region_size r" and "total_size cs < 268435456" and "apart cs"
proof -
  have t: "tiles 0 cs tot" and "tot < 268435456" and "apart cs" using assms by (auto simp: region_inv_def)
  then show "total_size cs < 268435456" "apart cs" using tiles_total by fastforce+
  show "\<forall>r \<in> set cs. 0 < region_size r" using tiles_pos [OF t] by blast
  show "bounded cs"
    using tiles_range [OF t] \<open>tot < 268435456\<close> by (fastforce simp: bounded_def simp del: region_simps)
qed

subsection \<open>Allocation keeps it\<close>

lemma tiles_pieces:
  "fits pg flags sz (s, n, True) \<Longrightarrow> 0 < sz \<Longrightarrow> tiles s (pieces pg flags sz (s, n, True)) (s + n)"
  by (auto simp: pieces_def fits_def Let_def)

lemma apart_pieces: "apart (pieces pg flags sz (s, n, True))"
  by (auto simp: pieces_def Let_def)

lemma apart_insert:
  assumes "apart (xs @ (s, n, True) # ys)" and "apart ps" and "ps \<noteq> []"
  shows "apart (xs @ ps @ ys)"
  using assms by (cases ys) (auto simp: apart_append)

lemma live_pieces:
  "live_regions (xs @ pieces pg flags sz (s, n, True) @ ys) =
   insert (s + page_extra pg flags s, sz) (live_regions (xs @ (s, n, True) # ys))"
  by (auto simp: live_regions_def pieces_def Let_def)

lemma alloc_regions_inv:
  assumes inv: "region_inv tot cs" and n: "0 < units n"
  shows "region_inv tot (snd (alloc_regions pg flags n cs))"
proof (cases "n = 0 \<or> best_fit (fits pg flags (units n)) cs = None")
  case True
  with inv show ?thesis by (auto simp: alloc_regions_def)
next
  case False
  then obtain i where best: "best_fit (fits pg flags (units n)) cs = Some i" and n0: "n \<noteq> 0" by auto
  obtain s m f where r: "cs ! i = (s, m, f)" by (cases "cs ! i")
  have i: "i < length cs" "fits pg flags (units n) (s, m, True)" "f"
    using best_fit_SomeD [OF best] r by (auto simp: fits_def)
  have cs: "cs = take i cs @ (s, m, True) # drop (Suc i) cs"
    using id_take_nth_drop [OF i(1)] r i(3) by simp
  have "tiles 0 (take i cs @ (s, m, True) # drop (Suc i) cs) tot" "apart (take i cs @ (s, m, True) # drop (Suc i) cs)"
    using inv cs by (simp_all add: region_inv_def)
  then have "tiles 0 (take i cs @ pieces pg flags (units n) (s, m, True) @ drop (Suc i) cs) tot"
    and "apart (take i cs @ pieces pg flags (units n) (s, m, True) @ drop (Suc i) cs)"
    using tiles_pieces [OF i(2) n] apart_insert [OF _ apart_pieces]
    by (auto simp: tiles_append) (simp add: pieces_def Let_def)
  then show ?thesis
    using inv best n0 r i(3) by (simp add: alloc_regions_def region_inv_def)
qed

subsection \<open>Release keeps it\<close>

lemma tiles_coalesce: "tiles a cs b \<Longrightarrow> tiles a (coalesce cs) b"
  by (induction cs arbitrary: a rule: coalesce.induct) (auto simp: add.assoc)

lemma coalesce_hd: "region_free (hd (coalesce (r # cs))) = region_free r"
proof (induction "r # cs" arbitrary: r cs rule: coalesce.induct)
  case (1 r q rs)
  then show ?case by (cases "region_free r \<and> region_free q") auto
qed simp

lemma coalesce_Cons: "coalesce (r # cs) \<noteq> []"
  by (induction "r # cs" arbitrary: r cs rule: coalesce.induct) auto

lemma apart_Cons: "apart (r # cs) \<longleftrightarrow> apart cs \<and> \<not> (cs \<noteq> [] \<and> region_free r \<and> region_free (hd cs))"
  by (cases cs) auto

lemma apart_coalesced: "apart (coalesce cs)"
proof (induction cs rule: coalesce.induct)
  case (1 r q rs)
  then show ?case
    using coalesce_hd [of q rs] by (cases "region_free r \<and> region_free q") (auto simp: apart_Cons)
qed auto

lemma live_coalesce: "live_regions (coalesce cs) = live_regions cs"
  by (induction cs rule: coalesce.induct) (auto simp: live_regions_def)

lemma release_regions_shape:
  "release_regions s cs = Some cs' \<Longrightarrow>
   \<exists>xs n f ys. cs = xs @ (s, n, f) # ys \<and> cs' = xs @ (s, n, True) # ys"
proof (induction cs arbitrary: cs')
  case (Cons r rs)
  show ?case
  proof (cases "region_start r = s")
    case True
    with Cons.prems show ?thesis by (cases r) (auto intro!: exI [of _ "[]"])
  next
    case False
    with Cons.prems obtain rs' where "release_regions s rs = Some rs'" "cs' = r # rs'" by auto
    with Cons.IH [OF this(1)] show ?thesis by (metis append_Cons)
  qed
qed simp

lemma release_regions_found: "(s, n, f) \<in> set cs \<Longrightarrow> release_regions s cs \<noteq> None"
  by (induction cs) auto

lemma dealloc_regions_inv:
  assumes inv: "region_inv tot cs" and d: "dealloc_regions off cs = Some cs'"
  shows "region_inv tot cs'"
proof -
  obtain xs n f ys where "cs = xs @ (off div kMemoryAlign, n, f) # ys"
      "cs' = coalesce (xs @ (off div kMemoryAlign, n, True) # ys)"
    using d release_regions_shape unfolding dealloc_regions_def map_option_eq_Some by blast
  with inv show ?thesis
    by (auto simp: region_inv_def tiles_append apart_coalesced intro!: tiles_coalesce)
qed

lemma tiles_same_start:
  assumes t: "tiles a cs b" and in_cs: "(s, n, f) \<in> set cs" "(s, m, g) \<in> set cs"
  shows "n = m \<and> f = g"
proof (rule ccontr)
  assume "\<not> ?thesis"
  then have "(s, n, f) \<noteq> (s, m, g)" by auto
  from tiles_disjoint [OF t in_cs this] tiles_pos [OF t in_cs(1)] tiles_pos [OF t in_cs(2)]
  show False by auto
qed

lemma dealloc_regions_live:
  assumes inv: "region_inv tot cs" and l: "(s, n) \<in> live_regions cs"
  shows "\<exists>cs'. dealloc_regions (s * kMemoryAlign) cs = Some cs' \<and>
    live_regions cs' = live_regions cs - {(s, n)} \<and> (s, True) \<notin> (\<lambda>r. (region_start r, region_free r)) ` set cs"
proof -
  have t: "tiles 0 cs tot" using inv by (simp add: region_inv_def)
  have in_cs: "(s, n, False) \<in> set cs" using l by (simp add: live_regions_def)
  then obtain cs1 where rel: "release_regions s cs = Some cs1" using release_regions_found by blast
  then obtain xs m f ys where cs: "cs = xs @ (s, m, f) # ys" and cs1: "cs1 = xs @ (s, m, True) # ys"
    using release_regions_shape by blast
  have mf: "m = n" "\<not> f" using tiles_same_start [OF t in_cs, of m f] cs by auto
  have once: "(s, k, g) \<notin> set (xs @ ys)" for k g
  proof -
    have "tiles 0 (xs @ (s, n, f) # ys) tot" using t cs mf by simp
    then obtain c where "tiles 0 xs s" "tiles (s + n) ys tot" "0 < n" by (auto simp: tiles_append)
    then show ?thesis
      using tiles_range [of 0 xs s "(s, k, g)"] tiles_pos [of 0 xs s "(s, k, g)"]
        tiles_range [of "s + n" ys tot "(s, k, g)"] by fastforce
  qed
  have "live_regions cs1 = live_regions cs - {(s, n)}"
    using cs cs1 mf once by (auto simp: live_regions_def)
  moreover have "(s, True) \<notin> (\<lambda>r. (region_start r, region_free r)) ` set cs"
    using cs mf once by force
  ultimately show ?thesis using rel by (simp add: dealloc_regions_def live_coalesce)
qed

section \<open>Dealers and allocations\<close>

record allocation =
  a_offset :: nat
  a_size :: nat

definition Dealer_allocate :: "allocator \<Rightarrow> nat \<Rightarrow> (crash + allocation option \<times> allocator) option" where
  "Dealer_allocate al sz =
     (case allocate al sz of
        None \<Rightarrow> None
      | Some (Inl e) \<Rightarrow> Some (Inl e)
      | Some (Inr (offset, al)) \<Rightarrow>
          Some (Inr (if offset \<ge> 0 then Some \<lparr>a_offset = nat offset, a_size = sz\<rparr> else None, al)))"

definition Dealer_deallocate :: "allocator \<Rightarrow> nat \<Rightarrow> (crash + allocator) option" where
  "Dealer_deallocate al offset =
     (case deallocate al offset of
        None \<Rightarrow> None
      | Some (Inl e) \<Rightarrow> Some (Inl e)
      | Some (Inr (st, al)) \<Rightarrow> Some (Inr al))"

text \<open>The pages \<open>~Allocation\<close> hands back to the kernel.\<close>

definition page_down :: "nat \<Rightarrow> nat \<Rightarrow> nat" where
  "page_down pg x = unat ((of_nat x :: u64) AND NOT (of_nat pg - 1))"

definition page_up :: "nat \<Rightarrow> nat \<Rightarrow> nat" where
  "page_up pg x = unat ((of_nat x + of_nat pg - 1 :: u64) AND NOT (of_nat pg - 1))"

definition freed_pages :: "nat \<Rightarrow> allocation \<Rightarrow> (nat \<times> nat) option" where
  "freed_pages pg a =
     (let free_start = a_offset a; free_end = size_add (a_offset a) (a_size a);
          start = page_down pg free_start; stop = page_up pg free_end;
          start = (if start < free_start then free_start else start);
          stop = (if stop > free_end then free_end else stop);
          start = page_up pg start; stop = page_down pg stop
      in if start < stop then Some (start, stop) else None)"

definition destroy_allocation :: "allocator \<Rightarrow> allocation \<Rightarrow> (crash + (nat \<times> nat) option \<times> allocator) option" where
  "destroy_allocation al a =
     (if a_size a \<noteq> 0
      then (case Dealer_deallocate al (a_offset a) of
              None \<Rightarrow> None
            | Some (Inl e) \<Rightarrow> Some (Inl e)
            | Some (Inr al') \<Rightarrow>
                Some (Inr (if NDEBUG al then None else freed_pages (pagesize al) (a), al')))
      else Some (Inr (None, al)))"

section \<open>The contract of the allocator\<close>

definition records :: "(nat \<times> nat) set \<Rightarrow> allocation list \<Rightarrow> bool" where
  "records live outs \<longleftrightarrow>
     (let real = filter (\<lambda>a. 0 < a_size a) outs in
      distinct (map a_offset real) \<and> fst ` live = a_offset ` set real \<and>
      (\<forall>a \<in> set real. \<exists>m. a_size a \<le> m \<and> (a_offset a, m) \<in> live))"

definition request_ok :: "nat \<Rightarrow> bool" where
  "request_ok n \<longleftrightarrow> n + 31 \<le> SIZE_MAX"

locale block_allocator =
  fixes ok :: "'s \<Rightarrow> bool"
    and live :: "'s \<Rightarrow> (nat \<times> nat) set"
    and room :: "'s \<Rightarrow> nat"
    and take_block :: "'s \<Rightarrow> nat \<Rightarrow> (crash + int \<times> 's) option"
    and give_back :: "'s \<Rightarrow> nat \<Rightarrow> (crash + status_t \<times> 's) option"
  assumes live_inside: "ok s \<Longrightarrow> (a, n) \<in> live s \<Longrightarrow> 0 < n \<and> a + n \<le> room s"
    and live_disjoint:
      "ok s \<Longrightarrow> (a, n) \<in> live s \<Longrightarrow> (b, m) \<in> live s \<Longrightarrow> (a, n) = (b, m) \<or> a + n \<le> b \<or> b + m \<le> a"
    and take_block_law:
      "ok s \<Longrightarrow> 0 < n \<Longrightarrow> request_ok n \<Longrightarrow>
       \<exists>r t. take_block s n = Some (Inr (r, t)) \<and> ok t \<and> room t = room s \<and>
         (r < 0 \<and> live t = live s \<or>
          0 \<le> r \<and> (\<exists>m. n \<le> m \<and> (nat r, m) \<notin> live s \<and> live t = insert (nat r, m) (live s)))"
    and give_back_law:
      "ok s \<Longrightarrow> (a, n) \<in> live s \<Longrightarrow>
       \<exists>t. give_back s a = Some (Inr (NO_ERROR, t)) \<and> ok t \<and> room t = room s \<and> live t = live s - {(a, n)}"
begin

lemma live_unique: "ok s \<Longrightarrow> (a, n) \<in> live s \<Longrightarrow> (a, m) \<in> live s \<Longrightarrow> n = m"
  using live_disjoint [of s a n a m] live_inside [of s a n] live_inside [of s a m] by auto

lemma take_block_records:
  assumes s: "ok s" and rec: "records (live s) outs" and n: "0 < n" "request_ok n"
  shows "\<exists>r t. take_block s n = Some (Inr (r, t)) \<and> ok t \<and> room t = room s \<and>
    records (live t) (if r < 0 then outs else \<lparr>a_offset = nat r, a_size = n\<rparr> # outs)"
proof -
  obtain r t where t: "take_block s n = Some (Inr (r, t))" "ok t" "room t = room s"
    and c: "r < 0 \<and> live t = live s \<or>
          0 \<le> r \<and> (\<exists>m. n \<le> m \<and> (nat r, m) \<notin> live s \<and> live t = insert (nat r, m) (live s))"
    using take_block_law [OF s n] by blast
  from c have "records (live t) (if r < 0 then outs else \<lparr>a_offset = nat r, a_size = n\<rparr> # outs)"
  proof (elim disjE conjE exE)
    fix m assume r: "0 \<le> r" "n \<le> m" and new: "(nat r, m) \<notin> live s" and ins: "live t = insert (nat r, m) (live s)"
    have "nat r \<notin> fst ` live s"
      using new ins live_unique [OF t(2), of "nat r" m] by force
    with r rec n ins show ?thesis by (auto simp: records_def Let_def)
  qed (use rec in simp)
  with t show ?thesis by blast
qed

lemma give_back_records:
  assumes s: "ok s" and rec: "records (live s) (xs @ a # ys)" and n: "0 < a_size a"
  shows "\<exists>t. give_back s (a_offset a) = Some (Inr (NO_ERROR, t)) \<and> ok t \<and> room t = room s \<and>
    records (live t) (xs @ ys)"
proof -
  obtain m where m: "(a_offset a, m) \<in> live s" using rec n by (auto simp: records_def Let_def)
  obtain t where t: "give_back s (a_offset a) = Some (Inr (NO_ERROR, t))" "ok t" "room t = room s"
    "live t = live s - {(a_offset a, m)}"
    using give_back_law [OF s m] by blast
  let ?real = "\<lambda>xs. filter (\<lambda>a. 0 < a_size a) xs"
  have other: "fst p \<noteq> a_offset a" if "p \<in> live s" "p \<noteq> (a_offset a, m)" for p
    using that live_unique [OF s m, of "snd p"] by (cases p) auto
  have fst_live: "fst ` live t = fst ` live s - {a_offset a}"
    unfolding t(4) by (auto dest: other)
  have off: "a_offset a \<notin> a_offset ` set (?real (xs @ ys))" and dist: "distinct (map a_offset (?real (xs @ ys)))"
    using rec n by (auto simp: records_def Let_def)
  have img: "fst ` live s = insert (a_offset a) (a_offset ` set (?real (xs @ ys)))"
    and each: "\<forall>b \<in> set (?real (xs @ ys)). \<exists>m. a_size b \<le> m \<and> (a_offset b, m) \<in> live s"
    using rec n by (auto simp: records_def Let_def)
  have "\<exists>k. a_size b \<le> k \<and> (a_offset b, k) \<in> live t" if "b \<in> set (?real (xs @ ys))" for b
  proof -
    from each that obtain k where "a_size b \<le> k" "(a_offset b, k) \<in> live s" by blast
    moreover have "a_offset b \<noteq> a_offset a" using off imageI [OF that, of a_offset] by metis
    ultimately show ?thesis using t(4) by auto
  qed
  then have "records (live t) (xs @ ys)"
    unfolding records_def Let_def
  proof (intro conjI ballI)
    show "fst ` live t = a_offset ` set (?real (xs @ ys))" using fst_live img off by simp
  qed (use dist in blast)+
  with t show ?thesis by blast
qed

lemma records_disjoint:
  assumes s: "ok s" and rec: "records (live s) outs" and ij: "i < length outs" "j < length outs" "i \<noteq> j"
    and pos: "0 < a_size (outs ! i)" "0 < a_size (outs ! j)"
  shows "a_offset (outs ! i) + a_size (outs ! i) \<le> a_offset (outs ! j) \<or>
    a_offset (outs ! j) + a_size (outs ! j) \<le> a_offset (outs ! i)"
proof -
  let ?P = "\<lambda>a. 0 < a_size a"
  have "\<exists>m. a_size a \<le> m \<and> (a_offset a, m) \<in> live s" if "a \<in> set outs" "?P a" for a
    using rec that by (auto simp: records_def Let_def)
  then obtain m k where m: "a_size (outs ! i) \<le> m" "(a_offset (outs ! i), m) \<in> live s"
    and k: "a_size (outs ! j) \<le> k" "(a_offset (outs ! j), k) \<in> live s"
    using ij pos by (meson nth_mem)
  have "a_offset (outs ! i) \<noteq> a_offset (outs ! j)"
    using distinct_map_filter_nth [of a_offset ?P outs i j] rec ij pos by (auto simp: records_def Let_def)
  with live_disjoint [OF s m(2) k(2)] m(1) k(1) show ?thesis by auto
qed

end

section \<open>The allocator of the code meets the contract\<close>

definition page_ok :: "nat \<Rightarrow> bool" where
  "page_ok pg \<longleftrightarrow> (\<exists>k. 5 \<le> k \<and> k < 31 \<and> pg = 2 ^ k)"

definition allocator_ok :: "allocator \<Rightarrow> bool" where
  "allocator_ok al \<longleftrightarrow> page_ok (pagesize al) \<and> mHeapSize al mod kMemoryAlign = 0 \<and>
     (\<exists>xs cs. allocator_rep al xs cs \<and> region_inv (mHeapSize al div kMemoryAlign) cs)"

definition live_blocks :: "allocator \<Rightarrow> (nat \<times> nat) set" where
  "live_blocks al = {(c_start c * kMemoryAlign, c_size c * kMemoryAlign) |a c. mem al a = Some c \<and> \<not> c_free c}"

definition in_bytes :: "nat \<times> nat \<Rightarrow> nat \<times> nat" where
  "in_bytes b = (fst b * kMemoryAlign, snd b * kMemoryAlign)"

lemma inj_in_bytes: "inj in_bytes"
  by (auto simp: inj_def in_bytes_def)

lemma live_blocks_rep:
  assumes "allocator_rep al xs cs"
  shows "live_blocks al = in_bytes ` live_regions cs"
proof -
  have all: "list_all2 (holds (mem al)) xs cs" and dom: "dom (mem al) = set xs"
    using assms by (auto simp: allocator_rep_def chained_def)
  have key: "(\<exists>a c. mem al a = Some c \<and> view c = r) \<longleftrightarrow> r \<in> set cs" for r
  proof
    assume "\<exists>a c. mem al a = Some c \<and> view c = r"
    then obtain a c where ac: "mem al a = Some c" "view c = r" by blast
    then obtain i where "i < length xs" "a = xs ! i" using dom by (metis domI in_set_conv_nth)
    with ac all show "r \<in> set cs"
      by (auto simp: list_all2_conv_all_nth holds_def)
  next
    assume "r \<in> set cs"
    then obtain i where i: "i < length cs" "cs ! i = r" by (auto simp: in_set_conv_nth)
    then have "holds (mem al) (xs ! i) r" using list_all2_nthD2 [OF all, of i] by simp
    then show "\<exists>a c. mem al a = Some c \<and> view c = r" by (auto simp: holds_def)
  qed
  have "live_blocks al = in_bytes ` {(s, m). \<exists>x c. mem al x = Some c \<and> view c = (s, m, False)}"
    by (force simp: live_blocks_def view_def in_bytes_def)
  then show ?thesis by (simp add: key live_regions_def)
qed

lemma units_exact:
  assumes "request_ok n"
  shows "n \<le> units n * kMemoryAlign" and "0 < n \<Longrightarrow> 0 < units n"
proof -
  have u: "units n = (n + 31) div 32" using assms by (simp add: units_def request_ok_def)
  show "n \<le> units n * kMemoryAlign"
    unfolding u using div_mult_mod_eq [of "n + 31" 32] mod_less_divisor [of 32 "n + 31"] by linarith
  show "0 < n \<Longrightarrow> 0 < units n" unfolding u by (simp add: div_greater_zero_iff)
qed

lemma alloc_regions_live:
  assumes "n \<noteq> 0" and "region_inv tot cs" and "0 < units n"
  shows "fst (alloc_regions pg flags n cs) < 0 \<and> snd (alloc_regions pg flags n cs) = cs \<or>
    (\<exists>s. fst (alloc_regions pg flags n cs) = int (s * kMemoryAlign) \<and>
      live_regions (snd (alloc_regions pg flags n cs)) = insert (s, units n) (live_regions cs) \<and>
      (s, units n) \<notin> live_regions cs)"
proof (cases "best_fit (fits pg flags (units n)) cs")
  case None
  with assms show ?thesis by (simp add: alloc_regions_def)
next
  case (Some i)
  obtain s m f where r: "cs ! i = (s, m, f)" by (cases "cs ! i")
  have i: "i < length cs" "fits pg flags (units n) (s, m, True)" "f"
    using best_fit_SomeD [OF Some] r by (auto simp: fits_def)
  have cs: "cs = take i cs @ (s, m, True) # drop (Suc i) cs"
    using id_take_nth_drop [OF i(1)] r i(3) by simp
  have "(s + page_extra pg flags s, units n) \<notin> live_regions cs"
  proof
    assume "(s + page_extra pg flags s, units n) \<in> live_regions cs"
    then have "(s + page_extra pg flags s, units n, False) \<in> set cs" by (simp add: live_regions_def)
    moreover have "(s, m, True) \<in> set cs" using r i(1,3) nth_mem by fastforce
    ultimately show False
      using tiles_disjoint [of 0 cs tot "(s + page_extra pg flags s, units n, False)" "(s, m, True)"]
        assms(2,3) i(2) by (auto simp: region_inv_def fits_def)
  qed
  moreover have "live_regions (take i cs @ pieces pg flags (units n) (s, m, True) @ drop (Suc i) cs) =
      insert (s + page_extra pg flags s, units n) (live_regions cs)"
    unfolding live_pieces using cs by simp
  ultimately show ?thesis
    using Some r i(3) assms(1) by (auto simp: alloc_regions_def intro!: exI [of _ "s + page_extra pg flags s"])
qed

lemma allocate_law:
  assumes ok: "allocator_ok al" and n: "0 < n" "request_ok n"
  shows "\<exists>r t. allocate al n = Some (Inr (r, t)) \<and> allocator_ok t \<and> mHeapSize t = mHeapSize al \<and>
    (r < 0 \<and> live_blocks t = live_blocks al \<or>
     0 \<le> r \<and> (\<exists>m. n \<le> m \<and> (nat r, m) \<notin> live_blocks al \<and> live_blocks t = insert (nat r, m) (live_blocks al)))"
proof -
  obtain xs cs where rep: "allocator_rep al xs cs" and inv: "region_inv (mHeapSize al div kMemoryAlign) cs"
    using ok by (auto simp: allocator_ok_def)
  let ?p = "alloc_regions (pagesize al) 0 n cs"
  obtain t ys where t: "allocate al n = Some (Inr (fst ?p, t))" "same_setup al t" "allocator_rep t ys (snd ?p)"
    using alloc_list [OF rep region_inv_bounds(1) [OF inv], of n 0] by (auto simp: allocate_def)
  have inv': "region_inv (mHeapSize al div kMemoryAlign) (snd ?p)"
    by (rule alloc_regions_inv [OF inv units_exact(2) [OF n(2,1)]])
  then have "allocator_ok t" using ok t by (auto simp: allocator_ok_def same_setup_def)
  moreover have "fst ?p < 0 \<and> snd ?p = cs \<or> (\<exists>s. fst ?p = int (s * kMemoryAlign) \<and>
      live_regions (snd ?p) = insert (s, units n) (live_regions cs) \<and> (s, units n) \<notin> live_regions cs)"
    using alloc_regions_live [OF _ inv] n units_exact(2) [OF n(2,1)] by simp
  then have "fst ?p < 0 \<and> live_blocks t = live_blocks al \<or>
     0 \<le> fst ?p \<and> (\<exists>m. n \<le> m \<and> (nat (fst ?p), m) \<notin> live_blocks al \<and> live_blocks t = insert (nat (fst ?p), m) (live_blocks al))"
  proof (elim disjE conjE exE)
    fix s assume s: "fst ?p = int (s * kMemoryAlign)" "(s, units n) \<notin> live_regions cs"
      and live: "live_regions (snd ?p) = insert (s, units n) (live_regions cs)"
    have off: "nat (fst ?p) = s * kMemoryAlign" unfolding s(1) by (rule nat_int)
    have "in_bytes (s, units n) \<notin> live_blocks al"
      using s(2) by (simp add: live_blocks_rep [OF rep] inj_image_mem_iff [OF inj_in_bytes])
    moreover have "live_blocks t = insert (in_bytes (s, units n)) (live_blocks al)"
      using live by (simp add: live_blocks_rep [OF rep] live_blocks_rep [OF t(3)])
    moreover have "in_bytes (s, units n) = (s * kMemoryAlign, units n * kMemoryAlign)" by (simp add: in_bytes_def)
    ultimately show ?thesis using s(1) off units_exact(1) [OF n(2)] by auto
  qed (auto simp: live_blocks_rep [OF rep] live_blocks_rep [OF t(3)])
  ultimately show ?thesis using t(1,2) by (auto simp: same_setup_def)
qed

lemma deallocate_law:
  assumes ok: "allocator_ok al" and l: "(a, n) \<in> live_blocks al"
  shows "\<exists>t. deallocate al a = Some (Inr (NO_ERROR, t)) \<and> allocator_ok t \<and> mHeapSize t = mHeapSize al \<and>
    live_blocks t = live_blocks al - {(a, n)}"
proof -
  obtain xs cs where rep: "allocator_rep al xs cs" and inv: "region_inv (mHeapSize al div kMemoryAlign) cs"
    using ok by (auto simp: allocator_ok_def)
  obtain s m where sm: "(s, m) \<in> live_regions cs" "a = s * kMemoryAlign" "n = m * kMemoryAlign"
    using l live_blocks_rep [OF rep] by (auto simp: in_bytes_def)
  obtain cs' where cs': "dealloc_regions a cs = Some cs'" "live_regions cs' = live_regions cs - {(s, m)}"
    "(s, True) \<notin> (\<lambda>r. (region_start r, region_free r)) ` set cs"
    using dealloc_regions_live [OF inv sm(1)] sm(2) by blast
  from dealloc_list [OF rep region_inv_bounds(4,2,3) [OF inv], of a] cs' sm(2) obtain p t ys where
    t: "dealloc al a = Some (Inr (Some p, t))" "same_setup al t" "allocator_rep t ys cs'" by auto
  have "live_blocks t = live_blocks al - {(a, n)}"
    unfolding live_blocks_rep [OF rep] live_blocks_rep [OF t(3)] cs'(2) image_set_diff [OF inj_in_bytes]
    using sm by (simp add: in_bytes_def)
  moreover have "allocator_ok t"
    using ok t dealloc_regions_inv [OF inv cs'(1)] by (auto simp: allocator_ok_def same_setup_def)
  ultimately show ?thesis using t by (auto simp: deallocate_def same_setup_def)
qed

interpretation best_fit_blocks: block_allocator allocator_ok live_blocks mHeapSize allocate deallocate
proof
  fix al a n
  assume ok: "allocator_ok al" and l: "(a, n) \<in> live_blocks al"
  obtain xs cs where rep: "allocator_rep al xs cs" and t: "tiles 0 cs (mHeapSize al div kMemoryAlign)"
    using ok by (auto simp: allocator_ok_def region_inv_def)
  obtain s m where sm: "(s, m, False) \<in> set cs" "a = s * kMemoryAlign" "n = m * kMemoryAlign"
    using l live_blocks_rep [OF rep] by (auto simp: live_regions_def in_bytes_def)
  then show "0 < n \<and> a + n \<le> mHeapSize al"
    using tiles_range [OF t sm(1)] tiles_pos [OF t sm(1)] by auto
  fix b k
  assume "(b, k) \<in> live_blocks al"
  then obtain s' m' where "(s', m', False) \<in> set cs" "b = s' * kMemoryAlign" "k = m' * kMemoryAlign"
    using live_blocks_rep [OF rep] by (auto simp: live_regions_def in_bytes_def)
  then show "(a, n) = (b, k) \<or> a + n \<le> b \<or> b + k \<le> a"
    using tiles_disjoint [OF t sm(1), of "(s', m', False)"] sm
    by (cases "(s, m) = (s', m')") auto
qed (rule allocate_law deallocate_law, assumption+)+

end
