(* ===== verification/Dealer_Theorems.thy ===== *)
theory Dealer_Theorems
  imports Memory_Dealer
begin

text \<open>
  Properties of the memory dealer: the dealer as a transition system over its allocations, the
  refinement of the chunk list to regions, best fit and page alignment, the round trip of an
  allocation, and the pages handed back to the kernel.
\<close>

section \<open>Pages\<close>

lemma page_okE:
  assumes "page_ok pg"
  obtains k where "5 \<le> k" "k < 31" "pg = 2 ^ k"
  using assms by (auto simp: page_ok_def)

lemma page_mask:
  assumes "pg = 2 ^ k" and "k < 31"
  shows "(of_nat pg - 1 :: u64) = mask k"
  using power_minus_one_mask [of k, where 'a = 64] assms by simp

lemma page_down_eq:
  assumes "page_ok pg" and "x < 2 ^ 64"
  shows "page_down pg x = x div pg * pg"
proof -
  obtain k where k: "k < 31" "pg = 2 ^ k" using page_okE [OF assms(1)] by metis
  have "unat (of_nat x :: u64) = x" using assms(2) by (simp add: unat_of_nat)
  then show ?thesis
    unfolding page_down_def page_mask [OF k(2,1)] unat_and_not_mask k(2) [symmetric] by simp
qed

lemma page_up_eq:
  assumes "page_ok pg" and "x + pg \<le> 2 ^ 64"
  shows "page_up pg x = (x + pg - 1) div pg * pg"
proof -
  obtain k where k: "k < 31" "pg = 2 ^ k" using page_okE [OF assms(1)] by metis
  have pos: "1 \<le> pg" using k by simp
  then have "(of_nat x + of_nat pg - 1 :: u64) = of_nat (x + pg - 1)" by (simp add: of_nat_diff)
  moreover have "unat (of_nat (x + pg - 1) :: u64) = x + pg - 1"
    using assms(2) pos unfolding unat_of_nat by (intro mod_less) simp
  ultimately show ?thesis
    unfolding page_up_def page_mask [OF k(2,1)] unat_and_not_mask k(2) [symmetric] by simp
qed

lemma round_up_ge: "0 < pg \<Longrightarrow> x \<le> (x + pg - 1) div pg * (pg :: nat)"
  using div_mult_mod_eq [of "x + pg - 1" pg] mod_less_divisor [of pg "x + pg - 1"] by linarith

text \<open>the pages the destructor of an allocation hands back to the kernel lie inside the
  allocation, start and end on page boundaries, and cover every whole page of it.\<close>
lemma freed_pages_inside:
  assumes "page_ok pg" and "a_offset a + a_size a + pg \<le> 2 ^ 64"
  shows "(\<forall>start stop. freed_pages pg a = Some (start, stop) \<longrightarrow>
      a_offset a \<le> start \<and> stop \<le> a_offset a + a_size a \<and> start mod pg = 0 \<and> stop mod pg = 0) \<and>
    (\<forall>q. a_offset a \<le> q * pg \<and> (q + 1) * pg \<le> a_offset a + a_size a \<longrightarrow>
      (\<exists>start stop. freed_pages pg a = Some (start, stop) \<and> start \<le> q * pg \<and> (q + 1) * pg \<le> stop))"
proof -
  let ?o = "a_offset a" and ?e = "a_offset a + a_size a"
  have pos: "0 < pg" using page_okE [OF assms(1)] by (metis zero_less_numeral zero_less_power)
  have sz: "size_add ?o (a_size a) = ?e" using assms(2) pos by simp
  have down: "page_down pg x = x div pg * pg" if "x \<le> ?e" for x
    using page_down_eq [OF assms(1), of x] that assms(2) pos by simp
  have up: "page_up pg x = (x + pg - 1) div pg * pg" if "x \<le> ?e" for x
    using page_up_eq [OF assms(1), of x] that assms(2) by simp
  have start: "(if page_down pg ?o < ?o then ?o else page_down pg ?o) = ?o"
    using down [of ?o] by (auto simp: not_less intro: le_antisym)
  have stop: "(if ?e < page_up pg ?e then ?e else page_up pg ?e) = ?e"
    using up [of ?e] round_up_ge [OF pos, of ?e] by auto
  have run: "freed_pages pg a = (if (?o + pg - 1) div pg * pg < ?e div pg * pg
      then Some ((?o + pg - 1) div pg * pg, ?e div pg * pg) else None)"
    using up [of ?o] down [of ?e] unfolding freed_pages_def Let_def sz start stop by simp
  have low: "(?o + pg - 1) div pg * pg \<le> q * pg" if "?o \<le> q * pg" for q
  proof -
    have "?o + pg - 1 < (q + 1) * pg" using that pos by simp
    then have "(?o + pg - 1) div pg < q + 1" by (simp only: div_less_iff_less_mult [OF pos])
    then show ?thesis by simp
  qed
  have high: "q * pg \<le> ?e div pg * pg" if "q * pg \<le> ?e" for q
    using that pos by (simp add: less_eq_div_iff_mult_less_eq)
  show ?thesis
  proof (intro conjI allI impI)
    fix q assume q: "?o \<le> q * pg \<and> (q + 1) * pg \<le> ?e"
    then have le: "(?o + pg - 1) div pg * pg \<le> q * pg" "(q + 1) * pg \<le> ?e div pg * pg"
      using low high by blast+
    have "q * pg < (q + 1) * pg" using pos by simp
    with le have "(?o + pg - 1) div pg * pg < ?e div pg * pg" by linarith
    then have "freed_pages pg a = Some ((?o + pg - 1) div pg * pg, ?e div pg * pg)"
      unfolding run by (rule if_P)
    with le show "\<exists>start stop. freed_pages pg a = Some (start, stop) \<and> start \<le> q * pg \<and> (q + 1) * pg \<le> stop"
      by blast
  qed (use run round_up_ge [OF pos, of ?o] in \<open>auto split: if_splits\<close>)
qed


section \<open>The dealer as a transition system\<close>

record dealer =
  d_alloc :: allocator
  d_out :: "allocation list"

datatype dealer_event = Allocate nat | Destroy nat

definition dealer_init :: "dealer \<Rightarrow> bool" where
  "dealer_init d \<longleftrightarrow> (\<exists>pg ndebug sz al. page_ok pg \<and> 0 < sz \<and> sz + pg \<le> 8589934592 \<and>
     SimpleBestFitAllocator pg ndebug sz = Inr al \<and> d = \<lparr>d_alloc = al, d_out = []\<rparr>)"

inductive dealer_step :: "dealer \<Rightarrow> dealer_event \<Rightarrow> dealer \<Rightarrow> bool" where
  do_allocate:
    "request_ok n \<Longrightarrow> Dealer_allocate (d_alloc d) n = Some (Inr (r, al)) \<Longrightarrow>
     dealer_step d (Allocate n)
       \<lparr>d_alloc = al, d_out = (case r of None \<Rightarrow> d_out d | Some a \<Rightarrow> a # d_out d)\<rparr>"
| do_destroy:
    "i < length (d_out d) \<Longrightarrow> destroy_allocation (d_alloc d) (d_out d ! i) = Some (Inr (pages, al)) \<Longrightarrow>
     dealer_step d (Destroy i) \<lparr>d_alloc = al, d_out = take i (d_out d) @ drop (Suc i) (d_out d)\<rparr>"

inductive_cases dealer_allocateE: "dealer_step d (Allocate n) d'"
inductive_cases dealer_destroyE: "dealer_step d (Destroy i) d'"

interpretation dealer: transition_system dealer_init dealer_step .

definition dealer_inv :: "dealer \<Rightarrow> bool" where
  "dealer_inv d \<longleftrightarrow> allocator_ok (d_alloc d) \<and> records (live_blocks (d_alloc d)) (d_out d)"

lemma new_allocator_ok:
  assumes pg: "page_ok pg" and sz: "0 < sz" "sz + pg \<le> 8589934592"
  shows "\<exists>al. SimpleBestFitAllocator pg ndebug sz = Inr al \<and> allocator_ok al \<and> live_blocks al = {}"
proof -
  define hs where "hs = page_up pg sz"
  obtain k where k: "5 \<le> k" "pg = 2 ^ k" using page_okE [OF pg] by metis
  then have pos: "0 < pg" and dvd: "kMemoryAlign dvd pg"
    using le_imp_power_dvd [OF k(1), of "2 :: nat"] by auto
  have hs: "hs = (sz + pg - 1) div pg * pg" using page_up_eq [OF pg, of sz] sz by (simp add: hs_def)
  then have "hs \<le> sz + pg - 1" by simp
  then have small: "hs < 8589934592" using sz pos by linarith
  have big: "sz \<le> hs" unfolding hs by (rule round_up_ge [OF pos])
  have al: "kMemoryAlign dvd hs" unfolding hs using dvd by simp
  have units: "0 < hs div kMemoryAlign" "hs div kMemoryAlign < 268435456"
    using small big sz al by (auto elim!: dvdE)
  define c where "c = \<lparr>nd_prev = None, nd_next = None, c_start = 0, c_size = hs div kMemoryAlign, c_free = True\<rparr>"
  define al where "al = \<lparr>mList = \<lparr>mFirst = Some 0, mLast = Some 0\<rparr>, mem = [0 \<mapsto> c], fresh = 1, mHeapSize = hs,
      pagesize = pg, NDEBUG = ndebug\<rparr>"
  have "SimpleBestFitAllocator pg ndebug sz = Inr al"
    using units by (simp add: SimpleBestFitAllocator_def page_up_def [symmetric] hs_def [symmetric] new_chunk_def
        Let_def insertHead_def emptyList_def size28_def al_def c_def)
  moreover have "allocator_rep al [0] [(0, hs div kMemoryAlign, True)]"
    by (simp add: allocator_rep_def chained_def represents_def al_def c_def holds_def view_def)
  moreover have "region_inv (hs div kMemoryAlign) [(0, hs div kMemoryAlign, True)]"
    using units by (simp add: region_inv_def)
  moreover have "live_blocks al = {}" by (auto simp: live_blocks_def al_def c_def)
  ultimately show ?thesis using pg \<open>kMemoryAlign dvd hs\<close> by (auto simp: allocator_ok_def al_def)
qed

lemma Dealer_allocate_inv:
  assumes ok: "allocator_ok al" and rec: "records (live_blocks al) outs" and n: "request_ok n"
  shows "\<exists>r t. Dealer_allocate al n = Some (Inr (r, t)) \<and> allocator_ok t \<and>
    records (live_blocks t) (case r of None \<Rightarrow> outs | Some a \<Rightarrow> a # outs) \<and> mHeapSize t = mHeapSize al"
proof (cases "n = 0")
  case True
  with ok rec show ?thesis
    by (auto simp: Dealer_allocate_def allocate_def alloc_def records_def Let_def)
next
  case False
  then obtain r t where "allocate al n = Some (Inr (r, t))" "allocator_ok t" "mHeapSize t = mHeapSize al"
    "records (live_blocks t) (if r < 0 then outs else \<lparr>a_offset = nat r, a_size = n\<rparr> # outs)"
    using best_fit_blocks.take_block_records [OF ok rec _ n] by auto
  then show ?thesis by (auto simp: Dealer_allocate_def split: if_splits)
qed

lemma destroy_allocation_inv:
  assumes ok: "allocator_ok al" and rec: "records (live_blocks al) (xs @ a # ys)"
  shows "\<exists>pages t. destroy_allocation al a = Some (Inr (pages, t)) \<and> allocator_ok t \<and>
    records (live_blocks t) (xs @ ys) \<and> mHeapSize t = mHeapSize al"
proof (cases "a_size a = 0")
  case True
  with ok rec show ?thesis by (auto simp: destroy_allocation_def records_def Let_def)
next
  case False
  then obtain t where "deallocate al (a_offset a) = Some (Inr (NO_ERROR, t))" "allocator_ok t"
    "mHeapSize t = mHeapSize al" "records (live_blocks t) (xs @ ys)"
    using best_fit_blocks.give_back_records [OF ok rec] by auto
  with False show ?thesis by (auto simp: destroy_allocation_def Dealer_deallocate_def)
qed

lemma dealer_step_inv: "dealer_step d e d' \<Longrightarrow> dealer_inv d \<Longrightarrow> dealer_inv d'"
proof (induction rule: dealer_step.induct)
  case (do_allocate n d r al)
  then show ?case
    using Dealer_allocate_inv [of "d_alloc d" "d_out d" n] by (auto simp: dealer_inv_def)
next
  case (do_destroy i d pages al)
  have "d_out d = take i (d_out d) @ d_out d ! i # drop (Suc i) (d_out d)"
    using do_destroy(1) by (rule id_take_nth_drop)
  with do_destroy destroy_allocation_inv [of "d_alloc d" "take i (d_out d)" "d_out d ! i" "drop (Suc i) (d_out d)"]
  show ?case by (auto simp: dealer_inv_def)
qed

lemma dealer_reach_inv:
  assumes "dealer.reach d"
  shows "dealer_inv d"
proof (rule dealer.invariant_rule [where I = dealer_inv])
  fix d assume "dealer_init d"
  then obtain al where "allocator_ok al" "live_blocks al = {}" "d = \<lparr>d_alloc = al, d_out = []\<rparr>"
    using new_allocator_ok unfolding dealer_init_def by (metis sum.inject(2))
  then show "dealer_inv d" by (simp add: dealer_inv_def records_def)
qed (use assms dealer_step_inv in blast)+


lemmas dealer_eval = SimpleBestFitAllocator_def new_chunk_def size28_def insertHead_def emptyList_def
  deref_def assign_def Dealer_allocate_def allocate_def alloc_def search_fit.simps pick_def page_extra_def
  carve_def split_front_def split_back_def insertAfter_def insertBefore_def size_add_def Let_def

definition page_dealer :: dealer where
  "page_dealer = \<lparr>d_alloc = projr (SimpleBestFitAllocator 4096 True 4096), d_out = []\<rparr>"

definition run_allocate :: "dealer \<Rightarrow> nat \<Rightarrow> dealer" where
  "run_allocate d n = (case Dealer_allocate (d_alloc d) n of
     Some (Inr (r, al)) \<Rightarrow> \<lparr>d_alloc = al, d_out = (case r of None \<Rightarrow> d_out d | Some a \<Rightarrow> a # d_out d)\<rparr>
   | _ \<Rightarrow> d)"

lemma page_ok_4096: "page_ok 4096"
  unfolding page_ok_def by (intro exI [of _ 12]) simp

lemma page_dealer_reach: "dealer.reach page_dealer"
proof (rule dealer.reach_init)
  obtain al where "SimpleBestFitAllocator 4096 True 4096 = Inr al"
    using new_allocator_ok [OF page_ok_4096, of 4096 True] by auto
  then show "dealer_init page_dealer"
    unfolding dealer_init_def page_dealer_def using page_ok_4096
    by (intro exI [of _ 4096] exI [of _ True] exI [of _ al]) simp
qed

lemma run_allocate_reach:
  assumes "dealer.reach d" and "request_ok n"
  shows "dealer.reach (run_allocate d n)"
proof -
  have inv: "allocator_ok (d_alloc d)" "records (live_blocks (d_alloc d)) (d_out d)"
    using dealer_reach_inv [OF assms(1)] by (simp_all add: dealer_inv_def)
  then obtain r al where r: "Dealer_allocate (d_alloc d) n = Some (Inr (r, al))"
    using Dealer_allocate_inv assms(2) by blast
  show ?thesis
    using dealer.reach_step [OF assms(1) do_allocate [OF assms(2) r]] r by (simp add: run_allocate_def)
qed




section \<open>The pointer loops refine the list of regions\<close>

text \<open>C4: the allocator on linked chunks refines the allocator on lists of regions. From a well-formed
  list, alloc returns what the list operation returns and ends in a well-formed list of its regions;
  releasing an allocated block does the same with the released neighbours merged, and releasing an
  offset where no chunk starts changes nothing.\<close>
theorem allocator_refines_regions:
  assumes "allocator_rep al xs cs" and "region_inv tot cs"
  shows "(\<exists>al' ys. alloc al n flags = Some (Inr (fst (alloc_regions (pagesize al) flags n cs), al')) \<and>
      allocator_rep al' ys (snd (alloc_regions (pagesize al) flags n cs))) \<and>
    (\<forall>(s, m) \<in> live_regions cs. \<exists>p al' ys cs'. dealloc al (s * kMemoryAlign) = Some (Inr (Some p, al')) \<and>
      dealloc_regions (s * kMemoryAlign) cs = Some cs' \<and> allocator_rep al' ys cs' \<and>
      live_regions cs' = live_regions cs - {(s, m)}) \<and>
    (\<forall>offset. dealloc_regions offset cs = None \<longrightarrow> dealloc al offset = Some (Inr (None, al)))"
proof (intro conjI allI impI ballI)
  show "\<exists>al' ys. alloc al n flags = Some (Inr (fst (alloc_regions (pagesize al) flags n cs), al')) \<and>
      allocator_rep al' ys (snd (alloc_regions (pagesize al) flags n cs))"
    using alloc_list [OF assms(1) region_inv_bounds(1) [OF assms(2)]] by blast
next
  fix b assume b: "b \<in> live_regions cs"
  obtain s m where sm: "b = (s, m)" by (cases b)
  obtain cs' where "dealloc_regions (s * kMemoryAlign) cs = Some cs'" "live_regions cs' = live_regions cs - {(s, m)}"
    "(s, True) \<notin> (\<lambda>r. (region_start r, region_free r)) ` set cs"
    using dealloc_regions_live [OF assms(2), of s m] b sm by blast
  with dealloc_list [OF assms(1) region_inv_bounds(4,2,3) [OF assms(2)], of "s * kMemoryAlign"] sm
  show "case b of (s, m) \<Rightarrow> \<exists>p al' ys cs'. dealloc al (s * kMemoryAlign) = Some (Inr (Some p, al')) \<and>
      dealloc_regions (s * kMemoryAlign) cs = Some cs' \<and> allocator_rep al' ys cs' \<and>
      live_regions cs' = live_regions cs - {(s, m)}"
    by auto
next
  fix offset assume "dealloc_regions offset cs = None"
  with dealloc_list [OF assms(1) region_inv_bounds(4,2,3) [OF assms(2)], of offset]
  show "dealloc al offset = Some (Inr (None, al))" by simp
qed

lemma page_dealer_rep:
  "\<exists>xs cs. allocator_rep (d_alloc (run_allocate page_dealer 100)) xs cs \<and> region_inv 128 cs \<and> (0, 4) \<in> live_regions cs"
proof -
  let ?al = "d_alloc (run_allocate page_dealer 100)"
  have "dealer.reach (run_allocate page_dealer 100)"
    by (intro run_allocate_reach page_dealer_reach) (simp add: request_ok_def)
  moreover have hs: "mHeapSize ?al = 4096" by (simp add: run_allocate_def page_dealer_def dealer_eval)
  ultimately obtain xs cs where rep: "allocator_rep ?al xs cs" "region_inv 128 cs"
    using dealer_reach_inv unfolding dealer_inv_def allocator_ok_def by fastforce
  have "(0, 128) \<in> live_blocks ?al"
    by (auto simp: live_blocks_def run_allocate_def page_dealer_def dealer_eval intro!: exI [of _ 0])
  then have "(0, 4) \<in> live_regions cs"
    by (auto simp: live_blocks_rep [OF rep(1)] in_bytes_def)
  with rep show ?thesis by blast
qed

text \<open>A witness: one page with an allocation of 100 bytes, which is released.\<close>
theorem allocator_refines_regions_witness:
  "\<exists>xs cs p al' ys cs'. allocator_rep (d_alloc (run_allocate page_dealer 100)) xs cs \<and>
     dealloc (d_alloc (run_allocate page_dealer 100)) 0 = Some (Inr (Some p, al')) \<and> allocator_rep al' ys cs' \<and>
     live_regions cs' = live_regions cs - {(0, 4)}"
proof -
  obtain xs cs where rep: "allocator_rep (d_alloc (run_allocate page_dealer 100)) xs cs" "region_inv 128 cs"
    and l: "(0, 4) \<in> live_regions cs"
    using page_dealer_rep by blast
  from allocator_refines_regions [OF rep, of 100 0] l show ?thesis using rep(1) by fastforce
qed

section \<open>Best fit\<close>

lemma page_extra_aligned:
  assumes pg: "page_ok pg" and fl: "flags AND PAGE_ALIGNED \<noteq> 0" and s: "s < 2 ^ 64"
  shows "(s + page_extra pg flags s) * kMemoryAlign mod pg = 0"
proof -
  obtain k where k: "5 \<le> k" "k < 31" "pg = 2 ^ k" using page_okE [OF pg] by metis
  define j where "j = k - 5"
  have j: "k = j + 5" using k by (simp add: j_def)
  have pgd: "pg div kMemoryAlign = 2 ^ j" "pg = 2 ^ j * kMemoryAlign"
    unfolding k(3) j by (simp_all add: power_add)
  have "page_extra pg flags s = unat (- of_nat s :: u64) mod 2 ^ j"
    using fl k j power_minus_one_mask [of j, where 'a = 64]
    unfolding page_extra_def pgd(1) by (simp add: unat_and_mask)
  then have "(s + page_extra pg flags s) mod 2 ^ j = (s + unat (- of_nat s :: u64)) mod 2 ^ j"
    by (simp add: mod_add_right_eq)
  also have "\<dots> = 0" using unat_neg_mod [of s j, where 'a = 64] s k j by simp
  finally have "(s + page_extra pg flags s) mod 2 ^ j * kMemoryAlign = 0" by simp
  then have "(s + page_extra pg flags s) * kMemoryAlign mod (2 ^ j * kMemoryAlign) = 0"
    by (simp only: mult_mod_left)
  then show ?thesis by (simp only: pgd(2) [symmetric])
qed

text \<open>alloc is best fit. It answers NO_MEMORY exactly when no free region is large enough, and
  otherwise carves the block out of a smallest free region that fits; a block requested with
  PAGE_ALIGNED starts on a page boundary of the heap.\<close>
lemma alloc_best_fit:
  assumes "allocator_rep al xs cs" and "region_inv tot cs" and "page_ok (pagesize al)" and "0 < n"
  shows "(\<forall>r \<in> set cs. \<not> fits (pagesize al) flags (units n) r) \<and> alloc al n flags = Some (Inr (NO_MEMORY, al)) \<or>
    (\<exists>s m al'. (s, m, True) \<in> set cs \<and> fits (pagesize al) flags (units n) (s, m, True) \<and>
      (\<forall>r \<in> set cs. fits (pagesize al) flags (units n) r \<longrightarrow> m \<le> region_size r) \<and>
      alloc al n flags = Some (Inr (int ((s + page_extra (pagesize al) flags s) * kMemoryAlign), al')) \<and>
      (flags AND PAGE_ALIGNED \<noteq> 0 \<longrightarrow> (s + page_extra (pagesize al) flags s) * kMemoryAlign mod pagesize al = 0))"
proof (cases "best_fit (fits (pagesize al) flags (units n)) cs")
  case None
  have "alloc al n flags = Some (Inr (NO_MEMORY, al))"
    using search_fit_list [OF assms(1), of flags "units n"] None assms(4)
    by (simp add: alloc_def units_def)
  with None show ?thesis by (simp add: best_fit_None)
next
  case (Some i)
  obtain s m f where r: "cs ! i = (s, m, f)" by (cases "cs ! i")
  have i: "i < length cs" "fits (pagesize al) flags (units n) (s, m, True)" "f"
    using best_fit_SomeD [OF Some] r by (auto simp: fits_def)
  then have mem: "(s, m, True) \<in> set cs" using r nth_mem by fastforce
  have least: "\<forall>r \<in> set cs. fits (pagesize al) flags (units n) r \<longrightarrow> m \<le> region_size r"
    using best_fit_least [OF Some] r by auto
  have "s < 2 ^ 64"
    using tiles_range [of 0 cs tot, OF _ mem] assms(2) by (auto simp: region_inv_def)
  note al = page_extra_aligned [OF assms(3) _ this, of flags]
  have "fst (alloc_regions (pagesize al) flags n cs) = int ((s + page_extra (pagesize al) flags s) * kMemoryAlign)"
    using Some r assms(4) by (simp add: alloc_regions_def)
  then obtain al' where "alloc al n flags = Some (Inr (int ((s + page_extra (pagesize al) flags s) * kMemoryAlign), al'))"
    using alloc_list [OF assms(1) region_inv_bounds(1) [OF assms(2)], of n flags] by metis
  with mem i(2) least al show ?thesis by (intro disjI2 exI conjI) blast+
qed


section \<open>Release undoes allocation\<close>

lemma release_regions_append:
  "(\<forall>r \<in> set xs. region_start r \<noteq> s) \<Longrightarrow>
   release_regions s (xs @ ys) = map_option ((@) xs) (release_regions s ys)"
  by (induction xs) (cases "release_regions s ys"; auto)+

lemma coalesce_pieces:
  assumes ap: "apart (xs @ (s, m, True) # ys)" and fit: "fits pg flags u (s, m, True)" and u: "0 < u"
    and e: "e = page_extra pg flags s"
  shows "coalesce (xs @ (if e = 0 then [] else [(s, e, True)]) @ (s + e, u, True) #
      (if u + e < m then [(s + e + u, m - (u + e), True)] else []) @ ys) = xs @ (s, m, True) # ys"
proof -
  have le: "u + e \<le> m" using fit e by (simp add: fits_def)
  have ap': "apart (xs @ [(s, k, True)])" for k using ap by (auto simp: apart_append)
  have front: "coalesce (xs @ (if e = 0 then [] else [(s, e, True)]) @ (s + e, u, True) # zs) =
      coalesce (xs @ (s, u + e, True) # zs)" for zs
    using coalesce_join [OF ap', of e "s + e" u zs] by (auto simp: add.commute)
  have "coalesce (xs @ (s, u + e, True) # (if u + e < m then [(s + e + u, m - (u + e), True)] else []) @ ys) =
      coalesce (xs @ (s, m, True) # ys)"
    using coalesce_join [OF ap', of "u + e" "s + e + u" "m - (u + e)" ys] le by auto
  with front ap show ?thesis by (simp add: apart_coalesce)
qed

lemma dealloc_alloc_regions:
  assumes inv: "region_inv tot cs" and n: "n \<noteq> 0" "0 < units n"
    and best: "best_fit (fits pg flags (units n)) cs = Some i" and r: "cs ! i = (s, m, True)"
  shows "dealloc_regions ((s + page_extra pg flags s) * kMemoryAlign) (snd (alloc_regions pg flags n cs)) = Some cs"
proof -
  let ?e = "page_extra pg flags s" and ?u = "units n"
  let ?xs = "take i cs" and ?ys = "drop (Suc i) cs"
  let ?front = "if ?e = 0 then [] else [(s, ?e, True)]"
  let ?rest = "if ?u + ?e < m then [(s + ?e + ?u, m - (?u + ?e), True)] else []"
  have i: "i < length cs" "fits pg flags ?u (s, m, True)"
    using best_fit_SomeD [OF best] r by auto
  have cs: "cs = ?xs @ (s, m, True) # ?ys" using id_take_nth_drop [OF i(1)] r by simp
  have ap: "apart (?xs @ (s, m, True) # ?ys)" and t: "tiles 0 (?xs @ (s, m, True) # ?ys) tot"
    using inv cs by (simp_all add: region_inv_def)
  have "tiles 0 ?xs s" using t by (auto simp: tiles_append)
  then have before: "region_start q < s" if "q \<in> set ?xs" for q
    using tiles_range [of 0 ?xs s q] tiles_pos [of 0 ?xs s q] that by simp
  have "region_start q \<noteq> s + ?e" if "q \<in> set (?xs @ ?front)" for q
  proof -
    from that consider "q \<in> set ?xs" | "q = (s, ?e, True)" "?e \<noteq> 0" by (auto split: if_splits)
    then show ?thesis by cases (use before [of q] in auto)
  qed
  then have "release_regions (s + ?e) ((?xs @ ?front) @ (s + ?e, ?u, False) # ?rest @ ?ys) =
      Some ((?xs @ ?front) @ (s + ?e, ?u, True) # ?rest @ ?ys)"
    by (simp add: release_regions_append del: append_assoc)
  moreover have "snd (alloc_regions pg flags n cs) = (?xs @ ?front) @ (s + ?e, ?u, False) # ?rest @ ?ys"
    using best r n by (simp add: alloc_regions_def pieces_def Let_def)
  ultimately show ?thesis
    using coalesce_pieces [OF ap i(2) n(2) refl] cs by (simp add: dealloc_regions_def)
qed

text \<open>releasing a block right after it was allocated gives back the list of regions the allocation
  started from: splitting loses nothing that merging does not restore.\<close>
lemma alloc_dealloc_roundtrip:
  assumes "allocator_rep al xs cs" and "region_inv tot cs" and "0 < n" and "request_ok n"
    and "alloc al n flags = Some (Inr (offset, al1))" and "0 \<le> offset"
  shows "\<exists>al2 ys. deallocate al1 (nat offset) = Some (Inr (NO_ERROR, al2)) \<and> allocator_rep al2 ys cs"
proof -
  let ?p = "alloc_regions (pagesize al) flags n cs"
  have u: "0 < units n" using units_exact(2) assms(3,4) by blast
  obtain zs where p: "offset = fst ?p" and rep1: "allocator_rep al1 zs (snd ?p)"
    using alloc_list [OF assms(1) region_inv_bounds(1) [OF assms(2)], of n flags] assms(5) by auto
  obtain i where best: "best_fit (fits (pagesize al) flags (units n)) cs = Some i"
    using assms(3,6) p by (cases "best_fit (fits (pagesize al) flags (units n)) cs") (auto simp: alloc_regions_def)
  obtain s m f where r: "cs ! i = (s, m, f)" by (cases "cs ! i")
  have f: f using best_fit_SomeD [OF best] r by (simp add: fits_def)
  have off: "nat offset = (s + page_extra (pagesize al) flags s) * kMemoryAlign"
    unfolding p using best r assms(3) by (simp add: alloc_regions_def)
  have d: "dealloc_regions (nat offset) (snd ?p) = Some cs"
    unfolding off using dealloc_alloc_regions [OF assms(2) _ u best, of s m] r f assms(3) by simp
  have inv1: "region_inv tot (snd ?p)" by (rule alloc_regions_inv [OF assms(2) u])
  have "(s + page_extra (pagesize al) flags s, units n, False) \<in> set (snd ?p)"
    using best r assms(3) by (auto simp: alloc_regions_def pieces_def Let_def)
  then have "(s + page_extra (pagesize al) flags s, units n) \<in> live_regions (snd ?p)"
    by (simp add: live_regions_def)
  from dealloc_regions_live [OF inv1 this] dealloc_list [OF rep1 region_inv_bounds(4,2,3) [OF inv1], of "nat offset"] d
  show ?thesis by (auto simp: off deallocate_def)
qed


section \<open>Requests close to SIZE_MAX\<close>


end
