(* ===== verification/Parcel_Safe.thy ===== *)
theory Parcel_Safe
  imports Parcel_Codec
begin

text \<open>
  Readers on arbitrary data. The parcel a process receives was written by someone else, so no
  encoding can be assumed: \<open>safe_read\<close> says that a reader returns, leaves everything but the
  position and the object index's bookkeeping alone, and on success stays inside the data and otherwise
  returns a status that is not OK. The
  locale \<open>hardened_reader\<close> carries it from an element to vectors, arrays and nullable values.
\<close>

section \<open>Safe readers\<close>

definition read_ok :: "env \<Rightarrow> parcel \<Rightarrow> bool" where
  "read_ok E p \<longleftrightarrow> parcel_inv E p \<and> read_inv E p \<and> mDataPos p \<le> mDataSize p"

definition safe_read :: "env \<Rightarrow> parcel \<Rightarrow> 'a read_run \<Rightarrow> bool" where
  "safe_read E p r \<longleftrightarrow> (\<exists>x q. r = Inr (x, q) \<and> read_frame p q \<and> parcel_inv E q \<and> read_inv E q \<and>
     (case x of Inl st \<Rightarrow> st \<noteq> OK | Inr v \<Rightarrow> mDataPos q \<le> mDataSize q))"

lemma safe_readI:
  "r = Inr (x, q) \<Longrightarrow> read_frame p q \<Longrightarrow> parcel_inv E q \<Longrightarrow> read_inv E q \<Longrightarrow>
   (\<And>st. x = Inl st \<Longrightarrow> st \<noteq> OK) \<Longrightarrow> (\<And>v. x = Inr v \<Longrightarrow> mDataPos q \<le> mDataSize q) \<Longrightarrow> safe_read E p r"
  by (cases x) (auto simp: safe_read_def)

lemma safe_read_fail: "read_ok E p \<Longrightarrow> st \<noteq> OK \<Longrightarrow> safe_read E p (Inr (Inl st, p))"
  by (simp add: safe_read_def read_ok_def)

lemma safe_read_done: "read_ok E p \<Longrightarrow> safe_read E p (Inr (Inr v, p))"
  by (simp add: safe_read_def read_ok_def)

lemma safe_read_frame: "read_frame p q \<Longrightarrow> safe_read E q r \<Longrightarrow> safe_read E p r"
  unfolding safe_read_def by (blast intro: read_frame_trans)

lemma safe_bind_read:
  assumes r: "safe_read E p r"
    and f: "\<And>v q. r = Inr (Inr v, q) \<Longrightarrow> read_frame p q \<Longrightarrow> read_ok E q \<Longrightarrow> safe_read E q (f v q)"
  shows "safe_read E p (bind_read r f)"
proof -
  obtain x q where q: "r = Inr (x, q)" "read_frame p q" "parcel_inv E q" "read_inv E q"
    "case x of Inl st \<Rightarrow> st \<noteq> OK | Inr v \<Rightarrow> mDataPos q \<le> mDataSize q"
    using r unfolding safe_read_def by blast
  show ?thesis
  proof (cases x)
    case (Inl st)
    with q show ?thesis by (auto simp: safe_read_def bind_read_def)
  next
    case (Inr v)
    with q have "safe_read E q (f v q)" by (intro f) (auto simp: read_ok_def)
    with safe_read_frame [OF q(2)] q(1) Inr show ?thesis by (simp add: bind_read_def)
  qed
qed

lemma safe_map_read:
  assumes "safe_read E p r"
  shows "safe_read E p (map_read f r)"
proof -
  obtain x q where "r = Inr (x, q)" "read_frame p q" "parcel_inv E q" "read_inv E q"
    "case x of Inl st \<Rightarrow> st \<noteq> OK | Inr v \<Rightarrow> mDataPos q \<le> mDataSize q"
    using assms unfolding safe_read_def by blast
  then show ?thesis by (cases x) (auto simp: safe_read_def map_read_def)
qed

lemma dataAvail_ok:
  "parcel_inv E p \<Longrightarrow> dataAvail p = Inr (dataSize p - mDataPos p)"
  by (auto simp: dataAvail_def dataPosition_def dataSize_def parcel_inv_def Let_def)

lemma read_ok_avail: "read_ok E p \<Longrightarrow> dataAvail p = Inr (mDataSize p - mDataPos p)"
  using dataAvail_ok [of E p] by (simp add: read_ok_def dataSize_def)

section \<open>Scalars and strings\<close>

lemma readAligned_safe: "read_ok E p \<Longrightarrow> n \<le> INT32_MAX \<Longrightarrow> safe_read E p (readAligned E n p)"
  using readAligned_correct [of E p n] read_frameD(3)
  by (fastforce simp: read_ok_def intro: safe_readI split: sum.splits)

lemma readInt32_safe: "read_ok E p \<Longrightarrow> safe_read E p (readInt32 E p)"
  by (simp add: readInt32_def safe_map_read readAligned_safe)

lemma readInt64_safe: "read_ok E p \<Longrightarrow> safe_read E p (readInt64 E p)"
  by (simp add: readInt64_def safe_map_read readAligned_safe)

lemma readInt32_value_safe:
  assumes "read_ok E p"
  shows "\<exists>v q. readInt32_value E p = Inr (v, q) \<and> read_frame p q \<and> parcel_inv E q \<and> read_inv E q"
  using readInt32_safe [OF assms] by (auto simp: safe_read_def readInt32_value_def)

text \<open>A body of \<open>n\<close> bytes behind a length word: every read inside it stays in the data.\<close>

definition window :: "parcel \<Rightarrow> nat \<Rightarrow> nat \<Rightarrow> bool" where
  "window q d n \<longleftrightarrow> (\<forall>i m. i + m \<le> n \<longrightarrow> memcpy_out (d + i) m q = Inr (peek (d + i) m (contents q)))"

lemma windowD: "window q d n \<Longrightarrow> i + m \<le> n \<Longrightarrow> memcpy_out (d + i) m q = Inr (peek (d + i) m (contents q))"
  by (simp add: window_def)

lemma windowD0: "window q d n \<Longrightarrow> m \<le> n \<Longrightarrow> memcpy_out d m q = Inr (peek d m (contents q))"
  using windowD [of q d n 0 m] by simp

lemma readInplace_safe:
  assumes "parcel_inv E p" and "read_inv E p"
  shows "\<exists>r q. readInplace E n p = Inr (r, q) \<and> read_frame p q \<and> parcel_inv E q \<and> read_inv E q \<and>
    (\<forall>d. r = Some d \<longrightarrow> mDataPos q \<le> mDataSize q \<and> window q d n)"
proof -
  obtain r q where run: "readInplace E n p = Inr (r, q)" and fr: "read_frame p q" and inv: "parcel_inv E q" "read_inv E q"
    and c: "\<And>d. r = Some d \<Longrightarrow> d = mDataPos p \<and> mDataPos p + padded_len n \<le> mDataSize p \<and>
      mDataPos q = mDataPos p + padded_len n"
    using readInplace_correct [OF assms, of n] by (auto split: option.splits)
  have "window q d n" if "r = Some d" for d
    unfolding window_def
  proof (intro allI impI)
    fix i m :: nat assume "i + m \<le> n"
    with c [OF that] padded_len_ge [of n] read_frameD(3) [OF fr]
    show "memcpy_out (d + i) m q = Inr (peek (d + i) m (contents q))"
      by (intro memcpy_out_contents [OF inv(1)]) linarith
  qed
  with run fr inv c read_frameD(3) [OF fr] show ?thesis by auto
qed

lemma readString16_safe:
  assumes "read_ok E p"
  shows "safe_read E p (readString16 E p)"
proof -
  obtain v q where q: "readInt32_value E p = Inr (v, q)" "read_frame p q" "parcel_inv E q" "read_inv E q"
    using readInt32_value_safe [OF assms] by blast
  let ?n = "nat (sint v)"
  obtain d r where r: "readInplace E ((?n + 1) * 2) q = Inr (d, r)" "read_frame q r" "parcel_inv E r" "read_inv E r"
    and w: "\<And>x. d = Some x \<Longrightarrow> mDataPos r \<le> mDataSize r \<and> window r x ((?n + 1) * 2)"
    using readInplace_safe [OF q(3,4), of "(?n + 1) * 2"] by blast
  have fr: "read_frame p r" using read_frame_trans [OF q(2) r(2)] .
  show ?thesis
  proof (cases "0 \<le> sint v \<and> sint v < int INT32_MAX")
    case False
    then show ?thesis
      using q by (intro safe_readI [of _ "Inl UNEXPECTED_NULL" q])
        (auto simp: readString16_def readString16Inplace_def)
  next
    case True
    show ?thesis
    proof (cases d)
      case None
      then show ?thesis
        using q(1) r(1,3,4) fr True by (intro safe_readI [of _ "Inl UNEXPECTED_NULL" r])
          (auto simp: readString16_def readString16Inplace_def Let_def)
    next
      case (Some x)
      let ?z = "peek (x + ?n * 2) 2 (contents r)"
      have z: "memcpy_out (x + ?n * 2) 2 r = Inr ?z" "memcpy_out x (?n * 2) r = Inr (peek x (?n * 2) (contents r))"
        using windowD [of r x "(?n + 1) * 2" "?n * 2" 2] windowD0 [of r x "(?n + 1) * 2" "?n * 2"] w [OF Some]
        by simp_all
      have "readString16 E p = Inr (if ?z = [0, 0] then Inr (dec_chars (peek x (?n * 2) (contents r)))
          else Inl UNEXPECTED_NULL, r)"
        using q(1) r(1) True Some z by (simp add: readString16_def readString16Inplace_def Let_def)
      then show ?thesis
        using fr r(3,4) w [OF Some] by (intro safe_readI) (auto split: if_splits)
    qed
  qed
qed

lemma readString8_safe:
  assumes "read_ok E p"
  shows "safe_read E p (readString8 E p)"
proof -
  obtain v q where q: "readInt32_value E p = Inr (v, q)" "read_frame p q" "parcel_inv E q" "read_inv E q"
    using readInt32_value_safe [OF assms] by blast
  let ?n = "nat (sint v)"
  obtain d r where r: "readInplace E (?n + 1) q = Inr (d, r)" "read_frame q r" "parcel_inv E r" "read_inv E r"
    and w: "\<And>x. d = Some x \<Longrightarrow> mDataPos r \<le> mDataSize r \<and> window r x (?n + 1)"
    using readInplace_safe [OF q(3,4), of "?n + 1"] by blast
  have fr: "read_frame p r" using read_frame_trans [OF q(2) r(2)] .
  show ?thesis
  proof (cases "0 \<le> sint v \<and> sint v < int INT32_MAX \<and> d \<noteq> None")
    case False
    then show ?thesis
      using q r fr by (cases "0 \<le> sint v \<and> sint v < int INT32_MAX")
        (auto simp: readString8_def readString8Inplace_def Let_def safe_read_def)
  next
    case True
    then obtain x where x: "d = Some x" by blast
    let ?z = "peek (x + ?n) 1 (contents r)"
    have z: "memcpy_out (x + ?n) 1 r = Inr ?z" "memcpy_out x ?n r = Inr (peek x ?n (contents r))"
      using windowD [of r x "?n + 1" ?n 1] windowD0 [of r x "?n + 1" ?n] w [OF x] by simp_all
    have "readString8 E p = Inr (if ?z = [0] then Inr (peek x ?n (contents r)) else Inl UNEXPECTED_NULL, r)"
      using q(1) r(1) True x z by (simp add: readString8_def readString8Inplace_def Let_def)
    then show ?thesis
      using fr r(3,4) w [OF x] by (intro safe_readI) (auto split: if_splits)
  qed
qed

section \<open>From elements to vectors\<close>

lemma readVectorSize_safe: "read_ok E p \<Longrightarrow> safe_read E p (readVectorSize E p)"
  unfolding readVectorSize_def
proof (rule safe_bind_read [OF readInt32_safe])
  fix v q assume q: "read_ok E q"
  then have "dataAvail q = Inr (dataSize q - mDataPos q)" using dataAvail_ok [of E q] by (simp add: read_ok_def)
  with q show "safe_read E q (if sint v < 0 then Inr (Inl UNEXPECTED_NULL, q)
      else bind_run (dataAvail q) (\<lambda>availableBytes.
        if availableBytes < nat (sint v) then Inr (Inl BAD_VALUE, q) else Inr (Inr (nat (sint v)), q)))"
    by (simp add: safe_read_fail safe_read_done)
qed

lemma readPodVector_safe:
  assumes "read_ok E p"
  shows "safe_read E p (readPodVector dec sz E p)"
  unfolding readPodVector_def
proof (rule safe_bind_read [OF readVectorSize_safe [OF assms]])
  fix n q assume "read_ok E q"
  then have inv: "parcel_inv E q" "read_inv E q" by (simp_all add: read_ok_def)
  obtain d r where r: "readInplace E (n * sz) q = Inr (d, r)" "read_frame q r" "parcel_inv E r" "read_inv E r"
    and w: "\<And>x. d = Some x \<Longrightarrow> mDataPos r \<le> mDataSize r \<and> window r x (n * sz)"
    using readInplace_safe [OF inv, of "n * sz"] by blast
  show "safe_read E q (bind_run (readInplace E (n * sz) q) (\<lambda>(dat, p). case dat of
      None \<Rightarrow> Inr (Inl BAD_VALUE, p)
    | Some d \<Rightarrow> bind_run (memcpy_out d (n * sz) p) (\<lambda>bs. Inr (Inr (dec_seq sz dec n bs), p))))"
  proof (cases d)
    case None
    with r show ?thesis by (auto simp: safe_read_def)
  next
    case (Some x)
    with windowD0 [of r x "n * sz"] w r show ?thesis by (auto simp: safe_read_def)
  qed
qed

locale hardened_reader =
  fixes rd :: "env \<Rightarrow> parcel \<Rightarrow> 'a read_run"
  assumes rd_safe: "read_ok E p \<Longrightarrow> safe_read E p (rd E p)"
begin

lemma readElements_safe: "read_ok E p \<Longrightarrow> safe_read E p (readElements rd E n p)"
proof (induction n arbitrary: p)
  case 0
  then show ?case by (simp add: safe_read_done)
next
  case (Suc n)
  then show ?case by (auto intro!: safe_bind_read rd_safe safe_map_read)
qed

lemma readVector_safe: "read_ok E p \<Longrightarrow> safe_read E p (readVector rd E p)"
  unfolding readVector_def by (intro safe_bind_read readVectorSize_safe readElements_safe)

lemma readArray_safe: "read_ok E p \<Longrightarrow> safe_read E p (readArray rd n E p)"
  unfolding readArray_def
  by (intro safe_bind_read readInt32_safe) (auto intro: safe_read_fail readElements_safe)

lemma readNullable_safe:
  assumes p: "read_ok E p"
  shows "safe_read E p (readNullable null rd E p)"
  unfolding readNullable_def Let_def
proof (rule safe_bind_read [OF readInt32_safe [OF p]])
  fix w q assume q: "read_frame p q" "read_ok E q"
  have pos: "mDataPos p \<le> INT32_MAX" "mDataPos p \<le> mDataSize q"
    using p read_frameD(3) [OF q(1)] by (auto simp: read_ok_def parcel_inv_def)
  then have re: "read_ok E (rewound (mDataPos p) q)"
    using q(2) by (simp add: read_ok_def)
  have fr: "read_frame q (rewound (mDataPos p) q)"
    unfolding rewound_def read_frame_def by (cases q) simp
  have "safe_read E q (map_read Some (rd E (rewound (mDataPos p) q)))"
    by (rule safe_read_frame [OF fr safe_map_read [OF rd_safe [OF re]]])
  with pos q(2) show "safe_read E q (if w = null then Inr (Inr None, q)
      else bind_run (setDataPosition (dataPosition p) q) (\<lambda>p. map_read Some (rd E p)))"
    by (simp add: dataPosition_def setDataPosition_ok safe_read_done)
qed

lemma readParcelable_safe: "read_ok E p \<Longrightarrow> safe_read E p (readParcelable rd E p)"
  unfolding readParcelable_def
  by (intro safe_bind_read readInt32_safe) (auto intro: safe_read_fail rd_safe)

end

interpretation int32_safe: hardened_reader readInt32
  by unfold_locales (rule readInt32_safe)

interpretation int64_safe: hardened_reader readInt64
  by unfold_locales (rule readInt64_safe)

interpretation str8_safe: hardened_reader readString8
  by unfold_locales (rule readString8_safe)

interpretation str16_safe: hardened_reader readString16
  by unfold_locales (rule readString16_safe)

interpretation opt_str16_safe: hardened_reader "readNullable kNullVectorSize readString16"
  by unfold_locales (rule str16_safe.readNullable_safe)

interpretation opt_strings_safe: hardened_reader "readVector (readNullable kNullVectorSize readString16)"
  by unfold_locales (rule opt_str16_safe.readVector_safe)

section \<open>Properties\<close>

text \<open>reading a nullable vector of nullable strings or a vector of 64-bit integers from a parcel with
  arbitrary contents returns: it never touches memory outside the data, never aborts, leaves the
  contents alone and on success ends inside the data.\<close>
lemma hostile_vector_reads_safe:
  assumes "read_ok E p"
  shows "(\<exists>x q. readNullable kNullVectorSize (readVector rdOptString16) E p = Inr (x, q) \<and> contents q = contents p \<and>
      parcel_inv E q \<and> (\<forall>v. x = Inr v \<longrightarrow> mDataPos q \<le> mDataSize p)) \<and>
    (\<exists>x q. readPodVector dec64 8 E p = Inr (x, q) \<and> contents q = contents p \<and>
      parcel_inv E q \<and> (\<forall>v. x = Inr v \<longrightarrow> mDataPos q \<le> mDataSize p))"
proof -
  have out: "\<exists>x q. r = Inr (x, q) \<and> contents q = contents p \<and> parcel_inv E q \<and> (\<forall>v. x = Inr v \<longrightarrow> mDataPos q \<le> mDataSize p)"
    if "safe_read E p r" for r :: "'b read_run"
    using that unfolding safe_read_def by (fastforce dest: read_frameD(1,3))
  show ?thesis
    by (intro conjI out opt_strings_safe.readNullable_safe readPodVector_safe assms)
qed

definition garbage :: parcel where
  "garbage = Parcel\<lparr>mData := Some [4, 0, 0, 0, 9, 0, 0, 0], mDataSize := 8, mDataCapacity := 8\<rparr>"


end
