(* ===== verification/Status.thy ===== *)
theory Status
  imports Parcel_Safe
begin

text \<open>
  The result of a binder call (src/libs/binder/Status.cpp, include/binder/Status.h): construction,
  the setters, and how a Status travels in a reply parcel. The messages are String8 (bytes) in the
  object and String16 on the wire; the two conversions belong to libutils and are the parameters
  \<open>to16\<close> and \<open>to8\<close>.
\<close>

section \<open>The object\<close>

abbreviation EX_NONE :: u32 where "EX_NONE \<equiv> 0"
abbreviation EX_SECURITY :: u32 where "EX_SECURITY \<equiv> - 1"
abbreviation EX_BAD_PARCELABLE :: u32 where "EX_BAD_PARCELABLE \<equiv> - 2"
abbreviation EX_ILLEGAL_ARGUMENT :: u32 where "EX_ILLEGAL_ARGUMENT \<equiv> - 3"
abbreviation EX_NULL_POINTER :: u32 where "EX_NULL_POINTER \<equiv> - 4"
abbreviation EX_ILLEGAL_STATE :: u32 where "EX_ILLEGAL_STATE \<equiv> - 5"
abbreviation EX_NETWORK_MAIN_THREAD :: u32 where "EX_NETWORK_MAIN_THREAD \<equiv> - 6"
abbreviation EX_UNSUPPORTED_OPERATION :: u32 where "EX_UNSUPPORTED_OPERATION \<equiv> - 7"
abbreviation EX_SERVICE_SPECIFIC :: u32 where "EX_SERVICE_SPECIFIC \<equiv> - 8"
abbreviation EX_PARCELABLE :: u32 where "EX_PARCELABLE \<equiv> - 9"
abbreviation EX_HAS_REPLY_HEADER :: u32 where "EX_HAS_REPLY_HEADER \<equiv> - 128"
abbreviation EX_TRANSACTION_FAILED :: u32 where "EX_TRANSACTION_FAILED \<equiv> - 129"

record status =
  mException :: u32
  mErrorCode :: u32
  mMessage :: "byte list"

definition Status_ok :: status where
  "Status_ok = \<lparr>mException = EX_NONE, mErrorCode = 0, mMessage = []\<rparr>"

definition fromExceptionCode :: "u32 \<Rightarrow> byte list \<Rightarrow> status" where
  "fromExceptionCode exceptionCode message =
     (if exceptionCode = EX_TRANSACTION_FAILED
      then \<lparr>mException = exceptionCode, mErrorCode = of_int FAILED_TRANSACTION, mMessage = message\<rparr>
      else \<lparr>mException = exceptionCode, mErrorCode = of_int OK, mMessage = message\<rparr>)"

definition fromServiceSpecificError :: "u32 \<Rightarrow> byte list \<Rightarrow> status" where
  "fromServiceSpecificError serviceSpecificErrorCode message =
     \<lparr>mException = EX_SERVICE_SPECIFIC, mErrorCode = serviceSpecificErrorCode, mMessage = message\<rparr>"

definition setException :: "u32 \<Rightarrow> byte list \<Rightarrow> status \<Rightarrow> status" where
  "setException ex message s =
     s\<lparr>mException := ex, mErrorCode := of_int (if ex = EX_TRANSACTION_FAILED then FAILED_TRANSACTION else NO_ERROR),
       mMessage := message\<rparr>"

definition setServiceSpecificError :: "u32 \<Rightarrow> byte list \<Rightarrow> status \<Rightarrow> status" where
  "setServiceSpecificError errorCode message s =
     (setException EX_SERVICE_SPECIFIC message s)\<lparr>mErrorCode := errorCode\<rparr>"

definition setFromStatusT :: "status_t \<Rightarrow> status \<Rightarrow> status" where
  "setFromStatusT st s =
     s\<lparr>mException := (if st = NO_ERROR then EX_NONE else EX_TRANSACTION_FAILED), mErrorCode := of_int st,
       mMessage := []\<rparr>"

definition fromStatusT :: "status_t \<Rightarrow> status" where
  "fromStatusT st = setFromStatusT st Status_ok"

definition transactionError :: "status \<Rightarrow> u32" where
  "transactionError s = (if mException s = EX_TRANSACTION_FAILED then mErrorCode s else of_int OK)"

definition serviceSpecificErrorCode :: "status \<Rightarrow> u32" where
  "serviceSpecificErrorCode s = (if mException s = EX_SERVICE_SPECIFIC then mErrorCode s else 0)"

definition isOk :: "status \<Rightarrow> bool" where
  "isOk s \<longleftrightarrow> mException s = EX_NONE"

section \<open>Writing\<close>

definition Status_writeToParcel :: "(byte list \<Rightarrow> u16 list) \<Rightarrow> env \<Rightarrow> status \<Rightarrow> parcel \<Rightarrow> status_t parcel_run" where
  "Status_writeToParcel to16 E s p =
     (if mException s = EX_TRANSACTION_FAILED then Inr (sint (mErrorCode s), p)
      else
        bind_run (writeInt32 E (mException s) p) (\<lambda>(st, p).
        if st \<noteq> OK then Inr (st, p)
        else if mException s = EX_NONE then Inr (st, p)
        else
          bind_run (writeString16 E (Some (to16 (mMessage s))) p) (\<lambda>(st, p).
          if st \<noteq> OK then Inr (st, p)
          else
            bind_run (writeInt32 E 0 p) (\<lambda>(st, p).
            if st \<noteq> OK then Inr (st, p)
            else if mException s = EX_SERVICE_SPECIFIC then writeInt32 E (mErrorCode s) p
            else if mException s = EX_PARCELABLE then writeInt32 E 0 p
            else Inr (st, p)))))"

text \<open>setDataSize is called for its effect; its status is not looked at.\<close>

definition writeOverParcel :: "(byte list \<Rightarrow> u16 list) \<Rightarrow> env \<Rightarrow> status \<Rightarrow> parcel \<Rightarrow> status_t parcel_run" where
  "writeOverParcel to16 E s p =
     bind_run (setDataSize E 0 p) (\<lambda>(_, p).
     bind_run (setDataPosition 0 p) (\<lambda>p. Status_writeToParcel to16 E s p))"

section \<open>Reading\<close>

text \<open>The result of a reader of Status: the status_t it returns, the object it leaves, the parcel.\<close>

type_synonym status_run = "(status_t \<times> status) parcel_run"

definition fail_with :: "status_t \<Rightarrow> status \<Rightarrow> parcel \<Rightarrow> status_run" where
  "fail_with st s p = Inr ((st, setFromStatusT st s), p)"

definition on_read :: "'a read_run \<Rightarrow> status \<Rightarrow> ('a \<Rightarrow> parcel \<Rightarrow> status_run) \<Rightarrow> status_run" where
  "on_read r s f = bind_run r (\<lambda>(x, p). case x of Inl st \<Rightarrow> fail_with st s p | Inr v \<Rightarrow> f v p)"

text \<open>A header whose size field counts the field itself: the reply header and the Parcelable blob.\<close>

definition skip_header :: "env \<Rightarrow> status \<Rightarrow> parcel \<Rightarrow> (status \<Rightarrow> parcel \<Rightarrow> status_run) \<Rightarrow> status_run" where
  "skip_header E s p f =
     (let header_start = dataPosition p in
      bind_run (dataAvail p) (\<lambda>header_avail.
      on_read (readInt32 E p) s (\<lambda>header_size p.
      if sint header_size < 0 \<or> nat (sint header_size) > header_avail
      then fail_with UNKNOWN_ERROR s p
      else bind_run (setDataPosition (size_add header_start (nat (sint header_size))) p) (\<lambda>p. f s p))))"

definition read_details :: "(u16 list \<Rightarrow> byte list) \<Rightarrow> env \<Rightarrow> status \<Rightarrow> parcel \<Rightarrow> status_run" where
  "read_details to8 E s p =
     on_read (rdOptString16 E p) s (\<lambda>message p.
     let s = s\<lparr>mMessage := to8 (case message of None \<Rightarrow> [] | Some m \<Rightarrow> m)\<rparr> in
     on_read (readInt32 E p) s (\<lambda>remote_stack_trace_header_size p.
     bind_run (dataAvail p) (\<lambda>avail.
     if sint remote_stack_trace_header_size < 0 \<or> nat (sint remote_stack_trace_header_size) > avail
     then fail_with UNKNOWN_ERROR s p
     else
       bind_run (setDataPosition (size_add (dataPosition p) (nat (sint remote_stack_trace_header_size))) p) (\<lambda>p.
       if mException s = EX_SERVICE_SPECIFIC
       then on_read (readInt32 E p) s (\<lambda>code p. Inr ((OK, s\<lparr>mErrorCode := code\<rparr>), p))
       else if mException s = EX_PARCELABLE
       then skip_header E s p (\<lambda>s p. Inr ((OK, s), p))
       else Inr ((OK, s), p)))))"

definition Status_readFromParcel :: "(u16 list \<Rightarrow> byte list) \<Rightarrow> env \<Rightarrow> status \<Rightarrow> parcel \<Rightarrow> status_run" where
  "Status_readFromParcel to8 E s p =
     on_read (readInt32 E p) s (\<lambda>ex p.
     let s = s\<lparr>mException := ex\<rparr>;
         rest = (\<lambda>s p. if mException s = EX_NONE then Inr ((OK, s), p) else read_details to8 E s p)
     in if mException s = EX_HAS_REPLY_HEADER
        then skip_header E s p (\<lambda>s p. rest (s\<lparr>mException := EX_NONE\<rparr>) p)
        else rest s p)"

section \<open>The encoding\<close>

definition enc_tail :: "status \<Rightarrow> byte list" where
  "enc_tail s = (if mException s = EX_SERVICE_SPECIFIC then enc32 (mErrorCode s)
     else if mException s = EX_PARCELABLE then enc32 0 else [])"

definition enc_status :: "(byte list \<Rightarrow> u16 list) \<Rightarrow> status \<Rightarrow> byte list" where
  "enc_status to16 s = enc32 (mException s) @
     (if mException s = EX_NONE then [] else enc_string16 (Some (to16 (mMessage s))) @ enc32 0 @ enc_tail s)"

text \<open>Writing one value with room left for the rest.\<close>

lemma write_next:
  assumes w: "writable E (length as + n) p" and one: "\<And>p. writable E (length as) p \<Longrightarrow> \<exists>q. wr p = Inr (OK, q) \<and> wrote E p as q"
  shows "\<exists>q. wr p = Inr (OK, q) \<and> wrote E p as q \<and> writable E n q"
  using one [OF writable_mono [OF w]] wrote_writable w by fastforce

lemma write_tail_ok:
  assumes "writable E (length (enc_tail s)) p"
  shows "\<exists>q. (if mException s = EX_SERVICE_SPECIFIC then writeInt32 E (mErrorCode s) p
      else if mException s = EX_PARCELABLE then writeInt32 E 0 p else Inr (OK, p)) = Inr (OK, q) \<and>
    wrote E p (enc_tail s) q"
  using assms writeInt32_ok [of E p] by (auto simp: enc_tail_def writable_def intro: wrote_refl)

lemma Status_writeToParcel_ok:
  assumes w: "writable E (length (enc_status to16 s)) p" and ex: "mException s \<noteq> EX_TRANSACTION_FAILED"
  shows "\<exists>q. Status_writeToParcel to16 E s p = Inr (OK, q) \<and> wrote E p (enc_status to16 s) q"
proof (cases "mException s = EX_NONE")
  case True
  with w writeInt32_ok [of E p "mException s"] show ?thesis
    by (auto simp: Status_writeToParcel_def enc_status_def)
next
  case False
  let ?m = "enc_string16 (Some (to16 (mMessage s)))" and ?t = "enc_tail s"
  have "writable E (length (enc32 (mException s)) + length (?m @ enc32 0 @ ?t)) p"
    using w False by (simp add: enc_status_def)
  from write_next [OF this, of "writeInt32 E (mException s)"] obtain q1 where
    q1: "writeInt32 E (mException s) p = Inr (OK, q1)" "wrote E p (enc32 (mException s)) q1"
      "writable E (length ?m + length (enc32 0 @ ?t)) q1" using writeInt32_ok by fastforce
  from write_next [OF this(3), of "writeString16 E (Some (to16 (mMessage s)))"] obtain q2 where
    q2: "writeString16 E (Some (to16 (mMessage s))) q1 = Inr (OK, q2)" "wrote E q1 ?m q2"
      "writable E (length (enc32 0) + length ?t) q2" using writeString16_ok by fastforce
  from write_next [OF this(3), of "writeInt32 E 0"] obtain q3 where
    q3: "writeInt32 E 0 q2 = Inr (OK, q3)" "wrote E q2 (enc32 0) q3" "writable E (length ?t) q3"
    using writeInt32_ok by fastforce
  from write_tail_ok [OF q3(3)] obtain q4 where
    q4: "(if mException s = EX_SERVICE_SPECIFIC then writeInt32 E (mErrorCode s) q3
      else if mException s = EX_PARCELABLE then writeInt32 E 0 q3 else Inr (OK, q3)) = Inr (OK, q4)"
      "wrote E q3 ?t q4" by blast
  have at: "parcel_inv E r" "mDataPos r \<le> mDataSize r" if "writable E n r" for n r
    using that by (auto simp: writable_def)
  have "wrote E p (enc32 (mException s) @ ?m @ enc32 0 @ ?t) q4"
    by (intro wrote_trans [OF q1(2)] wrote_trans [OF q2(2)] wrote_trans [OF q3(2) q4(2)] at [OF w] at [OF q1(3)] at [OF q2(3)])
  moreover have "Status_writeToParcel to16 E s p = Inr (OK, q4)"
    using False ex q1(1) q2(1) q3(1) q4(1) by (simp add: Status_writeToParcel_def)
  ultimately show ?thesis using False by (simp add: enc_status_def)
qed

section \<open>Reading back\<close>

lemma on_read_ok [simp]: "on_read (Inr (Inr v, q)) s f = f v q"
  by (simp add: on_read_def)

lemma readable_avail: "readable E bs p \<Longrightarrow> \<exists>n. dataAvail p = Inr n"
  by (auto simp: readable_def parcel_inv_def dataAvail_def dataSize_def dataPosition_def Let_def)

lemma readable_pos: "readable E bs p \<Longrightarrow> mDataPos p \<le> INT32_MAX"
  by (auto simp: readable_def parcel_inv_def)

text \<open>Setting the position to where it is keeps what can be read.\<close>

lemma readable_stay:
  assumes "readable E bs p"
  shows "setDataPosition (size_add (mDataPos p) 0) p = Inr (rewound (mDataPos p) p) \<and>
    readable E bs (rewound (mDataPos p) p)"
proof -
  have "advanced E p 0 p" using assms by (simp add: advanced_def readable_def)
  from str16.readable_rewound [OF assms this] readable_pos [OF assms] show ?thesis
    by (simp add: setDataPosition_ok)
qed

lemma read_next:
  assumes r: "readable E (as @ bs) p"
    and one: "\<And>p. readable E as p \<Longrightarrow> \<exists>q. rd p = Inr (Inr v, q) \<and> advanced E p (length as) q"
  shows "\<exists>q. rd p = Inr (Inr v, q) \<and> readable E bs q \<and> mDataPos q = mDataPos p + length as \<and> contents q = contents p"
  using one [OF readable_append(1) [OF r]] readable_append(2) [OF r]
  by (fastforce simp: advanced_def dest: read_frameD(1))

lemma read_tail_ok:
  assumes r: "readable E (enc_tail s) p" and ex: "mException t = mException s"
  shows "\<exists>q t'. (if mException t = EX_SERVICE_SPECIFIC
      then on_read (readInt32 E p) t (\<lambda>code p. Inr ((OK, t\<lparr>mErrorCode := code\<rparr>), p))
      else if mException t = EX_PARCELABLE then skip_header E t p (\<lambda>s p. Inr ((OK, s), p))
      else Inr ((OK, t), p)) = Inr ((OK, t'), q) \<and>
    mException t' = mException t \<and> mMessage t' = mMessage t \<and> serviceSpecificErrorCode t' = serviceSpecificErrorCode s \<and>
    mDataPos q = mDataPos p + (if mException s = EX_SERVICE_SPECIFIC then 4 else 0)"
proof -
  consider "mException s = EX_SERVICE_SPECIFIC" | "mException s = EX_PARCELABLE"
    | "mException s \<noteq> EX_SERVICE_SPECIFIC" "mException s \<noteq> EX_PARCELABLE" by blast
  then show ?thesis
  proof cases
    case 1
    with r obtain q where "readInt32 E p = Inr (Inr (mErrorCode s), q)" "advanced E p 4 q"
      using readInt32_ok [of E "mErrorCode s" p] by (auto simp: enc_tail_def)
    with 1 ex show ?thesis
      by (intro exI [of _ q] exI [of _ "t\<lparr>mErrorCode := mErrorCode s\<rparr>"])
        (simp add: serviceSpecificErrorCode_def advanced_def)
  next
    case 2
    with r obtain q where q: "readInt32 E p = Inr (Inr 0, q)" "advanced E p 4 q"
      using readInt32_ok [of E 0 p] by (auto simp: enc_tail_def)
    obtain n where n: "dataAvail p = Inr n" using readable_avail [OF r] by blast
    have "setDataPosition (mDataPos p) q = Inr (rewound (mDataPos p) q)"
      by (rule setDataPosition_ok [OF readable_pos [OF r]])
    with 2 q n ex readable_pos [OF r] show ?thesis
      by (auto simp: skip_header_def dataPosition_def Let_def serviceSpecificErrorCode_def)
  next
    case 3
    with ex show ?thesis by (simp add: serviceSpecificErrorCode_def)
  qed
qed

lemma read_details_ok:
  assumes r: "readable E (enc_string16 (Some m) @ enc32 0 @ enc_tail s) p" and ex: "mException t = mException s"
  shows "\<exists>q t'. read_details to8 E t p = Inr ((OK, t'), q) \<and> mException t' = mException s \<and> mMessage t' = to8 m \<and>
    serviceSpecificErrorCode t' = serviceSpecificErrorCode s \<and>
    mDataPos q = mDataPos p + length (enc_string16 (Some m)) + 4 + (if mException s = EX_SERVICE_SPECIFIC then 4 else 0)"
proof -
  have "\<exists>q. rdOptString16 E p = Inr (Inr (Some m), q) \<and> advanced E p (length (enc_string16 (Some m))) q"
    if "readable E (enc_string16 (Some m)) p" for p
    using opt_str16.rd_ok [of E "Some m" p] that by (simp add: enc_nullable_def)
  from read_next [OF r this] obtain q1 where
    q1: "rdOptString16 E p = Inr (Inr (Some m), q1)" "readable E (enc32 0 @ enc_tail s) q1"
      "mDataPos q1 = mDataPos p + length (enc_string16 (Some m))" by blast
  from read_next [OF q1(2), of "readInt32 E" 0] obtain q2 where
    q2: "readInt32 E q1 = Inr (Inr 0, q2)" "readable E (enc_tail s) q2" "mDataPos q2 = mDataPos q1 + 4"
    using readInt32_ok by fastforce
  obtain n where n: "dataAvail q2 = Inr n" using readable_avail [OF q2(2)] by blast
  note st = readable_stay [OF q2(2)]
  let ?t = "t\<lparr>mMessage := to8 m\<rparr>"
  from read_tail_ok [OF conjunct2 [OF st], of ?t] ex obtain q t' where
    t': "(if mException ?t = EX_SERVICE_SPECIFIC
      then on_read (readInt32 E (rewound (mDataPos q2) q2)) ?t (\<lambda>code p. Inr ((OK, ?t\<lparr>mErrorCode := code\<rparr>), p))
      else if mException ?t = EX_PARCELABLE then skip_header E ?t (rewound (mDataPos q2) q2) (\<lambda>s p. Inr ((OK, s), p))
      else Inr ((OK, ?t), rewound (mDataPos q2) q2)) = Inr ((OK, t'), q)"
    "mException t' = mException ?t" "mMessage t' = mMessage ?t" "serviceSpecificErrorCode t' = serviceSpecificErrorCode s"
    "mDataPos q = mDataPos (rewound (mDataPos q2) q2) + (if mException s = EX_SERVICE_SPECIFIC then 4 else 0)"
    by auto
  have "read_details to8 E t p = (if mException ?t = EX_SERVICE_SPECIFIC
      then on_read (readInt32 E (rewound (mDataPos q2) q2)) ?t (\<lambda>code p. Inr ((OK, ?t\<lparr>mErrorCode := code\<rparr>), p))
      else if mException ?t = EX_PARCELABLE then skip_header E ?t (rewound (mDataPos q2) q2) (\<lambda>s p. Inr ((OK, s), p))
      else Inr ((OK, ?t), rewound (mDataPos q2) q2))"
    using q1(1) q2(1) n st by (simp add: read_details_def Let_def dataPosition_def)
  with t'(1) have "read_details to8 E t p = Inr ((OK, t'), q)" by simp
  with t' q1(3) q2(3) ex show ?thesis by auto
qed

text \<open>C17: a Status written to a parcel is read back: same exception, same message, same service
  specific code. The reader stops where the writer stopped, except after EX_PARCELABLE, where the
  blob size 0 written by the native side sends the reader back to the start of the size field.\<close>
theorem status_roundtrip:
  assumes "writable E (length (enc_status to16 s)) p" and "objects_within E (mDataPos p) (mObjects p)"
    and "mException s \<notin> {EX_TRANSACTION_FAILED, EX_HAS_REPLY_HEADER}"
    and "to8 (to16 (mMessage s)) = mMessage s"
  shows "\<exists>q r t. Status_writeToParcel to16 E s p = Inr (OK, q) \<and>
    Status_readFromParcel to8 E Status_ok (rewound (mDataPos p) q) = Inr ((OK, t), r) \<and>
    mException t = mException s \<and> (isOk s \<or> mMessage t = mMessage s) \<and>
    serviceSpecificErrorCode t = serviceSpecificErrorCode s \<and>
    mDataPos r = (if mException s = EX_PARCELABLE then mDataPos q - 4 else mDataPos q)"
proof -
  have inv: "parcel_inv E p" "mDataPos p \<le> mDataSize p" using assms(1) by (auto simp: writable_def)
  obtain q where q: "Status_writeToParcel to16 E s p = Inr (OK, q)" "wrote E p (enc_status to16 s) q"
    using Status_writeToParcel_ok assms(1,3) by blast
  let ?p = "rewound (mDataPos p) q" and ?rest = "if mException s = EX_NONE then []
     else enc_string16 (Some (to16 (mMessage s))) @ enc32 0 @ enc_tail s"
  have pos: "mDataPos q = mDataPos p + length (enc_status to16 s)" using q(2) by (simp add: wrote_def)
  have "readable E (enc32 (mException s) @ ?rest) ?p"
    using wrote_readable [OF q(2) inv assms(2)] by (simp add: enc_status_def)
  from read_next [OF this, of "readInt32 E" "mException s"] obtain q1 where
    q1: "readInt32 E ?p = Inr (Inr (mException s), q1)" "readable E ?rest q1" "mDataPos q1 = mDataPos p + 4"
    using readInt32_ok by fastforce
  show ?thesis
  proof (cases "mException s = EX_NONE")
    case True
    then show ?thesis
      using q(1) q1(1,3) pos
      by (simp add: Status_readFromParcel_def Let_def isOk_def serviceSpecificErrorCode_def enc_status_def)
  next
    case False
    from read_details_ok [of E "to16 (mMessage s)" s q1 "Status_ok\<lparr>mException := mException s\<rparr>" to8] q1(2) False
    obtain r t where "read_details to8 E (Status_ok\<lparr>mException := mException s\<rparr>) q1 = Inr ((OK, t), r)"
      "mException t = mException s" "mMessage t = to8 (to16 (mMessage s))"
      "serviceSpecificErrorCode t = serviceSpecificErrorCode s"
      "mDataPos r = mDataPos q1 + length (enc_string16 (Some (to16 (mMessage s)))) + 4 +
        (if mException s = EX_SERVICE_SPECIFIC then 4 else 0)" by auto
    then show ?thesis
      using q(1) q1(1,3) pos False assms(3,4)
      by (auto simp: Status_readFromParcel_def Let_def enc_status_def enc_tail_def)
  qed
qed

text \<open>A witness: a service specific error with an empty message on a fresh parcel.\<close>
theorem status_roundtrip_witness:
  "\<exists>q r t. Status_writeToParcel (map ucast) linux_env (fromServiceSpecificError 7 []) Parcel = Inr (OK, q) \<and>
    Status_readFromParcel (map ucast) linux_env Status_ok (rewound 0 q) = Inr ((OK, t), r) \<and>
    serviceSpecificErrorCode t = 7 \<and> mDataPos r = mDataPos q"
proof -
  let ?s = "fromServiceSpecificError 7 []"
  have "writable linux_env (length (enc_status (map ucast) ?s)) Parcel"
    by (simp add: writable_def Parcel_def parcel_inv_def buf_ok_def objects_within_def enc_status_def enc_tail_def
        fromServiceSpecificError_def enc_string16_def padded_len_def)
  moreover have "objects_within linux_env (mDataPos Parcel) (mObjects Parcel)"
    by (simp add: objects_within_def Parcel_def)
  moreover have "mDataPos Parcel = 0" by (simp add: Parcel_def)
  moreover have "mException ?s = EX_SERVICE_SPECIFIC" "serviceSpecificErrorCode ?s = 7" "mMessage ?s = []"
    by (simp_all add: fromServiceSpecificError_def serviceSpecificErrorCode_def)
  ultimately obtain q r t where "Status_writeToParcel (map ucast) linux_env ?s Parcel = Inr (OK, q)"
    "Status_readFromParcel (map ucast) linux_env Status_ok (rewound 0 q) = Inr ((OK, t), r)"
    "serviceSpecificErrorCode t = 7" "mDataPos r = mDataPos q"
    using status_roundtrip [of linux_env "map ucast" ?s Parcel "map ucast"] by auto
  then show ?thesis by blast
qed

section \<open>Hostile replies\<close>

definition safe_status :: "env \<Rightarrow> parcel \<Rightarrow> status_run \<Rightarrow> bool" where
  "safe_status E p r \<longleftrightarrow> (\<exists>st t q. r = Inr ((st, t), q) \<and> read_frame p q \<and> parcel_inv E q \<and>
     (if st = OK then mDataPos q \<le> mDataSize q
      else mException t = EX_TRANSACTION_FAILED \<and> mErrorCode t = of_int st))"

lemma safe_status_frame: "read_frame p q \<Longrightarrow> safe_status E q r \<Longrightarrow> safe_status E p r"
  unfolding safe_status_def by (blast intro: read_frame_trans)

lemma safe_status_fail:
  "read_ok E p \<Longrightarrow> st \<noteq> OK \<Longrightarrow> safe_status E p (fail_with st s p)"
  by (simp add: safe_status_def fail_with_def setFromStatusT_def read_ok_def)

lemma safe_status_done: "read_ok E p \<Longrightarrow> safe_status E p (Inr ((OK, s), p))"
  by (simp add: safe_status_def read_ok_def)

lemma safe_on_read:
  assumes r: "safe_read E p r" and f: "\<And>v q. read_frame p q \<Longrightarrow> read_ok E q \<Longrightarrow> safe_status E q (f v q)"
  shows "safe_status E p (on_read r s f)"
proof -
  obtain x q where q: "r = Inr (x, q)" "read_frame p q" "parcel_inv E q" "read_inv E q"
    "case x of Inl st \<Rightarrow> st \<noteq> OK | Inr v \<Rightarrow> mDataPos q \<le> mDataSize q"
    using r unfolding safe_read_def by blast
  show ?thesis
  proof (cases x)
    case (Inl st)
    with q show ?thesis by (simp add: on_read_def fail_with_def safe_status_def setFromStatusT_def)
  next
    case (Inr v)
    with q have "safe_status E q (f v q)" by (intro f) (auto simp: read_ok_def)
    with safe_status_frame [OF q(2)] q(1) Inr show ?thesis by simp
  qed
qed

lemma jump_ok:
  assumes q: "read_ok E q" and d: "d \<le> mDataSize q"
  shows "setDataPosition d q = Inr (rewound d q)" and "read_ok E (rewound d q)" and "read_frame q (rewound d q)"
proof -
  have "d \<le> INT32_MAX" using assms by (auto simp: read_ok_def parcel_inv_def)
  then show "setDataPosition d q = Inr (rewound d q)" "read_ok E (rewound d q)"
    using assms by (auto simp: setDataPosition_ok read_ok_def)
  show "read_frame q (rewound d q)" unfolding rewound_def read_frame_def by (cases q) simp
qed

lemma skip_header_safe:
  assumes p: "read_ok E p" and f: "\<And>q. read_frame p q \<Longrightarrow> read_ok E q \<Longrightarrow> safe_status E q (f s q)"
  shows "safe_status E p (skip_header E s p f)"
proof -
  note av = read_ok_avail [OF p]
  have "safe_status E q (if sint n < 0 \<or> nat (sint n) > mDataSize p - mDataPos p then fail_with UNKNOWN_ERROR s q
      else bind_run (setDataPosition (size_add (mDataPos p) (nat (sint n))) q) (\<lambda>p. f s p))"
    if q: "read_frame p q" "read_ok E q" for n :: u32 and q
  proof (cases "sint n < 0 \<or> nat (sint n) > mDataSize p - mDataPos p")
    case False
    let ?d = "mDataPos p + nat (sint n)"
    have size: "mDataSize q = mDataSize p" by (rule read_frameD(3) [OF q(1)])
    have d: "?d \<le> mDataSize q" using False p size by (auto simp: read_ok_def)
    have "mDataSize q \<le> INT32_MAX" using q(2) by (auto simp: read_ok_def parcel_inv_def)
    then have add: "size_add (mDataPos p) (nat (sint n)) = ?d" using d by simp
    note j = jump_ok [OF q(2) d]
    have "safe_status E (rewound ?d q) (f s (rewound ?d q))"
      by (rule f [OF read_frame_trans [OF q(1) j(3)] j(2)])
    with safe_status_frame [OF j(3)] j(1) False add show ?thesis by simp
  qed (simp add: safe_status_fail q)
  then show ?thesis
    unfolding skip_header_def Let_def dataPosition_def av bind_run_Inr
    by (intro safe_on_read readInt32_safe p)
qed

lemma read_details_safe:
  assumes p: "read_ok E p"
  shows "safe_status E p (read_details to8 E s p)"
proof -
  have tail: "safe_status E q (if mException t = EX_SERVICE_SPECIFIC
      then on_read (readInt32 E q) t (\<lambda>code p. Inr ((OK, t\<lparr>mErrorCode := code\<rparr>), p))
      else if mException t = EX_PARCELABLE then skip_header E t q (\<lambda>s p. Inr ((OK, s), p))
      else Inr ((OK, t), q))" if "read_ok E q" for q t
    using that by (simp add: safe_on_read readInt32_safe skip_header_safe safe_status_done)
  have trace: "safe_status E q (bind_run (dataAvail q) (\<lambda>avail. if sint n < 0 \<or> nat (sint n) > avail
      then fail_with UNKNOWN_ERROR t q
      else bind_run (setDataPosition (size_add (dataPosition q) (nat (sint n))) q) (\<lambda>q.
        if mException t = EX_SERVICE_SPECIFIC
        then on_read (readInt32 E q) t (\<lambda>code p. Inr ((OK, t\<lparr>mErrorCode := code\<rparr>), p))
        else if mException t = EX_PARCELABLE then skip_header E t q (\<lambda>s p. Inr ((OK, s), p))
        else Inr ((OK, t), q))))" if q: "read_ok E q" for n :: u32 and t q
  proof (cases "sint n < 0 \<or> nat (sint n) > mDataSize q - mDataPos q")
    case True
    with read_ok_avail [OF q] safe_status_fail [OF q] show ?thesis by simp
  next
    case False
    let ?d = "mDataPos q + nat (sint n)"
    have d: "?d \<le> mDataSize q" using False q by (auto simp: read_ok_def)
    have "mDataSize q \<le> INT32_MAX" using q by (auto simp: read_ok_def parcel_inv_def)
    then have add: "size_add (mDataPos q) (nat (sint n)) = ?d" using d by simp
    note j = jump_ok [OF q d]
    from safe_status_frame [OF j(3) tail [OF j(2)]] j(1) False add read_ok_avail [OF q] show ?thesis
      by (simp add: dataPosition_def)
  qed
  show ?thesis
    unfolding read_details_def Let_def
    by (intro safe_on_read opt_str16_safe.rd_safe readInt32_safe p trace)
qed

text \<open>C28: reading a Status from a reply with arbitrary contents returns. It never aborts and never reads
  outside the data; on success the position is inside the data, and every other result is a
  Status that carries the returned error as a failed transaction.\<close>
theorem hostile_status_read_safe:
  assumes "read_ok E p"
  shows "\<exists>st t q. Status_readFromParcel to8 E s p = Inr ((st, t), q) \<and> contents q = contents p \<and> parcel_inv E q \<and>
    (if st = OK then mDataPos q \<le> mDataSize p else transactionError t = of_int st \<and> \<not> isOk t)"
proof -
  have "safe_status E p (Status_readFromParcel to8 E s p)"
    unfolding Status_readFromParcel_def Let_def
    by (intro safe_on_read readInt32_safe assms)
       (auto intro!: skip_header_safe safe_status_done read_details_safe)
  then show ?thesis
    unfolding safe_status_def transactionError_def isOk_def
    by (fastforce dest: read_frameD(1,3) split: if_splits)
qed

text \<open>A witness: a reply header that claims 9 bytes more than there are.\<close>
theorem hostile_status_read_safe_witness:
  "\<exists>st t q. Status_readFromParcel (map ucast) linux_env Status_ok
      (garbage\<lparr>mData := Some [128, 255, 255, 255, 13, 0, 0, 0]\<rparr>) = Inr ((st, t), q) \<and>
    (if st = OK then mDataPos q \<le> 8 else \<not> isOk t)"
proof -
  let ?p = "garbage\<lparr>mData := Some [128, 255, 255, 255, 13, 0, 0, 0]\<rparr>"
  have "read_ok linux_env ?p"
    by (simp add: read_ok_def garbage_def Parcel_def parcel_inv_def read_inv_def buf_ok_def objects_within_def)
  moreover have "mDataSize ?p = 8" by (simp add: garbage_def)
  ultimately show ?thesis using hostile_status_read_safe [of linux_env ?p "map ucast" Status_ok] by (auto split: if_splits)
qed

end
