(* ===== verification/Stability.thy ===== *)
theory Stability
  imports Prelude
begin

text \<open>
  Interface stability of binders (src/libs/binder/Stability.cpp, include/binder/Stability.h). The
  part of a binder the component looks at is \<open>stable_binder\<close>: whether it is local (a BBinder) or
  remote (a BpBinder), and the field mStability both classes have. A null pointer is
  \<open>None\<close>. getLocalLevel() is fixed when the library is compiled: \<open>vndk\<close> says whether
  __ANDROID_VNDK__ was defined. Logging is left out.
\<close>

section \<open>Levels\<close>

abbreviation UNDECLARED :: int where "UNDECLARED \<equiv> 0"
abbreviation VENDOR :: int where "VENDOR \<equiv> 3"
abbreviation SYSTEM :: int where "SYSTEM \<equiv> 12"
abbreviation VINTF :: int where "VINTF \<equiv> 63"

abbreviation REPR_NONE :: u32 where "REPR_NONE \<equiv> 0"
abbreviation REPR_LOG :: u32 where "REPR_LOG \<equiv> 1"
abbreviation REPR_ALLOW_DOWNGRADE :: u32 where "REPR_ALLOW_DOWNGRADE \<equiv> 2"

record stable_binder =
  is_local :: bool
  mStability :: int

definition isDeclaredLevel :: "int \<Rightarrow> bool" where
  "isDeclaredLevel stability \<longleftrightarrow> stability = VENDOR \<or> stability = SYSTEM \<or> stability = VINTF"

definition check :: "int \<Rightarrow> int \<Rightarrow> bool" where
  "check provided required =
     (let stable = (provided AND required) = required in
      if provided \<noteq> UNDECLARED \<and> \<not> isDeclaredLevel provided then False else stable)"

definition getLocalLevel :: "bool \<Rightarrow> int" where
  "getLocalLevel vndk = (if vndk then VENDOR else SYSTEM)"

definition getRepr :: "stable_binder option \<Rightarrow> int" where
  "getRepr obj = (case obj of None \<Rightarrow> UNDECLARED | Some b \<Rightarrow> mStability b)"

definition setRepr :: "stable_binder option \<Rightarrow> int \<Rightarrow> u32 \<Rightarrow> status_t \<times> stable_binder option" where
  "setRepr obj setting flags =
     (let allowDowngrade = (flags AND REPR_ALLOW_DOWNGRADE) \<noteq> 0; current = getRepr obj in
      case obj of
        None \<Rightarrow> (if setting = UNDECLARED then OK else BAD_TYPE, None)
      | Some b \<Rightarrow>
          if \<not> isDeclaredLevel setting then (BAD_TYPE, Some b)
          else if current = setting then (OK, Some b)
          else
            let hasAlreadyBeenSet = current \<noteq> UNDECLARED;
                isAllowedDowngrade = allowDowngrade \<and> check current setting in
            if hasAlreadyBeenSet \<and> \<not> isAllowedDowngrade then (BAD_TYPE, Some b)
            else (OK, Some (b\<lparr>mStability := setting\<rparr>)))"

section \<open>Marking\<close>

text \<open>A mark that cannot be set ends the process.\<close>

definition must_set :: "status_t \<times> 'a \<Rightarrow> crash + 'a" where
  "must_set r = (if fst r \<noteq> OK then Inl Abort else Inr (snd r))"

definition forceDowngradeToStability :: "stable_binder option \<Rightarrow> int \<Rightarrow> crash + stable_binder option" where
  "forceDowngradeToStability obj level =
     (case obj of
        None \<Rightarrow> Inl Abort
      | Some b \<Rightarrow> if \<not> is_local b then Inl Abort
                 else must_set (setRepr obj level (REPR_LOG OR REPR_ALLOW_DOWNGRADE)))"

definition forceDowngradeToLocalStability :: "bool \<Rightarrow> stable_binder option \<Rightarrow> crash + stable_binder option" where
  "forceDowngradeToLocalStability vndk obj = forceDowngradeToStability obj (getLocalLevel vndk)"

definition forceDowngradeToSystemStability :: "stable_binder option \<Rightarrow> crash + stable_binder option" where
  "forceDowngradeToSystemStability obj = forceDowngradeToStability obj SYSTEM"

definition forceDowngradeToVendorStability :: "stable_binder option \<Rightarrow> crash + stable_binder option" where
  "forceDowngradeToVendorStability obj = forceDowngradeToStability obj VENDOR"

definition markCompilationUnit :: "bool \<Rightarrow> stable_binder option \<Rightarrow> crash + stable_binder option" where
  "markCompilationUnit vndk obj = must_set (setRepr obj (getLocalLevel vndk) REPR_LOG)"

definition markVintf :: "stable_binder option \<Rightarrow> crash + stable_binder option" where
  "markVintf obj = must_set (setRepr obj VINTF REPR_LOG)"

definition markVndk :: "stable_binder option \<Rightarrow> crash + stable_binder option" where
  "markVndk obj = must_set (setRepr obj VENDOR REPR_LOG)"

definition tryMarkCompilationUnit :: "bool \<Rightarrow> stable_binder option \<Rightarrow> stable_binder option" where
  "tryMarkCompilationUnit vndk obj = snd (setRepr obj (getLocalLevel vndk) REPR_NONE)"

definition requiresVintfDeclaration :: "stable_binder option \<Rightarrow> bool" where
  "requiresVintfDeclaration obj = check (getRepr obj) VINTF"

section \<open>Facts\<close>

definition known_level :: "int \<Rightarrow> bool" where
  "known_level l \<longleftrightarrow> l = UNDECLARED \<or> isDeclaredLevel l"

definition binder_known :: "stable_binder option \<Rightarrow> bool" where
  "binder_known b \<longleftrightarrow> known_level (getRepr b)"

lemma check_table:
  "known_level l \<Longrightarrow> isDeclaredLevel r \<Longrightarrow> check l r \<longleftrightarrow> l = r \<or> l = VINTF"
  by (auto simp: known_level_def isDeclaredLevel_def check_def)

lemma setRepr_known: "binder_known b \<Longrightarrow> binder_known (snd (setRepr b l flags))"
  by (cases b) (auto simp: binder_known_def known_level_def getRepr_def setRepr_def Let_def)

lemma tryMark_known: "binder_known b \<Longrightarrow> binder_known (tryMarkCompilationUnit vndk b)"
  by (simp add: tryMarkCompilationUnit_def setRepr_known)

lemma tryMark_None [simp]: "tryMarkCompilationUnit vndk None = None"
  by (simp add: tryMarkCompilationUnit_def setRepr_def)

lemma tryMark_Some:
  "tryMarkCompilationUnit vndk (Some b) =
     Some (if mStability b = UNDECLARED then b\<lparr>mStability := getLocalLevel vndk\<rparr> else b)"
  by (auto simp: tryMarkCompilationUnit_def setRepr_def getRepr_def getLocalLevel_def isDeclaredLevel_def Let_def)

lemma requires_vintf_iff: "binder_known b \<Longrightarrow> requiresVintfDeclaration b \<longleftrightarrow> getRepr b = VINTF"
  using check_table [of "getRepr b" VINTF]
  by (auto simp: requiresVintfDeclaration_def binder_known_def isDeclaredLevel_def)

section \<open>Properties\<close>

text \<open>once a binder carries a declared level, setRepr never changes it except to lower a level that
  provides the requested one with the downgrade flag set; every other request on it is BAD_TYPE or
  sets the level it already has, and the level stays one of the declared ones.\<close>
lemma stability_only_lowered:
  assumes "isDeclaredLevel (mStability b)"
  shows "\<exists>b'. setRepr (Some b) l flags =
      (if l = mStability b \<or> (flags AND REPR_ALLOW_DOWNGRADE \<noteq> 0 \<and> isDeclaredLevel l \<and> mStability b = VINTF)
       then OK else BAD_TYPE, Some b') \<and>
    isDeclaredLevel (mStability b') \<and> is_local b' = is_local b \<and> check (mStability b) (mStability b') \<and>
    (mStability b' \<noteq> mStability b \<longrightarrow> mStability b' = l \<and> flags AND REPR_ALLOW_DOWNGRADE \<noteq> 0)"
  using assms check_table [of "mStability b" "mStability b"] check_table [of "mStability b" l]
  by (cases "isDeclaredLevel l")
     (auto simp: setRepr_def getRepr_def Let_def known_level_def isDeclaredLevel_def)


end
