(* ===== verification/Service_Manager.thy ===== *)
theory Service_Manager
  imports Status Stability "HOL-Library.RBT" "HOL-Library.Char_ord" "HOL-Library.List_Lexorder"
begin

text \<open>
  The service manager (src/cmds/servicemanager/ServiceManager.cpp and Access.cpp): the registry of
  named binders, registration and client callbacks, death of binders, and the access checks in
  front of every call. The three std::map members are red-black trees over names.

  Binders are identified by their IBinder; a null pointer is \<open>None\<close>, and a callback is
  identified by IInterface::asBinder of it. What the code asks of its surroundings is the record
  \<open>sm_env\<close>: libselinux, the user id layout of cutils, libvintf's manifests, and what the
  driver says about a binder. Outgoing calls are logged in \<open>sent\<close>.
\<close>

section \<open>Surroundings\<close>

type_synonym ibinder = nat

record calling_context =
  debug_pid :: int
  ctx_uid :: nat
  ctx_sid :: string

record manifest_instance =
  is_aidl :: bool
  mi_package :: string
  mi_interface :: string
  mi_instance :: string
  mi_apex :: "string option"
  mi_ip :: "string option"
  mi_port :: "nat option"

record hal_manifest =
  hasAidlInstance :: "string \<Rightarrow> string \<Rightarrow> string \<Rightarrow> bool"
  getAidlInstances :: "string \<Rightarrow> string \<Rightarrow> string list"
  instances :: "manifest_instance list"

record sm_env =
  selabel_lookup :: "string \<Rightarrow> string option"
  selinux_check_access :: "string \<Rightarrow> string \<Rightarrow> string \<Rightarrow> bool"
  this_context :: string
  app_id :: "nat \<Rightarrow> nat"
  AID_APP :: nat
  AID_ISOLATED_START :: nat
  AID_ISOLATED_END :: nat
  manifests :: "hal_manifest option list"
  vendor_build :: bool
  stability :: "ibinder \<Rightarrow> stable_binder"
  is_remote :: "ibinder \<Rightarrow> bool"
  linkToDeath :: "ibinder \<Rightarrow> status_t"
  strong_refs :: "ibinder \<Rightarrow> int"

section \<open>Access\<close>

definition actionAllowed :: "sm_env \<Rightarrow> calling_context \<Rightarrow> string \<Rightarrow> string \<Rightarrow> bool" where
  "actionAllowed E sctx tctx perm = selinux_check_access E (ctx_sid sctx) tctx perm"

definition actionAllowedFromLookup :: "sm_env \<Rightarrow> calling_context \<Rightarrow> string \<Rightarrow> string \<Rightarrow> bool" where
  "actionAllowedFromLookup E sctx name perm =
     (case selabel_lookup E name of
        None \<Rightarrow> False
      | Some tctx \<Rightarrow> actionAllowed E sctx tctx perm)"

definition canFind :: "sm_env \<Rightarrow> calling_context \<Rightarrow> string \<Rightarrow> bool" where
  "canFind E ctx name = actionAllowedFromLookup E ctx name ''find''"

definition canAdd :: "sm_env \<Rightarrow> calling_context \<Rightarrow> string \<Rightarrow> bool" where
  "canAdd E ctx name = actionAllowedFromLookup E ctx name ''add''"

definition canList :: "sm_env \<Rightarrow> calling_context \<Rightarrow> bool" where
  "canList E ctx = actionAllowed E ctx (this_context E) ''list''"

section \<open>Names and the VINTF manifests\<close>

fun find_char :: "char \<Rightarrow> string \<Rightarrow> nat option" where
  "find_char c [] = None"
| "find_char c (x # xs) = (if x = c then Some 0 else map_option Suc (find_char c xs))"

definition rfind_char :: "char \<Rightarrow> nat option \<Rightarrow> string \<Rightarrow> nat option" where
  "rfind_char c pos s =
     (let pre = (case pos of None \<Rightarrow> s | Some p \<Rightarrow> take (Suc p) s) in
      map_option (\<lambda>j. length pre - 1 - j) (find_char c (rev pre)))"

definition AidlName_fill :: "string \<Rightarrow> (string \<times> string \<times> string) option" where
  "AidlName_fill name =
     (let firstSlash = find_char (CHR ''/'') name; lastDot = rfind_char (CHR ''.'') firstSlash name in
      case (firstSlash, lastDot) of
        (Some fs, Some ld) \<Rightarrow> Some (take ld name, take (fs - ld - 1) (drop (ld + 1) name), drop (fs + 1) name)
      | _ \<Rightarrow> None)"

definition isVintfDeclared :: "sm_env \<Rightarrow> string \<Rightarrow> bool" where
  "isVintfDeclared E name =
     (case AidlName_fill name of
        None \<Rightarrow> False
      | Some (package, iface, inst) \<Rightarrow>
          list_ex (\<lambda>m. case m of None \<Rightarrow> False | Some m \<Rightarrow> hasAidlInstance m package iface inst) (manifests E))"

definition matching :: "string \<times> string \<times> string \<Rightarrow> hal_manifest \<Rightarrow> manifest_instance option" where
  "matching aname m =
     find (\<lambda>i. is_aidl i \<and> mi_package i = fst aname \<and> mi_interface i = fst (snd aname) \<and>
               mi_instance i = snd (snd aname)) (instances m)"

text \<open>The callback of forEachManifest always goes on, so the last manifest with a match decides.\<close>

definition getVintfUpdatableApex :: "sm_env \<Rightarrow> string \<Rightarrow> string option" where
  "getVintfUpdatableApex E name =
     (case AidlName_fill name of
        None \<Rightarrow> None
      | Some aname \<Rightarrow>
          foldl (\<lambda>r m. case m of None \<Rightarrow> r
                   | Some m \<Rightarrow> (case matching aname m of None \<Rightarrow> r | Some i \<Rightarrow> mi_apex i))
                None (manifests E))"

definition getVintfConnectionInfo :: "sm_env \<Rightarrow> string \<Rightarrow> (string \<times> nat) option" where
  "getVintfConnectionInfo E name =
     (case AidlName_fill name of
        None \<Rightarrow> None
      | Some aname \<Rightarrow>
          (case foldl (\<lambda>r m. case m of None \<Rightarrow> r
                   | Some m \<Rightarrow> (case matching aname m of None \<Rightarrow> r | Some i \<Rightarrow> (mi_ip i, mi_port i)))
                (None, None) (manifests E) of
             (Some ip, Some port) \<Rightarrow> Some (ip, port)
           | _ \<Rightarrow> None))"

definition getVintfInstances :: "sm_env \<Rightarrow> string \<Rightarrow> string list" where
  "getVintfInstances E iface =
     (case rfind_char (CHR ''.'') None iface of
        None \<Rightarrow> []
      | Some ld \<Rightarrow>
          concat (map (\<lambda>m. case m of None \<Rightarrow> [] | Some m \<Rightarrow> getAidlInstances m (take ld iface) (drop (ld + 1) iface))
            (manifests E)))"

definition meetsDeclarationRequirements :: "sm_env \<Rightarrow> ibinder \<Rightarrow> string \<Rightarrow> bool" where
  "meetsDeclarationRequirements E b name =
     (if \<not> requiresVintfDeclaration (Some (stability E b)) then True else isVintfDeclared E name)"

definition valid_char :: "char \<Rightarrow> bool" where
  "valid_char c \<longleftrightarrow> c = CHR ''_'' \<or> c = CHR ''-'' \<or> c = CHR ''.'' \<or> c = CHR ''/'' \<or>
     (CHR ''a'' \<le> c \<and> c \<le> CHR ''z'') \<or> (CHR ''A'' \<le> c \<and> c \<le> CHR ''Z'') \<or> (CHR ''0'' \<le> c \<and> c \<le> CHR ''9'')"

definition isValidServiceName :: "string \<Rightarrow> bool" where
  "isValidServiceName name \<longleftrightarrow> length name \<noteq> 0 \<and> \<not> length name > 127 \<and> list_all valid_char name"

section \<open>The registry\<close>

record service =
  svc_binder :: "ibinder option"
  allowIsolated :: bool
  dumpPriority :: u32
  hasClients :: bool
  guaranteeClient :: bool
  debugPid :: int

datatype sm_call =
    OnRegistration ibinder string "ibinder option"
  | OnClients ibinder "ibinder option" bool
  | StartService string

record service_manager =
  mNameToService :: "(string, service) rbt"
  mNameToRegistrationCallback :: "(string, ibinder list) rbt"
  mNameToClientCallback :: "(string, ibinder list) rbt"
  sent :: "sm_call list"

definition ServiceManager :: service_manager where
  "ServiceManager = \<lparr>mNameToService = RBT.empty, mNameToRegistrationCallback = RBT.empty,
     mNameToClientCallback = RBT.empty, sent = []\<rparr>"

definition send :: "sm_call list \<Rightarrow> service_manager \<Rightarrow> service_manager" where
  "send cs m = m\<lparr>sent := sent m @ cs\<rparr>"

definition set_guarantee :: "string \<Rightarrow> bool \<Rightarrow> service_manager \<Rightarrow> service_manager" where
  "set_guarantee name g m =
     m\<lparr>mNameToService := RBT.map_entry name (\<lambda>s. s\<lparr>guaranteeClient := g\<rparr>) (mNameToService m)\<rparr>"

definition because :: "u32 \<Rightarrow> string \<Rightarrow> status" where
  "because ex message = fromExceptionCode ex (map of_char message)"

section \<open>Handlers\<close>

text \<open>Lookup: getService and checkService differ in starting a service that is not there.\<close>

definition isIsolated :: "sm_env \<Rightarrow> nat \<Rightarrow> bool" where
  "isIsolated E uid \<longleftrightarrow> AID_ISOLATED_START E \<le> app_id E uid \<and> app_id E uid \<le> AID_ISOLATED_END E"

definition tryStartService :: "string \<Rightarrow> service_manager \<Rightarrow> service_manager" where
  "tryStartService name m = send [StartService name] m"

definition tryGetService ::
  "sm_env \<Rightarrow> calling_context \<Rightarrow> string \<Rightarrow> bool \<Rightarrow> service_manager \<Rightarrow> ibinder option \<times> service_manager" where
  "tryGetService E ctx name startIfNotFound m =
     (let found = RBT.lookup (mNameToService m) name in
      if (case found of None \<Rightarrow> False | Some s \<Rightarrow> \<not> allowIsolated s \<and> isIsolated E (ctx_uid ctx)) then (None, m)
      else
        let out = (case found of None \<Rightarrow> None | Some s \<Rightarrow> svc_binder s) in
        if \<not> canFind E ctx name then (None, m)
        else
          let m = (if out = None \<and> startIfNotFound then tryStartService name m else m);
              m = (if out \<noteq> None then set_guarantee name True m else m)
          in (out, m))"

definition getService where
  "getService E ctx name m = tryGetService E ctx name True m"

definition checkService where
  "checkService E ctx name m = tryGetService E ctx name False m"

text \<open>Registration. The loop over the callbacks sets the guarantee once per callback.\<close>

fun notify_registration :: "string \<Rightarrow> ibinder option \<Rightarrow> ibinder list \<Rightarrow> service_manager \<Rightarrow> service_manager" where
  "notify_registration name b [] m = m"
| "notify_registration name b (cb # cbs) m =
     notify_registration name b cbs (send [OnRegistration cb name b] (set_guarantee name True m))"

definition addService ::
  "sm_env \<Rightarrow> calling_context \<Rightarrow> string \<Rightarrow> ibinder option \<Rightarrow> bool \<Rightarrow> u32 \<Rightarrow> service_manager \<Rightarrow> status \<times> service_manager" where
  "addService E ctx name b isolated priority m =
     (if app_id E (ctx_uid ctx) \<ge> AID_APP E then (because EX_SECURITY ''App UIDs cannot add services'', m)
      else if \<not> canAdd E ctx name then (because EX_SECURITY ''SELinux denial'', m)
      else case b of
        None \<Rightarrow> (because EX_ILLEGAL_ARGUMENT ''Null binder'', m)
      | Some i \<Rightarrow>
          if \<not> isValidServiceName name then (because EX_ILLEGAL_ARGUMENT ''Invalid service name'', m)
          else if \<not> vendor_build E \<and> \<not> meetsDeclarationRequirements E i name
          then (because EX_ILLEGAL_ARGUMENT ''VINTF declaration error'', m)
          else if is_remote E i \<and> linkToDeath E i \<noteq> OK
          then (because EX_ILLEGAL_STATE ''linkToDeath failure'', m)
          else
            let m = m\<lparr>mNameToService := RBT.insert name
                  \<lparr>svc_binder = b, allowIsolated = isolated, dumpPriority = priority, hasClients = False,
                   guaranteeClient = False, debugPid = debug_pid ctx\<rparr> (mNameToService m)\<rparr>
            in (Status_ok,
                case RBT.lookup (mNameToRegistrationCallback m) name of
                  None \<Rightarrow> m
                | Some cbs \<Rightarrow> notify_registration name b cbs m))"

definition listServices :: "sm_env \<Rightarrow> calling_context \<Rightarrow> u32 \<Rightarrow> service_manager \<Rightarrow> status \<times> string list" where
  "listServices E ctx priority m =
     (if \<not> canList E ctx then (because EX_SECURITY [], [])
      else (Status_ok, map fst (filter (\<lambda>(name, s). dumpPriority s AND priority \<noteq> 0) (RBT.entries (mNameToService m)))))"

definition push_callback :: "string \<Rightarrow> ibinder \<Rightarrow> (string, ibinder list) rbt \<Rightarrow> (string, ibinder list) rbt" where
  "push_callback name cb t =
     RBT.insert name ((case RBT.lookup t name of None \<Rightarrow> [] | Some cbs \<Rightarrow> cbs) @ [cb]) t"

definition registerForNotifications ::
  "sm_env \<Rightarrow> calling_context \<Rightarrow> string \<Rightarrow> ibinder option \<Rightarrow> service_manager \<Rightarrow> crash + status \<times> service_manager" where
  "registerForNotifications E ctx name callback m =
     (if \<not> canFind E ctx name then Inr (because EX_SECURITY [], m)
      else if \<not> isValidServiceName name then Inr (because EX_ILLEGAL_ARGUMENT [], m)
      else case callback of
        None \<Rightarrow> Inr (because EX_NULL_POINTER [], m)
      | Some cb \<Rightarrow>
          if linkToDeath E cb \<noteq> OK then Inr (because EX_ILLEGAL_STATE [], m)
          else
            let m = m\<lparr>mNameToRegistrationCallback := push_callback name cb (mNameToRegistrationCallback m)\<rparr> in
            (case RBT.lookup (mNameToService m) name of
               None \<Rightarrow> Inr (Status_ok, m)
             | Some s \<Rightarrow> if svc_binder s = None then Inl Abort
                        else Inr (Status_ok, send [OnRegistration cb name (svc_binder s)] m)))"

text \<open>removeRegistrationCallback, on the map it works on: the listeners that are the given binder go, and
  the entry goes with the last of them.\<close>

definition remove_callback :: "ibinder option \<Rightarrow> string \<Rightarrow> (string, ibinder list) rbt \<Rightarrow> bool \<times> (string, ibinder list) rbt" where
  "remove_callback who name t =
     (case RBT.lookup t name of
        None \<Rightarrow> (False, t)
      | Some listeners \<Rightarrow>
          let kept = filter (\<lambda>l. Some l \<noteq> who) listeners in
          (length kept < length listeners,
           if kept = [] then RBT.delete name t else RBT.insert name kept t))"

definition unregisterForNotifications ::
  "sm_env \<Rightarrow> calling_context \<Rightarrow> string \<Rightarrow> ibinder option \<Rightarrow> service_manager \<Rightarrow> status \<times> service_manager" where
  "unregisterForNotifications E ctx name callback m =
     (if \<not> canFind E ctx name then (because EX_SECURITY [], m)
      else case remove_callback callback name (mNameToRegistrationCallback m) of
        (found, t) \<Rightarrow> (if \<not> found then because EX_ILLEGAL_STATE [] else Status_ok,
                       m\<lparr>mNameToRegistrationCallback := t\<rparr>))"

definition isDeclared :: "sm_env \<Rightarrow> calling_context \<Rightarrow> string \<Rightarrow> status \<times> bool" where
  "isDeclared E ctx name =
     (if \<not> canFind E ctx name then (because EX_SECURITY [], False)
      else (Status_ok, \<not> vendor_build E \<and> isVintfDeclared E name))"

definition getDeclaredInstances :: "sm_env \<Rightarrow> calling_context \<Rightarrow> string \<Rightarrow> status \<times> string list" where
  "getDeclaredInstances E ctx iface =
     (let allInstances = (if vendor_build E then [] else getVintfInstances E iface);
          out = filter (\<lambda>i. canFind E ctx (iface @ ''/'' @ i)) allInstances
      in if out = [] \<and> allInstances \<noteq> [] then (because EX_SECURITY [], out) else (Status_ok, out))"

definition updatableViaApex :: "sm_env \<Rightarrow> calling_context \<Rightarrow> string \<Rightarrow> status \<times> string option" where
  "updatableViaApex E ctx name =
     (if \<not> canFind E ctx name then (because EX_SECURITY [], None)
      else (Status_ok, if vendor_build E then None else getVintfUpdatableApex E name))"

definition getConnectionInfo :: "sm_env \<Rightarrow> calling_context \<Rightarrow> string \<Rightarrow> status \<times> (string \<times> nat) option" where
  "getConnectionInfo E ctx name =
     (if \<not> canFind E ctx name then (because EX_SECURITY [], None)
      else (Status_ok, if vendor_build E then None else getVintfConnectionInfo E name))"

text \<open>Death of a binder: the loops erase while they iterate, which visits every entry once.\<close>

definition erase_services :: "ibinder \<Rightarrow> (string, service) rbt \<Rightarrow> (string, service) rbt" where
  "erase_services who t =
     foldl (\<lambda>t (name, s). if svc_binder s = Some who then RBT.delete name t else t) t (RBT.entries t)"

definition erase_callbacks :: "ibinder \<Rightarrow> (string, ibinder list) rbt \<Rightarrow> (string, ibinder list) rbt" where
  "erase_callbacks who t = foldl (\<lambda>t name. snd (remove_callback (Some who) name t)) t (RBT.keys t)"

definition removeClientCallback :: "ibinder \<Rightarrow> string \<Rightarrow> (string, ibinder list) rbt \<Rightarrow> (string, ibinder list) rbt" where
  "removeClientCallback who name t =
     (case RBT.lookup t name of
        None \<Rightarrow> t
      | Some listeners \<Rightarrow>
          let kept = filter (\<lambda>l. l \<noteq> who) listeners in
          if kept = [] then RBT.delete name t else RBT.insert name kept t)"

definition erase_client_callbacks :: "ibinder \<Rightarrow> (string, ibinder list) rbt \<Rightarrow> (string, ibinder list) rbt" where
  "erase_client_callbacks who t = foldl (\<lambda>t name. removeClientCallback who name t) t (RBT.keys t)"

definition binderDied :: "ibinder \<Rightarrow> service_manager \<Rightarrow> service_manager" where
  "binderDied who m =
     m\<lparr>mNameToService := erase_services who (mNameToService m),
       mNameToRegistrationCallback := erase_callbacks who (mNameToRegistrationCallback m),
       mNameToClientCallback := erase_client_callbacks who (mNameToClientCallback m)\<rparr>"

text \<open>Client callbacks.\<close>

definition registerClientCallback ::
  "sm_env \<Rightarrow> calling_context \<Rightarrow> string \<Rightarrow> ibinder option \<Rightarrow> ibinder option \<Rightarrow> service_manager \<Rightarrow> status \<times> service_manager" where
  "registerClientCallback E ctx name svc cb m =
     (case cb of
        None \<Rightarrow> (because EX_NULL_POINTER [], m)
      | Some c \<Rightarrow>
          if \<not> canAdd E ctx name then (because EX_SECURITY [], m)
          else case RBT.lookup (mNameToService m) name of
            None \<Rightarrow> (because EX_ILLEGAL_ARGUMENT [], m)
          | Some s \<Rightarrow>
              if debugPid s \<noteq> debug_pid ctx then (because EX_UNSUPPORTED_OPERATION [], m)
              else if svc_binder s \<noteq> svc then (because EX_ILLEGAL_ARGUMENT [], m)
              else if linkToDeath E c \<noteq> OK then (because EX_ILLEGAL_STATE [], m)
              else (Status_ok, m\<lparr>mNameToClientCallback := push_callback name c (mNameToClientCallback m)\<rparr>))"

definition getNodeStrongRefCount :: "sm_env \<Rightarrow> service \<Rightarrow> crash + int" where
  "getNodeStrongRefCount E s =
     (case svc_binder s of
        None \<Rightarrow> Inl Fault
      | Some b \<Rightarrow> Inr (if is_remote E b then strong_refs E b else - 1))"

definition sendClientCallbackNotifications :: "string \<Rightarrow> bool \<Rightarrow> service_manager \<Rightarrow> crash + service_manager" where
  "sendClientCallbackNotifications name clients m =
     (case RBT.lookup (mNameToService m) name of
        None \<Rightarrow> Inr m
      | Some s \<Rightarrow>
          if clients = hasClients s then Inl Abort
          else case RBT.lookup (mNameToClientCallback m) name of
            None \<Rightarrow> Inl Abort
          | Some cbs \<Rightarrow>
              Inr ((send (map (\<lambda>cb. OnClients cb (svc_binder s) clients) cbs) m)
                \<lparr>mNameToService := RBT.map_entry name (\<lambda>s. s\<lparr>hasClients := clients\<rparr>) (mNameToService m)\<rparr>))"

definition recorded :: "string \<Rightarrow> service_manager \<Rightarrow> bool" where
  "recorded name m = (case RBT.lookup (mNameToService m) name of None \<Rightarrow> False | Some s \<Rightarrow> hasClients s)"

definition handleServiceClientCallback ::
  "sm_env \<Rightarrow> string \<Rightarrow> bool \<Rightarrow> service_manager \<Rightarrow> crash + int \<times> service_manager" where
  "handleServiceClientCallback E name isCalledOnInterval m =
     (case RBT.lookup (mNameToService m) name of
        None \<Rightarrow> Inr (- 1, m)
      | Some s \<Rightarrow>
          if RBT.lookup (mNameToClientCallback m) name = None then Inr (- 1, m)
          else
            bind_run (getNodeStrongRefCount E s) (\<lambda>count.
            if count = - 1 then Inr (count, m)
            else
              let clients = count > 1 in
              bind_run
                (if guaranteeClient s
                 then bind_run (if \<not> hasClients s \<and> \<not> clients then sendClientCallbackNotifications name True m else Inr m)
                        (\<lambda>m. Inr (set_guarantee name False m))
                 else Inr m) (\<lambda>m.
              bind_run
                (if isCalledOnInterval
                 then bind_run (if clients \<and> \<not> recorded name m then sendClientCallbackNotifications name True m else Inr m)
                        (\<lambda>m. if \<not> clients \<and> recorded name m then sendClientCallbackNotifications name False m else Inr m)
                 else Inr m) (\<lambda>m.
              Inr (count, m)))))"

fun handle_names :: "sm_env \<Rightarrow> string list \<Rightarrow> service_manager \<Rightarrow> crash + service_manager" where
  "handle_names E [] m = Inr m"
| "handle_names E (name # names) m =
     bind_run (handleServiceClientCallback E name True m) (\<lambda>(_, m). handle_names E names m)"

definition handleClientCallbacks :: "sm_env \<Rightarrow> service_manager \<Rightarrow> crash + service_manager" where
  "handleClientCallbacks E m = handle_names E (RBT.keys (mNameToService m)) m"

definition tryUnregisterService ::
  "sm_env \<Rightarrow> calling_context \<Rightarrow> string \<Rightarrow> ibinder option \<Rightarrow> service_manager \<Rightarrow> crash + status \<times> service_manager" where
  "tryUnregisterService E ctx name b m =
     (if b = None then Inr (because EX_NULL_POINTER [], m)
      else if \<not> canAdd E ctx name then Inr (because EX_SECURITY [], m)
      else case RBT.lookup (mNameToService m) name of
        None \<Rightarrow> Inr (because EX_ILLEGAL_STATE [], m)
      | Some s \<Rightarrow>
          if debugPid s \<noteq> debug_pid ctx then Inr (because EX_UNSUPPORTED_OPERATION [], m)
          else if b \<noteq> svc_binder s then Inr (because EX_ILLEGAL_STATE [], m)
          else if guaranteeClient s then Inr (because EX_ILLEGAL_STATE [], m)
          else
            bind_run (handleServiceClientCallback E name False m) (\<lambda>(clients, m).
            if clients < 0 \<or> clients > 2
            then Inr (because EX_ILLEGAL_STATE [], set_guarantee name True m)
            else Inr (Status_ok, m\<lparr>mNameToService := RBT.delete name (mNameToService m)\<rparr>)))"

definition getServiceDebugInfo :: "sm_env \<Rightarrow> calling_context \<Rightarrow> service_manager \<Rightarrow> status \<times> (string \<times> int) list" where
  "getServiceDebugInfo E ctx m =
     (if \<not> canList E ctx then (because EX_SECURITY [], [])
      else (Status_ok, map (\<lambda>(name, s). (name, debugPid s)) (RBT.entries (mNameToService m))))"

text \<open>The checks of the destructor.\<close>

definition destructor_checks :: "service_manager \<Rightarrow> bool" where
  "destructor_checks m \<longleftrightarrow>
     list_all (\<lambda>(name, cbs). cbs \<noteq> []) (RBT.entries (mNameToRegistrationCallback m)) \<and>
     list_all (\<lambda>(name, s). svc_binder s \<noteq> None) (RBT.entries (mNameToService m))"

section \<open>The service manager as a transition system\<close>

datatype sm_request =
    GetService string
  | CheckService string
  | AddService string "ibinder option" bool u32
  | RegisterForNotifications string "ibinder option"
  | UnregisterForNotifications string "ibinder option"
  | RegisterClientCallback string "ibinder option" "ibinder option"
  | TryUnregisterService string "ibinder option"
  | BinderDied ibinder
  | HandleClientCallbacks

text \<open>One request from one caller in one state of the surroundings.\<close>

fun serve :: "sm_env \<Rightarrow> calling_context \<Rightarrow> sm_request \<Rightarrow> service_manager \<Rightarrow> crash + service_manager" where
  "serve E ctx (GetService name) m = Inr (snd (getService E ctx name m))"
| "serve E ctx (CheckService name) m = Inr (snd (checkService E ctx name m))"
| "serve E ctx (AddService name b isolated prio) m = Inr (snd (addService E ctx name b isolated prio m))"
| "serve E ctx (RegisterForNotifications name cb) m = map_sum id snd (registerForNotifications E ctx name cb m)"
| "serve E ctx (UnregisterForNotifications name cb) m = Inr (snd (unregisterForNotifications E ctx name cb m))"
| "serve E ctx (RegisterClientCallback name svc cb) m = Inr (snd (registerClientCallback E ctx name svc cb m))"
| "serve E ctx (TryUnregisterService name b) m = map_sum id snd (tryUnregisterService E ctx name b m)"
| "serve E ctx (BinderDied who) m = Inr (binderDied who m)"
| "serve E ctx HandleClientCallbacks m = handleClientCallbacks E m"

inductive sm_step :: "service_manager \<Rightarrow> sm_env \<times> calling_context \<times> sm_request \<Rightarrow> service_manager \<Rightarrow> bool" where
  serve_step: "serve E ctx r m = Inr m' \<Longrightarrow> sm_step m (E, ctx, r) m'"

inductive_cases sm_stepE: "sm_step m e m'"

interpretation sm: transition_system "\<lambda>m. m = ServiceManager" sm_step .

end
