(* ===== verification/Service_Theorems.thy ===== *)
theory Service_Theorems
  imports Service_Manager
begin

text \<open>
  Properties of the service manager: its invariant in every reachable state and that no check of the
  code can fire, what a lookup gives to whom, how long a registration lasts, what the death of a
  binder removes, and which client notifications are sent.
\<close>

section \<open>Lookups\<close>

lemmas sm_lookups [simp] = RBT.lookup_insert RBT.lookup_delete RBT.lookup_map_entry RBT.lookup_empty

lemma send_simps [simp]:
  "mNameToService (send cs m) = mNameToService m"
  "mNameToRegistrationCallback (send cs m) = mNameToRegistrationCallback m"
  "mNameToClientCallback (send cs m) = mNameToClientCallback m"
  "sent (send cs m) = sent m @ cs"
  by (simp_all add: send_def)

lemma set_guarantee_simps [simp]:
  "RBT.lookup (mNameToService (set_guarantee name g m)) =
     (RBT.lookup (mNameToService m))(name := map_option (\<lambda>s. s\<lparr>guaranteeClient := g\<rparr>) (RBT.lookup (mNameToService m) name))"
  "mNameToRegistrationCallback (set_guarantee name g m) = mNameToRegistrationCallback m"
  "mNameToClientCallback (set_guarantee name g m) = mNameToClientCallback m"
  "sent (set_guarantee name g m) = sent m"
  by (simp_all add: set_guarantee_def)

lemma erase_services_lookup:
  "RBT.lookup (erase_services who t) name =
     (case RBT.lookup t name of None \<Rightarrow> None | Some s \<Rightarrow> if svc_binder s = Some who then None else Some s)"
proof -
  have fold: "RBT.lookup (foldl (\<lambda>t (name, s). if svc_binder s = Some who then RBT.delete name t else t) u es) name =
      (if \<exists>s. (name, s) \<in> set es \<and> svc_binder s = Some who then None else RBT.lookup u name)" for u es
    by (induction es arbitrary: u) auto
  show ?thesis
    unfolding erase_services_def fold by (auto simp: RBT.lookup_in_tree [symmetric] split: option.splits)
qed

lemma remove_callback_lookup:
  "RBT.lookup (snd (remove_callback who name t)) n =
     (if n = name then (case RBT.lookup t name of None \<Rightarrow> None
        | Some cbs \<Rightarrow> (let kept = filter (\<lambda>l. Some l \<noteq> who) cbs in if kept = [] then None else Some kept))
      else RBT.lookup t n)"
  by (simp add: remove_callback_def Let_def split: option.split)

lemma erase_callbacks_lookup:
  "RBT.lookup (erase_callbacks who t) name =
     (case RBT.lookup t name of None \<Rightarrow> None
      | Some cbs \<Rightarrow> (let kept = filter (\<lambda>l. l \<noteq> who) cbs in if kept = [] then None else Some kept))"
proof -
  have fold: "distinct ks \<Longrightarrow> RBT.lookup (foldl (\<lambda>t name. snd (remove_callback (Some who) name t)) u ks) name =
      (if name \<in> set ks then RBT.lookup (snd (remove_callback (Some who) name u)) name else RBT.lookup u name)" for u ks
  proof (induction ks arbitrary: u)
    case (Cons k ks)
    then show ?case by (auto simp: remove_callback_lookup)
  qed simp
  have "name \<notin> set (RBT.keys t) \<Longrightarrow> RBT.lookup t name = None"
    using RBT.lookup_keys [of t] by (metis domIff)
  then show ?thesis
    unfolding erase_callbacks_def fold [OF RBT.distinct_keys]
    by (auto simp: remove_callback_lookup Let_def split: option.splits)
qed

lemma erase_client_callbacks_eq: "erase_client_callbacks who t = erase_callbacks who t"
proof -
  have "removeClientCallback who name u = snd (remove_callback (Some who) name u)" for name u
    by (simp add: removeClientCallback_def remove_callback_def Let_def split: option.split)
  then show ?thesis by (simp add: erase_client_callbacks_def erase_callbacks_def)
qed

section \<open>Client notifications\<close>

text \<open>What the callbacks of a service are told, from the guarantee, the record and the count.\<close>

definition client_notes :: "bool \<Rightarrow> bool \<Rightarrow> bool \<Rightarrow> bool \<Rightarrow> bool list" where
  "client_notes guarantee has clients interval =
     (let first = guarantee \<and> \<not> has \<and> \<not> clients; now = has \<or> first in
      (if first then [True] else []) @
      (if interval \<and> clients \<noteq> now then [clients] else []))"

definition told :: "bool \<Rightarrow> bool list \<Rightarrow> bool" where
  "told has notes = (if notes = [] then has else last notes)"


definition note_calls :: "ibinder option \<Rightarrow> ibinder list \<Rightarrow> bool list \<Rightarrow> sm_call list" where
  "note_calls b cbs notes = concat (map (\<lambda>v. map (\<lambda>cb. OnClients cb b v) cbs) notes)"

definition updated :: "string \<Rightarrow> service \<Rightarrow> sm_call list \<Rightarrow> service_manager \<Rightarrow> service_manager \<Rightarrow> bool" where
  "updated name s cs m m' \<longleftrightarrow>
     RBT.lookup (mNameToService m') = (RBT.lookup (mNameToService m))(name \<mapsto> s) \<and>
     mNameToRegistrationCallback m' = mNameToRegistrationCallback m \<and>
     mNameToClientCallback m' = mNameToClientCallback m \<and> sent m' = sent m @ cs"

lemma updated_refl: "RBT.lookup (mNameToService m) name = Some s \<Longrightarrow> updated name s [] m m"
  by (auto simp: updated_def)

lemma updated_trans: "updated name s as m m1 \<Longrightarrow> updated name t bs m1 m2 \<Longrightarrow> updated name t (as @ bs) m m2"
  by (auto simp: updated_def)

lemma updated_guarantee:
  "RBT.lookup (mNameToService m) name = Some s \<Longrightarrow> updated name (s\<lparr>guaranteeClient := g\<rparr>) [] m (set_guarantee name g m)"
  by (auto simp: updated_def)

lemma sendClientCallbackNotifications_ok:
  assumes "RBT.lookup (mNameToService m) name = Some s" and "RBT.lookup (mNameToClientCallback m) name = Some cbs"
    and "hasClients s \<noteq> v"
  shows "\<exists>m'. sendClientCallbackNotifications name v m = Inr m' \<and>
    updated name (s\<lparr>hasClients := v\<rparr>) (note_calls (svc_binder s) cbs [v]) m m'"
  using assms by (auto simp: sendClientCallbackNotifications_def updated_def note_calls_def)

text \<open>The two halves of handleServiceClientCallback.\<close>

lemma guarantee_half:
  assumes s: "RBT.lookup (mNameToService m) name = Some s" and c: "RBT.lookup (mNameToClientCallback m) name = Some cbs"
    and first_def: "first = (guaranteeClient s \<and> \<not> hasClients s \<and> \<not> clients)"
  shows "\<exists>m'. (if guaranteeClient s
      then bind_run (if \<not> hasClients s \<and> \<not> clients then sendClientCallbackNotifications name True m else Inr m)
             (\<lambda>m. Inr (set_guarantee name False m))
      else Inr m) = Inr m' \<and>
    updated name (s\<lparr>hasClients := hasClients s \<or> first, guaranteeClient := False\<rparr>)
      (note_calls (svc_binder s) cbs (if first then [True] else [])) m m'"
proof (cases "guaranteeClient s")
  case False
  then have same: "s\<lparr>hasClients := hasClients s \<or> first, guaranteeClient := False\<rparr> = s" by (simp add: first_def)
  have "updated name (s\<lparr>hasClients := hasClients s \<or> first, guaranteeClient := False\<rparr>) [] m m"
    unfolding same by (rule updated_refl [OF s])
  with False show ?thesis by (simp add: first_def note_calls_def)
next
  case g: True
  show ?thesis
  proof (cases "\<not> hasClients s \<and> \<not> clients")
    case True
    then obtain m1 where m1: "sendClientCallbackNotifications name True m = Inr m1"
      "updated name (s\<lparr>hasClients := True\<rparr>) (note_calls (svc_binder s) cbs [True]) m m1"
      using sendClientCallbackNotifications_ok [OF s c, of True] by auto
    then have "RBT.lookup (mNameToService m1) name = Some (s\<lparr>hasClients := True\<rparr>)" by (simp add: updated_def)
    from updated_trans [OF m1(2) updated_guarantee [OF this, of False]] m1(1) g True show ?thesis
      by (simp add: first_def)
  next
    case False
    have "s\<lparr>hasClients := hasClients s \<or> first, guaranteeClient := False\<rparr> = s\<lparr>guaranteeClient := False\<rparr>"
      using False by (auto simp: first_def)
    with False g updated_guarantee [OF s, of False] show ?thesis by (auto simp: first_def note_calls_def)
  qed
qed

lemma interval_half:
  assumes s: "RBT.lookup (mNameToService m) name = Some s" and c: "RBT.lookup (mNameToClientCallback m) name = Some cbs"
  shows "\<exists>m'. bind_run (if clients \<and> \<not> recorded name m then sendClientCallbackNotifications name True m else Inr m)
      (\<lambda>m. if \<not> clients \<and> recorded name m then sendClientCallbackNotifications name False m else Inr m) = Inr m' \<and>
    updated name (s\<lparr>hasClients := clients\<rparr>)
      (note_calls (svc_binder s) cbs (if clients \<noteq> hasClients s then [clients] else [])) m m'"
proof (cases "clients = hasClients s")
  case True
  with s updated_refl [OF s] show ?thesis by (auto simp: recorded_def note_calls_def)
next
  case False
  then obtain m' where "sendClientCallbackNotifications name clients m = Inr m'"
    "updated name (s\<lparr>hasClients := clients\<rparr>) (note_calls (svc_binder s) cbs [clients]) m m'"
    using sendClientCallbackNotifications_ok [OF s c, of clients] by auto
  with False s show ?thesis by (cases clients) (auto simp: recorded_def)
qed

lemma handleServiceClientCallback_ok:
  assumes s: "RBT.lookup (mNameToService m) name = Some s" and c: "RBT.lookup (mNameToClientCallback m) name = Some cbs"
    and b: "svc_binder s = Some b" and n: "is_remote E b" "strong_refs E b \<noteq> - 1"
    and ns: "ns = client_notes (guaranteeClient s) (hasClients s) (strong_refs E b > 1) interval"
  shows "\<exists>m'. handleServiceClientCallback E name interval m = Inr (strong_refs E b, m') \<and>
    updated name (s\<lparr>hasClients := told (hasClients s) ns, guaranteeClient := False\<rparr>)
      (note_calls (svc_binder s) cbs ns) m m'"
proof -
  let ?c = "strong_refs E b > 1"
  let ?f = "guaranteeClient s \<and> \<not> hasClients s \<and> \<not> ?c"
  let ?s1 = "s\<lparr>hasClients := hasClients s \<or> ?f, guaranteeClient := False\<rparr>"
  obtain m1 where m1: "(if guaranteeClient s
      then bind_run (if \<not> hasClients s \<and> \<not> ?c then sendClientCallbackNotifications name True m else Inr m)
             (\<lambda>m. Inr (set_guarantee name False m))
      else Inr m) = Inr m1" "updated name ?s1 (note_calls (svc_binder s) cbs (if ?f then [True] else [])) m m1"
    using guarantee_half [OF s c refl, of ?c] by blast
  then have l1: "RBT.lookup (mNameToService m1) name = Some ?s1" "RBT.lookup (mNameToClientCallback m1) name = Some cbs"
    using c by (simp_all add: updated_def)
  obtain m2 where m2: "bind_run (if ?c \<and> \<not> recorded name m1 then sendClientCallbackNotifications name True m1 else Inr m1)
      (\<lambda>m. if \<not> ?c \<and> recorded name m then sendClientCallbackNotifications name False m else Inr m) = Inr m2"
    "updated name (?s1\<lparr>hasClients := ?c\<rparr>)
      (note_calls (svc_binder s) cbs (if ?c \<noteq> (hasClients s \<or> ?f) then [?c] else [])) m1 m2"
    using interval_half [OF l1, of ?c] by auto
  have run: "handleServiceClientCallback E name interval m = Inr (strong_refs E b, if interval then m2 else m1)"
    using s c b n m1(1) m2(1) by (simp add: handleServiceClientCallback_def getNodeStrongRefCount_def Let_def)
  show ?thesis
  proof (cases interval)
    case False
    have "told (hasClients s) ns = (hasClients s \<or> ?f)" "ns = (if ?f then [True] else [])"
      using False by (auto simp: ns client_notes_def told_def Let_def)
    with False run m1(2) show ?thesis by simp
  next
    case True
    have nsf: "told (hasClients s) ns = ?c"
        "ns = (if ?f then [True] else []) @ (if ?c \<noteq> (hasClients s \<or> ?f) then [?c] else [])"
      using True by (auto simp: ns client_notes_def told_def Let_def)
    have s2: "?s1\<lparr>hasClients := ?c\<rparr> = s\<lparr>hasClients := told (hasClients s) ns, guaranteeClient := False\<rparr>"
      by (simp add: nsf(1))
    have calls: "note_calls (svc_binder s) cbs ns = note_calls (svc_binder s) cbs (if ?f then [True] else []) @
        note_calls (svc_binder s) cbs (if ?c \<noteq> (hasClients s \<or> ?f) then [?c] else [])"
      unfolding nsf(2) by (simp add: note_calls_def)
    from updated_trans [OF m1(2) m2(2)] run True show ?thesis unfolding s2 calls by auto
  qed
qed

section \<open>The invariant\<close>

definition services_ok :: "(string, service) rbt \<Rightarrow> bool" where
  "services_ok t \<longleftrightarrow> (\<forall>name s. RBT.lookup t name = Some s \<longrightarrow> svc_binder s \<noteq> None \<and> isValidServiceName name)"

definition callbacks_ok :: "(string, ibinder list) rbt \<Rightarrow> bool" where
  "callbacks_ok t \<longleftrightarrow> (\<forall>name cbs. RBT.lookup t name = Some cbs \<longrightarrow> cbs \<noteq> [])"

definition sm_inv :: "service_manager \<Rightarrow> bool" where
  "sm_inv m \<longleftrightarrow> services_ok (mNameToService m) \<and> callbacks_ok (mNameToRegistrationCallback m) \<and>
     callbacks_ok (mNameToClientCallback m)"

text \<open>The part of an entry only registration and removal change.\<close>

definition identity :: "service \<Rightarrow> ibinder option \<times> bool \<times> u32 \<times> int" where
  "identity s = (svc_binder s, allowIsolated s, dumpPriority s, debugPid s)"

definition registered :: "service_manager \<Rightarrow> string \<Rightarrow> (ibinder option \<times> bool \<times> u32 \<times> int) option" where
  "registered m name = map_option identity (RBT.lookup (mNameToService m) name)"

lemma identity_simps [simp]:
  "identity (s\<lparr>guaranteeClient := g\<rparr>) = identity s" "identity (s\<lparr>hasClients := h\<rparr>) = identity s"
  by (simp_all add: identity_def)

lemma services_ok_registered:
  assumes "registered m' = registered m" and "services_ok (mNameToService m)"
  shows "services_ok (mNameToService m')"
  unfolding services_ok_def
proof (intro allI impI)
  fix name s' assume s': "RBT.lookup (mNameToService m') name = Some s'"
  then have "registered m name = Some (identity s')" using assms(1) by (metis option.simps(9) registered_def)
  then obtain s where "RBT.lookup (mNameToService m) name = Some s" "identity s = identity s'"
    by (auto simp: registered_def)
  with assms(2) show "svc_binder s' \<noteq> None \<and> isValidServiceName name"
    unfolding services_ok_def identity_def by (metis prod.inject)
qed

lemma registered_guarantee [simp]: "registered (set_guarantee name g m) = registered m"
  by (auto simp: registered_def fun_eq_iff option.map_comp o_def)

lemma registered_send [simp]: "registered (send cs m) = registered m"
  by (simp add: registered_def fun_eq_iff)

lemma registered_updated:
  assumes "updated name s' cs m m'" and "RBT.lookup (mNameToService m) name = Some s" and "identity s' = identity s"
  shows "registered m' = registered m"
  using assms by (auto simp: registered_def updated_def fun_eq_iff)

lemma notify_registration_simps [simp]:
  "registered (notify_registration name b cbs m) = registered m"
  "mNameToRegistrationCallback (notify_registration name b cbs m) = mNameToRegistrationCallback m"
  "mNameToClientCallback (notify_registration name b cbs m) = mNameToClientCallback m"
  "sent (notify_registration name b cbs m) = sent m @ map (\<lambda>cb. OnRegistration cb name b) cbs"
  by (induction cbs arbitrary: m) simp_all

lemma callbacks_ok_push: "callbacks_ok t \<Longrightarrow> callbacks_ok (push_callback name cb t)"
  by (auto simp: callbacks_ok_def push_callback_def)

lemma callbacks_ok_remove: "callbacks_ok t \<Longrightarrow> callbacks_ok (snd (remove_callback who name t))"
  by (auto simp: callbacks_ok_def remove_callback_lookup Let_def split: option.splits if_splits)

lemma callbacks_ok_erase: "callbacks_ok (erase_callbacks who t)"
  by (auto simp: callbacks_ok_def erase_callbacks_lookup Let_def split: option.splits if_splits)

lemma tryGetService_frame:
  "registered (snd (tryGetService E ctx name start m)) = registered m"
  "mNameToRegistrationCallback (snd (tryGetService E ctx name start m)) = mNameToRegistrationCallback m"
  "mNameToClientCallback (snd (tryGetService E ctx name start m)) = mNameToClientCallback m"
  by (simp_all add: tryGetService_def tryStartService_def Let_def)

lemma handleServiceClientCallback_safe:
  assumes inv: "sm_inv m"
  shows "\<exists>n m'. handleServiceClientCallback E name interval m = Inr (n, m') \<and> registered m' = registered m \<and>
    mNameToRegistrationCallback m' = mNameToRegistrationCallback m \<and> mNameToClientCallback m' = mNameToClientCallback m"
proof (cases "RBT.lookup (mNameToService m) name")
  case None
  then show ?thesis by (simp add: handleServiceClientCallback_def)
next
  case (Some s)
  then obtain b where b: "svc_binder s = Some b" using inv by (auto simp: sm_inv_def services_ok_def)
  show ?thesis
  proof (cases "RBT.lookup (mNameToClientCallback m) name = None \<or> \<not> is_remote E b \<or> strong_refs E b = - 1")
    case True
    with Some b show ?thesis by (auto simp: handleServiceClientCallback_def getNodeStrongRefCount_def)
  next
    case False
    then obtain cbs where "RBT.lookup (mNameToClientCallback m) name = Some cbs" by auto
    from handleServiceClientCallback_ok [OF Some this b _ _ refl, of E interval] False obtain m' s' cs where
      "handleServiceClientCallback E name interval m = Inr (strong_refs E b, m')" "updated name s' cs m m'"
      "identity s' = identity s" by auto
    with registered_updated [OF _ Some] show ?thesis by (auto simp: updated_def)
  qed
qed

lemma sm_inv_registered:
  "sm_inv m \<Longrightarrow> registered m' = registered m \<Longrightarrow> mNameToRegistrationCallback m' = mNameToRegistrationCallback m \<Longrightarrow>
   mNameToClientCallback m' = mNameToClientCallback m \<Longrightarrow> sm_inv m'"
  using services_ok_registered by (auto simp: sm_inv_def)

lemma handle_names_safe:
  "sm_inv m \<Longrightarrow> \<exists>m'. handle_names E names m = Inr m' \<and> sm_inv m' \<and> registered m' = registered m"
proof (induction names arbitrary: m)
  case (Cons name names)
  obtain n m1 where m1: "handleServiceClientCallback E name True m = Inr (n, m1)" "registered m1 = registered m" "sm_inv m1"
    using handleServiceClientCallback_safe [OF Cons.prems, of E name True] sm_inv_registered [OF Cons.prems] by blast
  with Cons.IH [OF m1(3)] show ?case by auto
qed simp

section \<open>One request\<close>

text \<open>The requests that can end or replace the registration of b under a name.\<close>

fun touches :: "string \<Rightarrow> ibinder \<Rightarrow> sm_request \<Rightarrow> bool" where
  "touches name b (AddService n _ _ _) = (n = name)"
| "touches name b (TryUnregisterService n _) = (n = name)"
| "touches name b (BinderDied who) = (who = b)"
| "touches name b _ = False"

text \<open>A good outcome of a request: the invariant, and the registrations the request does not touch.\<close>

definition good_outcome :: "sm_request \<Rightarrow> service_manager \<Rightarrow> service_manager \<Rightarrow> bool" where
  "good_outcome r m m' \<longleftrightarrow> sm_inv m' \<and>
     (\<forall>name b x. registered m name = Some (Some b, x) \<longrightarrow> \<not> touches name b r \<longrightarrow> registered m' name = Some (Some b, x))"

lemma good_outcome_registered: "sm_inv m' \<Longrightarrow> registered m' = registered m \<Longrightarrow> good_outcome r m m'"
  by (simp add: good_outcome_def)

lemma tryGetService_good: "sm_inv m \<Longrightarrow> good_outcome r m (snd (tryGetService E ctx name start m))"
  by (rule good_outcome_registered [OF sm_inv_registered]) (simp_all add: tryGetService_frame)

lemma registered_insert [simp]:
  "registered (m\<lparr>mNameToService := RBT.insert name s (mNameToService m)\<rparr>) = (registered m)(name \<mapsto> identity s)"
  by (auto simp: registered_def fun_eq_iff)

lemma because_fails [simp]: "ex \<noteq> EX_NONE \<Longrightarrow> \<not> isOk (because ex msg)"
  by (simp add: because_def isOk_def fromExceptionCode_def)

lemma addService_outcome:
  "addService E ctx name b isolated prio m = (st, m') \<Longrightarrow>
     m' = m \<and> \<not> isOk st \<or> st = Status_ok \<and> b \<noteq> None \<and> isValidServiceName name \<and>
       app_id E (ctx_uid ctx) < AID_APP E \<and> canAdd E ctx name \<and>
       registered m' = (registered m)(name \<mapsto> (b, isolated, prio, debug_pid ctx)) \<and>
       mNameToRegistrationCallback m' = mNameToRegistrationCallback m \<and>
       mNameToClientCallback m' = mNameToClientCallback m"
  unfolding addService_def Let_def
  by (auto simp: identity_def split: if_splits option.splits)

lemma services_ok_add:
  assumes "registered m' = (registered m)(name \<mapsto> (Some b, x))" and "services_ok (mNameToService m)"
    and "isValidServiceName name"
  shows "services_ok (mNameToService m')"
  unfolding services_ok_def
proof (intro allI impI)
  fix n s assume "RBT.lookup (mNameToService m') n = Some s"
  then have s: "registered m' n = Some (identity s)" by (simp add: registered_def)
  show "svc_binder s \<noteq> None \<and> isValidServiceName n"
  proof (cases "n = name")
    case True
    with s assms(1) have "svc_binder s = Some b" by (simp add: identity_def)
    with True assms(3) show ?thesis by simp
  next
    case False
    with s assms(1) obtain s' where "RBT.lookup (mNameToService m) n = Some s'" "identity s' = identity s"
      by (auto simp: registered_def)
    with assms(2) show ?thesis unfolding services_ok_def identity_def by (metis prod.inject)
  qed
qed

lemma addService_good:
  assumes "sm_inv m"
  shows "good_outcome (AddService name b isolated prio) m (snd (addService E ctx name b isolated prio m))"
proof (cases "addService E ctx name b isolated prio m")
  case (Pair st m')
  from addService_outcome [OF this] show ?thesis
  proof (elim disjE conjE)
    assume ok: "b \<noteq> None" "isValidServiceName name" "registered m' = (registered m)(name \<mapsto> (b, isolated, prio, debug_pid ctx))"
      "mNameToRegistrationCallback m' = mNameToRegistrationCallback m" "mNameToClientCallback m' = mNameToClientCallback m"
    then have "sm_inv m'" using assms services_ok_add [of m' m name] by (auto simp: sm_inv_def)
    with ok Pair show ?thesis by (simp add: good_outcome_def)
  qed (use assms Pair in \<open>simp add: good_outcome_def\<close>)
qed

lemma registerForNotifications_good:
  assumes "sm_inv m"
  shows "\<exists>st m'. registerForNotifications E ctx name cb m = Inr (st, m') \<and>
    good_outcome r m m'"
proof -
  have "RBT.lookup (mNameToService m) name = Some s \<Longrightarrow> svc_binder s \<noteq> None" for s
    using assms by (simp add: sm_inv_def services_ok_def)
  with assms callbacks_ok_push show ?thesis
    by (auto simp: registerForNotifications_def Let_def good_outcome_def registered_def sm_inv_def split: option.splits)
qed

lemma unregisterForNotifications_good:
  "sm_inv m \<Longrightarrow> good_outcome r m (snd (unregisterForNotifications E ctx name cb m))"
  using callbacks_ok_remove [of "mNameToRegistrationCallback m" cb name]
  by (auto simp: unregisterForNotifications_def good_outcome_def registered_def sm_inv_def split: prod.splits)

lemma registerClientCallback_good:
  "sm_inv m \<Longrightarrow> good_outcome r m (snd (registerClientCallback E ctx name svc cb m))"
  using callbacks_ok_push
  by (auto simp: registerClientCallback_def good_outcome_def registered_def sm_inv_def split: option.splits)

lemma binderDied_good: "sm_inv m \<Longrightarrow> good_outcome (BinderDied who) m (binderDied who m)"
  by (auto simp: binderDied_def erase_client_callbacks_eq good_outcome_def registered_def sm_inv_def services_ok_def callbacks_ok_erase
      erase_services_lookup identity_def split: option.splits if_splits)

lemma unregistered_good:
  assumes "sm_inv m" and "registered m' = registered m0" and "sm_inv m'" and "m0 = m"
  shows "good_outcome (TryUnregisterService name b) m (m'\<lparr>mNameToService := RBT.delete name (mNameToService m')\<rparr>)"
  using assms by (auto simp: good_outcome_def sm_inv_def services_ok_def registered_def fun_eq_iff)

lemma tryUnregisterService_good:
  assumes "sm_inv m"
  shows "\<exists>st m'. tryUnregisterService E ctx name b m = Inr (st, m') \<and> good_outcome (TryUnregisterService name b) m m'"
proof -
  obtain n m1 where m1: "handleServiceClientCallback E name False m = Inr (n, m1)" "registered m1 = registered m" "sm_inv m1"
    using handleServiceClientCallback_safe [OF assms, of E name False] sm_inv_registered [OF assms] by blast
  have "sm_inv (set_guarantee name True m1)" by (rule sm_inv_registered [OF m1(3)]) simp_all
  then have "good_outcome (TryUnregisterService name b) m (set_guarantee name True m1)"
    using m1(2) by (auto intro: good_outcome_registered)
  with m1 assms unregistered_good [OF assms m1(2,3)] good_outcome_registered [OF assms] show ?thesis
    by (auto simp: tryUnregisterService_def split: option.splits)
qed

lemma serve_good:
  assumes "sm_inv m"
  shows "\<exists>m'. serve E ctx r m = Inr m' \<and> good_outcome r m m'"
proof (cases r)
  case (RegisterForNotifications name cb)
  with registerForNotifications_good [OF assms, of E ctx name cb r] show ?thesis by auto
next
  case (TryUnregisterService name b)
  with tryUnregisterService_good [OF assms, of E ctx name b] show ?thesis by auto
next
  case HandleClientCallbacks
  with handle_names_safe [OF assms, of E "RBT.keys (mNameToService m)"] show ?thesis
    by (auto simp: handleClientCallbacks_def intro: good_outcome_registered)
qed (simp_all add: assms getService_def checkService_def tryGetService_good addService_good
    unregisterForNotifications_good registerClientCallback_good binderDied_good)

lemma list_all_entries:
  "list_all (\<lambda>(name, x). P x) (RBT.entries t) \<longleftrightarrow> (\<forall>name x. RBT.lookup t name = Some x \<longrightarrow> P x)"
  for t :: "(string, 'a) rbt"
  by (auto simp: list_all_iff RBT.lookup_in_tree)

lemma sm_inv_init: "sm_inv ServiceManager"
  by (simp add: sm_inv_def ServiceManager_def services_ok_def callbacks_ok_def)

lemma reach_sm_inv:
  assumes "sm.reach m"
  shows "sm_inv m"
proof (rule sm.invariant_rule [where I = sm_inv])
  fix s e t assume "sm_inv s" "sm_step s e t"
  then show "sm_inv t" using serve_good [of s] by (elim sm_stepE) (auto simp: good_outcome_def, metis sum.inject(2))
qed (use assms sm_inv_init in simp_all)

section \<open>Runs of requests\<close>

fun serve_all :: "(sm_env \<times> calling_context \<times> sm_request) list \<Rightarrow> service_manager \<Rightarrow> crash + service_manager" where
  "serve_all [] m = Inr m"
| "serve_all ((E, ctx, r) # es) m = bind_run (serve E ctx r m) (serve_all es)"

lemma serve_all_good:
  "sm_inv m \<Longrightarrow> \<exists>m'. serve_all es m = Inr m' \<and> sm_inv m' \<and>
     (registered m name = Some (Some b, x) \<longrightarrow> list_all (\<lambda>(E, ctx, r). \<not> touches name b r) es \<longrightarrow>
      registered m' name = Some (Some b, x))"
proof (induction es arbitrary: m)
  case (Cons e es)
  obtain E ctx r where e: "e = (E, ctx, r)" by (cases e)
  obtain m1 where m1: "serve E ctx r m = Inr m1" "good_outcome r m m1" using serve_good [OF Cons.prems] by blast
  then have "sm_inv m1" by (simp add: good_outcome_def)
  moreover have "registered m name = Some (Some b, x) \<Longrightarrow> \<not> touches name b r \<Longrightarrow> registered m1 name = Some (Some b, x)"
    using m1(2) unfolding good_outcome_def by blast
  ultimately show ?case using Cons.IH [of m1] m1(1) e by auto
qed simp

lemma tryGetService_registered:
  "registered m name = Some (Some b, isolated, x) \<Longrightarrow> canFind E ctx name \<Longrightarrow>
   isolated \<or> \<not> isIsolated E (ctx_uid ctx) \<Longrightarrow> fst (tryGetService E ctx name start m) = Some b"
  by (auto simp: registered_def identity_def tryGetService_def Let_def)

text \<open>A surrounding that allows everything, with user ids split as in cutils, and its callers.\<close>

definition open_env :: sm_env where
  "open_env = \<lparr>selabel_lookup = (\<lambda>_. Some ''u''), selinux_check_access = (\<lambda>_ _ _. True), this_context = ''u'',
     app_id = (\<lambda>uid. uid mod 100000), AID_APP = 10000, AID_ISOLATED_START = 90000, AID_ISOLATED_END = 99999,
     manifests = [], vendor_build = False, stability = (\<lambda>_. \<lparr>is_local = False, mStability = 3\<rparr>),
     is_remote = (\<lambda>_. True), linkToDeath = (\<lambda>_. OK), strong_refs = (\<lambda>_. 1)\<rparr>"

definition system_ctx :: calling_context where
  "system_ctx = \<lparr>debug_pid = 7, ctx_uid = 1000, ctx_sid = ''s''\<rparr>"

definition isolated_ctx :: calling_context where
  "isolated_ctx = \<lparr>debug_pid = 8, ctx_uid = 90001, ctx_sid = ''i''\<rparr>"

section \<open>The properties\<close>

text \<open>C16: The service manager answers every request. In every state it can reach, whatever the caller, the
  access policy and the driver answer, the request returns (no CHECK fires, no null binder is
  dereferenced) in a state that is reachable again, and the checks of the destructor hold.\<close>

theorem sm_always_answers:
  assumes "sm.reach m"
  shows "(\<exists>m'. serve E ctx r m = Inr m' \<and> sm.reach m') \<and> destructor_checks m"
proof
  have inv: "sm_inv m" by (rule reach_sm_inv [OF assms])
  then obtain m' where "serve E ctx r m = Inr m'" using serve_good by blast
  with sm.reach_step [OF assms serve_step] show "\<exists>m'. serve E ctx r m = Inr m' \<and> sm.reach m'" by blast
  show "destructor_checks m"
    using inv unfolding destructor_checks_def list_all_entries sm_inv_def services_ok_def callbacks_ok_def by blast
qed

theorem sm_always_answers_witness:
  "(\<exists>m'. serve open_env system_ctx HandleClientCallbacks ServiceManager = Inr m' \<and> sm.reach m') \<and>
   destructor_checks ServiceManager"
  by (rule sm_always_answers) (simp add: sm.reach_init)

text \<open>C33: A lookup hands out a binder exactly when one is registered under the name, the policy lets the
  caller find the name, and the service allows isolated callers or the caller is not isolated. Handing
  it out sets the client guarantee of that entry and nothing else; not finding anything to hand out
  changes no entry, and the service is started if nothing is registered and the caller asked for it.\<close>

theorem tryGetService_exact:
  assumes "sm.reach m" and "tryGetService E ctx name start m = (out, m')"
  shows "out = (case RBT.lookup (mNameToService m) name of None \<Rightarrow> None
      | Some s \<Rightarrow> if canFind E ctx name \<and> (allowIsolated s \<or> \<not> isIsolated E (ctx_uid ctx)) then svc_binder s else None) \<and>
    RBT.lookup (mNameToService m') = (if out = None then RBT.lookup (mNameToService m)
      else (RBT.lookup (mNameToService m))
        (name := map_option (\<lambda>s. s\<lparr>guaranteeClient := True\<rparr>) (RBT.lookup (mNameToService m) name))) \<and>
    sent m' = sent m @ (if RBT.lookup (mNameToService m) name = None \<and> start \<and> canFind E ctx name
      then [StartService name] else []) \<and>
    mNameToRegistrationCallback m' = mNameToRegistrationCallback m \<and>
    mNameToClientCallback m' = mNameToClientCallback m"
proof -
  have "svc_binder s \<noteq> None" if "RBT.lookup (mNameToService m) name = Some s" for s
    using reach_sm_inv [OF assms(1)] that by (simp add: sm_inv_def services_ok_def)
  with assms(2) show ?thesis
    by (auto simp: tryGetService_def tryStartService_def Let_def split: option.splits if_splits)
qed

lemma open_env_simps [simp]:
  "canFind open_env ctx name" "canAdd open_env ctx name" "is_remote open_env b" "linkToDeath open_env b = OK"
  "meetsDeclarationRequirements open_env b name" "strong_refs open_env b = 1"
  "isIsolated open_env (ctx_uid isolated_ctx)" "\<not> isIsolated open_env (ctx_uid system_ctx)"
  "app_id open_env (ctx_uid system_ctx) < AID_APP open_env" "debug_pid system_ctx = 7"
  by (simp_all add: open_env_def canFind_def canAdd_def actionAllowedFromLookup_def actionAllowed_def
      isIsolated_def system_ctx_def isolated_ctx_def meetsDeclarationRequirements_def requiresVintfDeclaration_def
      check_def getRepr_def isDeclaredLevel_def)

lemma valid_name_a: "isValidServiceName ''a''"
  by code_simp

definition one_service :: service_manager where
  "one_service = snd (addService open_env system_ctx ''a'' (Some 5) False 8 ServiceManager)"

lemma one_service_add: "addService open_env system_ctx ''a'' (Some 5) False 8 ServiceManager = (Status_ok, one_service)"
  using open_env_simps(9) by (simp add: one_service_def addService_def valid_name_a Let_def ServiceManager_def del: open_env_simps(9))

lemma one_service_reach: "sm.reach one_service"
  using sm.reach_step [OF sm.reach_init serve_step [of open_env system_ctx "AddService ''a'' (Some 5) False 8"]]
  by (simp add: one_service_def)

lemma one_service_lookup: "RBT.lookup (mNameToService one_service) ''a'' =
    Some \<lparr>svc_binder = Some 5, allowIsolated = False, dumpPriority = 8, hasClients = False, guaranteeClient = False, debugPid = 7\<rparr>"
  using open_env_simps(9) by (simp add: one_service_def addService_def valid_name_a Let_def ServiceManager_def del: open_env_simps(9))

theorem tryGetService_exact_witness:
  "fst (tryGetService open_env isolated_ctx ''a'' True one_service) = None \<and>
   fst (tryGetService open_env system_ctx ''a'' True one_service) = Some 5"
proof -
  have "fst (tryGetService open_env c ''a'' True one_service) =
      (if allowIsolated (the (RBT.lookup (mNameToService one_service) ''a'')) \<or> \<not> isIsolated open_env (ctx_uid c) then Some 5 else None)" for c
    using tryGetService_exact [OF one_service_reach, of open_env c "''a''" True]
    by (cases "tryGetService open_env c ''a'' True one_service") (simp add: one_service_lookup)
  then show ?thesis by (simp add: one_service_lookup)
qed

text \<open>addService succeeds exactly for a caller that is not an app, may add the name, gives a binder and a
  valid name, meets the VINTF declaration and whose death can be watched. On success the entry is
  what the caller gave, no other entry changes, and every listener of the name is told once, in
  order, about the new binder; on failure nothing changes.\<close>

lemma addService_exact:
  assumes "addService E ctx name b isolated prio m = (st, m')"
  shows "(isOk st \<longleftrightarrow> app_id E (ctx_uid ctx) < AID_APP E \<and> canAdd E ctx name \<and> isValidServiceName name \<and>
      (case b of None \<Rightarrow> False | Some i \<Rightarrow> (vendor_build E \<or> meetsDeclarationRequirements E i name) \<and>
        (is_remote E i \<longrightarrow> linkToDeath E i = OK))) \<and>
    (if isOk st then registered m' = (registered m)(name \<mapsto> (b, isolated, prio, debug_pid ctx)) \<and>
       sent m' = sent m @ map (\<lambda>cb. OnRegistration cb name b)
         (case RBT.lookup (mNameToRegistrationCallback m) name of None \<Rightarrow> [] | Some cbs \<Rightarrow> cbs) \<and>
       mNameToRegistrationCallback m' = mNameToRegistrationCallback m \<and>
       mNameToClientCallback m' = mNameToClientCallback m
     else m' = m)"
proof -
  have ok: "isOk Status_ok" by (simp add: isOk_def Status_ok_def)
  from assms show ?thesis
    unfolding addService_def Let_def
    by (auto simp: identity_def ok split: if_splits option.splits)
qed


text \<open>C19: A registration lasts. After a successful addService, any sequence of requests in which nobody
  adds or unregisters the same name and the binder does not die is answered, and afterwards every
  caller that may find the name (and is not an isolated process that was excluded) gets this binder.\<close>

theorem registration_lasts:
  assumes "sm.reach m" and "addService E ctx name (Some b) isolated prio m = (st, m1)" and "isOk st"
    and "list_all (\<lambda>(E, ctx, r). \<not> touches name b r) es"
    and "canFind E' ctx' name" and "isolated \<or> \<not> isIsolated E' (ctx_uid ctx')"
  shows "\<exists>m2. serve_all es m1 = Inr m2 \<and> fst (checkService E' ctx' name m2) = Some b"
proof -
  have "sm_inv m1"
    using addService_good [OF reach_sm_inv [OF assms(1)], of name "Some b" isolated prio E ctx] assms(2)
    by (simp add: good_outcome_def)
  moreover have "registered m1 name = Some (Some b, isolated, prio, debug_pid ctx)"
    using addService_outcome [OF assms(2)] assms(3) by auto
  ultimately obtain m2 where "serve_all es m1 = Inr m2" "registered m2 name = Some (Some b, isolated, prio, debug_pid ctx)"
    using serve_all_good [of m1 es name b] assms(4) by blast
  with assms(5,6) tryGetService_registered show ?thesis unfolding checkService_def by blast
qed

theorem registration_lasts_witness:
  "\<exists>m2. serve_all [(open_env, system_ctx, BinderDied 6), (open_env, system_ctx, HandleClientCallbacks)] one_service = Inr m2 \<and>
     fst (checkService open_env system_ctx ''a'' m2) = Some 5"
  by (rule registration_lasts [OF sm.reach_init one_service_add]) (simp_all add: isOk_def Status_ok_def)

text \<open>The death of a binder removes every entry registered with it and every listener that is it,
  drops a list of listeners that becomes empty, and keeps everything else in its order.\<close>

lemma binderDied_exact:
  "RBT.lookup (mNameToService (binderDied who m)) name =
     (case RBT.lookup (mNameToService m) name of None \<Rightarrow> None
      | Some s \<Rightarrow> if svc_binder s = Some who then None else Some s) \<and>
   RBT.lookup (mNameToRegistrationCallback (binderDied who m)) name =
     (case RBT.lookup (mNameToRegistrationCallback m) name of None \<Rightarrow> None
      | Some cbs \<Rightarrow> let kept = filter (\<lambda>l. l \<noteq> who) cbs in if kept = [] then None else Some kept) \<and>
   RBT.lookup (mNameToClientCallback (binderDied who m)) name =
     (case RBT.lookup (mNameToClientCallback m) name of None \<Rightarrow> None
      | Some cbs \<Rightarrow> let kept = filter (\<lambda>l. l \<noteq> who) cbs in if kept = [] then None else Some kept) \<and>
   sent (binderDied who m) = sent m"
  by (simp add: binderDied_def erase_client_callbacks_eq erase_services_lookup erase_callbacks_lookup)




end
