(* ===== verification/Rpc_State.thy ===== *)
theory Rpc_State
  imports Stability "HOL-Library.RBT"
begin

text \<open>
  The table of binders an RPC session shares with its peer (src/libs/binder/RpcState.cpp,
  RpcState.h, RpcWireFormat.h): addresses, reference counts, the commands that move counts over the
  wire, and the end of a session.

  Binder objects are numbered; \<open>rpc_objs\<close> says what each is and its stability. A weak pointer
  promotes when the object still has a strong reference, which only the rest of the process knows:
  \<open>live\<close> of the record \<open>rpc_env\<close>, given to every operation that promotes. The same record says
  what the transport answers. A transport is what the interface RpcTransport promises: reads and
  writes are complete or fail, and fail once the session's trigger is set. Each operation runs under
  the mutex mNodeMutex and is one step; where the code unlocks in between, there are two operations.
\<close>

section \<open>Wire format\<close>

abbreviation OPTION_CREATED :: u32 where "OPTION_CREATED \<equiv> 1"
abbreviation OPTION_FOR_SERVER :: u32 where "OPTION_FOR_SERVER \<equiv> 2"

abbreviation RPC_COMMAND_TRANSACT :: u32 where "RPC_COMMAND_TRANSACT \<equiv> 0"
abbreviation RPC_COMMAND_REPLY :: u32 where "RPC_COMMAND_REPLY \<equiv> 1"
abbreviation RPC_COMMAND_DEC_STRONG :: u32 where "RPC_COMMAND_DEC_STRONG \<equiv> 2"

record RpcWireAddress =
  options :: u32
  address :: u32

definition toRaw :: "RpcWireAddress \<Rightarrow> u64" where
  "toRaw a = ucast (options a) OR push_bit 32 (ucast (address a))"

definition fromRaw :: "u64 \<Rightarrow> RpcWireAddress" where
  "fromRaw raw = \<lparr>options = ucast raw, address = ucast (drop_bit 32 raw)\<rparr>"

record RpcWireHeader =
  command :: u32
  bodySize :: u32

definition enc_header :: "RpcWireHeader \<Rightarrow> byte list" where
  "enc_header h = enc32 (command h) @ enc32 (bodySize h) @ enc32 0 @ enc32 0"

definition dec_header :: "byte list \<Rightarrow> RpcWireHeader" where
  "dec_header bs = \<lparr>command = dec32 (peek 0 4 bs), bodySize = dec32 (peek 4 4 bs)\<rparr>"

record RpcDecStrong =
  ds_address :: u64
  amount :: u32

definition enc_dec_strong :: "RpcDecStrong \<Rightarrow> byte list" where
  "enc_dec_strong d = enc64 (ds_address d) @ enc32 (amount d) @ enc32 0"

definition dec_dec_strong :: "byte list \<Rightarrow> RpcDecStrong" where
  "dec_dec_strong bs = \<lparr>ds_address = dec64 (peek 0 8 bs), amount = dec32 (peek 8 4 bs)\<rparr>"

section \<open>State\<close>

type_synonym rpc_binder = nat

datatype binder_kind = LocalBinder | RpcProxy nat u64 | KernelProxy

record binder_obj =
  bo_kind :: binder_kind
  bo_stability :: stable_binder
  bo_parceled :: bool

record async_todo =
  todo_ref :: rpc_binder
  todo_data :: "byte list"
  todo_number :: u64

record binder_node =
  bn_binder :: rpc_binder
  sentRef :: "rpc_binder option"
  timesSent :: nat
  timesRecd :: nat
  asyncNumber :: u64
  asyncTodo :: "async_todo list"

record rpc_state =
  mTerminated :: bool
  mNextId :: u32
  mNodeForAddress :: "(u64, binder_node) rbt"
  rpc_objs :: "rpc_binder \<Rightarrow> binder_obj"
  next_obj :: rpc_binder
  for_server :: bool
  session :: nat
  mId :: "byte list"
  mMaxIncomingThreads :: nat
  session_root :: "rpc_binder option"
  server_root :: "rpc_binder option"
  triggered :: bool
  wire_in :: "byte list"
  wire_out :: "byte list list"
  obituaries :: "rpc_binder list"
  executed :: "(u64 \<times> u64 \<times> byte list) list"

text \<open>\<open>executed\<close> records the calls of transact on local binders: address, number and data.\<close>

record rpc_env =
  live :: "rpc_binder \<Rightarrow> bool"
  send_status :: "byte list list \<Rightarrow> status_t"
  recv_fail :: status_t
  can_allocate :: "nat \<Rightarrow> bool"
  find_connection :: status_t
  write_polls :: nat

type_synonym 'a rpc_run = "crash + 'a \<times> rpc_state"

definition promote :: "rpc_env \<Rightarrow> rpc_binder \<Rightarrow> rpc_binder option" where
  "promote E b = (if live E b then Some b else None)"

abbreviation node_at :: "rpc_state \<Rightarrow> u64 \<Rightarrow> binder_node option" where
  "node_at s a \<equiv> RBT.lookup (mNodeForAddress s) a"

definition set_node :: "u64 \<Rightarrow> binder_node \<Rightarrow> rpc_state \<Rightarrow> rpc_state" where
  "set_node a n s = s\<lparr>mNodeForAddress := RBT.insert a n (mNodeForAddress s)\<rparr>"

definition isRpc :: "rpc_state \<Rightarrow> rpc_binder \<Rightarrow> bool" where
  "isRpc s b = (case bo_kind (rpc_objs s b) of RpcProxy _ _ \<Rightarrow> True | _ \<Rightarrow> False)"

definition isRemote :: "rpc_state \<Rightarrow> rpc_binder \<Rightarrow> bool" where
  "isRemote s b = (bo_kind (rpc_objs s b) \<noteq> LocalBinder)"

definition rpcSession :: "rpc_state \<Rightarrow> rpc_binder \<Rightarrow> nat option" where
  "rpcSession s b = (case bo_kind (rpc_objs s b) of RpcProxy x _ \<Rightarrow> Some x | _ \<Rightarrow> None)"

definition rpcAddress :: "rpc_state \<Rightarrow> rpc_binder \<Rightarrow> u64" where
  "rpcAddress s b = (case bo_kind (rpc_objs s b) of RpcProxy _ a \<Rightarrow> a | _ \<Rightarrow> 0)"

section \<open>The table of binders\<close>

definition find_binder :: "rpc_binder \<Rightarrow> (u64, binder_node) rbt \<Rightarrow> (u64 \<times> binder_node) option" where
  "find_binder b t = find (\<lambda>(a, n). bn_binder n = b) (RBT.entries t)"

definition new_address :: "bool \<Rightarrow> u32 \<Rightarrow> u64" where
  "new_address forServer i =
     toRaw \<lparr>options = (if forServer then OPTION_CREATED OR OPTION_FOR_SERVER else OPTION_CREATED), address = i\<rparr>"

text \<open>The loop that looks for an address which is not in use.\<close>

partial_function (option) assign_address :: "bool \<Rightarrow> (u64, binder_node) rbt \<Rightarrow> u32 \<Rightarrow> (u64 \<times> u32) option" where
  "assign_address forServer t nextId =
     (let a = new_address forServer nextId;
          nextId' = (if nextId \<ge> 4294967295 then 0 else nextId + 1) in
      if RBT.lookup t a = None then Some (a, nextId') else assign_address forServer t nextId')"

definition onBinderLeaving :: "rpc_binder \<Rightarrow> rpc_state \<Rightarrow> (status_t + u64) rpc_run" where
  "onBinderLeaving b s =
     (if isRpc s b \<and> rpcSession s b \<noteq> Some (session s) then Inr (Inl INVALID_OPERATION, s)
      else if isRemote s b \<and> \<not> isRpc s b then Inr (Inl INVALID_OPERATION, s)
      else if mTerminated s then Inr (Inl DEAD_OBJECT, s)
      else case find_binder b (mNodeForAddress s) of
        Some (a, n) \<Rightarrow>
          if isRpc s b \<and> a \<noteq> rpcAddress s b then Inl Abort
          else Inr (Inr a, set_node a (n\<lparr>timesSent := size_add (timesSent n) 1, sentRef := Some b\<rparr>) s)
      | None \<Rightarrow>
          if isRpc s b then Inl Abort
          else if length (RBT.entries (mNodeForAddress s)) > 100000 then Inr (Inl NO_MEMORY, s)
          else case assign_address (for_server s) (mNodeForAddress s) (mNextId s) of
            None \<Rightarrow> Inl Hang
          | Some (a, nextId) \<Rightarrow>
              Inr (Inr a, (set_node a \<lparr>bn_binder = b, sentRef = Some b, timesSent = 1, timesRecd = 0,
                 asyncNumber = 0, asyncTodo = []\<rparr> s)\<lparr>mNextId := nextId\<rparr>))"

text \<open>The condition under which an unknown address is refused, as the code computes it: the bit of the
  options, 0 or 2, is compared with the boolean whether the session has a server, 0 or 1.\<close>

definition refuses_creation :: "rpc_state \<Rightarrow> u64 \<Rightarrow> bool" where
  "refuses_creation s a \<longleftrightarrow>
     (options (fromRaw a) AND OPTION_FOR_SERVER) = (if for_server s then 1 else 0)"

definition create_proxy :: "u64 \<Rightarrow> rpc_state \<Rightarrow> rpc_binder \<times> rpc_state" where
  "create_proxy a s =
     (next_obj s, s\<lparr>next_obj := Suc (next_obj s),
        rpc_objs := (rpc_objs s)(next_obj s := \<lparr>bo_kind = RpcProxy (session s) a,
          bo_stability = \<lparr>is_local = False, mStability = 0\<rparr>, bo_parceled = False\<rparr>)\<rparr>)"

definition onBinderEntering :: "rpc_env \<Rightarrow> u64 \<Rightarrow> rpc_state \<Rightarrow> (status_t + rpc_binder option) \<times> rpc_state" where
  "onBinderEntering E a s =
     (if options (fromRaw a) AND NOT (OPTION_CREATED OR OPTION_FOR_SERVER) \<noteq> 0 then (Inl BAD_VALUE, s)
      else if mTerminated s then (Inl DEAD_OBJECT, s)
      else case node_at s a of
        Some n \<Rightarrow> (Inr (promote E (bn_binder n)), set_node a (n\<lparr>timesRecd := size_add (timesRecd n) 1\<rparr>) s)
      | None \<Rightarrow>
          if refuses_creation s a then (Inl BAD_VALUE, s)
          else case create_proxy a s of
            (b, s) \<Rightarrow> (Inr (Some b), set_node a \<lparr>bn_binder = b, sentRef = None, timesSent = 0, timesRecd = 1,
                        asyncNumber = 0, asyncTodo = []\<rparr> s))"

definition tryEraseNode :: "u64 \<Rightarrow> binder_node \<Rightarrow> rpc_state \<Rightarrow> (rpc_binder option) rpc_run" where
  "tryEraseNode a n s =
     (if timesSent n = 0
      then if timesRecd n = 0
           then if asyncTodo n \<noteq> [] then Inl Abort
                else Inr (sentRef n, s\<lparr>mNodeForAddress := RBT.delete a (mNodeForAddress s)\<rparr>)
           else Inr (sentRef n, set_node a (n\<lparr>sentRef := None\<rparr>) s)
      else Inr (None, set_node a n s))"

definition nodeProgressAsyncNumber :: "binder_node \<Rightarrow> binder_node option" where
  "nodeProgressAsyncNumber n =
     (if asyncNumber n \<ge> 18446744073709551615 then None else Some (n\<lparr>asyncNumber := asyncNumber n + 1\<rparr>))"

definition countBinders :: "rpc_state \<Rightarrow> nat" where
  "countBinders s = length (RBT.entries (mNodeForAddress s))"

section \<open>The end of a session\<close>

definition sendObituaries :: "rpc_env \<Rightarrow> rpc_state \<Rightarrow> rpc_state" where
  "sendObituaries E s =
     (let remoteBinders = filter (live E) (map (\<lambda>(_, n). bn_binder n) (RBT.entries (mNodeForAddress s))) in
      s\<lparr>obituaries := obituaries s @ filter (\<lambda>b. isRemote s b \<and> rpcSession s b = Some (session s)) remoteBinders\<rparr>)"

definition clear :: "rpc_env \<Rightarrow> rpc_state \<Rightarrow> crash + rpc_state" where
  "clear E s =
     (if mTerminated s then (if RBT.entries (mNodeForAddress s) \<noteq> [] then Inl Abort else Inr s)
      else if list_ex (\<lambda>(_, n). promote E (bn_binder n) = None) (RBT.entries (mNodeForAddress s)) then Inl Abort
      else Inr (s\<lparr>mTerminated := True, mNodeForAddress := RBT.empty\<rparr>))"

text \<open>shutdownAndWait(false) of RpcSession.cpp.\<close>

definition shutdownAndWait :: "rpc_env \<Rightarrow> rpc_state \<Rightarrow> crash + rpc_state" where
  "shutdownAndWait E s = clear E (sendObituaries E (s\<lparr>triggered := True\<rparr>))"

definition shutdown_with :: "rpc_env \<Rightarrow> 'a \<Rightarrow> rpc_state \<Rightarrow> 'a rpc_run" where
  "shutdown_with E st s = bind_run (shutdownAndWait E s) (\<lambda>s. Inr (st, s))"

section \<open>Sending and receiving\<close>

definition rpcSend :: "rpc_env \<Rightarrow> byte list \<Rightarrow> rpc_state \<Rightarrow> status_t rpc_run" where
  "rpcSend E bs s =
     (let status = (if triggered s then DEAD_OBJECT else send_status E (wire_out s)) in
      if status \<noteq> OK then shutdown_with E status s
      else Inr (OK, s\<lparr>wire_out := wire_out s @ [bs]\<rparr>))"

definition rpcRec :: "rpc_env \<Rightarrow> nat \<Rightarrow> rpc_state \<Rightarrow> (status_t + byte list) rpc_run" where
  "rpcRec E n s =
     (if triggered s then shutdown_with E (Inl DEAD_OBJECT) s
      else if length (wire_in s) < n then shutdown_with E (Inl (recv_fail E)) s
      else Inr (Inr (take n (wire_in s)), s\<lparr>wire_in := drop n (wire_in s)\<rparr>))"

text \<open>CommandData: whether a buffer for a body of this size can be had.\<close>

definition command_data_valid :: "rpc_env \<Rightarrow> nat \<Rightarrow> bool" where
  "command_data_valid E n \<longleftrightarrow> n = 0 \<or> n \<le> 100 * 1000 \<and> can_allocate E n"

definition readNewSessionResponse :: "rpc_env \<Rightarrow> rpc_state \<Rightarrow> (status_t + u32) rpc_run" where
  "readNewSessionResponse E s =
     bind_run (rpcRec E 8 s) (\<lambda>(r, s). Inr (map_sum id (\<lambda>bs. dec32 (peek 0 4 bs)) r, s))"

definition init_okay :: "byte list" where "init_okay = map of_char ''cci'' @ [0]"

definition sendConnectionInit :: "rpc_env \<Rightarrow> rpc_state \<Rightarrow> status_t rpc_run" where
  "sendConnectionInit E s = rpcSend E (init_okay @ replicate 4 0) s"

definition readConnectionInit :: "rpc_env \<Rightarrow> rpc_state \<Rightarrow> status_t rpc_run" where
  "readConnectionInit E s =
     bind_run (rpcRec E 8 s) (\<lambda>(r, s).
     case r of Inl st \<Rightarrow> Inr (st, s)
     | Inr bs \<Rightarrow> Inr (if peek 0 4 bs \<noteq> init_okay then BAD_VALUE else OK, s))"

section \<open>Reference counts over the wire\<close>

definition send_command :: "rpc_env \<Rightarrow> u32 \<Rightarrow> byte list \<Rightarrow> rpc_state \<Rightarrow> status_t rpc_run" where
  "send_command E c body s =
     rpcSend E (enc_header \<lparr>command = c, bodySize = of_nat (length body)\<rparr> @ body) s"

definition sendDecStrongToTarget :: "rpc_env \<Rightarrow> u64 \<Rightarrow> nat \<Rightarrow> rpc_state \<Rightarrow> status_t rpc_run" where
  "sendDecStrongToTarget E a target s =
     (if mTerminated s then Inr (DEAD_OBJECT, s)
      else case node_at s a of
        None \<Rightarrow> Inl Abort
      | Some n \<Rightarrow>
          if timesRecd n < target then Inl Abort
          else if timesRecd n = target then Inr (OK, s)
          else
            let body = \<lparr>ds_address = a, amount = of_nat (timesRecd n - target)\<rparr> in
            bind_run (tryEraseNode a (n\<lparr>timesRecd := target\<rparr>) s) (\<lambda>(ref, s).
            if ref \<noteq> None then Inl Abort
            else send_command E RPC_COMMAND_DEC_STRONG (enc_dec_strong body) s))"

text \<open>RpcSession::sendDecStrongToTarget first looks for a connection.\<close>

definition session_sendDecStrong :: "rpc_env \<Rightarrow> u64 \<Rightarrow> nat \<Rightarrow> rpc_state \<Rightarrow> status_t rpc_run" where
  "session_sendDecStrong E a target s =
     (if find_connection E \<noteq> OK then Inr (find_connection E, s) else sendDecStrongToTarget E a target s)"

text \<open>flushExcessBinderRefs: the part under the lock, which gives the status to return or \<open>None\<close> when
  references are to be released, and the release, which takes the lock again.\<close>

definition flush_needed :: "u64 \<Rightarrow> rpc_binder \<Rightarrow> rpc_state \<Rightarrow> crash + status_t option" where
  "flush_needed a b s =
     (if isRemote s b then Inr (Some OK)
      else if mTerminated s then Inr (Some DEAD_OBJECT)
      else case node_at s a of
        None \<Rightarrow> Inl Abort
      | Some n \<Rightarrow>
          if bn_binder n \<noteq> b then Inl Abort
          else if timesSent n \<le> 0 then Inl Abort
          else if timesRecd n \<noteq> 0 then Inr None
          else Inr (Some OK))"

definition flushExcessBinderRefs :: "rpc_env \<Rightarrow> u64 \<Rightarrow> rpc_binder option \<Rightarrow> rpc_state \<Rightarrow> status_t rpc_run" where
  "flushExcessBinderRefs E a obj s =
     (case obj of
        None \<Rightarrow> Inl Fault
      | Some b \<Rightarrow>
          bind_run (flush_needed a b s) (\<lambda>r.
          case r of Some st \<Rightarrow> Inr (st, s) | None \<Rightarrow> session_sendDecStrong E a 0 s))"

definition apply_dec_strong :: "rpc_env \<Rightarrow> RpcDecStrong \<Rightarrow> rpc_state \<Rightarrow> status_t rpc_run" where
  "apply_dec_strong E body s =
     (case node_at s (ds_address body) of
        None \<Rightarrow> Inr (OK, s)
      | Some n \<Rightarrow>
          if promote E (bn_binder n) = None then shutdown_with E BAD_VALUE s
          else if timesSent n < unat (amount body) then Inr (OK, s)
          else if sentRef n = None then Inl Abort
          else bind_run (tryEraseNode (ds_address body) (n\<lparr>timesSent := timesSent n - unat (amount body)\<rparr>) s)
            (\<lambda>(_, s). Inr (OK, s)))"

definition processDecStrong :: "rpc_env \<Rightarrow> RpcWireHeader \<Rightarrow> rpc_state \<Rightarrow> status_t rpc_run" where
  "processDecStrong E h s =
     (if command h \<noteq> RPC_COMMAND_DEC_STRONG then Inl Abort
      else if \<not> command_data_valid E (unat (bodySize h)) then Inr (NO_MEMORY, s)
      else bind_run (rpcRec E (unat (bodySize h)) s) (\<lambda>(r, s).
        case r of Inl st \<Rightarrow> Inr (st, s)
        | Inr bs \<Rightarrow>
            if bodySize h \<noteq> 16 then shutdown_with E BAD_VALUE s
            else apply_dec_strong E (dec_dec_strong bs) s))"

section \<open>Facts\<close>

subsection \<open>Wire format\<close>

lemma length_enc_header [simp]: "length (enc_header h) = 16"
  by (simp add: enc_header_def)

lemma dec_enc_header [simp]: "dec_header (enc_header h @ bs) = h"
  by (simp add: dec_header_def enc_header_def peek_def)

lemma length_enc_dec_strong [simp]: "length (enc_dec_strong d) = 16"
  by (simp add: enc_dec_strong_def)

lemma dec_enc_dec_strong [simp]: "dec_dec_strong (enc_dec_strong d) = d"
  by (simp add: dec_dec_strong_def enc_dec_strong_def peek_def)

lemma options_toRaw: "options (fromRaw (toRaw a)) = options a"
proof -
  have "ucast (toRaw a) = options a"
    by (rule bit_word_eqI) (auto simp: toRaw_def bit_simps)
  then show ?thesis by (simp add: fromRaw_def)
qed

lemma address_toRaw: "address (fromRaw (toRaw a)) = address a"
proof -
  have "ucast (drop_bit 32 (toRaw a)) = address a"
    by (rule bit_word_eqI) (auto simp: toRaw_def bit_simps dest: bit_imp_le_length)
  then show ?thesis by (simp add: fromRaw_def)
qed

lemma fromRaw_toRaw [simp]: "fromRaw (toRaw a) = a"
  using options_toRaw [of a] address_toRaw [of a] by simp

lemma toRaw_inject: "toRaw a = toRaw b \<longleftrightarrow> a = b"
  by (metis fromRaw_toRaw)

lemma new_address_inject: "new_address f i = new_address g j \<longleftrightarrow> f = g \<and> i = j"
  by (auto simp: new_address_def toRaw_inject)

subsection \<open>The search for an address\<close>

lemma next_id_wraps: "(if (i :: u32) \<ge> 4294967295 then 0 else i + 1) = i + 1"
proof -
  have "i = 4294967295" if "i \<ge> 4294967295"
    using that unsigned_less [of i, where 'a = nat] by (simp add: word_le_nat_alt word_unat_eq_iff)
  then show ?thesis by auto
qed

lemma assign_address_unfold:
  "assign_address f t i = (if RBT.lookup t (new_address f i) = None then Some (new_address f i, i + 1)
     else assign_address f t (i + 1))"
  by (subst assign_address.simps) (simp only: Let_def next_id_wraps)

lemma assign_address_at:
  "(\<And>j. j < k \<Longrightarrow> RBT.lookup t (new_address f (i + of_nat j)) \<noteq> None) \<Longrightarrow>
   RBT.lookup t (new_address f (i + of_nat k)) = None \<Longrightarrow>
   assign_address f t i = Some (new_address f (i + of_nat k), i + of_nat k + 1)"
proof (induction k arbitrary: i)
  case 0
  then show ?case by (simp add: assign_address_unfold)
next
  case (Suc k)
  have "RBT.lookup t (new_address f (i + 1 + of_nat j)) \<noteq> None" if "j < k" for j
    using Suc.prems(1) [of "Suc j"] that by (simp add: add.assoc)
  moreover have "RBT.lookup t (new_address f (i + 1 + of_nat k)) = None"
    using Suc.prems(2) by (simp add: add.assoc)
  ultimately have "assign_address f t (i + 1) = Some (new_address f (i + 1 + of_nat k), i + 1 + of_nat k + 1)"
    by (rule Suc.IH)
  moreover have "RBT.lookup t (new_address f i) \<noteq> None" using Suc.prems(1) [of 0] by simp
  ultimately show ?case by (subst assign_address_unfold) (auto simp: add.assoc)
qed

lemma card_dom_entries: "card (dom (RBT.lookup t)) = length (RBT.entries t)"
proof -
  have "set (RBT.keys t) = dom (RBT.lookup t)" by (simp add: RBT.lookup_keys)
  moreover have "length (RBT.entries t) = length (RBT.keys t)" by (simp add: RBT.keys_def RBT.entries_def RBT_Impl.keys_def)
  ultimately show ?thesis using distinct_card [OF RBT.distinct_keys] by metis
qed

lemma free_address_exists:
  assumes "length (RBT.entries t) < 4294967296"
  shows "\<exists>k \<le> length (RBT.entries t). RBT.lookup t (new_address f (i + of_nat k)) = None"
proof (rule ccontr)
  let ?n = "length (RBT.entries t)" and ?g = "\<lambda>k :: nat. new_address f (i + of_nat k)"
  assume "\<not> ?thesis"
  then have "?g ` {..?n} \<subseteq> dom (RBT.lookup t)" by auto
  moreover have "inj_on ?g {..?n}"
    using assms by (auto simp: inj_on_def new_address_inject word_of_nat_eq_iff take_bit_eq_mod)
  ultimately have "card {..?n} \<le> card (dom (RBT.lookup t))"
    by (metis RBT.finite_dom_lookup card_image card_mono)
  then show False by (simp add: card_dom_entries)
qed

lemma assign_address_total:
  assumes "length (RBT.entries t) < 4294967296"
  obtains a j where "assign_address f t i = Some (a, j)" "RBT.lookup t a = None" "\<exists>m. a = new_address f m"
proof -
  let ?P = "\<lambda>k. RBT.lookup t (new_address f (i + of_nat k)) = None"
  have P: "?P (LEAST k. ?P k)" using free_address_exists [OF assms, of f i] by (metis (mono_tags) LeastI)
  have "\<not> ?P j" if "j < (LEAST k. ?P k)" for j using not_less_Least [OF that] .
  from assign_address_at [OF this P] P that show ?thesis by blast
qed

end
