(* ===== verification/Rpc_Protocol.thy ===== *)
theory Rpc_Protocol
  imports Rpc_State "HOL-Library.Multiset"
begin

text \<open>
  Two ends of an RPC session. Every end is an \<open>rpc_state\<close> driven by the operations of
  \<open>Rpc_State\<close>; between them are the addresses and the dec strong commands that were sent and not
  yet handled. A session has several connections served by several threads, so what is in flight is
  handled in any order. The theorems say that no reference is lost or invented on the way.
\<close>

section \<open>Effects of the operations on the table\<close>

lemma rpc_lookups [simp]:
  "node_at (set_node a n s) a' = (if a' = a then Some n else node_at s a')"
  "mTerminated (set_node a n s) = mTerminated s" "triggered (set_node a n s) = triggered s"
  "for_server (set_node a n s) = for_server s" "session (set_node a n s) = session s"
  "rpc_objs (set_node a n s) = rpc_objs s" "next_obj (set_node a n s) = next_obj s"
  "wire_out (set_node a n s) = wire_out s" "wire_in (set_node a n s) = wire_in s"
  by (simp_all add: set_node_def RBT.lookup_insert)

definition rpc_frame :: "rpc_state \<Rightarrow> rpc_state \<Rightarrow> bool" where
  "rpc_frame s s' \<longleftrightarrow> mTerminated s' = mTerminated s \<and> triggered s' = triggered s \<and>
     for_server s' = for_server s \<and> session s' = session s"

lemma find_binder_SomeD:
  "find_binder b t = Some (a, n) \<Longrightarrow> RBT.lookup t a = Some n \<and> bn_binder n = b"
  by (auto simp: find_binder_def find_Some_iff RBT.lookup_in_tree dest: nth_mem)

lemma find_binder_NoneD: "find_binder b t = None \<Longrightarrow> RBT.lookup t a = Some n \<Longrightarrow> bn_binder n \<noteq> b"
  by (auto simp: find_binder_def find_None_iff RBT.lookup_in_tree)

definition fresh_node :: "rpc_binder \<Rightarrow> binder_node" where
  "fresh_node b = \<lparr>bn_binder = b, sentRef = Some b, timesSent = 1, timesRecd = 0, asyncNumber = 0, asyncTodo = []\<rparr>"

definition proxy_node :: "rpc_binder \<Rightarrow> binder_node" where
  "proxy_node b = \<lparr>bn_binder = b, sentRef = None, timesSent = 0, timesRecd = 1, asyncNumber = 0, asyncTodo = []\<rparr>"

text \<open>A binder that leaves was known, and its count goes up, or it is local and gets a fresh address.\<close>

lemma onBinderLeaving_cases:
  assumes "onBinderLeaving b s = Inr (Inr a, s')"
  obtains n where "node_at s a = Some n" "bn_binder n = b"
      "s' = set_node a (n\<lparr>timesSent := size_add (timesSent n) 1, sentRef := Some b\<rparr>) s"
    | j m where "node_at s a = None" "\<not> isRemote s b" "a = new_address (for_server s) m"
      "\<And>a' n'. node_at s a' = Some n' \<Longrightarrow> bn_binder n' \<noteq> b" "s' = (set_node a (fresh_node b) s)\<lparr>mNextId := j\<rparr>"
proof (cases "find_binder b (mNodeForAddress s)")
  case (Some p)
  with assms that(1) find_binder_SomeD show ?thesis
    by (cases p) (auto simp: onBinderLeaving_def split: if_splits)
next
  case None
  with assms have small: "length (RBT.entries (mNodeForAddress s)) < 4294967296" and loc: "\<not> isRemote s b"
    by (auto simp: onBinderLeaving_def split: if_splits)
  obtain a' j where "assign_address (for_server s) (mNodeForAddress s) (mNextId s) = Some (a', j)"
    "node_at s a' = None" "\<exists>m. a' = new_address (for_server s) m"
    using assign_address_total [OF small] by metis
  with None assms loc that(2) find_binder_NoneD [OF None] show ?thesis
    by (auto simp: onBinderLeaving_def fresh_node_def split: if_splits)
qed

lemma refuses_creation_new: "refuses_creation s (new_address (\<not> for_server s) i) \<longleftrightarrow> False"
  by (auto simp: refuses_creation_def new_address_def)

lemma onBinderEntering_known:
  "node_at s a = Some n \<Longrightarrow> \<exists>x i. a = new_address x i \<Longrightarrow> \<not> mTerminated s \<Longrightarrow>
   onBinderEntering E a s = (Inr (promote E (bn_binder n)), set_node a (n\<lparr>timesRecd := size_add (timesRecd n) 1\<rparr>) s)"
  by (auto simp: onBinderEntering_def new_address_def)

lemma onBinderEntering_unknown:
  "node_at s a = None \<Longrightarrow> a = new_address (\<not> for_server s) i \<Longrightarrow> \<not> mTerminated s \<Longrightarrow>
   onBinderEntering E a s = (Inr (Some (next_obj s)), set_node a (proxy_node (next_obj s)) (snd (create_proxy a s)))"
  by (auto simp: onBinderEntering_def refuses_creation_new create_proxy_def proxy_node_def)
    (simp_all add: new_address_def)

definition dec_msg :: "u64 \<Rightarrow> nat \<Rightarrow> byte list" where
  "dec_msg a k = enc_header \<lparr>command = RPC_COMMAND_DEC_STRONG, bodySize = 16\<rparr> @
     enc_dec_strong \<lparr>ds_address = a, amount = of_nat k\<rparr>"

definition good_transport :: "rpc_env \<Rightarrow> bool" where
  "good_transport E \<longleftrightarrow> send_status E = (\<lambda>_. OK) \<and> find_connection E = OK \<and> can_allocate E = (\<lambda>_. True)"

definition after_dec :: "binder_node \<Rightarrow> binder_node option" where
  "after_dec n = (if timesSent n = 0 then None else Some (n\<lparr>timesRecd := 0\<rparr>))"

text \<open>Giving back what was received: one command with the whole count, nothing if there is none.\<close>

lemma sendDecStrong_effect:
  assumes "node_at s a = Some n" and "timesSent n \<noteq> 0 \<or> timesRecd n \<noteq> 0" and "timesSent n = 0 \<Longrightarrow> sentRef n = None"
    and "asyncTodo n = []" and "\<not> mTerminated s" and "\<not> triggered s" and "good_transport E"
  shows "\<exists>s'. sendDecStrongToTarget E a 0 s = Inr (OK, s') \<and> rpc_frame s s' \<and> rpc_objs s' = rpc_objs s \<and>
    next_obj s' = next_obj s \<and> (\<forall>a'. node_at s' a' = (if a' = a then after_dec n else node_at s a')) \<and>
    wire_out s' = wire_out s @ (if timesRecd n = 0 then [] else [dec_msg a (timesRecd n)])"
proof (cases "timesRecd n = 0")
  case True
  then have "n\<lparr>timesRecd := 0\<rparr> = n" by simp
  with True assms show ?thesis by (auto simp: sendDecStrongToTarget_def after_dec_def rpc_frame_def)
next
  case False
  with assms show ?thesis
    by (cases "timesSent n = 0")
      (auto simp: sendDecStrongToTarget_def tryEraseNode_def send_command_def rpcSend_def good_transport_def
        after_dec_def rpc_frame_def dec_msg_def RBT.lookup_delete)
qed

definition after_deliver :: "nat \<Rightarrow> binder_node \<Rightarrow> binder_node option" where
  "after_deliver k n =
     (if timesSent n = k then (if timesRecd n = 0 then None else Some (n\<lparr>timesSent := 0, sentRef := None\<rparr>))
      else Some (n\<lparr>timesSent := timesSent n - k\<rparr>))"

lemma processDecStrong_effect:
  assumes "node_at s a = Some n" and "k \<le> timesSent n" and "k < 4294967296" and "sentRef n \<noteq> None"
    and "asyncTodo n = []" and "\<not> triggered s" and "good_transport E" and "live E (bn_binder n)"
  shows "\<exists>s'. processDecStrong E (dec_header (dec_msg a k)) (s\<lparr>wire_in := drop 16 (dec_msg a k)\<rparr>) = Inr (OK, s') \<and>
    rpc_frame s s' \<and> rpc_objs s' = rpc_objs s \<and> next_obj s' = next_obj s \<and>
    (\<forall>a'. node_at s' a' = (if a' = a then after_deliver k n else node_at s a'))"
proof -
  have k: "unat (of_nat k :: u32) = k" using assms(3) by (simp add: unat_of_nat)
  have b: "unat (16 :: u32) = 16" by simp
  show ?thesis
    using assms k
    by (auto simp: processDecStrong_def dec_msg_def command_data_valid_def good_transport_def rpcRec_def b
        apply_dec_strong_def promote_def tryEraseNode_def after_deliver_def rpc_frame_def RBT.lookup_delete)
qed

section \<open>One end\<close>

definition owns :: "bool \<Rightarrow> u64 \<Rightarrow> bool" where
  "owns x a \<longleftrightarrow> (\<exists>i. a = new_address x i)"

lemma owns_other: "owns x a \<Longrightarrow> \<not> owns (\<not> x) a"
  by (auto simp: owns_def new_address_inject)

definition sent_of :: "rpc_state \<Rightarrow> u64 \<Rightarrow> nat" where
  "sent_of s a = (case node_at s a of None \<Rightarrow> 0 | Some n \<Rightarrow> timesSent n)"

definition recd_of :: "rpc_state \<Rightarrow> u64 \<Rightarrow> nat" where
  "recd_of s a = (case node_at s a of None \<Rightarrow> 0 | Some n \<Rightarrow> timesRecd n)"

text \<open>What holds of a node at the end \<open>x\<close> of a session; \<open>D\<close> are the proxies without a strong reference.\<close>

definition node_ok :: "rpc_state \<Rightarrow> bool \<Rightarrow> rpc_binder set \<Rightarrow> u64 \<Rightarrow> binder_node \<Rightarrow> bool" where
  "node_ok s x D a n \<longleftrightarrow>
     sentRef n = (if timesSent n = 0 then None else Some (bn_binder n)) \<and>
     (timesSent n \<noteq> 0 \<or> timesRecd n \<noteq> 0) \<and> asyncTodo n = [] \<and> timesSent n < 4294967296 \<and>
     bn_binder n < next_obj s \<and>
     (if owns x a then bo_kind (rpc_objs s (bn_binder n)) = LocalBinder
      else owns (\<not> x) a \<and> bo_kind (rpc_objs s (bn_binder n)) = RpcProxy (session s) a \<and> timesRecd n \<noteq> 0 \<and>
        (bn_binder n \<in> D \<longrightarrow> timesSent n = 0))"

definition end_ok :: "rpc_state \<Rightarrow> bool \<Rightarrow> rpc_binder set \<Rightarrow> bool" where
  "end_ok s x D \<longleftrightarrow> for_server s = x \<and> \<not> mTerminated s \<and> \<not> triggered s \<and>
     (\<forall>a n. node_at s a = Some n \<longrightarrow> node_ok s x D a n) \<and>
     (\<forall>a n a' n'. node_at s a = Some n \<longrightarrow> node_at s a' = Some n' \<longrightarrow> bn_binder n = bn_binder n' \<longrightarrow> a = a') \<and>
     (\<forall>b a. b < next_obj s \<longrightarrow> bo_kind (rpc_objs s b) = RpcProxy (session s) a \<longrightarrow> b \<notin> D \<longrightarrow>
        (\<exists>n. node_at s a = Some n \<and> bn_binder n = b)) \<and>
     (\<forall>b. b \<in> D \<longrightarrow> b < next_obj s \<and> bo_kind (rpc_objs s b) \<noteq> LocalBinder)"

lemma end_okD:
  assumes "end_ok s x D"
  shows "for_server s = x" "\<not> mTerminated s" "\<not> triggered s"
    and "\<And>a n. node_at s a = Some n \<Longrightarrow> node_ok s x D a n"
    and "\<And>a n a' n'. node_at s a = Some n \<Longrightarrow> node_at s a' = Some n' \<Longrightarrow> bn_binder n = bn_binder n' \<Longrightarrow> a = a'"
    and "\<And>b a. b < next_obj s \<Longrightarrow> bo_kind (rpc_objs s b) = RpcProxy (session s) a \<Longrightarrow> b \<notin> D \<Longrightarrow>
        (\<exists>n. node_at s a = Some n \<and> bn_binder n = b)"
    and "\<And>b. b \<in> D \<Longrightarrow> b < next_obj s \<and> bo_kind (rpc_objs s b) \<noteq> LocalBinder"
  using assms unfolding end_ok_def by blast+

text \<open>Changing one node and keeping its binder.\<close>

lemma end_ok_update:
  assumes "end_ok s x D" and "rpc_frame s s'" and "rpc_objs s' = rpc_objs s" and "next_obj s' = next_obj s"
    and nodes: "\<And>a'. node_at s' a' = (if a' = a then n' else node_at s a')"
    and old: "node_at s a = Some n"
    and new: "\<And>m. n' = Some m \<Longrightarrow> node_ok s x D a m \<and> bn_binder m = bn_binder n"
    and gone: "n' = None \<Longrightarrow> bn_binder n \<in> D \<or> bo_kind (rpc_objs s (bn_binder n)) = LocalBinder"
  shows "end_ok s' x D"
proof -
  note s = end_okD [OF assms(1)]
  have fr: "for_server s' = for_server s" "session s' = session s" "mTerminated s' = mTerminated s" "triggered s' = triggered s"
    using assms(2) by (auto simp: rpc_frame_def)
  have ok: "node_ok s' x D a' m = node_ok s x D a' m" for a' m
    by (simp add: node_ok_def fr assms(3,4))
  have same: "\<exists>m. node_at s a' = Some m \<and> bn_binder m = bn_binder m'" if "node_at s' a' = Some m'" for a' m'
    using that nodes old new by (auto split: if_splits)
  have "\<exists>m. node_at s' c = Some m \<and> bn_binder m = b"
    if p: "b < next_obj s" "bo_kind (rpc_objs s b) = RpcProxy (session s) c" "b \<notin> D" for b c
  proof -
    obtain m where m: "node_at s c = Some m" "bn_binder m = b" using s(6) [OF p] by blast
    show ?thesis
    proof (cases "c = a")
      case True
      with m old have "bn_binder n = b" by simp
      with gone p have "n' \<noteq> None" by auto
      with new nodes True \<open>bn_binder n = b\<close> show ?thesis by auto
    qed (use m nodes in auto)
  qed
  moreover have "node_ok s x D a' m" if "node_at s' a' = Some m" for a' m
    using that nodes [of a'] new s(4) by (auto split: if_splits)
  moreover have "a1 = a2" if "node_at s' a1 = Some m1" "node_at s' a2 = Some m2" "bn_binder m1 = bn_binder m2" for a1 a2 m1 m2
    using same [OF that(1)] same [OF that(2)] that(3) s(5) by metis
  ultimately show ?thesis
    unfolding end_ok_def fr ok assms(3,4) using s(1-3,7) by blast
qed

lemma promote_live: "live E b \<Longrightarrow> promote E b = Some b"
  by (simp add: promote_def)

text \<open>Sending: the count of the address goes up by one.\<close>

lemma leaving_end_ok:
  assumes s: "end_ok s x D" and b: "b < next_obj s" "b \<notin> D"
    and few: "\<And>a n. find_binder b (mNodeForAddress s) = Some (a, n) \<Longrightarrow> timesSent n < 4294967295"
    and run: "onBinderLeaving b s = Inr (Inr a, s')"
  shows "end_ok s' x D" and "sent_of s' = (sent_of s)(a := Suc (sent_of s a))" and "recd_of s' = recd_of s"
    and "node_at s a = None \<Longrightarrow> owns x a"
proof -
  note e = end_okD [OF s]
  have "end_ok s' x D \<and> sent_of s' = (sent_of s)(a := Suc (sent_of s a)) \<and> recd_of s' = recd_of s \<and>
    (node_at s a = None \<longrightarrow> owns x a)"
    using run
  proof (cases rule: onBinderLeaving_cases)
    case (1 n)
    have "timesSent n < 4294967295"
    proof (cases "find_binder b (mNodeForAddress s)")
      case None
      with find_binder_NoneD 1(1,2) show ?thesis by blast
    next
      case (Some p)
      with find_binder_SomeD e(5) 1(1,2) have "p = (a, n)" by (cases p) (metis option.inject)
      with Some few show ?thesis by blast
    qed
    then have inc: "size_add (timesSent n) 1 = Suc (timesSent n)" "Suc (timesSent n) < 4294967296" by simp_all
    have ok: "node_ok s x D a n" by (rule e(4) [OF 1(1)])
    have "end_ok s' x D"
    proof (rule end_ok_update [OF s, where n = n and a = a])
      show "node_ok s x D a m \<and> bn_binder m = bn_binder n"
        if "Some (n\<lparr>timesSent := size_add (timesSent n) 1, sentRef := Some b\<rparr>) = Some m" for m
        using that ok inc 1(2) b(2) by (auto simp: node_ok_def)
    qed (simp_all add: 1 rpc_frame_def)
    with 1 inc show ?thesis by (auto simp: sent_of_def recd_of_def fun_eq_iff)
  next
    case (2 j m)
    have own: "owns x a" using 2(3) e(1) by (auto simp: owns_def)
    have kind: "bo_kind (rpc_objs s b) = LocalBinder" using 2(2) by (simp add: isRemote_def)
    have "end_ok s' x D"
      unfolding end_ok_def
    proof (intro conjI allI impI)
      fix a' n assume "node_at s' a' = Some n"
      with own kind b e(4) [of a' n] show "node_ok s' x D a' n"
        by (auto simp: 2(5) node_ok_def fresh_node_def split: if_splits)
    next
      fix a1 n1 a2 n2 assume "node_at s' a1 = Some n1" "node_at s' a2 = Some n2" "bn_binder n1 = bn_binder n2"
      with e(5) [of a1 n1 a2 n2] 2(4) [of a1 n1] 2(4) [of a2 n2] show "a1 = a2" by (auto simp: 2(5) fresh_node_def split: if_splits)
    next
      fix b' c assume "b' < next_obj s'" "bo_kind (rpc_objs s' b') = RpcProxy (session s') c" "b' \<notin> D"
      with e(6) [of b' c] kind 2(1) show "\<exists>n. node_at s' c = Some n \<and> bn_binder n = b'"
        by (auto simp: 2(5))
    qed (use e(1-3,7) in \<open>auto simp: 2(5)\<close>)
    with 2(1) own show ?thesis by (auto simp: 2(5) sent_of_def recd_of_def fresh_node_def fun_eq_iff)
  qed
  then show "end_ok s' x D" "sent_of s' = (sent_of s)(a := Suc (sent_of s a))" "recd_of s' = recd_of s"
    "node_at s a = None \<Longrightarrow> owns x a" by blast+
qed

text \<open>Receiving: the address is known or the other end created it, and its count goes up by one.\<close>

lemma entering_known_ok:
  assumes s: "end_ok s x D" and n: "node_at s a = Some n" and few: "timesRecd n < 4294967296"
  shows "\<exists>s'. onBinderEntering E a s = (Inr (promote E (bn_binder n)), s') \<and> end_ok s' x D \<and>
    sent_of s' = sent_of s \<and> recd_of s' = (recd_of s)(a := Suc (recd_of s a))"
proof -
  note e = end_okD [OF s]
  let ?n = "n\<lparr>timesRecd := size_add (timesRecd n) 1\<rparr>"
  have ok: "node_ok s x D a n" by (rule e(4) [OF n])
  then have own: "\<exists>x i. a = new_address x i" by (auto simp: node_ok_def owns_def split: if_splits)
  have inc: "size_add (timesRecd n) 1 = Suc (timesRecd n)" using few by simp
  have "end_ok (set_node a ?n s) x D"
  proof (rule end_ok_update [OF s, where n = n and a = a and n' = "Some ?n"])
    show "node_ok s x D a m \<and> bn_binder m = bn_binder n" if "Some ?n = Some m" for m
      using that ok inc by (auto simp: node_ok_def)
  qed (simp_all add: n rpc_frame_def)
  with onBinderEntering_known [OF n own e(2), of E] n inc show ?thesis
    by (auto simp: sent_of_def recd_of_def fun_eq_iff)
qed

lemma entering_unknown_ok:
  assumes s: "end_ok s x D" and n: "node_at s a = None" and own: "owns (\<not> x) a"
  shows "\<exists>s'. onBinderEntering E a s = (Inr (Some (next_obj s)), s') \<and> end_ok s' x D \<and>
    sent_of s' = sent_of s \<and> recd_of s' = (recd_of s)(a := Suc (recd_of s a))"
proof -
  note e = end_okD [OF s]
  obtain i where a: "a = new_address (\<not> for_server s) i" using own e(1) by (auto simp: owns_def)
  let ?s = "set_node a (proxy_node (next_obj s)) (snd (create_proxy a s))"
  have new: "bn_binder m \<noteq> next_obj s" if "node_at s c = Some m" for c m
    using e(4) [OF that] by (auto simp: node_ok_def)
  have nodes: "node_at ?s c = (if c = a then Some (proxy_node (next_obj s)) else node_at s c)" for c
    by (simp add: create_proxy_def)
  have "end_ok ?s x D"
    unfolding end_ok_def nodes
  proof (intro conjI allI impI)
    fix c m assume "(if c = a then Some (proxy_node (next_obj s)) else node_at s c) = Some m"
    with own owns_other [of x a] e(7) [of "next_obj s"] e(4) [of c m] show "node_ok ?s x D c m"
      by (auto simp: node_ok_def proxy_node_def create_proxy_def split: if_splits)
  next
    fix a1 n1 a2 n2 assume "(if a1 = a then Some (proxy_node (next_obj s)) else node_at s a1) = Some n1"
      "(if a2 = a then Some (proxy_node (next_obj s)) else node_at s a2) = Some n2" "bn_binder n1 = bn_binder n2"
    with e(5) [of a1 n1 a2 n2] new [of a1 n1] new [of a2 n2] show "a1 = a2"
      by (auto simp: proxy_node_def split: if_splits)
  next
    fix b c assume "b < next_obj ?s" "bo_kind (rpc_objs ?s b) = RpcProxy (session ?s) c" "b \<notin> D"
    with e(6) [of b c] n show "\<exists>m. (if c = a then Some (proxy_node (next_obj s)) else node_at s c) = Some m \<and> bn_binder m = b"
      by (auto simp: create_proxy_def proxy_node_def split: if_splits)
  qed (use e(1-3,7) in \<open>auto simp: create_proxy_def intro: less_SucI\<close>)
  with onBinderEntering_unknown [OF n a e(2), of E] n nodes show ?thesis
    by (auto simp: sent_of_def recd_of_def fun_eq_iff proxy_node_def)
qed

text \<open>Giving back: the count of what was received goes to zero and the other end is told how many.\<close>

lemma dec_end_ok:
  assumes s: "end_ok s x D" and n: "node_at s a = Some n" and E: "good_transport E"
    and who: "owns x a \<or> bn_binder n \<in> D"
  shows "\<exists>s'. sendDecStrongToTarget E a 0 s = Inr (OK, s') \<and> end_ok s' x D \<and> sent_of s' = sent_of s \<and>
    recd_of s' = (recd_of s)(a := 0) \<and>
    drop (length (wire_out s)) (wire_out s') = (if timesRecd n = 0 then [] else [dec_msg a (timesRecd n)])"
proof -
  note e = end_okD [OF s]
  have ok: "node_ok s x D a n" by (rule e(4) [OF n])
  obtain s' where s': "sendDecStrongToTarget E a 0 s = Inr (OK, s')" "rpc_frame s s'" "rpc_objs s' = rpc_objs s"
    "next_obj s' = next_obj s" "\<And>a'. node_at s' a' = (if a' = a then after_dec n else node_at s a')"
    "wire_out s' = wire_out s @ (if timesRecd n = 0 then [] else [dec_msg a (timesRecd n)])"
    using sendDecStrong_effect [OF n _ _ _ e(2,3) E] ok by (auto simp: node_ok_def)
  have "end_ok s' x D"
  proof (rule end_ok_update [OF s s'(2-5) n])
    show "node_ok s x D a m \<and> bn_binder m = bn_binder n" if "after_dec n = Some m" for m
      using that ok who e(7) [of "bn_binder n"] by (auto simp: after_dec_def node_ok_def split: if_splits)
    show "bn_binder n \<in> D \<or> bo_kind (rpc_objs s (bn_binder n)) = LocalBinder"
      using ok who by (auto simp: node_ok_def)
  qed
  with s' n show ?thesis by (auto simp: sent_of_def recd_of_def fun_eq_iff after_dec_def)
qed

text \<open>Taking back: a command for no more than was sent lowers the count by its amount.\<close>

lemma deliver_end_ok:
  assumes s: "end_ok s x D" and n: "node_at s a = Some n" and E: "good_transport E"
    and k: "0 < k" "k \<le> timesSent n" and live: "live E (bn_binder n)"
  shows "\<exists>s'. processDecStrong E (dec_header (dec_msg a k)) (s\<lparr>wire_in := drop 16 (dec_msg a k)\<rparr>) = Inr (OK, s') \<and>
    end_ok s' x D \<and> sent_of s' = (sent_of s)(a := sent_of s a - k) \<and> recd_of s' = recd_of s"
proof -
  note e = end_okD [OF s]
  have ok: "node_ok s x D a n" by (rule e(4) [OF n])
  obtain s' where s': "processDecStrong E (dec_header (dec_msg a k)) (s\<lparr>wire_in := drop 16 (dec_msg a k)\<rparr>) = Inr (OK, s')"
    "rpc_frame s s'" "rpc_objs s' = rpc_objs s" "next_obj s' = next_obj s"
    "\<And>a'. node_at s' a' = (if a' = a then after_deliver k n else node_at s a')"
    using processDecStrong_effect [OF n k(2) _ _ _ e(3) E live] ok k by (auto simp: node_ok_def)
  have "end_ok s' x D"
  proof (rule end_ok_update [OF s s'(2-5) n])
    show "node_ok s x D a m \<and> bn_binder m = bn_binder n" if "after_deliver k n = Some m" for m
      using that ok k by (auto simp: after_deliver_def node_ok_def split: if_splits)
    show "bn_binder n \<in> D \<or> bo_kind (rpc_objs s (bn_binder n)) = LocalBinder" if "after_deliver k n = None"
      using that ok k by (auto simp: after_deliver_def node_ok_def split: if_splits)
  qed
  with s' n show ?thesis by (auto simp: sent_of_def recd_of_def fun_eq_iff after_deliver_def)
qed

section \<open>Both ends\<close>

text \<open>End \<open>True\<close> is the server's. \<open>refs x\<close> and \<open>decs x\<close> are on the way to the end \<open>x\<close>; \<open>dead x\<close> are its
  proxies whose last strong reference is gone.\<close>

record two_party =
  ep :: "bool \<Rightarrow> rpc_state"
  refs :: "bool \<Rightarrow> u64 multiset"
  decs :: "bool \<Rightarrow> byte list multiset"
  dead :: "bool \<Rightarrow> rpc_binder set"

text \<open>What is known about strong references: one held by the table keeps an object alive, and a proxy
  is alive until its last one goes.\<close>

definition env_fits :: "two_party \<Rightarrow> bool \<Rightarrow> rpc_env \<Rightarrow> bool" where
  "env_fits t x E \<longleftrightarrow> good_transport E \<and>
     (\<forall>a n. node_at (ep t x) a = Some n \<longrightarrow> sentRef n \<noteq> None \<longrightarrow> live E (bn_binder n)) \<and>
     (\<forall>b. isRemote (ep t x) b \<longrightarrow> live E b = (b \<notin> dead t x))"

definition new_messages :: "rpc_state \<Rightarrow> rpc_state \<Rightarrow> byte list multiset" where
  "new_messages s s' = mset (drop (length (wire_out s)) (wire_out s'))"

definition set_end :: "bool \<Rightarrow> rpc_state \<Rightarrow> two_party \<Rightarrow> two_party" where
  "set_end x s t = t\<lparr>ep := (ep t)(x := s)\<rparr>"

definition add_ref :: "bool \<Rightarrow> u64 \<Rightarrow> two_party \<Rightarrow> two_party" where
  "add_ref x a t = t\<lparr>refs := (refs t)(x := add_mset a (refs t x))\<rparr>"

definition take_ref :: "bool \<Rightarrow> u64 \<Rightarrow> two_party \<Rightarrow> two_party" where
  "take_ref x a t = t\<lparr>refs := (refs t)(x := refs t x - {#a#})\<rparr>"

definition add_decs :: "bool \<Rightarrow> byte list multiset \<Rightarrow> two_party \<Rightarrow> two_party" where
  "add_decs x ms t = t\<lparr>decs := (decs t)(x := decs t x + ms)\<rparr>"

definition take_dec :: "bool \<Rightarrow> byte list \<Rightarrow> two_party \<Rightarrow> two_party" where
  "take_dec x m t = t\<lparr>decs := (decs t)(x := decs t x - {#m#})\<rparr>"

definition lose :: "bool \<Rightarrow> rpc_binder \<Rightarrow> two_party \<Rightarrow> two_party" where
  "lose x b t = t\<lparr>dead := (dead t)(x := insert b (dead t x))\<rparr>"

definition deliver_dec :: "rpc_env \<Rightarrow> byte list \<Rightarrow> rpc_state \<Rightarrow> status_t rpc_run" where
  "deliver_dec E m s = processDecStrong E (dec_header m) (s\<lparr>wire_in := drop 16 m\<rparr>)"

datatype rpc_event =
    Send bool rpc_binder | Receive bool u64 | Flush bool u64 | LastRef bool rpc_binder | Release bool u64
  | Deliver bool "byte list"

text \<open>
  A binder is sent by someone who holds it. What was received is given back for a local binder any
  time (flushExcessBinderRefs) and for a proxy when its last strong reference has gone
  (onLastStrongRef, which the table holds off as long as it has sent the proxy). A count stays
  below 2 to the 32, the range of the amount in a dec strong.
\<close>

inductive rpc_step :: "two_party \<Rightarrow> rpc_event \<Rightarrow> two_party \<Rightarrow> bool" where
  send_step: "b < next_obj (ep t x) \<Longrightarrow> b \<notin> dead t x \<Longrightarrow>
     (\<And>a n. find_binder b (mNodeForAddress (ep t x)) = Some (a, n) \<Longrightarrow> timesSent n < 4294967295) \<Longrightarrow>
     onBinderLeaving b (ep t x) = Inr (Inr a, s') \<Longrightarrow>
     rpc_step t (Send x b) (add_ref (\<not> x) a (set_end x s' t))"
| receive_step: "a \<in># refs t x \<Longrightarrow> env_fits t x E \<Longrightarrow> onBinderEntering E a (ep t x) = (r, s') \<Longrightarrow>
     rpc_step t (Receive x a) (take_ref x a (set_end x s' t))"
| flush_step: "node_at (ep t x) a = Some n \<Longrightarrow> \<not> isRemote (ep t x) (bn_binder n) \<Longrightarrow> env_fits t x E \<Longrightarrow>
     sendDecStrongToTarget E a 0 (ep t x) = Inr (st, s') \<Longrightarrow>
     rpc_step t (Flush x a) (add_decs (\<not> x) (new_messages (ep t x) s') (set_end x s' t))"
| last_ref_step: "node_at (ep t x) a = Some n \<Longrightarrow> isRemote (ep t x) (bn_binder n) \<Longrightarrow> sentRef n = None \<Longrightarrow>
     rpc_step t (LastRef x (bn_binder n)) (lose x (bn_binder n) t)"
| release_step: "node_at (ep t x) a = Some n \<Longrightarrow> bn_binder n \<in> dead t x \<Longrightarrow> env_fits t x E \<Longrightarrow>
     sendDecStrongToTarget E a 0 (ep t x) = Inr (st, s') \<Longrightarrow>
     rpc_step t (Release x a) (add_decs (\<not> x) (new_messages (ep t x) s') (set_end x s' t))"
| deliver_step: "m \<in># decs t x \<Longrightarrow> env_fits t x E \<Longrightarrow> deliver_dec E m (ep t x) = Inr (st, s') \<Longrightarrow>
     rpc_step t (Deliver x m) (take_dec x m (set_end x s' t))"

inductive_cases rpc_stepE: "rpc_step t e t'"

definition rpc_start :: "two_party \<Rightarrow> bool" where
  "rpc_start t \<longleftrightarrow> (\<forall>x. for_server (ep t x) = x \<and> \<not> mTerminated (ep t x) \<and> \<not> triggered (ep t x) \<and>
     mNodeForAddress (ep t x) = RBT.empty \<and> (\<forall>b < next_obj (ep t x). bo_kind (rpc_objs (ep t x) b) = LocalBinder) \<and>
     refs t x = {#} \<and> decs t x = {#} \<and> dead t x = {})"

interpretation rpc: transition_system rpc_start rpc_step .

section \<open>The ledger\<close>

definition dec_amount :: "u64 \<Rightarrow> byte list \<Rightarrow> nat" where
  "dec_amount a m = (let d = dec_dec_strong (drop 16 m) in if ds_address d = a then unat (amount d) else 0)"

definition decs_of :: "two_party \<Rightarrow> bool \<Rightarrow> u64 \<Rightarrow> nat" where
  "decs_of t x a = sum_mset (image_mset (dec_amount a) (decs t x))"

lemma dec_amount_msg: "k < 4294967296 \<Longrightarrow> dec_amount a (dec_msg a' k) = (if a' = a then k else 0)"
  by (simp add: dec_amount_def dec_msg_def unat_of_nat)

text \<open>Every reference the end \<open>x\<close> has given out is held by the other end, on the way to it, or on the
  way back.\<close>

definition ledger :: "two_party \<Rightarrow> bool" where
  "ledger t \<longleftrightarrow> (\<forall>x a. sent_of (ep t x) a = recd_of (ep t (\<not> x)) a + count (refs t (\<not> x)) a + decs_of t x a)"

definition two_inv :: "two_party \<Rightarrow> bool" where
  "two_inv t \<longleftrightarrow> (\<forall>x. end_ok (ep t x) x (dead t x)) \<and> ledger t \<and>
     (\<forall>x m. m \<in># decs t x \<longrightarrow> (\<exists>a k. m = dec_msg a k \<and> 0 < k \<and> k < 4294967296))"

lemma ledgerD: "two_inv t \<Longrightarrow> sent_of (ep t x) a = recd_of (ep t (\<not> x)) a + count (refs t (\<not> x)) a + decs_of t x a"
  by (simp add: two_inv_def ledger_def)

lemma two_inv_end: "two_inv t \<Longrightarrow> end_ok (ep t x) x (dead t x)"
  by (simp add: two_inv_def)

lemmas two_inv_node = end_okD(4) [OF two_inv_end]

lemma sent_node:
  assumes "two_inv t" and "sent_of (ep t x) a \<noteq> 0"
  obtains n where "node_at (ep t x) a = Some n" "timesSent n = sent_of (ep t x) a" "node_ok (ep t x) x (dead t x) a n"
  using assms two_inv_node [OF assms(1), of x a] by (cases "node_at (ep t x) a") (auto simp: sent_of_def)

lemma sent_small:
  assumes "two_inv t"
  shows "sent_of (ep t x) a < 4294967296"
proof (cases "node_at (ep t x) a")
  case (Some n)
  with two_inv_node [OF assms Some] show ?thesis by (simp add: sent_of_def node_ok_def)
qed (simp add: sent_of_def)

lemma recd_small:
  assumes "two_inv t"
  shows "recd_of (ep t x) a < 4294967296"
proof -
  have "recd_of (ep t x) a \<le> sent_of (ep t (\<not> x)) a" using ledgerD [OF assms, of "\<not> x" a] by simp
  also have "\<dots> < 4294967296" by (rule sent_small [OF assms])
  finally show ?thesis .
qed

text \<open>What is on the way to an end can be handled there.\<close>

lemma arriving_ref:
  assumes t: "two_inv t" and a: "a \<in># refs t x"
  shows "if owns x a then node_at (ep t x) a \<noteq> None else owns (\<not> x) a"
proof -
  have "count (refs t x) a \<noteq> 0" using a by simp
  then have "sent_of (ep t (\<not> x)) a \<noteq> 0" using ledgerD [OF t, of "\<not> x" a] by simp
  then obtain n where n: "node_at (ep t (\<not> x)) a = Some n" "node_ok (ep t (\<not> x)) (\<not> x) (dead t (\<not> x)) a n"
    by (rule sent_node [OF t])
  show ?thesis
  proof (cases "owns x a")
    case True
    with n owns_other [of x a] have "recd_of (ep t (\<not> x)) a \<noteq> 0" by (auto simp: node_ok_def recd_of_def)
    with ledgerD [OF t, of x a] have "sent_of (ep t x) a \<noteq> 0" by simp
    with True show ?thesis by (auto simp: sent_of_def split: option.splits)
  qed (use n in \<open>auto simp: node_ok_def split: if_splits\<close>)
qed

lemma decs_of_member:
  assumes "m \<in># decs t x"
  shows "decs_of t x a = dec_amount a m + sum_mset (image_mset (dec_amount a) (decs t x - {#m#}))"
proof -
  obtain M where "decs t x = add_mset m M" using multi_member_split [OF assms] by blast
  then show ?thesis by (simp add: decs_of_def)
qed

lemma arriving_dec:
  assumes t: "two_inv t" and m: "m \<in># decs t x"
  obtains a k n where "m = dec_msg a k" "0 < k" "k < 4294967296" "node_at (ep t x) a = Some n" "k \<le> timesSent n"
proof -
  obtain a k where k: "m = dec_msg a k" "0 < k" "k < 4294967296" using t m unfolding two_inv_def by blast
  then have "k \<le> decs_of t x a" using decs_of_member [OF m, of a] by (simp add: dec_amount_msg)
  then have "k \<le> sent_of (ep t x) a" using ledgerD [OF t, of x a] by simp
  with k(2) that k show ?thesis by (auto simp: sent_of_def split: option.splits)
qed

lemma two_party_simps [simp]:
  "ep (set_end x s t) = (ep t)(x := s)" "refs (set_end x s t) = refs t" "decs (set_end x s t) = decs t"
  "dead (set_end x s t) = dead t" "ep (add_ref x a t) = ep t" "refs (add_ref x a t) = (refs t)(x := add_mset a (refs t x))"
  "decs (add_ref x a t) = decs t" "dead (add_ref x a t) = dead t" "ep (take_ref x a t) = ep t"
  "refs (take_ref x a t) = (refs t)(x := refs t x - {#a#})" "decs (take_ref x a t) = decs t" "dead (take_ref x a t) = dead t"
  "ep (add_decs x ms t) = ep t" "refs (add_decs x ms t) = refs t" "decs (add_decs x ms t) = (decs t)(x := decs t x + ms)"
  "dead (add_decs x ms t) = dead t" "ep (take_dec x m t) = ep t" "refs (take_dec x m t) = refs t"
  "decs (take_dec x m t) = (decs t)(x := decs t x - {#m#})" "dead (take_dec x m t) = dead t"
  "ep (lose x b t) = ep t" "refs (lose x b t) = refs t" "decs (lose x b t) = decs t"
  "dead (lose x b t) = (dead t)(x := insert b (dead t x))"
  by (simp_all add: set_end_def add_ref_def take_ref_def add_decs_def take_dec_def lose_def)

lemma decs_of_simps [simp]:
  "decs_of (set_end x s t) = decs_of t" "decs_of (add_ref x a t) = decs_of t" "decs_of (take_ref x a t) = decs_of t"
  "decs_of (lose x b t) = decs_of t"
  by (simp_all add: decs_of_def fun_eq_iff)

lemma send_inv:
  assumes t: "two_inv t" and b: "b < next_obj (ep t x)" "b \<notin> dead t x"
    and few: "\<And>a n. find_binder b (mNodeForAddress (ep t x)) = Some (a, n) \<Longrightarrow> timesSent n < 4294967295"
    and run: "onBinderLeaving b (ep t x) = Inr (Inr a, s')"
  shows "two_inv (add_ref (\<not> x) a (set_end x s' t))"
proof -
  note l = leaving_end_ok [OF two_inv_end [OF t] b few run]
  have "ledger (add_ref (\<not> x) a (set_end x s' t))"
    unfolding ledger_def
  proof (intro allI)
    fix y c
    show "sent_of (ep (add_ref (\<not> x) a (set_end x s' t)) y) c =
        recd_of (ep (add_ref (\<not> x) a (set_end x s' t)) (\<not> y)) c + count (refs (add_ref (\<not> x) a (set_end x s' t)) (\<not> y)) c +
        decs_of (add_ref (\<not> x) a (set_end x s' t)) y c"
      using ledgerD [OF t, of y c] l(2,3) by (cases "y = x") auto
  qed
  with t l(1) show ?thesis by (auto simp: two_inv_def)
qed

lemma receive_runs:
  assumes t: "two_inv t" and a: "a \<in># refs t x"
  obtains r s' where "onBinderEntering E a (ep t x) = (Inr r, s')" "end_ok s' x (dead t x)" "sent_of s' = sent_of (ep t x)"
    "recd_of s' = (recd_of (ep t x))(a := Suc (recd_of (ep t x) a))"
    "r = (case node_at (ep t x) a of None \<Rightarrow> Some (next_obj (ep t x)) | Some n \<Rightarrow> promote E (bn_binder n))"
proof (cases "node_at (ep t x) a")
  case None
  with arriving_ref [OF t a] have "owns (\<not> x) a" by (auto split: if_splits)
  from entering_unknown_ok [OF two_inv_end [OF t] None this, of E] None that show ?thesis by auto
next
  case (Some n)
  with recd_small [OF t, of x a] have "timesRecd n < 4294967296" by (simp add: recd_of_def)
  from entering_known_ok [OF two_inv_end [OF t] Some this, of E] Some that show ?thesis by auto
qed

lemma receive_inv:
  assumes t: "two_inv t" and a: "a \<in># refs t x" and run: "onBinderEntering E a (ep t x) = (r, s')"
  shows "two_inv (take_ref x a (set_end x s' t))"
proof -
  from receive_runs [OF t a, of E] run have l: "end_ok s' x (dead t x)" "sent_of s' = sent_of (ep t x)"
    "recd_of s' = (recd_of (ep t x))(a := Suc (recd_of (ep t x) a))" by auto
  have "0 < count (refs t x) a" using a by simp
  then have "ledger (take_ref x a (set_end x s' t))"
    unfolding ledger_def
  proof (intro allI)
    fix y c
    show "sent_of (ep (take_ref x a (set_end x s' t)) y) c =
        recd_of (ep (take_ref x a (set_end x s' t)) (\<not> y)) c + count (refs (take_ref x a (set_end x s' t)) (\<not> y)) c +
        decs_of (take_ref x a (set_end x s' t)) y c"
      using ledgerD [OF t, of y c] l(2,3) \<open>0 < count (refs t x) a\<close> by (cases "y = x") auto
  qed
  with t l(1) show ?thesis by (auto simp: two_inv_def)
qed

lemma give_back_inv:
  assumes t: "two_inv t" and n: "node_at (ep t x) a = Some n" and who: "owns x a \<or> bn_binder n \<in> dead t x"
    and E: "good_transport E" and run: "sendDecStrongToTarget E a 0 (ep t x) = Inr (st, s')"
  shows "two_inv (add_decs (\<not> x) (new_messages (ep t x) s') (set_end x s' t))"
proof -
  from dec_end_ok [OF two_inv_end [OF t] n E who] run have l: "end_ok s' x (dead t x)" "sent_of s' = sent_of (ep t x)"
    "recd_of s' = (recd_of (ep t x))(a := 0)"
    "new_messages (ep t x) s' = (if timesRecd n = 0 then {#} else {#dec_msg a (timesRecd n)#})"
    by (auto simp: new_messages_def)
  let ?t = "add_decs (\<not> x) (new_messages (ep t x) s') (set_end x s' t)"
  have k: "timesRecd n = recd_of (ep t x) a" "timesRecd n < 4294967296"
    using n recd_small [OF t, of x a] by (simp_all add: recd_of_def)
  have d: "decs_of ?t y c = decs_of t y c + (if y = x \<or> c \<noteq> a then 0 else timesRecd n)" for y c
    using k(2) by (cases "y = x") (auto simp: decs_of_def l(4) dec_amount_msg)
  have "ledger ?t"
    unfolding ledger_def
  proof (intro allI)
    fix y c
    show "sent_of (ep ?t y) c = recd_of (ep ?t (\<not> y)) c + count (refs ?t (\<not> y)) c + decs_of ?t y c"
      unfolding d using ledgerD [OF t, of y c] l(2,3) k by (cases "y = x") auto
  qed
  moreover have "\<exists>a k. m = dec_msg a k \<and> 0 < k \<and> k < 4294967296" if "m \<in># decs ?t y" for y m
    using that t k(2) l(4) by (auto simp: two_inv_def split: if_splits)
  ultimately show ?thesis using t l(1) by (auto simp: two_inv_def)
qed

lemma deliver_runs:
  assumes t: "two_inv t" and m: "m \<in># decs t x" and E: "env_fits t x E"
  obtains s' a k where "deliver_dec E m (ep t x) = Inr (OK, s')" "end_ok s' x (dead t x)" "m = dec_msg a k" "k < 4294967296"
    "sent_of s' = (sent_of (ep t x))(a := sent_of (ep t x) a - k)" "recd_of s' = recd_of (ep t x)" "k \<le> sent_of (ep t x) a"
proof -
  obtain a k n where k: "m = dec_msg a k" "0 < k" "k < 4294967296" "node_at (ep t x) a = Some n" "k \<le> timesSent n"
    using arriving_dec [OF t m] by blast
  have "sentRef n \<noteq> None" using two_inv_node [OF t k(4)] k(2,5) by (auto simp: node_ok_def)
  with E k(4) have "live E (bn_binder n)" and g: "good_transport E" by (auto simp: env_fits_def)
  from deliver_end_ok [OF two_inv_end [OF t] k(4) g k(2,5) this(1)] k that show ?thesis
    unfolding deliver_dec_def by (auto simp: sent_of_def)
qed

lemma deliver_inv:
  assumes t: "two_inv t" and m: "m \<in># decs t x" and E: "env_fits t x E" and run: "deliver_dec E m (ep t x) = Inr (st, s')"
  shows "two_inv (take_dec x m (set_end x s' t))"
proof -
  from deliver_runs [OF t m E] run obtain a k where l: "end_ok s' x (dead t x)" "m = dec_msg a k" "k < 4294967296"
    "sent_of s' = (sent_of (ep t x))(a := sent_of (ep t x) a - k)" "recd_of s' = recd_of (ep t x)" "k \<le> sent_of (ep t x) a"
    by (metis Inr_inject prod.inject)
  let ?t = "take_dec x m (set_end x s' t)"
  have d: "decs_of t y c = decs_of ?t y c + (if y = x \<and> c = a then k else 0)" for y c
    using decs_of_member [OF m, of c] l(2,3) by (cases "y = x") (auto simp: decs_of_def dec_amount_msg)
  have "ledger ?t"
    unfolding ledger_def
  proof (intro allI)
    fix y c
    show "sent_of (ep ?t y) c = recd_of (ep ?t (\<not> y)) c + count (refs ?t (\<not> y)) c + decs_of ?t y c"
      using ledgerD [OF t, of y c] d [of y c] l(4,5,6) by (cases "y = x") (auto split: if_splits)
  qed
  moreover have "\<exists>a k. m' = dec_msg a k \<and> 0 < k \<and> k < 4294967296" if "m' \<in># decs ?t y" for y m'
  proof -
    have "m' \<in># decs t y" using that by (cases "y = x") (auto dest: in_diffD)
    with t show ?thesis unfolding two_inv_def by blast
  qed
  ultimately show ?thesis using t l(1) by (auto simp: two_inv_def)
qed

lemma last_ref_inv:
  assumes t: "two_inv t" and n: "node_at (ep t x) a = Some n" "isRemote (ep t x) (bn_binder n)" "sentRef n = None"
  shows "two_inv (lose x (bn_binder n) t)"
proof -
  let ?D = "insert (bn_binder n) (dead t x)"
  note e = end_okD [OF two_inv_end [OF t], where x = x]
  have sent: "timesSent n = 0" using e(4) [OF n(1)] n(3) by (auto simp: node_ok_def split: if_splits)
  have "node_ok (ep t x) x ?D c m" if "node_at (ep t x) c = Some m" for c m
  proof (cases "bn_binder m = bn_binder n")
    case True
    with e(5) [OF that n(1)] that n(1) have "m = n" by simp
    with e(4) [OF that] sent show ?thesis by (auto simp: node_ok_def)
  qed (use e(4) [OF that] in \<open>auto simp: node_ok_def\<close>)
  moreover have "bn_binder n < next_obj (ep t x)" using e(4) [OF n(1)] by (simp add: node_ok_def)
  ultimately have "end_ok (ep t x) x ?D"
    unfolding end_ok_def using e(1,2,3,5,6,7) n(2) by (auto simp: isRemote_def)
  with t show ?thesis by (auto simp: two_inv_def ledger_def)
qed

lemma rpc_step_inv:
  assumes "two_inv t" and "rpc_step t e t'"
  shows "two_inv t'"
  using assms(2)
proof (cases rule: rpc_step.cases)
  case (flush_step x a n E st s')
  have "owns x a"
    using two_inv_node [OF assms(1) flush_step(3)] flush_step(4) by (auto simp: node_ok_def isRemote_def split: if_splits)
  then show ?thesis
    unfolding flush_step using give_back_inv [OF assms(1) flush_step(3) _ _ flush_step(6)] flush_step(5) by (simp add: env_fits_def)
next
  case (release_step x a n E st s')
  then show ?thesis
    using give_back_inv [OF assms(1) release_step(3) _ _ release_step(6)] by (simp add: env_fits_def)
qed (use assms(1) in \<open>auto intro: send_inv receive_inv deliver_inv last_ref_inv\<close>)

lemma rpc_start_inv: "rpc_start t \<Longrightarrow> two_inv t"
  by (auto simp: rpc_start_def two_inv_def end_ok_def ledger_def sent_of_def recd_of_def decs_of_def RBT.lookup_empty)

lemma reach_two_inv: "rpc.reach t \<Longrightarrow> two_inv t"
  by (rule rpc.invariant_rule [where I = two_inv]) (auto intro: rpc_start_inv rpc_step_inv)

section \<open>Facts about runs\<close>

text \<open>Surroundings in which exactly the proxies without strong reference are not alive.\<close>

definition the_env :: "two_party \<Rightarrow> bool \<Rightarrow> rpc_env" where
  "the_env t x = \<lparr>live = (\<lambda>b. b \<notin> dead t x), send_status = (\<lambda>_. OK), recv_fail = DEAD_OBJECT,
     can_allocate = (\<lambda>_. True), find_connection = OK, write_polls = 0\<rparr>"

lemma the_env_fits:
  assumes "two_inv t"
  shows "env_fits t x (the_env t x)"
proof -
  have "bn_binder n \<notin> dead t x" if "node_at (ep t x) a = Some n" "sentRef n \<noteq> None" for a n
    using two_inv_node [OF assms that(1)] that(2) end_okD(7) [OF two_inv_end [OF assms]]
    by (auto simp: node_ok_def split: if_splits)
  then show ?thesis by (auto simp: env_fits_def good_transport_def the_env_def)
qed

lemma nothing_left:
  assumes t: "two_inv t" and own: "owns x a" and "sent_of (ep t x) a = 0"
  shows "node_at (ep t (\<not> x)) a = None" and "count (refs t (\<not> x)) a = 0" and "count (refs t x) a = 0"
    and "recd_of (ep t x) a = 0" and "node_at (ep t x) a = None"
proof -
  have zero: "recd_of (ep t (\<not> x)) a = 0" "count (refs t (\<not> x)) a = 0" using ledgerD [OF t, of x a] assms(3) by simp_all
  show other: "node_at (ep t (\<not> x)) a = None"
  proof (rule ccontr)
    assume "node_at (ep t (\<not> x)) a \<noteq> None"
    then obtain n where "node_at (ep t (\<not> x)) a = Some n" by blast
    with two_inv_node [OF t this] owns_other [OF own] zero(1) show False
      by (auto simp: node_ok_def recd_of_def)
  qed
  then have "sent_of (ep t (\<not> x)) a = 0" by (simp add: sent_of_def)
  then show "recd_of (ep t x) a = 0" "count (refs t x) a = 0" using ledgerD [OF t, of "\<not> x" a] by simp_all
  then show "node_at (ep t x) a = None"
    using two_inv_node [OF t, of x a] assms(3)
    by (cases "node_at (ep t x) a") (auto simp: node_ok_def sent_of_def recd_of_def)
  show "count (refs t (\<not> x)) a = 0" by (rule zero(2))
qed

inductive rpc_trace :: "two_party \<Rightarrow> rpc_event list \<Rightarrow> two_party \<Rightarrow> bool" where
  trace_nil: "rpc_trace t [] t"
| trace_cons: "rpc_step t e u \<Longrightarrow> rpc_trace u es v \<Longrightarrow> rpc_trace t (e # es) v"

text \<open>A session in which each end has one local binder.\<close>

definition fresh_end :: "bool \<Rightarrow> rpc_state" where
  "fresh_end x = \<lparr>mTerminated = False, mNextId = 0, mNodeForAddress = RBT.empty,
     rpc_objs = (\<lambda>_. \<lparr>bo_kind = LocalBinder, bo_stability = \<lparr>is_local = True, mStability = 0\<rparr>, bo_parceled = False\<rparr>), next_obj = 1,
     for_server = x, session = 0, mId = [], mMaxIncomingThreads = 1, session_root = None, server_root = Some 0,
     triggered = False, wire_in = [], wire_out = [], obituaries = [], executed = []\<rparr>"

definition fresh_session :: two_party where
  "fresh_session = \<lparr>ep = fresh_end, refs = (\<lambda>_. {#}), decs = (\<lambda>_. {#}), dead = (\<lambda>_. {})\<rparr>"

lemma fresh_session_start: "rpc_start fresh_session"
  by (simp add: rpc_start_def fresh_session_def fresh_end_def)

definition addr0 :: u64 where "addr0 = new_address True 0"

text \<open>The server sends its binder once.\<close>

definition server1 :: rpc_state where
  "server1 = (set_node addr0 (fresh_node 0) (fresh_end True))\<lparr>mNextId := 1\<rparr>"

definition sent_once :: two_party where
  "sent_once = add_ref False addr0 (set_end True server1 fresh_session)"

lemma entries_empty [simp]: "RBT.entries RBT.empty = []"
  using card_dom_entries [of RBT.empty] by (simp add: RBT.lookup_empty)

lemma first_send: "onBinderLeaving 0 (fresh_end True) = Inr (Inr addr0, server1)"
  by (simp add: onBinderLeaving_def isRpc_def isRemote_def fresh_end_def find_binder_def assign_address_unfold
      server1_def addr0_def fresh_node_def)

lemma sent_once_step: "rpc_step fresh_session (Send True 0) sent_once"
proof -
  have "rpc_step fresh_session (Send True 0) (add_ref (\<not> True) addr0 (set_end True server1 fresh_session))"
    by (rule send_step) (simp_all add: fresh_session_def first_send, simp_all add: fresh_end_def find_binder_def)
  then show ?thesis by (simp add: sent_once_def)
qed

lemma sent_once_reach: "rpc.reach sent_once"
  by (rule rpc.reach_step [OF rpc.reach_init [OF fresh_session_start] sent_once_step])

section \<open>Properties\<close>

text \<open>C5: No reference is lost or invented between the two ends of an RPC session, in whatever order the
  threads handle what is in flight. Every reference an end has given out for an address is held by the
  other end, on its way there, or on its way back. When an end that owns an address has no count
  left for it, neither end has an entry for it and nothing with it is in flight, so that it can be
  given to another binder; in particular an entry goes away once the other end has let go.\<close>

theorem rpc_references_conserved:
  assumes "rpc.reach t"
  shows "sent_of (ep t x) a = recd_of (ep t (\<not> x)) a + count (refs t (\<not> x)) a + decs_of t x a \<and>
    (owns x a \<and> sent_of (ep t x) a = 0 \<longrightarrow>
      node_at (ep t x) a = None \<and> node_at (ep t (\<not> x)) a = None \<and> a \<notin># refs t x + refs t (\<not> x))"
proof -
  note t = reach_two_inv [OF assms]
  show ?thesis using ledgerD [OF t] nothing_left [OF t, of x a] by (simp add: count_eq_zero_iff)
qed

theorem rpc_references_conserved_witness:
  "sent_of (ep sent_once True) addr0 = 1 \<and> count (refs sent_once False) addr0 = 1 \<and>
   sent_of (ep sent_once True) addr0 =
     recd_of (ep sent_once (\<not> True)) addr0 + count (refs sent_once (\<not> True)) addr0 + decs_of sent_once True addr0 \<and>
   node_at (ep sent_once True) (new_address True 1) = None"
proof -
  have "node_at (ep sent_once True) addr0 = Some (fresh_node 0)"
    "sent_of (ep sent_once True) (new_address True 1) = 0"
    by (simp_all add: sent_once_def server1_def sent_of_def fresh_end_def RBT.lookup_empty addr0_def new_address_inject)
  moreover have "count (refs sent_once False) addr0 = 1" by (simp add: sent_once_def fresh_session_def)
  moreover have "owns True (new_address True 1)" by (auto simp: owns_def)
  ultimately show ?thesis
    using rpc_references_conserved [OF sent_once_reach, of True addr0]
      rpc_references_conserved [OF sent_once_reach, of True "new_address True 1"]
    by (simp add: sent_of_def fresh_node_def)
qed



text \<open>C36: onBinderLeaving returns: the search for an unused address ends, whatever addresses are in use and
  wherever the counter stands. A local binder that is not in the table yet gets an address no entry
  has, with the options of its creator, and an entry with one reference sent; no other entry changes.\<close>

theorem onBinderLeaving_returns:
  "onBinderLeaving b s \<noteq> Inl Hang \<and>
   (\<not> isRemote s b \<and> \<not> mTerminated s \<and> find_binder b (mNodeForAddress s) = None \<and> countBinders s \<le> 100000 \<longrightarrow>
    (\<exists>a i s'. onBinderLeaving b s = Inr (Inr a, s') \<and> a = new_address (for_server s) i \<and> node_at s a = None \<and>
      (\<forall>a'. node_at s' a' = (if a' = a then Some (fresh_node b) else node_at s a'))))"
proof (cases "length (RBT.entries (mNodeForAddress s)) \<le> 100000")
  case True
  then have "length (RBT.entries (mNodeForAddress s)) < 4294967296" by simp
  then obtain a j where "assign_address (for_server s) (mNodeForAddress s) (mNextId s) = Some (a, j)"
    "node_at s a = None" "\<exists>m. a = new_address (for_server s) m"
    using assign_address_total by metis
  with True show ?thesis
    by (auto simp: onBinderLeaving_def isRemote_def isRpc_def countBinders_def fresh_node_def split: option.splits)
next
  case False
  then show ?thesis by (auto simp: onBinderLeaving_def countBinders_def split: option.splits)
qed

theorem onBinderLeaving_returns_witness:
  "\<exists>a i s'. onBinderLeaving 0 (fresh_end True) = Inr (Inr a, s') \<and> a = new_address True i \<and>
     node_at s' a = Some (fresh_node 0)"
proof -
  have "\<not> isRemote (fresh_end True) 0" "\<not> mTerminated (fresh_end True)" "for_server (fresh_end True)"
    "find_binder 0 (mNodeForAddress (fresh_end True)) = None" "countBinders (fresh_end True) \<le> 100000"
    by (simp_all add: fresh_end_def isRemote_def find_binder_def countBinders_def)
  with onBinderLeaving_returns [of 0 "fresh_end True"] show ?thesis by auto
qed

section \<open>A race between the end of a proxy and the arrival of its address\<close>

definition client1 :: rpc_state where
  "client1 = set_node addr0 (proxy_node 1) (snd (create_proxy addr0 (fresh_end False)))"

definition received_once :: two_party where
  "received_once = take_ref False addr0 (set_end False client1 sent_once)"

definition server2 :: rpc_state where
  "server2 = set_node addr0 ((fresh_node 0)\<lparr>timesSent := 2, sentRef := Some 0\<rparr>) server1"

definition sent_twice :: two_party where
  "sent_twice = add_ref False addr0 (set_end True server2 (lose False 1 received_once))"

lemma server1_node: "node_at server1 a = (if a = addr0 then Some (fresh_node 0) else None)"
  by (simp add: server1_def fresh_end_def RBT.lookup_empty)

lemma find_server1: "find_binder 0 (mNodeForAddress server1) = Some (addr0, fresh_node 0)"
proof (cases "find_binder 0 (mNodeForAddress server1)")
  case None
  from find_binder_NoneD [OF this, of addr0] show ?thesis by (simp add: server1_node fresh_node_def)
next
  case (Some p)
  with find_binder_SomeD [of 0 "mNodeForAddress server1" "fst p" "snd p"] show ?thesis
    by (cases p) (auto simp: server1_node split: if_splits)
qed

lemma second_send: "onBinderLeaving 0 server1 = Inr (Inr addr0, server2)"
  by (simp add: onBinderLeaving_def find_server1 server2_def isRpc_def isRemote_def)
    (simp add: server1_def fresh_end_def fresh_node_def size_add_def numeral_2_eq_2)

lemma client_receives:
  "onBinderEntering E addr0 (fresh_end False) = (Inr (Some 1), client1)"
  using onBinderEntering_unknown [of "fresh_end False" addr0 0 E]
  by (simp add: client1_def fresh_end_def RBT.lookup_empty addr0_def)

lemma race_trace:
  "rpc_trace fresh_session [Send True 0, Receive False addr0, LastRef False 1, Send True 0] sent_twice"
proof -
  have fits: "env_fits sent_once False (the_env sent_once False)"
    by (rule the_env_fits [OF reach_two_inv [OF sent_once_reach]])
  have other: "ep sent_once False = fresh_end False" by (simp add: sent_once_def fresh_session_def)
  have "rpc_step sent_once (Receive False addr0) received_once"
    unfolding received_once_def
    by (rule receive_step [OF _ fits]) (simp_all add: other client_receives, simp add: sent_once_def)
  moreover have "rpc_step received_once (LastRef False 1) (lose False 1 received_once)"
    using last_ref_step [of received_once False addr0 "proxy_node 1"]
    by (simp add: received_once_def client1_def proxy_node_def isRemote_def create_proxy_def fresh_end_def)
  moreover have "rpc_step (lose False 1 received_once) (Send True 0) sent_twice"
  proof -
    have "ep (lose False 1 received_once) True = server1"
      by (simp add: received_once_def sent_once_def)
    then show ?thesis
      using send_step [of 0 "lose False 1 received_once" True addr0 server2]
      by (simp add: sent_twice_def second_send find_server1 fresh_node_def)
        (simp add: received_once_def sent_once_def fresh_session_def server1_def fresh_end_def)
  qed
  ultimately show ?thesis using sent_once_step by (blast intro: trace_nil trace_cons)
qed

text \<open>C39: A proxy can be dereferenced as a null pointer between well-behaved ends. If the last strong
  reference of a proxy goes and its address arrives once more before the release is sent, then
  onBinderEntering succeeds with a null binder, which Parcel::unflattenBinder passes on to
  flushExcessBinderRefs, where it is dereferenced.\<close>

theorem dying_proxy_faults:
  "\<exists>t E s'. rpc_trace fresh_session [Send True 0, Receive False addr0, LastRef False 1, Send True 0] t \<and>
     addr0 \<in># refs t False \<and> env_fits t False E \<and>
     onBinderEntering E addr0 (ep t False) = (Inr None, s') \<and> flushExcessBinderRefs E addr0 None s' = Inl Fault"
proof -
  have "rpc.reach t \<Longrightarrow> rpc_trace t es u \<Longrightarrow> rpc.reach u" for t es u
    by (rotate_tac, induction rule: rpc_trace.induct) (auto intro: rpc.reach_step)
  then have "rpc.reach sent_twice" using race_trace rpc.reach_init [OF fresh_session_start] by blast
  then have fits: "env_fits sent_twice False (the_env sent_twice False)" by (rule the_env_fits [OF reach_two_inv])
  have sent_twice: "ep sent_twice False = client1" "1 \<in> dead sent_twice False" "addr0 \<in># refs sent_twice False"
    by (simp_all add: sent_twice_def received_once_def)
  moreover have "\<exists>s'. onBinderEntering (the_env sent_twice False) addr0 client1 = (Inr None, s')"
    using onBinderEntering_known [of client1 addr0 "proxy_node 1" "the_env sent_twice False"] sent_twice(2)
    by (auto simp: client1_def create_proxy_def fresh_end_def addr0_def proxy_node_def promote_def the_env_def)
  ultimately obtain s' where "onBinderEntering (the_env sent_twice False) addr0 (ep sent_twice False) = (Inr None, s')"
    by auto
  moreover have "flushExcessBinderRefs (the_env sent_twice False) addr0 None s' = Inl Fault"
    by (simp add: flushExcessBinderRefs_def)
  ultimately show ?thesis using race_trace fits sent_twice(3) by blast
qed

end
