(* ===== verification/Rpc_Commands.thy ===== *)
theory Rpc_Commands
  imports Rpc_State Parcel_Objects
begin

text \<open>
  Commands of an RPC session (src/libs/binder/RpcState.cpp): transactions in both directions, replies
  and the loop that reads commands, with the binders in RPC parcels (Parcel::flattenBinder and
  unflattenBinder of src/libs/binder/Parcel.cpp). transact of the target binder is the application's
  code and a parameter, \<open>handler\<close>: it gets the data and the reply parcel and may use the session.
  A loop of the code that need not end is a partial function, whose value is \<open>None\<close> when it does
  not. Logging, the wait between polls and the flag allowNested of a connection are left out.
\<close>

section \<open>Binders in RPC parcels\<close>

definition stability_of :: "rpc_state \<Rightarrow> rpc_binder option \<Rightarrow> stable_binder option" where
  "stability_of s obj = map_option (\<lambda>b. bo_stability (rpc_objs s b)) obj"

definition set_stability :: "rpc_binder option \<Rightarrow> stable_binder option \<Rightarrow> rpc_state \<Rightarrow> rpc_state" where
  "set_stability obj st s =
     (case (obj, st) of
        (Some b, Some x) \<Rightarrow> s\<lparr>rpc_objs := (rpc_objs s)(b := (rpc_objs s b)\<lparr>bo_stability := x\<rparr>)\<rparr>
      | _ \<Rightarrow> s)"

type_synonym 'a parcel_rpc_run = "crash + 'a \<times> parcel \<times> rpc_state"

definition finishFlattenBinder :: "bool \<Rightarrow> env \<Rightarrow> rpc_binder option \<Rightarrow> parcel \<Rightarrow> rpc_state \<Rightarrow> status_t parcel_rpc_run" where
  "finishFlattenBinder vndk E obj p s =
     (let s = set_stability obj (tryMarkCompilationUnit vndk (stability_of s obj)) s;
          rep = getRepr (stability_of s obj) in
      bind_run (writeInt32 E (of_int rep) p) (\<lambda>(st, p). Inr (st, p, s)))"

definition setParceled_local :: "rpc_binder option \<Rightarrow> rpc_state \<Rightarrow> rpc_state" where
  "setParceled_local obj s =
     (case obj of
        Some b \<Rightarrow> if isRemote s b then s else s\<lparr>rpc_objs := (rpc_objs s)(b := (rpc_objs s b)\<lparr>bo_parceled := True\<rparr>)\<rparr>
      | None \<Rightarrow> s)"

definition flattenBinder_rpc :: "bool \<Rightarrow> env \<Rightarrow> rpc_binder option \<Rightarrow> parcel \<Rightarrow> rpc_state \<Rightarrow> status_t parcel_rpc_run" where
  "flattenBinder_rpc vndk E obj p s =
     (let s = setParceled_local obj s in
      case obj of
        Some b \<Rightarrow>
          bind_run (writeInt32 E 1 p) (\<lambda>(status, p).
          if status \<noteq> OK then Inr (status, p, s)
          else bind_run (onBinderLeaving b s) (\<lambda>(r, s).
            case r of
              Inl status \<Rightarrow> Inr (status, p, s)
            | Inr a \<Rightarrow>
                bind_run (writeUint64 E a p) (\<lambda>(status, p).
                if status \<noteq> OK then Inr (status, p, s) else finishFlattenBinder vndk E obj p s)))
      | None \<Rightarrow>
          bind_run (writeInt32 E 0 p) (\<lambda>(status, p).
          if status \<noteq> OK then Inr (status, p, s) else finishFlattenBinder vndk E obj p s))"

definition finishUnflattenBinder ::
  "env \<Rightarrow> rpc_binder option \<Rightarrow> parcel \<Rightarrow> rpc_state \<Rightarrow> (status_t + rpc_binder option) parcel_rpc_run" where
  "finishUnflattenBinder E obj p s =
     bind_run (readInt32 E p) (\<lambda>(r, p).
     case r of
       Inl status \<Rightarrow> Inr (Inl status, p, s)
     | Inr stab \<Rightarrow>
         (case setRepr (stability_of s obj) (sint (ucast stab :: u16)) REPR_LOG of
            (status, st) \<Rightarrow>
              if status \<noteq> OK then Inr (Inl status, p, s) else Inr (Inr obj, p, set_stability obj st s)))"

definition unflattenBinder_rpc :: "env \<Rightarrow> rpc_env \<Rightarrow> parcel \<Rightarrow> rpc_state \<Rightarrow> (status_t + rpc_binder option) parcel_rpc_run" where
  "unflattenBinder_rpc E R p s =
     bind_run (readInt32 E p) (\<lambda>(r, p).
     case r of
       Inl status \<Rightarrow> Inr (Inl status, p, s)
     | Inr isPresent \<Rightarrow>
         if isPresent AND 1 = 0 then finishUnflattenBinder E None p s
         else bind_run (readUint64 E p) (\<lambda>(r, p).
           case r of
             Inl status \<Rightarrow> Inr (Inl status, p, s)
           | Inr a \<Rightarrow>
               (case onBinderEntering R a s of
                  (Inl status, s) \<Rightarrow> Inr (Inl status, p, s)
                | (Inr obj, s) \<Rightarrow>
                    bind_run (flushExcessBinderRefs R a obj s) (\<lambda>(status, s).
                    if status \<noteq> OK then Inr (Inl status, p, s) else finishUnflattenBinder E obj p s))))"

section \<open>Incoming transactions\<close>

record RpcWireTransaction =
  tx_address :: u64
  tx_code :: u32
  tx_flags :: u32
  tx_number :: u64

definition enc_transaction :: "RpcWireTransaction \<Rightarrow> byte list" where
  "enc_transaction t = enc64 (tx_address t) @ enc32 (tx_code t) @ enc32 (tx_flags t) @ enc64 (tx_number t) @ replicate 16 0"

definition dec_transaction :: "byte list \<Rightarrow> RpcWireTransaction" where
  "dec_transaction bs = \<lparr>tx_address = dec64 (peek 0 8 bs), tx_code = dec32 (peek 8 4 bs), tx_flags = dec32 (peek 12 4 bs),
     tx_number = dec64 (peek 16 8 bs)\<rparr>"

abbreviation FLAG_ONEWAY :: u32 where "FLAG_ONEWAY \<equiv> 1"

definition oneway :: "RpcWireTransaction \<Rightarrow> bool" where
  "oneway t \<longleftrightarrow> tx_flags t AND FLAG_ONEWAY \<noteq> 0"

text \<open>The priority queue of a node: the smallest number is on top. The library leaves open which of
  several entries with the same number that is; here it is the oldest.\<close>

fun push_todo :: "async_todo \<Rightarrow> async_todo list \<Rightarrow> async_todo list" where
  "push_todo t [] = [t]"
| "push_todo t (u # us) = (if todo_number t < todo_number u then t # u # us else u # push_todo t us)"

text \<open>The code before the call of the target: it returns, or goes on with a status and a target.\<close>

datatype tx_outcome = Return status_t | Go status_t "rpc_binder option"

definition enqueue :: "rpc_env \<Rightarrow> u64 \<Rightarrow> binder_node \<Rightarrow> async_todo \<Rightarrow> rpc_state \<Rightarrow> tx_outcome rpc_run" where
  "enqueue R a n todo s =
     (let n = n\<lparr>asyncTodo := push_todo todo (asyncTodo n)\<rparr>; s = set_node a n s in
      if length (asyncTodo n) \<ge> 10000 then shutdown_with R (Return FAILED_TRANSACTION) s
      else Inr (Return OK, s))"

definition resolve_target :: "rpc_env \<Rightarrow> byte list \<Rightarrow> rpc_binder option \<Rightarrow> rpc_state \<Rightarrow> tx_outcome rpc_run" where
  "resolve_target R dat target s =
     (let t = dec_transaction dat; a = tx_address t in
      if a = 0 then Inr (Go OK target, s)
      else case (case target of
          Some b \<Rightarrow> (Inr (Some b), s)
        | None \<Rightarrow> onBinderEntering R a s) of
        (Inl replyStatus, s) \<Rightarrow> Inr (Go replyStatus None, s)
      | (Inr None, s) \<Rightarrow> shutdown_with R (Go BAD_VALUE None) s
      | (Inr (Some b), s) \<Rightarrow>
          if isRemote s b then shutdown_with R (Go BAD_VALUE (Some b)) s
          else if oneway t
          then (case node_at s a of
              None \<Rightarrow> Inl Fault
            | Some n \<Rightarrow>
                if promote R (bn_binder n) \<noteq> Some b then Inr (Go BAD_VALUE (Some b), s)
                else if tx_number t \<noteq> asyncNumber n
                then enqueue R a n \<lparr>todo_ref = b, todo_data = dat, todo_number = tx_number t\<rparr> s
                else Inr (Go OK (Some b), s))
          else Inr (Go OK (Some b), s))"

type_synonym handler = "rpc_binder \<Rightarrow> u32 \<Rightarrow> parcel \<Rightarrow> parcel \<Rightarrow> u32 \<Rightarrow> rpc_state \<Rightarrow> (status_t \<times> parcel) rpc_run"

text \<open>Transactions without address.\<close>

definition special_transact :: "bool \<Rightarrow> env \<Rightarrow> u32 \<Rightarrow> parcel \<Rightarrow> rpc_state \<Rightarrow> (status_t \<times> parcel) rpc_run" where
  "special_transact vndk E code reply s =
     (if code = 1
      then bind_run (writeInt32 E (of_nat (mMaxIncomingThreads s)) reply) (\<lambda>(st, reply). Inr ((st, reply), s))
      else if code = 2
      then bind_run (writePodVector (\<lambda>b. [b]) 1 E (mId s) reply) (\<lambda>(st, reply). Inr ((st, reply), s))
      else if for_server s
      then if code = 0
        then bind_run (flattenBinder_rpc vndk E (if session_root s \<noteq> None then session_root s else server_root s) reply s)
               (\<lambda>(st, reply, s). Inr ((st, reply), s))
        else Inr ((UNKNOWN_TRANSACTION, reply), s)
      else Inr ((OK, reply), s))"

definition call_target ::
  "bool \<Rightarrow> env \<Rightarrow> handler \<Rightarrow> byte list \<Rightarrow> status_t \<Rightarrow> rpc_binder option \<Rightarrow> rpc_state \<Rightarrow> (status_t \<times> parcel) rpc_run" where
  "call_target vndk E h dat replyStatus target s =
     (let t = dec_transaction dat in
      bind_run (markForRpc (Some (session s)) Parcel) (\<lambda>reply.
      if replyStatus \<noteq> OK then Inr ((replyStatus, reply), s)
      else
        bind_run (ipcSetDataReference E (drop 40 dat) [] True Parcel) (\<lambda>p.
        bind_run (markForRpc (Some (session s)) p) (\<lambda>p.
        case target of
          Some b \<Rightarrow> h b (tx_code t) p reply (tx_flags t)
                     (s\<lparr>executed := executed s @ [(tx_address t, tx_number t, drop 40 dat)]\<rparr>)
        | None \<Rightarrow> special_transact vndk E (tx_code t) reply s))))"

definition send_reply :: "rpc_env \<Rightarrow> status_t \<Rightarrow> parcel \<Rightarrow> rpc_state \<Rightarrow> status_t rpc_run" where
  "send_reply R replyStatus reply s =
     (if dataSize reply > INT32_MAX - 16 - 4 then Inl Abort
      else send_command R RPC_COMMAND_REPLY
        (enc32 (of_int replyStatus) @ (case mData reply of None \<Rightarrow> [] | Some b \<Rightarrow> take (dataSize reply) b)) s)"

text \<open>What follows a oneway call: the transaction to process next, or the end of the function.\<close>

definition next_async :: "rpc_env \<Rightarrow> u64 \<Rightarrow> status_t \<Rightarrow> rpc_binder option \<Rightarrow> rpc_state \<Rightarrow> (status_t + byte list) rpc_run" where
  "next_async R a replyStatus target s =
     (case node_at s a of
        None \<Rightarrow> Inr (Inl OK, s)
      | Some n \<Rightarrow>
          (case nodeProgressAsyncNumber n of
             None \<Rightarrow> shutdown_with R (Inl DEAD_OBJECT) s
           | Some n \<Rightarrow>
               let s = set_node a n s in
               (case asyncTodo n of
                  [] \<Rightarrow> Inr (Inl OK, s)
                | todo # rest \<Rightarrow>
                    if todo_number todo = asyncNumber n
                    then if target \<noteq> Some (todo_ref todo) then Inl Abort
                         else Inr (Inr (todo_data todo), set_node a (n\<lparr>asyncTodo := rest\<rparr>) s)
                    else if a \<noteq> 0 \<and> replyStatus = OK
                    then bind_run (flushExcessBinderRefs R a target s) (\<lambda>(st, s). Inr (Inl st, s))
                    else Inr (Inl OK, s))))"

definition finish_sync :: "rpc_env \<Rightarrow> u64 \<Rightarrow> status_t \<Rightarrow> rpc_binder option \<Rightarrow> parcel \<Rightarrow> rpc_state \<Rightarrow> status_t rpc_run" where
  "finish_sync R a replyStatus target reply s =
     bind_run (if a \<noteq> 0 \<and> replyStatus = OK then flushExcessBinderRefs R a target s else Inr (replyStatus, s))
       (\<lambda>(replyStatus, s). send_reply R replyStatus reply s)"

partial_function (option) processTransactInternal ::
  "bool \<Rightarrow> env \<Rightarrow> rpc_env \<Rightarrow> handler \<Rightarrow> rpc_binder option \<Rightarrow> byte list \<Rightarrow> rpc_state \<Rightarrow> (status_t rpc_run) option" where
  "processTransactInternal vndk E R h target dat s =
     (if length dat < 40 then Some (shutdown_with R BAD_VALUE s)
      else (case resolve_target R dat target s of
          Inl c \<Rightarrow> Some (Inl c)
        | Inr (Return st, s) \<Rightarrow> Some (Inr (st, s))
        | Inr (Go replyStatus target, s) \<Rightarrow>
            (case call_target vndk E h dat replyStatus target s of
               Inl c \<Rightarrow> Some (Inl c)
             | Inr ((replyStatus, reply), s) \<Rightarrow>
                 if oneway (dec_transaction dat)
                 then (case next_async R (tx_address (dec_transaction dat)) replyStatus target s of
                     Inl c \<Rightarrow> Some (Inl c)
                   | Inr (Inl st, s) \<Rightarrow> Some (Inr (st, s))
                   | Inr (Inr dat, s) \<Rightarrow> processTransactInternal vndk E R h target dat s)
                 else Some (finish_sync R (tx_address (dec_transaction dat)) replyStatus target reply s))))"

section \<open>The command loop\<close>

datatype CommandType = ANY | CONTROL_ONLY

definition processTransact ::
  "bool \<Rightarrow> env \<Rightarrow> rpc_env \<Rightarrow> handler \<Rightarrow> RpcWireHeader \<Rightarrow> rpc_state \<Rightarrow> (status_t rpc_run) option" where
  "processTransact vndk E R h cmd s =
     (if command cmd \<noteq> RPC_COMMAND_TRANSACT then Some (Inl Abort)
      else if \<not> command_data_valid R (unat (bodySize cmd)) then Some (Inr (NO_MEMORY, s))
      else and_then (Some (rpcRec R (unat (bodySize cmd)) s)) (\<lambda>(r, s).
        case r of Inl st \<Rightarrow> Some (Inr (st, s))
        | Inr dat \<Rightarrow> processTransactInternal vndk E R h None dat s))"

definition processCommand ::
  "bool \<Rightarrow> env \<Rightarrow> rpc_env \<Rightarrow> handler \<Rightarrow> RpcWireHeader \<Rightarrow> CommandType \<Rightarrow> rpc_state \<Rightarrow> (status_t rpc_run) option" where
  "processCommand vndk E R h cmd type s =
     (if command cmd = RPC_COMMAND_TRANSACT
      then if type \<noteq> ANY then Some (Inr (BAD_TYPE, s)) else processTransact vndk E R h cmd s
      else if command cmd = RPC_COMMAND_DEC_STRONG then Some (processDecStrong R cmd s)
      else Some (shutdown_with R DEAD_OBJECT s))"

definition getAndExecuteCommand ::
  "bool \<Rightarrow> env \<Rightarrow> rpc_env \<Rightarrow> handler \<Rightarrow> CommandType \<Rightarrow> rpc_state \<Rightarrow> (status_t rpc_run) option" where
  "getAndExecuteCommand vndk E R h type s =
     and_then (Some (rpcRec R 16 s)) (\<lambda>(r, s).
     case r of Inl st \<Rightarrow> Some (Inr (st, s))
     | Inr bs \<Rightarrow> processCommand vndk E R h (dec_header bs) type s)"

text \<open>The peek before each command finds whether there is input.\<close>

partial_function (option) drainCommands ::
  "bool \<Rightarrow> env \<Rightarrow> rpc_env \<Rightarrow> handler \<Rightarrow> CommandType \<Rightarrow> rpc_state \<Rightarrow> (status_t rpc_run) option" where
  "drainCommands vndk E R h type s =
     (if wire_in s = [] then Some (Inr (OK, s))
      else and_then (getAndExecuteCommand vndk E R h type s) (\<lambda>(st, s).
        if st \<noteq> OK then Some (Inr (st, s)) else drainCommands vndk E R h type s))"

definition take_reply :: "env \<Rightarrow> rpc_env \<Rightarrow> nat \<Rightarrow> parcel \<Rightarrow> rpc_state \<Rightarrow> (status_t \<times> parcel) rpc_run" where
  "take_reply E R len reply s =
     (if \<not> command_data_valid R len then Inr ((NO_MEMORY, reply), s)
      else bind_run (rpcRec R len s) (\<lambda>(r, s).
        case r of
          Inl st \<Rightarrow> Inr ((st, reply), s)
        | Inr dat \<Rightarrow>
            if len < 4 then shutdown_with R (BAD_VALUE, reply) s
            else let status = sint (dec32 (peek 0 4 dat)) in
              if status \<noteq> OK then Inr ((status, reply), s)
              else bind_run (ipcSetDataReference E (drop 4 dat) [] True reply) (\<lambda>reply.
                   bind_run (markForRpc (Some (session s)) reply) (\<lambda>reply. Inr ((OK, reply), s)))))"

partial_function (option) waitForReply ::
  "bool \<Rightarrow> env \<Rightarrow> rpc_env \<Rightarrow> handler \<Rightarrow> parcel \<Rightarrow> rpc_state \<Rightarrow> ((status_t \<times> parcel) rpc_run) option" where
  "waitForReply vndk E R h reply s =
     and_then (Some (rpcRec R 16 s)) (\<lambda>(r, s).
     case r of
       Inl st \<Rightarrow> Some (Inr ((st, reply), s))
     | Inr bs \<Rightarrow>
         if command (dec_header bs) = RPC_COMMAND_REPLY
         then Some (take_reply E R (unat (bodySize (dec_header bs))) reply s)
         else and_then (processCommand vndk E R h (dec_header bs) ANY s) (\<lambda>(st, s).
           if st \<noteq> OK then Some (Inr ((st, reply), s)) else waitForReply vndk E R h reply s))"

section \<open>Outgoing transactions\<close>

text \<open>While the socket is full the transport polls, and each poll handles reference counts that arrived.\<close>

fun poll_refs :: "bool \<Rightarrow> env \<Rightarrow> rpc_env \<Rightarrow> handler \<Rightarrow> nat \<Rightarrow> rpc_state \<Rightarrow> (status_t rpc_run) option" where
  "poll_refs vndk E R h 0 s = Some (Inr (OK, s))"
| "poll_refs vndk E R h (Suc k) s =
     and_then (drainCommands vndk E R h CONTROL_ONLY s) (\<lambda>(st, s).
     if st \<noteq> OK then Some (Inr (st, s))
     else if triggered s then Some (Inr (DEAD_OBJECT, s)) else poll_refs vndk E R h k s)"

definition rpcSend_polling :: "bool \<Rightarrow> env \<Rightarrow> rpc_env \<Rightarrow> handler \<Rightarrow> byte list \<Rightarrow> rpc_state \<Rightarrow> (status_t rpc_run) option" where
  "rpcSend_polling vndk E R h bs s =
     (if triggered s then Some (shutdown_with R DEAD_OBJECT s)
      else and_then (poll_refs vndk E R h (write_polls R) s) (\<lambda>(st, s).
        Some (if st \<noteq> OK then shutdown_with R st s else rpcSend R bs s)))"

text \<open>The number of an asynchronous transaction, under the lock.\<close>

definition take_number :: "rpc_env \<Rightarrow> u64 \<Rightarrow> u32 \<Rightarrow> rpc_state \<Rightarrow> (status_t + u64) rpc_run" where
  "take_number R a flags s =
     (if a = 0 then Inr (Inr 0, s)
      else if mTerminated s then Inr (Inl DEAD_OBJECT, s)
      else case node_at s a of
        None \<Rightarrow> Inl Abort
      | Some n \<Rightarrow>
          if flags AND FLAG_ONEWAY = 0 then Inr (Inr 0, s)
          else (case nodeProgressAsyncNumber n of
              None \<Rightarrow> shutdown_with R (Inl DEAD_OBJECT) s
            | Some n' \<Rightarrow> Inr (Inr (asyncNumber n), set_node a n' s)))"

definition transactAddress ::
  "bool \<Rightarrow> env \<Rightarrow> rpc_env \<Rightarrow> handler \<Rightarrow> u64 \<Rightarrow> u32 \<Rightarrow> parcel \<Rightarrow> parcel option \<Rightarrow> u32 \<Rightarrow> rpc_state \<Rightarrow>
   ((status_t \<times> parcel option) rpc_run) option" where
  "transactAddress vndk E R h a code dat reply flags s =
     (if \<not> isForRpc dat then Some (Inl Abort)
      else if ipcObjectsCount dat \<noteq> 0 then Some (Inl Abort)
      else and_then (Some (take_number R a flags s)) (\<lambda>(r, s).
        case r of
          Inl st \<Rightarrow> Some (Inr ((st, reply), s))
        | Inr number \<Rightarrow>
            if dataSize dat > INT32_MAX - 16 - 40 then Some (Inl Abort)
            else
              let body = enc_transaction \<lparr>tx_address = a, tx_code = code, tx_flags = flags, tx_number = number\<rparr> @
                    (case mData dat of None \<Rightarrow> [] | Some b \<Rightarrow> take (dataSize dat) b) in
              and_then (rpcSend_polling vndk E R h
                (enc_header \<lparr>command = RPC_COMMAND_TRANSACT, bodySize = of_nat (40 + dataSize dat)\<rparr> @ body) s) (\<lambda>(st, s).
              if st \<noteq> OK then Some (Inr ((st, reply), s))
              else if flags AND FLAG_ONEWAY \<noteq> 0 then Some (Inr ((OK, reply), s))
              else case reply of
                None \<Rightarrow> Some (Inl Abort)
              | Some p \<Rightarrow> and_then (waitForReply vndk E R h p s) (\<lambda>((st, p), s). Some (Inr ((st, Some p), s))))))"

definition transact ::
  "bool \<Rightarrow> env \<Rightarrow> rpc_env \<Rightarrow> handler \<Rightarrow> rpc_binder \<Rightarrow> u32 \<Rightarrow> parcel \<Rightarrow> parcel option \<Rightarrow> u32 \<Rightarrow> rpc_state \<Rightarrow>
   ((status_t \<times> parcel option) rpc_run) option" where
  "transact vndk E R h obj code dat reply flags s =
     (if \<not> isForRpc dat then Some (Inr ((BAD_TYPE, reply), s))
      else if ipcObjectsCount dat \<noteq> 0 then Some (Inr ((BAD_TYPE, reply), s))
      else and_then (Some (onBinderLeaving obj s)) (\<lambda>(r, s).
        case r of
          Inl st \<Rightarrow> Some (Inr ((st, reply), s))
        | Inr a \<Rightarrow> transactAddress vndk E R h a code dat reply flags s))"

text \<open>The special transactions a client makes.\<close>

definition special_call :: "bool \<Rightarrow> env \<Rightarrow> rpc_env \<Rightarrow> handler \<Rightarrow> u32 \<Rightarrow> rpc_state \<Rightarrow> ((status_t \<times> parcel) rpc_run) option" where
  "special_call vndk E R h code s =
     and_then (Some (markForRpc (Some (session s)) Parcel)) (\<lambda>dat.
     and_then (transactAddress vndk E R h 0 code dat (Some Parcel) 0 s) (\<lambda>((st, reply), s).
     Some (Inr ((st, the reply), s))))"

definition getRootObject :: "bool \<Rightarrow> env \<Rightarrow> rpc_env \<Rightarrow> handler \<Rightarrow> rpc_state \<Rightarrow> (rpc_binder option rpc_run) option" where
  "getRootObject vndk E R h s =
     and_then (special_call vndk E R h 0 s) (\<lambda>((st, reply), s).
     if st \<noteq> OK then Some (Inr (None, s))
     else and_then (Some (unflattenBinder_rpc E R reply s)) (\<lambda>(r, _, s).
       Some (Inr (case r of Inl _ \<Rightarrow> None | Inr obj \<Rightarrow> obj, s))))"

definition getMaxThreads :: "bool \<Rightarrow> env \<Rightarrow> rpc_env \<Rightarrow> handler \<Rightarrow> rpc_state \<Rightarrow> ((status_t + nat) rpc_run) option" where
  "getMaxThreads vndk E R h s =
     and_then (special_call vndk E R h 1 s) (\<lambda>((st, reply), s).
     if st \<noteq> OK then Some (Inr (Inl st, s))
     else and_then (Some (readInt32 E reply)) (\<lambda>(r, _).
       Some (Inr (case r of
         Inl st \<Rightarrow> Inl st
       | Inr maxThreads \<Rightarrow> if sint maxThreads \<le> 0 then Inl BAD_VALUE else Inr (nat (sint maxThreads)), s))))"

definition getSessionId :: "bool \<Rightarrow> env \<Rightarrow> rpc_env \<Rightarrow> handler \<Rightarrow> rpc_state \<Rightarrow> ((status_t + byte list) rpc_run) option" where
  "getSessionId vndk E R h s =
     and_then (special_call vndk E R h 2 s) (\<lambda>((st, reply), s).
     if st \<noteq> OK then Some (Inr (Inl st, s))
     else and_then (Some (readPodVector (\<lambda>bs. hd bs) 1 E reply)) (\<lambda>(r, _). Some (Inr (r, s))))"

end
