(* ===== verification/Rpc_Async.thy ===== *)
theory Rpc_Async
  imports Rpc_Protocol Rpc_Commands
begin

text \<open>
  Oneway transactions of an RPC session: the calls on a binder are made in the order in which they were
  sent, in whatever order the connections of the session deliver them, and what a peer that does not
  keep to the protocol can do with them.
\<close>

section \<open>Messages\<close>

lemma length_enc_transaction [simp]: "length (enc_transaction t) = 40"
  by (simp add: enc_transaction_def)

lemma dec_enc_transaction [simp]: "dec_transaction (enc_transaction t @ bs) = t"
  by (simp add: dec_transaction_def enc_transaction_def peek_def)

text \<open>A oneway call: its number, code and payload.\<close>

type_synonym oneway_call = "nat \<times> u32 \<times> byte list"

definition call_tx :: "u64 \<Rightarrow> oneway_call \<Rightarrow> RpcWireTransaction" where
  "call_tx a m = \<lparr>tx_address = a, tx_code = fst (snd m), tx_flags = FLAG_ONEWAY, tx_number = of_nat (fst m)\<rparr>"

definition call_msg :: "u64 \<Rightarrow> oneway_call \<Rightarrow> byte list" where
  "call_msg a m = enc_transaction (call_tx a m) @ snd (snd m)"

definition call_todo :: "u64 \<Rightarrow> rpc_binder \<Rightarrow> oneway_call \<Rightarrow> async_todo" where
  "call_todo a b m = \<lparr>todo_ref = b, todo_data = call_msg a m, todo_number = of_nat (fst m)\<rparr>"

definition call_log :: "u64 \<Rightarrow> oneway_call \<Rightarrow> u64 \<times> u64 \<times> byte list" where
  "call_log a m = (a, of_nat (fst m), snd (snd m))"

lemma call_msg_simps [simp]:
  "dec_transaction (call_msg a m) = call_tx a m" "\<not> length (call_msg a m) < 40" "drop 40 (call_msg a m) = snd (snd m)"
  "oneway (call_tx a m)" "tx_address (call_tx a m) = a" "tx_number (call_tx a m) = of_nat (fst m)"
  by (simp_all add: call_msg_def call_tx_def oneway_def)

lemma call_todo_simps [simp]:
  "todo_ref (call_todo a b m) = b" "todo_data (call_todo a b m) = call_msg a m" "todo_number (call_todo a b m) = of_nat (fst m)"
  by (simp_all add: call_todo_def)

abbreviation word_max :: nat where "word_max \<equiv> 18446744073709551615"

lemma number_eq: "i < word_max \<Longrightarrow> j < word_max \<Longrightarrow> (of_nat i :: u64) = of_nat j \<longleftrightarrow> i = j"
  by (simp add: word_of_nat_eq_iff take_bit_eq_mod)

lemma number_less: "i < word_max \<Longrightarrow> j < word_max \<Longrightarrow> (of_nat i :: u64) < of_nat j \<longleftrightarrow> i < j"
  by (simp add: word_less_nat_alt unat_of_nat)

lemma push_call:
  assumes "fst m < word_max" and "\<And>x. x \<in> set q \<Longrightarrow> fst x < word_max" and "fst m \<notin> fst ` set q"
  shows "push_todo (call_todo a b m) (map (call_todo a b) q) = map (call_todo a b) (insort_key fst m q)"
  using assms
proof (induction q)
  case (Cons x q)
  have "(of_nat (fst m) :: u64) < of_nat (fst x) \<longleftrightarrow> fst m \<le> fst x"
    using Cons.prems number_less [of "fst m" "fst x"] by auto
  with Cons show ?case by auto
qed simp

lemma dec_enc_header_alone [simp]: "dec_header (enc_header h) = h"
  using dec_enc_header [of h "[]"] by simp

section \<open>A binder that is served\<close>

text \<open>The end of a session with a local binder \<open>b\<close> at address \<open>a\<close>: \<open>k\<close> is the number expected next, \<open>q\<close> the
  calls that wait.\<close>

definition serving :: "rpc_env \<Rightarrow> u64 \<Rightarrow> rpc_binder \<Rightarrow> nat \<Rightarrow> oneway_call list \<Rightarrow> rpc_state \<Rightarrow> bool" where
  "serving R a b k q s \<longleftrightarrow> good_transport R \<and> live R b \<and> \<not> isRemote s b \<and> \<not> mTerminated s \<and> \<not> triggered s \<and>
     a \<noteq> 0 \<and> options (fromRaw a) AND NOT (OPTION_CREATED OR OPTION_FOR_SERVER) = 0 \<and>
     (\<exists>n. node_at s a = Some n \<and> bn_binder n = b \<and> timesSent n \<noteq> 0 \<and> asyncNumber n = of_nat k \<and>
        asyncTodo n = map (call_todo a b) q)"

text \<open>Code of the application that uses the session only through its reply.\<close>

definition quiet :: "handler \<Rightarrow> bool" where
  "quiet h \<longleftrightarrow> (\<forall>b code p r flags s. \<exists>st r'. h b code p r flags s = Inr ((st, r'), s))"

lemma markForRpc_Parcel: "\<exists>p. markForRpc (Some x) Parcel = Inr p"
  by (simp add: markForRpc_def Parcel_def initState_def)

lemma ipc_data_ok: "\<exists>p. ipcSetDataReference E dat [] True Parcel = Inr p \<and> mOwner p"
  by (simp add: ipcSetDataReference_def freeData_def freeDataNoInit_def releaseObjects_def Parcel_def initState_def
      scanForFds_def hasFileDescriptorsInRange_def Let_def)

lemma call_target_quiet:
  assumes "quiet h"
  shows "\<exists>st r. call_target vndk E h (call_msg a m) OK (Some b) s =
    Inr ((st, r), s\<lparr>executed := executed s @ [call_log a m]\<rparr>)"
proof -
  obtain r where r: "markForRpc (Some (session s)) Parcel = Inr r" using markForRpc_Parcel by blast
  obtain p where p: "ipcSetDataReference E (snd (snd m)) [] True Parcel = Inr p" "mOwner p" using ipc_data_ok by blast
  obtain p' where p': "markForRpc (Some (session s)) p = Inr p'" using p(2) by (simp add: markForRpc_def)
  obtain st r' where "h b (fst (snd m)) p' r FLAG_ONEWAY (s\<lparr>executed := executed s @ [call_log a m]\<rparr>) =
      Inr ((st, r'), s\<lparr>executed := executed s @ [call_log a m]\<rparr>)"
    using assms unfolding quiet_def by blast
  with r p p' show ?thesis by (simp add: call_target_def Let_def call_tx_def call_log_def)
qed

text \<open>Giving back the references of a served binder keeps it served and always succeeds.\<close>

lemma flush_serving:
  assumes "serving R a b k q s"
  shows "\<exists>s'. flushExcessBinderRefs R a (Some b) s = Inr (OK, s') \<and> serving R a b k q s' \<and> executed s' = executed s"
proof -
  from assms obtain n where n: "node_at s a = Some n" "bn_binder n = b" "timesSent n \<noteq> 0" "asyncNumber n = of_nat k"
    "asyncTodo n = map (call_todo a b) q" by (auto simp: serving_def)
  have ok: "good_transport R" "\<not> isRemote s b" "\<not> mTerminated s" "\<not> triggered s"
    using assms by (auto simp: serving_def)
  show ?thesis
  proof (cases "timesRecd n = 0")
    case True
    with n ok assms show ?thesis by (simp add: flushExcessBinderRefs_def flush_needed_def)
  next
    case False
    let ?m = "enc_header \<lparr>command = RPC_COMMAND_DEC_STRONG, bodySize = 16\<rparr> @
      enc_dec_strong \<lparr>ds_address = a, amount = of_nat (timesRecd n)\<rparr>"
    let ?s = "(set_node a (n\<lparr>timesRecd := 0\<rparr>) s)\<lparr>wire_out := wire_out s @ [?m]\<rparr>"
    have "flushExcessBinderRefs R a (Some b) s = Inr (OK, ?s)"
      using False n ok by (simp add: flushExcessBinderRefs_def flush_needed_def session_sendDecStrong_def good_transport_def
        sendDecStrongToTarget_def tryEraseNode_def send_command_def rpcSend_def)
    moreover have "serving R a b k q ?s" using assms n by (auto simp: serving_def isRemote_def)
    moreover have "executed ?s = executed s" by (simp add: set_node_def)
    ultimately show ?thesis by blast
  qed
qed

lemma executed_set_node [simp]: "executed (set_node a n s) = executed s"
  by (simp add: set_node_def)

lemma serving_execute [simp]: "serving R a b k q (s\<lparr>executed := x\<rparr>) = serving R a b k q s"
  by (simp add: serving_def isRemote_def)

lemma progress_number:
  assumes "asyncNumber n = of_nat k" and "k < word_max"
  shows "nodeProgressAsyncNumber n = Some (n\<lparr>asyncNumber := of_nat (Suc k)\<rparr>)"
proof -
  have "\<not> (of_nat k :: u64) \<ge> 18446744073709551615"
    using assms(2) by (simp add: word_le_nat_alt unat_of_nat)
  with assms(1) show ?thesis by (simp add: nodeProgressAsyncNumber_def add.commute)
qed

text \<open>After a call: the next one if it waits, else the end.\<close>

lemma next_async_serving:
  assumes s: "serving R a b k q s" and k: "Suc k < word_max" and q: "\<And>x. x \<in> set q \<Longrightarrow> fst x < word_max"
  shows "if q \<noteq> [] \<and> fst (hd q) = Suc k
    then \<exists>s'. next_async R a st (Some b) s = Inr (Inr (call_msg a (hd q)), s') \<and> serving R a b (Suc k) (tl q) s' \<and> executed s' = executed s
    else \<exists>s'. next_async R a st (Some b) s = Inr (Inl OK, s') \<and> serving R a b (Suc k) q s' \<and> executed s' = executed s"
proof -
  from s obtain n where n: "node_at s a = Some n" "bn_binder n = b" "timesSent n \<noteq> 0" "asyncNumber n = of_nat k"
    "asyncTodo n = map (call_todo a b) q" by (auto simp: serving_def)
  let ?n = "n\<lparr>asyncNumber := of_nat (Suc k)\<rparr>"
  have p: "nodeProgressAsyncNumber n = Some ?n" using progress_number n(4) k by simp
  have s1: "serving R a b (Suc k) q (set_node a ?n s)" using s n by (auto simp: serving_def isRemote_def)
  show ?thesis
  proof (cases q)
    case Nil
    with n p s1 show ?thesis by (auto simp: next_async_def)
  next
    case (Cons x xs)
    have eq: "(of_nat (fst x) :: u64) = of_nat (Suc k) \<longleftrightarrow> fst x = Suc k" using number_eq [of "fst x" "Suc k"] k q Cons by simp
    show ?thesis
    proof (cases "fst x = Suc k")
      case True
      have "serving R a b (Suc k) xs (set_node a (?n\<lparr>asyncTodo := map (call_todo a b) xs\<rparr>) (set_node a ?n s))"
        using s n by (auto simp: serving_def isRemote_def)
      with True Cons n p eq show ?thesis by (simp add: next_async_def)
    next
      case False
      obtain s' where f: "flushExcessBinderRefs R a (Some b) (set_node a ?n s) = Inr (OK, s')" "serving R a b (Suc k) q s'"
        "executed s' = executed s" using flush_serving [OF s1] by auto
      have "(of_nat (fst x) :: u64) \<noteq> of_nat (Suc k)" using eq False by simp
      moreover have "a \<noteq> 0" using s by (simp add: serving_def)
      ultimately have "next_async R a st (Some b) s = Inr (Inl OK, if st = OK then s' else set_node a ?n s)"
        using Cons n p f(1) by (simp add: next_async_def)
      with False Cons f(2,3) s1 show ?thesis by simp
    qed
  qed
qed

lemma resolve_due:
  "serving R a b (fst m) q s \<Longrightarrow> resolve_target R (call_msg a m) (Some b) s = Inr (Go OK (Some b), s)"
  by (auto simp: resolve_target_def serving_def promote_def Let_def)

lemma due_call_step:
  assumes "quiet h" and "serving R a b (fst m) q s"
  shows "\<exists>st. processTransactInternal vndk E R h (Some b) (call_msg a m) s =
    (case next_async R a st (Some b) (s\<lparr>executed := executed s @ [call_log a m]\<rparr>) of
       Inl c \<Rightarrow> Some (Inl c)
     | Inr (Inl st, s) \<Rightarrow> Some (Inr (st, s))
     | Inr (Inr dat, s) \<Rightarrow> processTransactInternal vndk E R h (Some b) dat s)"
proof -
  obtain st r where "call_target vndk E h (call_msg a m) OK (Some b) s =
      Inr ((st, r), s\<lparr>executed := executed s @ [call_log a m]\<rparr>)"
    using call_target_quiet [OF assms(1)] by blast
  with resolve_due [OF assms(2)] show ?thesis
    by (subst processTransactInternal.simps) auto
qed

text \<open>The loop: it makes the call that is due and every call that becomes due.\<close>

definition ran :: "u64 \<Rightarrow> rpc_env \<Rightarrow> rpc_binder \<Rightarrow> oneway_call \<Rightarrow> oneway_call list \<Rightarrow> rpc_state \<Rightarrow> (status_t rpc_run) option \<Rightarrow> bool" where
  "ran a R b m q s r \<longleftrightarrow> (\<exists>s' q1 q2. r = Some (Inr (OK, s')) \<and> q = q1 @ q2 \<and>
     map fst (m # q1) = [fst m..<fst m + Suc (length q1)] \<and> (q2 = [] \<or> fst (hd q2) > fst m + Suc (length q1)) \<and>
     serving R a b (fst m + Suc (length q1)) q2 s' \<and> executed s' = executed s @ map (call_log a) (m # q1))"

lemma run_due_calls:
  assumes "quiet h" and "serving R a b (fst m) q s"
    and "\<And>x. x \<in> set (m # q) \<Longrightarrow> Suc (fst x) < word_max" and "sorted_wrt (\<lambda>x y. fst x < fst y) (m # q)"
  shows "ran a R b m q s (processTransactInternal vndk E R h (Some b) (call_msg a m) s)"
  using assms(2-)
proof (induction q arbitrary: m s)
  case Nil
  let ?s = "s\<lparr>executed := executed s @ [call_log a m]\<rparr>"
  obtain st where st: "processTransactInternal vndk E R h (Some b) (call_msg a m) s =
    (case next_async R a st (Some b) ?s of Inl c \<Rightarrow> Some (Inl c) | Inr (Inl st, s) \<Rightarrow> Some (Inr (st, s))
     | Inr (Inr dat, s) \<Rightarrow> processTransactInternal vndk E R h (Some b) dat s)"
    using due_call_step [OF assms(1) Nil.prems(1)] by blast
  obtain s' where "next_async R a st (Some b) ?s = Inr (Inl OK, s')" "serving R a b (Suc (fst m)) [] s'"
    "executed s' = executed ?s"
    using next_async_serving [of R a b "fst m" "[]" ?s st] Nil.prems by auto
  with st show ?case by (auto simp: ran_def)
next
  case (Cons x q)
  let ?s = "s\<lparr>executed := executed s @ [call_log a m]\<rparr>"
  obtain st where st: "processTransactInternal vndk E R h (Some b) (call_msg a m) s =
    (case next_async R a st (Some b) ?s of Inl c \<Rightarrow> Some (Inl c) | Inr (Inl st, s) \<Rightarrow> Some (Inr (st, s))
     | Inr (Inr dat, s) \<Rightarrow> processTransactInternal vndk E R h (Some b) dat s)"
    using due_call_step [OF assms(1) Cons.prems(1)] by blast
  have small: "Suc (fst m) < word_max" "\<And>y. y \<in> set (x # q) \<Longrightarrow> fst y < word_max"
    using Cons.prems(2) [of m] Suc_lessD [OF Cons.prems(2)] by simp_all
  note n = next_async_serving [of R a b "fst m" "x # q" ?s st, OF _ small]
  show ?case
  proof (cases "fst x = Suc (fst m)")
    case False
    then obtain s' where "next_async R a st (Some b) ?s = Inr (Inl OK, s')" "serving R a b (Suc (fst m)) (x # q) s'"
      "executed s' = executed ?s" using n Cons.prems(1) by auto
    moreover have "Suc (fst m) < fst x" using False Cons.prems(3) by auto
    ultimately show ?thesis using st unfolding ran_def by (intro exI [of _ s'] exI [of _ "[]"] exI [of _ "x # q"]) auto
  next
    case True
    then obtain s' where s': "next_async R a st (Some b) ?s = Inr (Inr (call_msg a x), s')" "serving R a b (fst x) q s'"
      "executed s' = executed ?s" using n Cons.prems(1) by auto
    have "ran a R b x q s' (processTransactInternal vndk E R h (Some b) (call_msg a x) s')"
      using Cons.IH [OF s'(2)] Cons.prems by auto
    then obtain s'' q1 q2 where "processTransactInternal vndk E R h (Some b) (call_msg a x) s' = Some (Inr (OK, s''))"
      "q = q1 @ q2" "map fst (x # q1) = [fst x..<fst x + Suc (length q1)]" "q2 = [] \<or> fst (hd q2) > fst x + Suc (length q1)"
      "serving R a b (fst x + Suc (length q1)) q2 s''" "executed s'' = executed s' @ map (call_log a) (x # q1)"
      unfolding ran_def by blast
    moreover have "[fst m..<fst m + Suc (length (x # q1))] = fst m # [fst x..<fst x + Suc (length q1)]"
      using upt_conv_Cons [of "fst m" "fst m + Suc (length (x # q1))"] True by (simp del: upt_Suc)
    ultimately show ?thesis using st s' True
      unfolding ran_def by (intro exI [of _ s''] exI [of _ "x # q1"] exI [of _ q2]) (simp del: upt_Suc)
  qed
qed

section \<open>Arrival in any order\<close>

lemma entering_serving:
  assumes "serving R a b k q s"
  shows "\<exists>n s1. onBinderEntering R a s = (Inr (Some b), s1) \<and> serving R a b k q s1 \<and> executed s1 = executed s \<and>
    node_at s1 a = Some n \<and> bn_binder n = b \<and> timesSent n \<noteq> 0 \<and> asyncNumber n = of_nat k \<and> asyncTodo n = map (call_todo a b) q"
proof -
  from assms obtain n where n: "node_at s a = Some n" "bn_binder n = b" "timesSent n \<noteq> 0" "asyncNumber n = of_nat k"
    "asyncTodo n = map (call_todo a b) q" by (auto simp: serving_def)
  let ?n = "n\<lparr>timesRecd := size_add (timesRecd n) 1\<rparr>"
  have "onBinderEntering R a s = (Inr (Some b), set_node a ?n s)"
    using assms n by (simp add: onBinderEntering_def serving_def promote_def)
  moreover have "serving R a b k q (set_node a ?n s)" using assms n by (auto simp: serving_def isRemote_def)
  ultimately show ?thesis using n by auto
qed

lemma early_call:
  assumes s: "serving R a b k q s" and m: "fst m \<noteq> k" "fst m < word_max" "k < word_max" "fst m \<notin> fst ` set q"
    and q: "\<And>x. x \<in> set q \<Longrightarrow> fst x < word_max" "Suc (length q) < 10000"
  shows "\<exists>s'. processTransactInternal vndk E R h None (call_msg a m) s = Some (Inr (OK, s')) \<and>
    serving R a b k (insort_key fst m q) s' \<and> executed s' = executed s"
proof -
  obtain n s1 where e: "onBinderEntering R a s = (Inr (Some b), s1)" "serving R a b k q s1" "executed s1 = executed s"
    and n: "node_at s1 a = Some n" "bn_binder n = b" "timesSent n \<noteq> 0" "asyncNumber n = of_nat k" "asyncTodo n = map (call_todo a b) q"
    using entering_serving [OF s] by blast
  let ?n = "n\<lparr>asyncTodo := map (call_todo a b) (insort_key fst m q)\<rparr>"
  have "(of_nat (fst m) :: u64) \<noteq> of_nat k" using number_eq [of "fst m" k] m by simp
  moreover have "enqueue R a n (call_todo a b m) s1 = Inr (Return OK, set_node a ?n s1)"
    using push_call [OF m(2) q(1) m(4)] n(5) q(2) by (simp add: enqueue_def Let_def)
  ultimately have "resolve_target R (call_msg a m) None s = Inr (Return OK, set_node a ?n s1)"
    using e n by (auto simp: resolve_target_def serving_def promote_def Let_def call_todo_def)
  then have "processTransactInternal vndk E R h None (call_msg a m) s = Some (Inr (OK, set_node a ?n s1))"
    by (subst processTransactInternal.simps) simp
  moreover have "serving R a b k (insort_key fst m q) (set_node a ?n s1)" using e(2) n by (auto simp: serving_def isRemote_def)
  ultimately show ?thesis using e(3) by auto
qed

lemma due_call:
  assumes "quiet h" and s: "serving R a b (fst m) q s"
    and small: "\<And>x. x \<in> set (m # q) \<Longrightarrow> Suc (fst x) < word_max" and "sorted_wrt (\<lambda>x y. fst x < fst y) (m # q)"
  shows "ran a R b m q s (processTransactInternal vndk E R h None (call_msg a m) s)"
proof -
  obtain n s1 where e: "onBinderEntering R a s = (Inr (Some b), s1)" "serving R a b (fst m) q s1" "executed s1 = executed s"
    "node_at s1 a = Some n" "bn_binder n = b" "asyncNumber n = of_nat (fst m)"
    using entering_serving [OF s] by blast
  have "resolve_target R (call_msg a m) None s = Inr (Go OK (Some b), s1)"
    using e by (auto simp: resolve_target_def serving_def promote_def Let_def)
  moreover have "resolve_target R (call_msg a m) (Some b) s1 = Inr (Go OK (Some b), s1)" by (rule resolve_due [OF e(2)])
  ultimately have "processTransactInternal vndk E R h None (call_msg a m) s =
      processTransactInternal vndk E R h (Some b) (call_msg a m) s1"
    by (subst (1 2) processTransactInternal.simps) simp
  with run_due_calls [OF assms(1) e(2) small assms(4)] e(3) show ?thesis by (simp add: ran_def)
qed

text \<open>The calls that arrived so far, by number: those made, and those that wait.\<close>

definition arrived ::
  "rpc_env \<Rightarrow> u64 \<Rightarrow> rpc_binder \<Rightarrow> nat \<Rightarrow> (u64 \<times> u64 \<times> byte list) list \<Rightarrow> oneway_call list \<Rightarrow> rpc_state \<Rightarrow> bool" where
  "arrived R a b k base ms s \<longleftrightarrow> (\<exists>ex q. sort_key fst ms = ex @ q \<and> executed s = base @ map (call_log a) ex \<and>
     map fst ex = [k..<k + length ex] \<and> serving R a b (k + length ex) q s \<and> (q = [] \<or> fst (hd q) > k + length ex))"

lemma sorted_keys_less:
  "distinct (map fst ms) \<Longrightarrow> sorted_wrt (\<lambda>x y. fst x < fst y) (sort_key fst ms)" for ms :: "oneway_call list"
proof -
  assume d: "distinct (map fst ms)"
  have "distinct (map fst (sort_key fst ms))" using d by (simp add: distinct_map)
  then have "sorted_wrt (<) (map fst (sort_key fst ms))"
    using sorted_sort_key [of fst ms] by (simp add: strict_sorted_iff)
  then show ?thesis by (simp add: sorted_wrt_map)
qed

lemma insort_after: "(\<And>x. x \<in> set xs \<Longrightarrow> fst x < fst m) \<Longrightarrow> insort_key fst m (xs @ ys) = xs @ insort_key fst m ys"
  for m :: oneway_call
proof (induction xs)
  case (Cons x xs)
  then have "fst x < fst m" "insort_key fst m (xs @ ys) = xs @ insort_key fst m ys" by simp_all
  then show ?case by simp
qed simp

lemma insort_first: "q = [] \<or> fst (hd q) > fst m \<Longrightarrow> insort_key fst m q = m # q" for m :: oneway_call
  by (cases q) auto

lemma arrived_step:
  assumes h: "quiet h" and s: "arrived R a b k base ms s" and d: "distinct (map fst (m # ms))" and m: "k \<le> fst m"
    and small: "\<And>x. x \<in> set (m # ms) \<Longrightarrow> Suc (fst x) < word_max" and few: "Suc (length ms) < 10000"
  shows "\<exists>s'. processTransactInternal vndk E R h None (call_msg a m) s = Some (Inr (OK, s')) \<and> arrived R a b k base (m # ms) s'"
proof -
  from s obtain ex q where eq: "sort_key fst ms = ex @ q" "executed s = base @ map (call_log a) ex"
    "map fst ex = [k..<k + length ex]" "serving R a b (k + length ex) q s" "q = [] \<or> fst (hd q) > k + length ex"
    by (auto simp: arrived_def)
  have mem: "set ex \<union> set q = set ms" using arg_cong [OF eq(1), of set] by simp
  have exs: "fst ` set ex = {k..<k + length ex}" using arg_cong [OF eq(3), of set] by simp
  have "fst m \<notin> fst ` set ex" using d mem by auto
  with m exs have ge: "k + length ex \<le> fst m" by simp
  have ex_less: "fst x < fst m" if "x \<in> set ex" for x
  proof -
    have "fst x \<in> {k..<k + length ex}" using that exs by blast
    with ge show ?thesis by simp
  qed
  have sq: "sorted_wrt (\<lambda>x y. fst x < fst y) q"
    using sorted_keys_less [of ms] d eq(1) by (simp add: sorted_wrt_append)
  have new: "fst m \<notin> fst ` set q" using d mem by auto
  have qsmall: "x \<in> set q \<Longrightarrow> Suc (fst x) < word_max" for x using small [of x] mem by auto
  have sorted: "sort_key fst (m # ms) = ex @ insort_key fst m q" using insort_after [of ex m q] ex_less eq(1) by simp
  show ?thesis
  proof (cases "fst m = k + length ex")
    case True
    have above: "q = [] \<or> fst (hd q) > fst m" using eq(5) True by simp
    then have srt: "sorted_wrt (\<lambda>x y. fst x < fst y) (m # q)" using sq by (cases q) auto
    have due: "serving R a b (fst m) q s" using eq(4) True by simp
    have "Suc (fst x) < word_max" if "x \<in> set (m # q)" for x
    proof (cases "x = m")
      case False
      with that have "x \<in> set q" by simp
      then show ?thesis by (rule qsmall)
    qed (use small [of m] in simp)
    from due_call [OF h due this srt] have "ran a R b m q s (processTransactInternal vndk E R h None (call_msg a m) s)" .
    then obtain s' q1 q2 where r: "processTransactInternal vndk E R h None (call_msg a m) s = Some (Inr (OK, s'))"
      "q = q1 @ q2" "map fst (m # q1) = [fst m..<fst m + Suc (length q1)]" "q2 = [] \<or> fst (hd q2) > fst m + Suc (length q1)"
      "serving R a b (fst m + Suc (length q1)) q2 s'" "executed s' = executed s @ map (call_log a) (m # q1)"
      unfolding ran_def by blast
    have "map fst (ex @ m # q1) = [k..<k + length (ex @ m # q1)]"
    proof -
      have "map fst (ex @ m # q1) = [k..<k + length ex] @ [k + length ex..<k + length ex + Suc (length q1)]"
        using eq(3) r(3) unfolding True by (simp only: map_append)
      also have "\<dots> = [k..<k + length (ex @ m # q1)]"
        using upt_add_eq_append [of k "k + length ex" "Suc (length q1)"] by (simp only: le_add1 length_append length_Cons add.assoc)
      finally show ?thesis .
    qed
    moreover have "sort_key fst (m # ms) = (ex @ m # q1) @ q2" unfolding sorted insort_first [OF above] by (simp add: r(2))
    moreover have "executed s' = base @ map (call_log a) (ex @ m # q1)" unfolding r(6) eq(2) by simp
    moreover have "fst m + Suc (length q1) = k + length (ex @ m # q1)" using True by simp
    ultimately have "arrived R a b k base (m # ms) s'"
      unfolding arrived_def using r(4,5) by (metis (no_types))
    with r(1) show ?thesis by blast
  next
    case False
    have "length q \<le> length ms" using arg_cong [OF eq(1), of length] by simp
    moreover have "k + length ex < word_max" using ge small [of m] by simp
    moreover have "fst m < word_max" using small [of m] by simp
    ultimately obtain s' where r: "processTransactInternal vndk E R h None (call_msg a m) s = Some (Inr (OK, s'))"
      "serving R a b (k + length ex) (insort_key fst m q) s'" "executed s' = executed s"
      using early_call [OF eq(4) False _ _ new Suc_lessD [OF qsmall], where vndk = vndk and E = E and h = h] few by force
    have "fst (hd (insort_key fst m q)) > k + length ex" using eq(5) False ge by (cases q) auto
    with r eq(2,3) sorted have "arrived R a b k base (m # ms) s'"
      unfolding arrived_def by (intro exI [of _ ex] exI [of _ "insort_key fst m q"]) simp
    with r(1) show ?thesis by blast
  qed
qed

fun deliver_calls ::
  "bool \<Rightarrow> env \<Rightarrow> rpc_env \<Rightarrow> handler \<Rightarrow> u64 \<Rightarrow> oneway_call list \<Rightarrow> rpc_state \<Rightarrow> (status_t rpc_run) option" where
  "deliver_calls vndk E R h a [] s = Some (Inr (OK, s))"
| "deliver_calls vndk E R h a (m # ms) s =
     and_then (processTransactInternal vndk E R h None (call_msg a m) s) (\<lambda>(st, s).
     if st \<noteq> OK then Some (Inr (st, s)) else deliver_calls vndk E R h a ms s)"

lemma deliver_calls_arrived:
  assumes "quiet h" and "arrived R a b k base ps s" and "distinct (map fst (ms @ ps))"
    and "\<And>x. x \<in> set ms \<Longrightarrow> k \<le> fst x" and "\<And>x. x \<in> set (ms @ ps) \<Longrightarrow> Suc (fst x) < word_max"
    and "length ms + length ps < 10000"
  shows "\<exists>s'. deliver_calls vndk E R h a ms s = Some (Inr (OK, s')) \<and> arrived R a b k base (rev ms @ ps) s'"
  using assms(2-)
proof (induction ms arbitrary: ps s)
  case (Cons m ms)
  have "\<exists>s1. processTransactInternal vndk E R h None (call_msg a m) s = Some (Inr (OK, s1)) \<and> arrived R a b k base (m # ps) s1"
  proof (rule arrived_step [OF assms(1) Cons.prems(1)])
    show "Suc (fst x) < word_max" if "x \<in> set (m # ps)" for x using Cons.prems(4) [of x] that by auto
  qed (use Cons.prems(2,3,5) in auto)
  then obtain s1 where s1: "processTransactInternal vndk E R h None (call_msg a m) s = Some (Inr (OK, s1))"
    "arrived R a b k base (m # ps) s1" by blast
  have "\<exists>s'. deliver_calls vndk E R h a ms s1 = Some (Inr (OK, s')) \<and> arrived R a b k base (rev ms @ m # ps) s'"
    by (rule Cons.IH [OF s1(2)]) (use Cons.prems in auto)
  with s1(1) show ?case by simp
qed simp

section \<open>Properties\<close>

text \<open>C6: The oneway calls on a binder are made in the order of their numbers, that is the order in which
  they were sent, in whatever order they arrive. With any arrangement of the calls that follow the
  last one made, each delivery returns OK, every call is made exactly once with its own data, none is
  left waiting, and the next number expected is the one after the last.\<close>

theorem oneway_calls_in_order:
  assumes "quiet h" and "serving R a b k [] s" and "mset (map fst ms) = mset [k..<k + length ms]"
    and "k + length ms < word_max" and "length ms < 10000"
  shows "\<exists>s'. deliver_calls vndk E R h a ms s = Some (Inr (OK, s')) \<and>
    executed s' = executed s @ map (call_log a) (sort_key fst ms) \<and> serving R a b (k + length ms) [] s'"
proof -
  have keys: "set (map fst ms) = {k..<k + length ms}" using mset_eq_setD [OF assms(3)] by simp
  have dist: "distinct (map fst ms)" using mset_eq_imp_distinct_iff [OF assms(3)] by simp
  have range: "k \<le> fst x \<and> fst x < k + length ms" if "x \<in> set ms" for x
  proof -
    have "fst x \<in> set (map fst ms)" using that by simp
    then show ?thesis unfolding keys by simp
  qed
  have "arrived R a b k (executed s) [] s" using assms(2) by (simp add: arrived_def)
  then obtain s' where s': "deliver_calls vndk E R h a ms s = Some (Inr (OK, s'))" "arrived R a b k (executed s) (rev ms @ []) s'"
    using deliver_calls_arrived [OF assms(1), of R a b k "executed s" "[]" s ms] dist range assms(4,5) by fastforce
  then obtain ex q where q: "sort_key fst (rev ms) = ex @ q" "executed s' = executed s @ map (call_log a) ex"
    "map fst ex = [k..<k + length ex]" "serving R a b (k + length ex) q s'" "q = [] \<or> fst (hd q) > k + length ex"
    by (auto simp: arrived_def)
  have same: "sort_key fst (rev ms) = sort_key fst ms"
    by (rule sort_key_inj_key_eq) (use dist in \<open>auto simp: distinct_map\<close>)
  have len: "length ex + length q = length ms" using arg_cong [OF q(1), of length] by simp
  have "q = []"
  proof (rule ccontr)
    assume "q \<noteq> []"
    have "k + length ex \<in> fst ` set ms" using keys len \<open>q \<noteq> []\<close> by (cases q) auto
    also have "\<dots> = fst ` (set ex \<union> set q)" using arg_cong [OF q(1), of set] by simp
    finally obtain x where x: "x \<in> set q" "fst x = k + length ex"
      using arg_cong [OF q(3), of set] by (auto simp: image_Un)
    have "sorted_wrt (\<lambda>x y. fst x < fst y) q"
      using sorted_keys_less [OF dist] q(1) unfolding same by (simp add: sorted_wrt_append)
    then have "fst (hd q) \<le> fst x" using x(1) by (cases q) auto
    with x(2) q(5) \<open>q \<noteq> []\<close> show False by simp
  qed
  with s'(1) q len same show ?thesis by auto
qed

text \<open>A server whose binder was sent to the client, and code of an application that answers nothing.\<close>

definition echo :: handler where
  "echo b code p r flags s = Inr ((OK, r), s)"

definition plain_env :: rpc_env where
  "plain_env = \<lparr>live = (\<lambda>_. True), send_status = (\<lambda>_. OK), recv_fail = DEAD_OBJECT, can_allocate = (\<lambda>_. True),
     find_connection = OK, write_polls = 0\<rparr>"

lemma quiet_echo: "quiet echo"
  by (simp add: quiet_def echo_def)

lemma server1_serving: "serving plain_env addr0 0 0 [] server1"
  by (simp add: serving_def good_transport_def plain_env_def isRemote_def server1_node fresh_node_def)
    (simp add: server1_def fresh_end_def addr0_def new_address_def toRaw_def fromRaw_def)

theorem oneway_calls_in_order_witness:
  "\<exists>s'. deliver_calls False linux_env plain_env echo addr0 [(2, 7, []), (0, 5, [1]), (1, 6, [])] server1 = Some (Inr (OK, s')) \<and>
     executed s' = [(addr0, 0, [1]), (addr0, 1, []), (addr0, 2, [])]"
proof -
  let ?ms = "[(2, 7, []), (0, 5, [1]), (1, 6, [])] :: oneway_call list"
  have "[0..<0 + length ?ms] = [0, 1, 2]" by (simp add: upt_conv_Cons)
  then have keys: "mset (map fst ?ms) = mset [0..<0 + length ?ms]" by (simp only:) simp
  have few: "0 + length ?ms < word_max" "length ?ms < 10000" by simp_all
  obtain s' where run: "deliver_calls False linux_env plain_env echo addr0 ?ms server1 = Some (Inr (OK, s'))"
    "executed s' = executed server1 @ map (call_log addr0) (sort_key fst ?ms)"
    using oneway_calls_in_order [OF quiet_echo server1_serving keys few, of False linux_env] by (elim exE conjE)
  have "executed server1 @ map (call_log addr0) (sort_key fst ?ms) = [(addr0, 0, [1]), (addr0, 1, []), (addr0, 2, [])]"
    by (simp add: server1_def fresh_end_def call_log_def)
  then show ?thesis using run by (intro exI [of _ s'] conjI) (simp_all only:)
qed

text \<open>C38: What a peer can bring down with one command. A DEC_STRONG command that arrives whole crashes
  the process exactly when it names a known address and either the binder there is on its way out,
  or the count named is not above what was sent and there is no reference to release (this end only
  received the binder, and the count is zero), or the last reference goes while oneway calls wait.
  In every other case the command is handled and the function returns.\<close>

theorem dec_strong_crash_exact:
  assumes "\<not> triggered s" and "can_allocate R 16" and "k < 4294967296" and "wire_in s = dec_msg a k @ rest"
  shows "(\<exists>c. getAndExecuteCommand vndk E R h type s = Some (Inl c)) \<longleftrightarrow>
    (\<exists>n. node_at s a = Some n \<and>
       (\<not> live R (bn_binder n) \<or>
        k \<le> timesSent n \<and> (sentRef n = None \<or> timesSent n = k \<and> timesRecd n = 0 \<and> asyncTodo n \<noteq> [])))"
proof -
  let ?s = "s\<lparr>wire_in := rest\<rparr>" and ?d = "\<lparr>ds_address = a, amount = of_nat k\<rparr>"
  have k: "unat (of_nat k :: u32) = k" using assms(3) by (simp add: unat_of_nat)
  have run: "getAndExecuteCommand vndk E R h type s = Some (apply_dec_strong R ?d ?s)"
    using assms(1,2,4) by (simp add: getAndExecuteCommand_def rpcRec_def dec_msg_def processCommand_def
        processDecStrong_def command_data_valid_def)
  have gone: "apply_dec_strong R ?d ?s = Inl Abort" if "node_at s a = Some n" "\<not> live R (bn_binder n)" for n
  proof -
    have "(a, n) \<in> set (RBT.entries (mNodeForAddress s))" using that(1) by (simp add: RBT.lookup_in_tree)
    with that show ?thesis
      by (auto simp: apply_dec_strong_def promote_def shutdown_with_def shutdownAndWait_def clear_def sendObituaries_def
          list_ex_iff)
  qed
  have held: "(\<exists>c. apply_dec_strong R ?d ?s = Inl c) \<longleftrightarrow>
      k \<le> timesSent n \<and> (sentRef n = None \<or> timesSent n = k \<and> timesRecd n = 0 \<and> asyncTodo n \<noteq> [])"
    if "node_at s a = Some n" "live R (bn_binder n)" for n
    using that k by (auto simp: apply_dec_strong_def promote_def tryEraseNode_def)
  show ?thesis
  proof (cases "node_at s a")
    case None
    then show ?thesis unfolding run by (simp add: apply_dec_strong_def)
  next
    case (Some n)
    then show ?thesis unfolding run using gone [OF Some] held [OF Some] by (cases "live R (bn_binder n)") simp_all
  qed
qed

theorem dec_strong_crash_exact_witness:
  "\<exists>c. getAndExecuteCommand False linux_env plain_env echo ANY (client1\<lparr>wire_in := dec_msg addr0 0\<rparr>) = Some (Inl c)"
proof -
  let ?s = "client1\<lparr>wire_in := dec_msg addr0 0\<rparr>"
  have "\<not> triggered ?s" "can_allocate plain_env 16" "(0 :: nat) < 4294967296" "wire_in ?s = dec_msg addr0 0 @ []"
    by (simp_all add: client1_def create_proxy_def fresh_end_def plain_env_def)
  note exact = dec_strong_crash_exact [OF this, of False linux_env echo ANY]
  have "node_at ?s addr0 = Some (proxy_node 1)" by (simp add: client1_def)
  with exact show ?thesis by (simp add: proxy_node_def)
qed

end
