(* ===== verification/Local_Binder.thy ===== *)
theory Local_Binder
  imports Parcel_Objects
begin

text \<open>
  Local binder objects (class BBinder, src/libs/binder/Binder.cpp) apart from their dispatch of
  transactions: the settings kept in Extras, which are fixed once the object has been written to a
  parcel, and the objects attached to it. mExtras is \<open>None\<close> until a setting needs it. The
  object manager is the one of BpBinder.cpp. Memory for Extras is always found (operator new does not
  return null), and the RPC servers of development builds (BINDER_RPC_DEV_SERVERS) are left out.
\<close>

type_synonym proxy = nat

datatype ibinder = LocalB u64 | RemoteB proxy

section \<open>Attached objects\<close>

record object_entry =
  oe_object :: nat
  oe_cookie :: nat
  oe_func :: "nat option"

text \<open>std::map: the entries are in the order of their keys.\<close>

type_synonym object_manager = "(nat \<times> object_entry) list"

definition om_attach :: "nat \<Rightarrow> object_entry \<Rightarrow> object_manager \<Rightarrow> nat option \<times> object_manager" where
  "om_attach i e m =
     (case map_of m i of
        Some e' \<Rightarrow> (Some (oe_object e'), m)
      | None \<Rightarrow> (None, insort_key fst (i, e) m))"

definition om_find :: "nat \<Rightarrow> object_manager \<Rightarrow> nat option" where
  "om_find i m = map_option oe_object (map_of m i)"

definition om_detach :: "nat \<Rightarrow> object_manager \<Rightarrow> nat option \<times> object_manager" where
  "om_detach i m =
     (case map_of m i of
        None \<Rightarrow> (None, m)
      | Some e \<Rightarrow> (Some (oe_object e), filter (\<lambda>x. fst x \<noteq> i) m))"

text \<open>The calls of cleanup functions, with their arguments.\<close>

definition om_kill :: "object_manager \<Rightarrow> (nat \<times> nat \<times> nat \<times> nat) list" where
  "om_kill m = List.map_filter (\<lambda>(i, e). map_option (\<lambda>f. (f, i, oe_object e, oe_cookie e)) (oe_func e)) m"

section \<open>The object\<close>

abbreviation SCHED_NORMAL :: int where "SCHED_NORMAL \<equiv> 0"
abbreviation SCHED_FIFO :: int where "SCHED_FIFO \<equiv> 1"
abbreviation SCHED_RR :: int where "SCHED_RR \<equiv> 2"

record extras =
  mRequestingSid :: bool
  mInheritRt :: bool
  mExtension :: "ibinder option"
  mPolicy :: int
  mPriority :: int
  ex_objects :: object_manager

record bbinder =
  mExtras :: "extras option"
  bb_stability :: int
  mParceled :: bool

definition Extras :: extras where
  "Extras = \<lparr>mRequestingSid = False, mInheritRt = False, mExtension = None, mPolicy = SCHED_NORMAL, mPriority = 0,
     ex_objects = []\<rparr>"

definition BBinder :: bbinder where
  "BBinder = \<lparr>mExtras = None, bb_stability = 0, mParceled = False\<rparr>"

definition getOrCreateExtras :: "bbinder \<Rightarrow> extras" where
  "getOrCreateExtras b = (case mExtras b of None \<Rightarrow> Extras | Some e \<Rightarrow> e)"

definition isRequestingSid :: "bbinder \<Rightarrow> bool" where
  "isRequestingSid b = (case mExtras b of None \<Rightarrow> False | Some e \<Rightarrow> mRequestingSid e)"

definition setRequestingSid :: "bool \<Rightarrow> bbinder \<Rightarrow> crash + bbinder" where
  "setRequestingSid x b =
     (if mParceled b then Inl Abort
      else if mExtras b = None \<and> \<not> x then Inr b
      else Inr (b\<lparr>mExtras := Some ((getOrCreateExtras b)\<lparr>mRequestingSid := x\<rparr>)\<rparr>))"

definition BBinder_getExtension :: "bbinder \<Rightarrow> ibinder option" where
  "BBinder_getExtension b = (case mExtras b of None \<Rightarrow> None | Some e \<Rightarrow> mExtension e)"

definition setMinSchedulerPolicy :: "int \<Rightarrow> int \<Rightarrow> bbinder \<Rightarrow> crash + bbinder" where
  "setMinSchedulerPolicy policy priority b =
     (if mParceled b then Inl Abort
      else if policy = SCHED_NORMAL \<and> (priority < - 20 \<or> priority > 19) then Inl Abort
      else if (policy = SCHED_RR \<or> policy = SCHED_FIFO) \<and> (priority < 1 \<or> priority > 255) then Inl Abort
      else if policy \<noteq> SCHED_NORMAL \<and> policy \<noteq> SCHED_RR \<and> policy \<noteq> SCHED_FIFO then Inl Abort
      else if mExtras b = None \<and> policy = SCHED_NORMAL \<and> priority = 0 then Inr b
      else Inr (b\<lparr>mExtras := Some ((getOrCreateExtras b)\<lparr>mPolicy := policy, mPriority := priority\<rparr>)\<rparr>))"

definition getMinSchedulerPolicy :: "bbinder \<Rightarrow> int" where
  "getMinSchedulerPolicy b = (case mExtras b of None \<Rightarrow> SCHED_NORMAL | Some e \<Rightarrow> mPolicy e)"

definition getMinSchedulerPriority :: "bbinder \<Rightarrow> int" where
  "getMinSchedulerPriority b = (case mExtras b of None \<Rightarrow> 0 | Some e \<Rightarrow> mPriority e)"

definition isInheritRt :: "bbinder \<Rightarrow> bool" where
  "isInheritRt b = (case mExtras b of None \<Rightarrow> False | Some e \<Rightarrow> mInheritRt e)"

definition setInheritRt :: "bool \<Rightarrow> bbinder \<Rightarrow> crash + bbinder" where
  "setInheritRt x b =
     (if mParceled b then Inl Abort
      else if mExtras b = None \<and> \<not> x then Inr b
      else Inr (b\<lparr>mExtras := Some ((getOrCreateExtras b)\<lparr>mInheritRt := x\<rparr>)\<rparr>))"

definition setExtension :: "ibinder option \<Rightarrow> bbinder \<Rightarrow> crash + bbinder" where
  "setExtension x b =
     (if mParceled b then Inl Abort else Inr (b\<lparr>mExtras := Some ((getOrCreateExtras b)\<lparr>mExtension := x\<rparr>)\<rparr>))"

definition wasParceled :: "bbinder \<Rightarrow> bool" where
  "wasParceled b = mParceled b"

definition setParceled :: "bbinder \<Rightarrow> bbinder" where
  "setParceled b = b\<lparr>mParceled := True\<rparr>"

definition BBinder_attachObject :: "nat \<Rightarrow> object_entry \<Rightarrow> bbinder \<Rightarrow> nat option \<times> bbinder" where
  "BBinder_attachObject i e b =
     (case om_attach i e (ex_objects (getOrCreateExtras b)) of
        (r, m) \<Rightarrow> (r, b\<lparr>mExtras := Some ((getOrCreateExtras b)\<lparr>ex_objects := m\<rparr>)\<rparr>))"

definition BBinder_findObject :: "nat \<Rightarrow> bbinder \<Rightarrow> nat option" where
  "BBinder_findObject i b = (case mExtras b of None \<Rightarrow> None | Some e \<Rightarrow> om_find i (ex_objects e))"

definition BBinder_detachObject :: "nat \<Rightarrow> bbinder \<Rightarrow> nat option \<times> bbinder" where
  "BBinder_detachObject i b =
     (case mExtras b of
        None \<Rightarrow> (None, b)
      | Some e \<Rightarrow> (case om_detach i (ex_objects e) of (r, m) \<Rightarrow> (r, b\<lparr>mExtras := Some (e\<lparr>ex_objects := m\<rparr>)\<rparr>)))"

definition BBinder_pingBinder :: status_t where
  "BBinder_pingBinder = NO_ERROR"

definition BBinder_linkToDeath :: status_t where
  "BBinder_linkToDeath = INVALID_OPERATION"

definition BBinder_unlinkToDeath :: status_t where
  "BBinder_unlinkToDeath = INVALID_OPERATION"

section \<open>Settings\<close>

text \<open>The calls that change an object, in any order.\<close>

datatype bb_call =
    RequestSid bool | InheritRt bool | MinPolicy int int | Extension "ibinder option" | Parceled
  | Attach nat object_entry | Detach nat

fun bb_run :: "bb_call \<Rightarrow> bbinder \<Rightarrow> crash + bbinder" where
  "bb_run (RequestSid x) b = setRequestingSid x b"
| "bb_run (InheritRt x) b = setInheritRt x b"
| "bb_run (MinPolicy p q) b = setMinSchedulerPolicy p q b"
| "bb_run (Extension x) b = setExtension x b"
| "bb_run Parceled b = Inr (setParceled b)"
| "bb_run (Attach i e) b = Inr (snd (BBinder_attachObject i e b))"
| "bb_run (Detach i) b = Inr (snd (BBinder_detachObject i b))"

fun bb_runs :: "bb_call list \<Rightarrow> bbinder \<Rightarrow> crash + bbinder" where
  "bb_runs [] b = Inr b"
| "bb_runs (c # cs) b = bind_run (bb_run c b) (bb_runs cs)"

definition valid_policy :: "int \<Rightarrow> int \<Rightarrow> bool" where
  "valid_policy policy priority \<longleftrightarrow>
     policy = SCHED_NORMAL \<and> - 20 \<le> priority \<and> priority \<le> 19 \<or>
     (policy = SCHED_FIFO \<or> policy = SCHED_RR) \<and> 1 \<le> priority \<and> priority \<le> 255"

definition settings :: "bbinder \<Rightarrow> bool \<times> bool \<times> ibinder option \<times> int \<times> int" where
  "settings b = (isRequestingSid b, isInheritRt b, BBinder_getExtension b, getMinSchedulerPolicy b, getMinSchedulerPriority b)"

definition objects_ok :: "bbinder \<Rightarrow> bool" where
  "objects_ok b \<longleftrightarrow> sorted_wrt (<) (map fst (ex_objects (getOrCreateExtras b)))"

definition bb_ok :: "bbinder \<Rightarrow> bool" where
  "bb_ok b \<longleftrightarrow> valid_policy (getMinSchedulerPolicy b) (getMinSchedulerPriority b) \<and> objects_ok b"

lemmas bb_defs = setRequestingSid_def setInheritRt_def setMinSchedulerPolicy_def setExtension_def setParceled_def
  BBinder_attachObject_def BBinder_detachObject_def isRequestingSid_def isInheritRt_def BBinder_getExtension_def
  getMinSchedulerPolicy_def getMinSchedulerPriority_def getOrCreateExtras_def

lemma insort_key_fst: "map fst (insort_key fst x m) = insort (fst x) (map fst m)"
  by (induction m) auto

lemma om_attach_sorted: "sorted_wrt (<) (map fst m) \<Longrightarrow> sorted_wrt (<) (map fst (snd (om_attach i e m)))"
  by (auto simp: om_attach_def insort_key_fst strict_sorted_iff sorted_insort distinct_insort map_of_eq_None_iff split: option.splits)

lemma om_detach_sorted: "sorted_wrt (<) (map fst m) \<Longrightarrow> sorted_wrt (<) (map fst (snd (om_detach i m)))"
proof -
  assume "sorted_wrt (<) (map fst m)"
  then have "sorted_wrt (<) (filter (\<lambda>x. x \<noteq> i) (map fst m))" by (rule sorted_wrt_filter)
  then show ?thesis using \<open>sorted_wrt (<) (map fst m)\<close>
    by (auto simp: om_detach_def filter_map comp_def split: option.splits)
qed

lemma bb_run_ok:
  assumes "bb_run c b = Inr b'" and "bb_ok b"
  shows "bb_ok b'"
proof (cases c)
  case (Attach i e)
  then show ?thesis using assms om_attach_sorted [of "ex_objects (getOrCreateExtras b)" i e]
    by (auto simp: bb_ok_def objects_ok_def bb_defs Extras_def split: option.splits prod.splits)
next
  case (Detach i)
  then show ?thesis using assms om_detach_sorted [of "ex_objects (getOrCreateExtras b)" i]
    by (auto simp: bb_ok_def objects_ok_def bb_defs Extras_def split: option.splits prod.splits)
qed (use assms in \<open>auto simp: bb_ok_def objects_ok_def valid_policy_def bb_defs Extras_def split: option.splits if_splits\<close>)

lemma bb_run_frozen:
  "bb_run c b = Inr b' \<Longrightarrow> mParceled b \<Longrightarrow> mParceled b' \<and> settings b' = settings b"
  by (cases c) (auto simp: settings_def bb_defs Extras_def split: option.splits prod.splits if_splits)

lemma bb_runs_ok: "bb_runs cs b = Inr b' \<Longrightarrow> bb_ok b \<Longrightarrow> bb_ok b'"
  by (induction cs arbitrary: b) (auto simp: bind_run_eq_Inr dest: bb_run_ok)

lemma bb_runs_frozen: "bb_runs cs b = Inr b' \<Longrightarrow> mParceled b \<Longrightarrow> mParceled b' \<and> settings b' = settings b"
  by (induction cs arbitrary: b) (auto simp: bind_run_eq_Inr dest!: bb_run_frozen)

lemma BBinder_ok: "bb_ok BBinder"
  by (simp add: bb_ok_def objects_ok_def valid_policy_def bb_defs BBinder_def Extras_def)

section \<open>Properties\<close>

text \<open>C26: Whatever calls are made on a local object in whatever order, its scheduling policy and priority are a pair that the driver
  accepts and its attached objects are in the order of their keys, each key once. Once it has been written to a parcel no later call
  changes what a receiver may have been told: the settings stay as they are, a call to change one ends the process.\<close>

theorem local_binder_typed:
  assumes "bb_runs cs BBinder = Inr b"
  shows "valid_policy (getMinSchedulerPolicy b) (getMinSchedulerPriority b) \<and>
    sorted_wrt (<) (map fst (ex_objects (getOrCreateExtras b))) \<and>
    (\<forall>ds c. mParceled b \<and> bb_runs ds b = Inr c \<longrightarrow> wasParceled c \<and> settings c = settings b) \<and>
    (\<forall>x e p q. mParceled b \<longrightarrow> setRequestingSid x b = Inl Abort \<and> setInheritRt x b = Inl Abort \<and>
       setExtension e b = Inl Abort \<and> setMinSchedulerPolicy p q b = Inl Abort)"
  using bb_runs_ok [OF assms BBinder_ok] bb_runs_frozen
  by (auto simp: bb_ok_def objects_ok_def wasParceled_def setRequestingSid_def setInheritRt_def setExtension_def setMinSchedulerPolicy_def)

theorem local_binder_typed_witness:
  "valid_policy (getMinSchedulerPolicy (setParceled (BBinder\<lparr>mExtras := Some (Extras\<lparr>mPolicy := 1, mPriority := 99\<rparr>)\<rparr>))) 99 \<and>
   setInheritRt True (setParceled (BBinder\<lparr>mExtras := Some (Extras\<lparr>mPolicy := 1, mPriority := 99\<rparr>)\<rparr>)) = Inl Abort"
proof -
  let ?b = "setParceled (BBinder\<lparr>mExtras := Some (Extras\<lparr>mPolicy := 1, mPriority := 99\<rparr>)\<rparr>)"
  have "bb_runs [MinPolicy 1 99, Parceled] BBinder = Inr ?b" by (simp add: bb_defs BBinder_def Extras_def)
  from local_binder_typed [OF this] show ?thesis by (simp add: setParceled_def getMinSchedulerPriority_def)
qed

end
