(* ===== verification/Ipc_State.thy ===== *)
theory Ipc_State
  imports Local_Binder
begin

text \<open>
  A process that talks to the kernel driver (src/libs/binder/IPCThreadState.cpp, ProcessState.cpp,
  BpBinder.cpp): the state of one thread and of its process, the buffer of commands for the driver,
  the references on handles and the identity of the caller. Local objects are those of the theory
  Local_Binder, at their addresses.

  The parcels mOut and mIn hold nothing but commands; they are lists of commands here, one constructor
  for each command with its operands. mIn is what is left to read. The driver is a parameter,
  \<open>ipc_env\<close>: what the n-th ioctl answers, given the commands offered and how many of them it has taken
  already. So are the process id, the user id and the growth of libutils vectors. RefBase of libutils
  is not in the sources: calls of its functions are recorded in \<open>ref_log\<close>, and what it calls back
  (onFirstRef, onLastStrongRef, the destructor) are operations of the theory Bp_Binder.
\<close>

section \<open>Commands\<close>

record tr_data =
  tr_target :: u64
  tr_cookie :: u64
  tr_code :: u32
  tr_flags :: u32
  sender_pid :: u32
  sender_euid :: u32
  tr_buffer :: u64
  tr_bytes :: "byte list"
  tr_offsets :: "nat list"

datatype bc_command =
    BC_TRANSACTION tr_data | BC_REPLY tr_data | BC_ACQUIRE_RESULT u32 | BC_FREE_BUFFER u64
  | BC_INCREFS u32 | BC_ACQUIRE u32 | BC_RELEASE u32 | BC_DECREFS u32
  | BC_INCREFS_DONE u64 u64 | BC_ACQUIRE_DONE u64 u64
  | BC_REGISTER_LOOPER | BC_ENTER_LOOPER | BC_EXIT_LOOPER
  | BC_REQUEST_DEATH_NOTIFICATION u32 proxy | BC_CLEAR_DEATH_NOTIFICATION u32 proxy | BC_DEAD_BINDER_DONE proxy

datatype br_command =
    BR_ERROR u32 | BR_OK | BR_TRANSACTION tr_data "nat option" | BR_REPLY tr_data
  | BR_ACQUIRE_RESULT u32 | BR_DEAD_REPLY | BR_TRANSACTION_COMPLETE
  | BR_INCREFS u64 u64 | BR_ACQUIRE u64 u64 | BR_RELEASE u64 u64 | BR_DECREFS u64 u64 | BR_ATTEMPT_ACQUIRE u64 u64
  | BR_NOOP | BR_SPAWN_LOOPER | BR_FINISHED | BR_DEAD_BINDER proxy | BR_CLEAR_DEATH_NOTIFICATION_DONE proxy
  | BR_FAILED_REPLY | BR_FROZEN_REPLY | BR_ONEWAY_SPAM_SUSPECT | BR_UNKNOWN u32

abbreviation EINTR :: int where "EINTR \<equiv> 4"
abbreviation EBADF :: int where "EBADF \<equiv> 9"
abbreviation EAGAIN :: int where "EAGAIN \<equiv> 11"
abbreviation ECONNREFUSED :: int where "ECONNREFUSED \<equiv> 111"
abbreviation TIMED_OUT :: status_t where "TIMED_OUT \<equiv> - 110"

section \<open>State\<close>

text \<open>The calls made on the reference counts of RefBase, on proxies and on local objects.\<close>

datatype ref_call =
    IncStrongP proxy | DecStrongP proxy | IncWeakP proxy | DecWeakP proxy
  | IncStrongB u64 | DecStrongB u64 | IncWeakB u64 | DecWeakB u64

datatype bp_handle = BinderHandle u32 | RpcHandle nat u64

record obituary =
  ob_recipient :: nat
  ob_cookie :: nat
  ob_flags :: u32

text \<open>What RefBase knows of an object that extendObjectLifetime(OBJECT_LIFETIME_WEAK) was called on: it
  has strong references, only weak ones, none (its destructor is about to run), or is gone.\<close>

datatype stage = Strong | WeakOnly | Dying | Destroyed

record bp_binder =
  mHandle :: bp_handle
  mAlive :: bool
  mObitsSent :: bool
  mObituaries :: "obituary list option"
  bp_objects :: object_manager
  mDescriptorCache :: "u16 list"
  mTrackedUid :: u32
  bp_stability :: int
  bp_stage :: stage

record handle_entry =
  he_binder :: "proxy option"
  he_refs :: "proxy option"

datatype CallRestriction = RESTRICT_NONE | ERROR_IF_NOT_ONEWAY | FATAL_IF_NOT_ONEWAY

record ipc =
  mDriverFD :: int
  mHandleToObject :: "handle_entry list"
  mThreadPoolStarted :: bool
  mThreadPoolSeq :: u32
  mMaxThreads :: nat
  mExecutingThreadsCount :: nat
  mExitRequested :: bool
  mContextObject :: "u64 option"
  mThreadPoolSet :: "nat list"
  spawned :: "bool list"
  proxies :: "proxy \<Rightarrow> bp_binder"
  next_proxy :: proxy
  sTrackingMap :: "u32 \<rightharpoonup> u32"
  sLastLimitCallbackMap :: "u32 \<rightharpoonup> u32"
  sCountByUidEnabled :: bool
  sLimitCallback :: bool
  sBinderProxyThrottleCreate :: bool
  sBinderProxyCountHighWatermark :: u32
  sBinderProxyCountLowWatermark :: u32
  limit_calls :: "u32 list"
  locals :: "u64 \<Rightarrow> bbinder"
  mIBinderSet :: "u64 list"
  gDisableBackgroundScheduling :: bool
  mIn :: "br_command list"
  mOut :: "bc_command list"
  mLastError :: status_t
  mServingStackPointer :: nat
  mServingStackPointerGuard :: "nat option"
  mCallingPid :: u32
  mCallingSid :: "nat option"
  mCallingUid :: u32
  mWorkSource :: u32
  mPropagateWorkSource :: bool
  mIsLooper :: bool
  mIsFlushing :: bool
  mStrictModePolicy :: u32
  mLastTransactionBinderFlags :: u32
  mCallRestriction :: CallRestriction
  mPendingStrongDerefs :: "u64 list"
  mPendingWeakDerefs :: "u64 list"
  mPostWriteStrongDerefs :: "proxy list"
  mPostWriteWeakDerefs :: "proxy list"
  ioctls :: nat
  driver_log :: "bc_command list"
  ref_log :: "ref_call list"
  fd_log :: "effect list"
  died :: "(nat \<times> proxy) list"
  rpc_released :: "proxy list"
  cleaned :: "(nat \<times> nat \<times> nat \<times> nat) list"

text \<open>\<open>driver_log\<close> is what the driver has taken, \<open>fd_log\<close> the descriptors closed, \<open>died\<close> the calls of binderDied on recipients, \<open>rpc_released\<close> the
  calls of sendDecStrong on RPC sessions, \<open>cleaned\<close> the calls of cleanup functions of attached objects, \<open>spawned\<close> the pool threads started.\<close>

record io_result =
  io_err :: int
  io_taken :: nat
  io_read :: "br_command list"
  io_closed :: bool

record ipc_env =
  driver :: "nat \<Rightarrow> bc_command list \<Rightarrow> nat \<Rightarrow> bool \<Rightarrow> io_result"
  poll_fails :: "nat \<Rightarrow> int option"
  my_pid :: u32
  my_uid :: u32
  my_tid :: nat
  frame :: nat
  can_insert :: "nat \<Rightarrow> nat \<Rightarrow> bool"
  recipient_live :: "nat \<Rightarrow> bool"
  incoming_threads :: "nat \<Rightarrow> nat"
  attempt_strong :: "u64 \<Rightarrow> bool"
  weak_refs :: "u64 \<Rightarrow> u64"

type_synonym 'a ipc_run = "crash + 'a \<times> ipc"

section \<open>Identity of the caller\<close>

definition clearCaller :: "ipc_env \<Rightarrow> ipc \<Rightarrow> ipc" where
  "clearCaller D s = s\<lparr>mCallingPid := my_pid D, mCallingSid := None, mCallingUid := my_uid D\<rparr>"

text \<open>A token is an int64_t; a pid_t is widened with its sign.\<close>

definition clearCallingIdentity :: "ipc_env \<Rightarrow> ipc \<Rightarrow> u64 \<times> ipc" where
  "clearCallingIdentity D s =
     (push_bit 32 (ucast (mCallingUid s)) OR scast (mCallingPid s), clearCaller D s)"

definition restoreCallingIdentity :: "u64 \<Rightarrow> ipc \<Rightarrow> ipc" where
  "restoreCallingIdentity token s =
     s\<lparr>mCallingUid := ucast (signed_drop_bit 32 token), mCallingSid := None, mCallingPid := ucast token\<rparr>"

definition checkContextIsBinderForUse :: "ipc \<Rightarrow> crash + unit" where
  "checkContextIsBinderForUse s =
     (case mServingStackPointerGuard s of
        None \<Rightarrow> Inr ()
      | Some address \<Rightarrow> if mServingStackPointer s = 0 \<or> address < mServingStackPointer s then Inl Abort else Inr ())"

definition getCallingPid :: "ipc \<Rightarrow> crash + u32" where
  "getCallingPid s = bind_run (checkContextIsBinderForUse s) (\<lambda>_. Inr (mCallingPid s))"

definition getCallingSid :: "ipc \<Rightarrow> crash + nat option" where
  "getCallingSid s = bind_run (checkContextIsBinderForUse s) (\<lambda>_. Inr (mCallingSid s))"

definition getCallingUid :: "ipc \<Rightarrow> crash + u32" where
  "getCallingUid s = bind_run (checkContextIsBinderForUse s) (\<lambda>_. Inr (mCallingUid s))"

definition pushGetCallingSpGuard :: "nat option \<Rightarrow> ipc \<Rightarrow> nat option \<times> ipc" where
  "pushGetCallingSpGuard guard s = (mServingStackPointerGuard s, s\<lparr>mServingStackPointerGuard := guard\<rparr>)"

definition restoreGetCallingSpGuard :: "nat option \<Rightarrow> ipc \<Rightarrow> ipc" where
  "restoreGetCallingSpGuard guard s = s\<lparr>mServingStackPointerGuard := guard\<rparr>"

section \<open>Work source\<close>

abbreviation kUnsetWorkSource :: u32 where "kUnsetWorkSource \<equiv> - 1"

text \<open>mWorkSource is an int32_t and is widened with its sign when the token is made.\<close>

definition setCallingWorkSourceUidWithoutPropagation :: "u32 \<Rightarrow> ipc \<Rightarrow> u64 \<times> ipc" where
  "setCallingWorkSourceUidWithoutPropagation uid s =
     (push_bit 32 (of_bool (mPropagateWorkSource s)) OR scast (mWorkSource s), s\<lparr>mWorkSource := uid\<rparr>)"

definition setCallingWorkSourceUid :: "u32 \<Rightarrow> ipc \<Rightarrow> u64 \<times> ipc" where
  "setCallingWorkSourceUid uid s =
     (case setCallingWorkSourceUidWithoutPropagation uid s of (token, s) \<Rightarrow> (token, s\<lparr>mPropagateWorkSource := True\<rparr>))"

definition clearPropagateWorkSource :: "ipc \<Rightarrow> ipc" where
  "clearPropagateWorkSource s = s\<lparr>mPropagateWorkSource := False\<rparr>"

definition shouldPropagateWorkSource :: "ipc \<Rightarrow> bool" where
  "shouldPropagateWorkSource s = mPropagateWorkSource s"

definition getCallingWorkSourceUid :: "ipc \<Rightarrow> u32" where
  "getCallingWorkSourceUid s = mWorkSource s"

definition clearCallingWorkSource :: "ipc \<Rightarrow> u64 \<times> ipc" where
  "clearCallingWorkSource s = setCallingWorkSourceUid kUnsetWorkSource s"

definition restoreCallingWorkSource :: "u64 \<Rightarrow> ipc \<Rightarrow> ipc" where
  "restoreCallingWorkSource token s =
     (snd (setCallingWorkSourceUidWithoutPropagation (ucast token) s))
       \<lparr>mPropagateWorkSource := signed_drop_bit 32 token AND 1 = 1\<rparr>"

definition clearLastError :: "ipc \<Rightarrow> status_t \<times> ipc" where
  "clearLastError s = (mLastError s, s\<lparr>mLastError := NO_ERROR\<rparr>)"

section \<open>Other settings of a thread and its process\<close>

definition setStrictModePolicy :: "u32 \<Rightarrow> ipc \<Rightarrow> ipc" where
  "setStrictModePolicy policy s = s\<lparr>mStrictModePolicy := policy\<rparr>"

definition getStrictModePolicy :: "ipc \<Rightarrow> u32" where
  "getStrictModePolicy s = mStrictModePolicy s"

definition setLastTransactionBinderFlags :: "u32 \<Rightarrow> ipc \<Rightarrow> ipc" where
  "setLastTransactionBinderFlags flags s = s\<lparr>mLastTransactionBinderFlags := flags\<rparr>"

definition getLastTransactionBinderFlags :: "ipc \<Rightarrow> u32" where
  "getLastTransactionBinderFlags s = mLastTransactionBinderFlags s"

definition setCallRestriction :: "CallRestriction \<Rightarrow> ipc \<Rightarrow> ipc" where
  "setCallRestriction restriction s = s\<lparr>mCallRestriction := restriction\<rparr>"

definition getCallRestriction :: "ipc \<Rightarrow> CallRestriction" where
  "getCallRestriction s = mCallRestriction s"

definition getServingStackPointer :: "ipc \<Rightarrow> nat" where
  "getServingStackPointer s = mServingStackPointer s"

definition setTheContextObject :: "u64 option \<Rightarrow> ipc \<Rightarrow> ipc" where
  "setTheContextObject obj s = s\<lparr>mContextObject := obj\<rparr>"

definition disableBackgroundScheduling :: "bool \<Rightarrow> ipc \<Rightarrow> ipc" where
  "disableBackgroundScheduling x s = s\<lparr>gDisableBackgroundScheduling := x\<rparr>"

definition backgroundSchedulingDisabled :: "ipc \<Rightarrow> bool" where
  "backgroundSchedulingDisabled s = gDisableBackgroundScheduling s"

text \<open>Sets of the process, as lists without repetitions.\<close>

definition registerThread :: "nat \<Rightarrow> ipc \<Rightarrow> ipc" where
  "registerThread tid s = s\<lparr>mThreadPoolSet := List.insert tid (mThreadPoolSet s)\<rparr>"

definition unregisterThread :: "nat \<Rightarrow> ipc \<Rightarrow> ipc" where
  "unregisterThread tid s = s\<lparr>mThreadPoolSet := remove1 tid (mThreadPoolSet s)\<rparr>"

definition insertBBinder :: "u64 \<Rightarrow> ipc \<Rightarrow> ipc" where
  "insertBBinder b s = s\<lparr>mIBinderSet := List.insert b (mIBinderSet s)\<rparr>"

definition eraseBBinder :: "u64 \<Rightarrow> ipc \<Rightarrow> ipc" where
  "eraseBBinder b s = s\<lparr>mIBinderSet := remove1 b (mIBinderSet s)\<rparr>"

section \<open>Talking to the driver\<close>

text \<open>ioctl(BINDER_WRITE_READ), repeated while it is interrupted. What the driver took of the commands
  stays taken.\<close>

partial_function (option) ioctl_loop ::
  "ipc_env \<Rightarrow> bc_command list \<Rightarrow> bool \<Rightarrow> nat \<Rightarrow> nat \<Rightarrow> (io_result \<times> nat) option" where
  "ioctl_loop D out rd taken n =
     (let r = driver D n out taken rd; err = (if io_closed r then - EBADF else io_err r) in
      if err = - EINTR then ioctl_loop D out rd (io_taken r) (Suc n) else Some (r\<lparr>io_err := err\<rparr>, Suc n))"

definition processPostWriteDerefs :: "ipc \<Rightarrow> ipc" where
  "processPostWriteDerefs s =
     s\<lparr>ref_log := ref_log s @ map DecWeakP (mPostWriteWeakDerefs s) @ map DecStrongP (mPostWriteStrongDerefs s),
       mPostWriteWeakDerefs := [], mPostWriteStrongDerefs := []\<rparr>"

text \<open>What talkWithDriver does with the answer of the driver.\<close>

definition took_commands :: "io_result \<Rightarrow> ipc \<Rightarrow> ipc" where
  "took_commands r s = (if 0 < io_taken r then processPostWriteDerefs (s\<lparr>mOut := []\<rparr>) else s)"

definition read_commands :: "io_result \<Rightarrow> ipc \<Rightarrow> ipc" where
  "read_commands r s = (if io_read r \<noteq> [] then s\<lparr>mIn := io_read r\<rparr> else s)"

definition driver_answer :: "bc_command list \<Rightarrow> io_result \<Rightarrow> nat \<Rightarrow> ipc \<Rightarrow> status_t ipc_run" where
  "driver_answer out r n s =
     (let s = s\<lparr>ioctls := n, driver_log := driver_log s @ take (io_taken r) out,
               mDriverFD := (if io_closed r then - 1 else mDriverFD s)\<rparr> in
      if io_err r < NO_ERROR then Inr (io_err r, s)
      else if 0 < io_taken r \<and> io_taken r < length (mOut s) then Inl Abort
      else Inr (NO_ERROR, read_commands r (took_commands r s)))"

definition talkWithDriver :: "ipc_env \<Rightarrow> bool \<Rightarrow> ipc \<Rightarrow> status_t ipc_run" where
  "talkWithDriver D doReceive s =
     (if mDriverFD s < 0 then Inr (- EBADF, s)
      else
        let needRead = (mIn s = []);
            out = (if \<not> doReceive \<or> needRead then mOut s else []);
            rd = (doReceive \<and> needRead) in
        if out = [] \<and> \<not> rd then Inr (NO_ERROR, s)
        else (case ioctl_loop D out rd 0 (ioctls s) of
            None \<Rightarrow> Inl Hang
          | Some (r, n) \<Rightarrow> driver_answer out r n s))"

definition flushCommands :: "ipc_env \<Rightarrow> ipc \<Rightarrow> crash + ipc" where
  "flushCommands D s =
     (if mDriverFD s < 0 then Inr s
      else bind_run (talkWithDriver D False s) (\<lambda>(_, s).
        if mOut s \<noteq> [] then bind_run (talkWithDriver D False s) (\<lambda>(_, s). Inr s) else Inr s))"

definition flushIfNeeded :: "ipc_env \<Rightarrow> ipc \<Rightarrow> bool ipc_run" where
  "flushIfNeeded D s =
     (if mIsLooper s \<or> mServingStackPointer s \<noteq> 0 \<or> mIsFlushing s then Inr (False, s)
      else bind_run (flushCommands D (s\<lparr>mIsFlushing := True\<rparr>)) (\<lambda>s. Inr (True, s\<lparr>mIsFlushing := False\<rparr>)))"

definition emit :: "bc_command \<Rightarrow> ipc \<Rightarrow> ipc" where
  "emit c s = s\<lparr>mOut := mOut s @ [c]\<rparr>"

section \<open>References on handles\<close>

definition incStrongHandle :: "ipc_env \<Rightarrow> u32 \<Rightarrow> proxy \<Rightarrow> ipc \<Rightarrow> crash + ipc" where
  "incStrongHandle D h b s =
     bind_run (flushIfNeeded D (emit (BC_ACQUIRE h) s)) (\<lambda>(flushed, s).
     Inr (if flushed then s
          else s\<lparr>ref_log := ref_log s @ [IncStrongP b], mPostWriteStrongDerefs := mPostWriteStrongDerefs s @ [b]\<rparr>))"

definition decStrongHandle :: "ipc_env \<Rightarrow> u32 \<Rightarrow> ipc \<Rightarrow> crash + ipc" where
  "decStrongHandle D h s = bind_run (flushIfNeeded D (emit (BC_RELEASE h) s)) (\<lambda>(_, s). Inr s)"

definition incWeakHandle :: "ipc_env \<Rightarrow> u32 \<Rightarrow> proxy \<Rightarrow> ipc \<Rightarrow> crash + ipc" where
  "incWeakHandle D h b s =
     bind_run (flushIfNeeded D (emit (BC_INCREFS h) s)) (\<lambda>(flushed, s).
     Inr (if flushed then s
          else s\<lparr>ref_log := ref_log s @ [IncWeakP b], mPostWriteWeakDerefs := mPostWriteWeakDerefs s @ [b]\<rparr>))"

definition decWeakHandle :: "ipc_env \<Rightarrow> u32 \<Rightarrow> ipc \<Rightarrow> crash + ipc" where
  "decWeakHandle D h s = bind_run (flushIfNeeded D (emit (BC_DECREFS h) s)) (\<lambda>(_, s). Inr s)"

text \<open>Built without HAS_BC_ATTEMPT_ACQUIRE.\<close>

definition attemptIncStrongHandle :: "u32 \<Rightarrow> status_t" where
  "attemptIncStrongHandle h = INVALID_OPERATION"

definition requestDeathNotification :: "u32 \<Rightarrow> proxy \<Rightarrow> ipc \<Rightarrow> ipc" where
  "requestDeathNotification h b s = emit (BC_REQUEST_DEATH_NOTIFICATION h b) s"

definition clearDeathNotification :: "u32 \<Rightarrow> proxy \<Rightarrow> ipc \<Rightarrow> ipc" where
  "clearDeathNotification h b s = emit (BC_CLEAR_DEATH_NOTIFICATION h b) s"

text \<open>The release function of a parcel whose data is a buffer of the driver.\<close>

definition freeBuffer :: "env \<Rightarrow> ipc_env \<Rightarrow> parcel option \<Rightarrow> u64 \<Rightarrow> ipc \<Rightarrow> crash + ipc" where
  "freeBuffer E D p buf s =
     bind_run
       (case p of
          None \<Rightarrow> Inr []
        | Some p \<Rightarrow> bind_run (closeFileDescriptors E p) (\<lambda>q. Inr (drop (length (effects p)) (effects q)))) (\<lambda>es.
     bind_run (flushIfNeeded D (emit (BC_FREE_BUFFER buf) (s\<lparr>fd_log := fd_log s @ es\<rparr>))) (\<lambda>(_, s). Inr s))"

text \<open>When the commands that were read are done.\<close>

definition processPendingDerefs :: "ipc \<Rightarrow> ipc" where
  "processPendingDerefs s =
     (if mIn s = []
      then s\<lparr>ref_log := ref_log s @ map DecWeakB (mPendingWeakDerefs s) @ map DecStrongB (mPendingStrongDerefs s),
             mPendingWeakDerefs := [], mPendingStrongDerefs := []\<rparr>
      else s)"

end
