(* ===== verification/Bp_Binder.thy ===== *)
theory Bp_Binder
  imports Ipc_State
begin

text \<open>
  Proxies (src/libs/binder/BpBinder.cpp) and the table of handles of a process
  (src/libs/binder/ProcessState.cpp): creation with the count per user, what RefBase calls at the first
  and after the last strong reference, the destructor, death notifications and attached objects.
  \<open>bp_stage\<close> is what RefBase knows of a proxy; only the operations named after its callbacks and
  \<open>force_set\<close> of sp<> change it.
\<close>

section \<open>Proxies\<close>

abbreviation LIMIT_REACHED_MASK :: u32 where "LIMIT_REACHED_MASK \<equiv> 0x80000000"
abbreviation COUNTING_VALUE_MASK :: u32 where "COUNTING_VALUE_MASK \<equiv> 0x7FFFFFFF"

definition upd_proxy :: "proxy \<Rightarrow> (bp_binder \<Rightarrow> bp_binder) \<Rightarrow> ipc \<Rightarrow> ipc" where
  "upd_proxy b f s = s\<lparr>proxies := (proxies s)(b := f (proxies s b))\<rparr>"

definition isRpcBinder :: "ipc \<Rightarrow> proxy \<Rightarrow> bool" where
  "isRpcBinder s b = (case mHandle (proxies s b) of RpcHandle _ _ \<Rightarrow> True | BinderHandle _ \<Rightarrow> False)"

text \<open>std::get throws when the other alternative is held, which nothing catches.\<close>

definition binderHandle :: "ipc \<Rightarrow> proxy \<Rightarrow> crash + u32" where
  "binderHandle s b = (case mHandle (proxies s b) of BinderHandle h \<Rightarrow> Inr h | RpcHandle _ _ \<Rightarrow> Inl Abort)"

definition getDebugBinderHandle :: "ipc \<Rightarrow> proxy \<Rightarrow> u32 option" where
  "getDebugBinderHandle s b = (case mHandle (proxies s b) of BinderHandle h \<Rightarrow> Some h | RpcHandle _ _ \<Rightarrow> None)"

definition isDescriptorCached :: "ipc \<Rightarrow> proxy \<Rightarrow> bool" where
  "isDescriptorCached s b \<longleftrightarrow> mDescriptorCache (proxies s b) \<noteq> []"

definition isBinderAlive :: "ipc \<Rightarrow> proxy \<Rightarrow> bool" where
  "isBinderAlive s b = mAlive (proxies s b)"

section \<open>Creation\<close>

text \<open>unordered_map::operator[] reads 0 for a key that is not there.\<close>

definition tracked :: "(u32 \<rightharpoonup> u32) \<Rightarrow> u32 \<Rightarrow> u32" where
  "tracked m uid = (case m uid of None \<Rightarrow> 0 | Some v \<Rightarrow> v)"

definition call_limit :: "u32 \<Rightarrow> ipc \<Rightarrow> ipc" where
  "call_limit uid s = (if sLimitCallback s then s\<lparr>limit_calls := limit_calls s @ [uid]\<rparr> else s)"

text \<open>The part of BpBinder::create under sTrackingLock: whether a proxy may be made.\<close>

definition track_create :: "u32 \<Rightarrow> ipc \<Rightarrow> bool \<times> ipc" where
  "track_create uid s =
     (let v = tracked (sTrackingMap s) uid in
      if v AND LIMIT_REACHED_MASK \<noteq> 0
      then if sBinderProxyThrottleCreate s then (False, s)
        else
          let c = v AND COUNTING_VALUE_MASK; at = tracked (sLastLimitCallbackMap s) uid;
              s = (if c > at \<and> c - at > sBinderProxyCountHighWatermark s
                   then (call_limit uid s)\<lparr>sLastLimitCallbackMap := (sLastLimitCallbackMap s)(uid \<mapsto> c)\<rparr> else s) in
          (True, s\<lparr>sTrackingMap := (sTrackingMap s)(uid \<mapsto> v + 1)\<rparr>)
      else if v AND COUNTING_VALUE_MASK \<ge> sBinderProxyCountHighWatermark s
      then
        let s = (call_limit uid (s\<lparr>sTrackingMap := (sTrackingMap s)(uid \<mapsto> v OR LIMIT_REACHED_MASK)\<rparr>))
                  \<lparr>sLastLimitCallbackMap := (sLastLimitCallbackMap s)(uid \<mapsto> v AND COUNTING_VALUE_MASK)\<rparr> in
        if sBinderProxyThrottleCreate s then (False, s)
        else (True, s\<lparr>sTrackingMap := (sTrackingMap s)(uid \<mapsto> (v OR LIMIT_REACHED_MASK) + 1)\<rparr>)
      else (True, s\<lparr>sTrackingMap := (sTrackingMap s)(uid \<mapsto> v + 1)\<rparr>))"

definition new_proxy :: "bp_handle \<Rightarrow> u32 \<Rightarrow> bp_binder" where
  "new_proxy hnd uid = \<lparr>mHandle = hnd, mAlive = True, mObitsSent = False, mObituaries = None, bp_objects = [],
     mDescriptorCache = [], mTrackedUid = uid, bp_stability = 0, bp_stage = WeakOnly\<rparr>"

definition onFirstRef :: "ipc_env \<Rightarrow> proxy \<Rightarrow> ipc \<Rightarrow> crash + ipc" where
  "onFirstRef D b s =
     (if isRpcBinder s b then Inr s else bind_run (binderHandle s b) (\<lambda>h. incStrongHandle D h b s))"

text \<open>The constructor, and the first strong reference taken by sp<BpBinder>::make.\<close>

definition BpBinder_make :: "ipc_env \<Rightarrow> u32 \<Rightarrow> u32 \<Rightarrow> ipc \<Rightarrow> proxy ipc_run" where
  "BpBinder_make D h uid s =
     (let b = next_proxy s;
          s = s\<lparr>next_proxy := Suc b, proxies := (proxies s)(b := new_proxy (BinderHandle h) uid)\<rparr> in
      bind_run (incWeakHandle D h b s) (\<lambda>s.
      bind_run (onFirstRef D b (upd_proxy b (\<lambda>p. p\<lparr>bp_stage := Strong\<rparr>) s)) (\<lambda>s. Inr (b, s))))"

definition BpBinder_create :: "ipc_env \<Rightarrow> u32 \<Rightarrow> ipc \<Rightarrow> proxy option ipc_run" where
  "BpBinder_create D h s =
     (if sCountByUidEnabled s
      then bind_run (getCallingUid s) (\<lambda>uid.
        case track_create uid s of
          (False, s) \<Rightarrow> Inr (None, s)
        | (True, s) \<Rightarrow> bind_run (BpBinder_make D h uid s) (\<lambda>(b, s). Inr (Some b, s)))
      else bind_run (BpBinder_make D h (- 1) s) (\<lambda>(b, s). Inr (Some b, s)))"

section \<open>The table of handles\<close>

definition lookupHandleLocked :: "ipc_env \<Rightarrow> u32 \<Rightarrow> ipc \<Rightarrow> nat option ipc_run" where
  "lookupHandleLocked D h s =
     (let N = length (mHandleToObject s); i = nat (sint h mod 18446744073709551616) in
      if N \<le> i
      then
        let n = nat ((sint h + 1 - int N) mod 18446744073709551616) in
        if \<not> can_insert D N n then Inr (None, s)
        else
          let s = s\<lparr>mHandleToObject := mHandleToObject s @ replicate n \<lparr>he_binder = None, he_refs = None\<rparr>\<rparr> in
          if i < length (mHandleToObject s) then Inr (Some i, s) else Inl Abort
      else Inr (Some i, s))"

text \<open>attemptIncWeak on the references of a proxy: memory that is gone once the proxy is destroyed.\<close>

definition attemptIncWeak :: "ipc \<Rightarrow> proxy \<Rightarrow> crash + bool" where
  "attemptIncWeak s b =
     (case bp_stage (proxies s b) of
        Strong \<Rightarrow> Inr True | WeakOnly \<Rightarrow> Inr True | Dying \<Rightarrow> Inr False | Destroyed \<Rightarrow> Inl Fault)"

text \<open>force_set of sp<>: a strong reference even if there was none.\<close>

definition force_set :: "ipc_env \<Rightarrow> proxy \<Rightarrow> ipc \<Rightarrow> crash + ipc" where
  "force_set D b s =
     (if bp_stage (proxies s b) = WeakOnly
      then onFirstRef D b (upd_proxy b (\<lambda>p. p\<lparr>bp_stage := Strong\<rparr>) s) else Inr s)"

definition set_entry :: "nat \<Rightarrow> proxy option \<Rightarrow> ipc \<Rightarrow> ipc" where
  "set_entry i b s =
     s\<lparr>mHandleToObject := (mHandleToObject s)[i := (case b of
          Some x \<Rightarrow> \<lparr>he_binder = Some x, he_refs = Some x\<rparr>
        | None \<Rightarrow> (mHandleToObject s ! i)\<lparr>he_binder := None\<rparr>)]\<rparr>"

text \<open>\<open>ping\<close> is the transaction PING_TRANSACTION on handle 0, made without call restrictions.\<close>

definition new_entry ::
  "ipc_env \<Rightarrow> (ipc \<Rightarrow> status_t ipc_run) \<Rightarrow> nat \<Rightarrow> u32 \<Rightarrow> ipc \<Rightarrow> proxy option ipc_run" where
  "new_entry D ping i h s =
     bind_run
       (if h = 0
        then bind_run (ping (s\<lparr>mCallRestriction := RESTRICT_NONE\<rparr>)) (\<lambda>(st, t).
             Inr (st, t\<lparr>mCallRestriction := mCallRestriction s\<rparr>))
        else Inr (OK, s)) (\<lambda>(st, s).
     if h = 0 \<and> st = DEAD_OBJECT then Inr (None, s)
     else bind_run (BpBinder_create D h s) (\<lambda>(b, s). Inr (b, set_entry i b s)))"

definition getStrongProxyForHandle ::
  "ipc_env \<Rightarrow> (ipc \<Rightarrow> status_t ipc_run) \<Rightarrow> u32 \<Rightarrow> ipc \<Rightarrow> proxy option ipc_run" where
  "getStrongProxyForHandle D ping h s =
     bind_run (lookupHandleLocked D h s) (\<lambda>(e, s).
     case e of
       None \<Rightarrow> Inr (None, s)
     | Some i \<Rightarrow>
         (case he_binder (mHandleToObject s ! i) of
            None \<Rightarrow> new_entry D ping i h s
          | Some b \<Rightarrow>
              (case he_refs (mHandleToObject s ! i) of
                 None \<Rightarrow> Inl Fault
               | Some r \<Rightarrow>
                   bind_run (attemptIncWeak s r) (\<lambda>got.
                   if \<not> got then new_entry D ping i h s
                   else bind_run (force_set D b (s\<lparr>ref_log := ref_log s @ [IncWeakP r]\<rparr>)) (\<lambda>s.
                     Inr (Some b, s\<lparr>ref_log := ref_log s @ [DecWeakP r]\<rparr>))))))"

definition expungeHandle :: "ipc_env \<Rightarrow> u32 \<Rightarrow> proxy \<Rightarrow> ipc \<Rightarrow> crash + ipc" where
  "expungeHandle D h b s =
     bind_run (lookupHandleLocked D h s) (\<lambda>(e, s).
     case e of
       None \<Rightarrow> Inr s
     | Some i \<Rightarrow> Inr (if he_binder (mHandleToObject s ! i) = Some b then set_entry i None s else s))"

section \<open>Callbacks of RefBase\<close>

definition onLastStrongRef :: "ipc_env \<Rightarrow> proxy \<Rightarrow> ipc \<Rightarrow> crash + ipc" where
  "onLastStrongRef D b s =
     (if isRpcBinder s b then Inr (s\<lparr>rpc_released := rpc_released s @ [b]\<rparr>)
      else bind_run (binderHandle s b) (\<lambda>h.
        bind_run (decStrongHandle D h s) (\<lambda>s.
        Inr (case mObituaries (proxies s b) of
           None \<Rightarrow> s
         | Some _ \<Rightarrow> upd_proxy b (\<lambda>p. p\<lparr>mObituaries := None\<rparr>) (clearDeathNotification h b s)))))"

definition onIncStrongAttempted :: "proxy \<Rightarrow> ipc \<Rightarrow> crash + bool" where
  "onIncStrongAttempted b s =
     (if isRpcBinder s b then Inr False
      else bind_run (binderHandle s b) (\<lambda>h. Inr (attemptIncStrongHandle h = NO_ERROR)))"

definition track_destroy :: "u32 \<Rightarrow> ipc \<Rightarrow> ipc" where
  "track_destroy uid s =
     (let v = tracked (sTrackingMap s) uid in
      if v AND COUNTING_VALUE_MASK = 0 then s\<lparr>sTrackingMap := (sTrackingMap s)(uid \<mapsto> v)\<rparr>
      else
        let reset = (v AND LIMIT_REACHED_MASK \<noteq> 0 \<and> v AND COUNTING_VALUE_MASK \<le> sBinderProxyCountLowWatermark s);
            v = (if reset then v AND NOT LIMIT_REACHED_MASK else v);
            s = (if reset then s\<lparr>sLastLimitCallbackMap := (sLastLimitCallbackMap s)(uid := None)\<rparr> else s) in
        s\<lparr>sTrackingMap := (if v - 1 = 0 then (sTrackingMap s)(uid := None) else (sTrackingMap s)(uid \<mapsto> v - 1))\<rparr>)"

text \<open>The cleanup functions of the attached objects, called by the destructor of the object manager.\<close>

definition ObjectManager_kill :: "proxy \<Rightarrow> ipc \<Rightarrow> ipc" where
  "ObjectManager_kill b s =
     upd_proxy b (\<lambda>p. p\<lparr>bp_objects := []\<rparr>) (s\<lparr>cleaned := cleaned s @ om_kill (bp_objects (proxies s b))\<rparr>)"

definition BpBinder_destroy :: "ipc_env \<Rightarrow> proxy \<Rightarrow> ipc \<Rightarrow> crash + ipc" where
  "BpBinder_destroy D b s =
     bind_run
       (if isRpcBinder s b then Inr s
        else
          let uid = mTrackedUid (proxies s b); s = (if sint uid \<ge> 0 then track_destroy uid s else s) in
          bind_run (binderHandle s b) (\<lambda>h.
          bind_run (expungeHandle D h b s) (decWeakHandle D h)))
       (\<lambda>s. Inr (upd_proxy b (\<lambda>p. p\<lparr>bp_stage := Destroyed\<rparr>) (ObjectManager_kill b s)))"

section \<open>Death notifications\<close>

definition linkToDeath :: "ipc_env \<Rightarrow> proxy \<Rightarrow> nat option \<Rightarrow> nat \<Rightarrow> u32 \<Rightarrow> ipc \<Rightarrow> status_t ipc_run" where
  "linkToDeath D b recipient cookie flags s =
     (if (case mHandle (proxies s b) of RpcHandle x _ \<Rightarrow> incoming_threads D x < 1 | BinderHandle _ \<Rightarrow> False) then Inl Abort
      else case recipient of
        None \<Rightarrow> Inl Abort
      | Some r \<Rightarrow>
          if mObitsSent (proxies s b) then Inr (DEAD_OBJECT, s)
          else
            let ob = \<lparr>ob_recipient = r, ob_cookie = cookie, ob_flags = flags\<rparr> in
            (case mObituaries (proxies s b) of
               Some obs \<Rightarrow> Inr (NO_ERROR, upd_proxy b (\<lambda>p. p\<lparr>mObituaries := Some (obs @ [ob])\<rparr>) s)
             | None \<Rightarrow>
                 let s = upd_proxy b (\<lambda>p. p\<lparr>mObituaries := Some []\<rparr>) s in
                 bind_run
                   (case mHandle (proxies s b) of
                      RpcHandle _ _ \<Rightarrow> Inr s
                    | BinderHandle h \<Rightarrow>
                        flushCommands D (requestDeathNotification h b (s\<lparr>ref_log := ref_log s @ [IncWeakP b]\<rparr>)))
                   (\<lambda>s. Inr (NO_ERROR, upd_proxy b (\<lambda>p. p\<lparr>mObituaries := Some [ob]\<rparr>) s))))"

definition obit_matches :: "nat option \<Rightarrow> nat \<Rightarrow> u32 \<Rightarrow> obituary \<Rightarrow> bool" where
  "obit_matches recipient cookie flags ob \<longleftrightarrow>
     (recipient = Some (ob_recipient ob) \<or> recipient = None \<and> ob_cookie ob = cookie) \<and> ob_flags ob = flags"

fun remove_first :: "('a \<Rightarrow> bool) \<Rightarrow> 'a list \<Rightarrow> ('a \<times> 'a list) option" where
  "remove_first P [] = None"
| "remove_first P (x # xs) =
     (if P x then Some (x, xs) else map_option (\<lambda>(y, ys). (y, x # ys)) (remove_first P xs))"

definition unlinkToDeath ::
  "ipc_env \<Rightarrow> proxy \<Rightarrow> nat option \<Rightarrow> nat \<Rightarrow> u32 \<Rightarrow> ipc \<Rightarrow> (status_t + nat) ipc_run" where
  "unlinkToDeath D b recipient cookie flags s =
     (if mObitsSent (proxies s b) then Inr (Inl DEAD_OBJECT, s)
      else case remove_first (obit_matches recipient cookie flags)
             (case mObituaries (proxies s b) of None \<Rightarrow> [] | Some obs \<Rightarrow> obs) of
        None \<Rightarrow> Inr (Inl NAME_NOT_FOUND, s)
      | Some (ob, rest) \<Rightarrow>
          if rest \<noteq> [] then Inr (Inr (ob_recipient ob), upd_proxy b (\<lambda>p. p\<lparr>mObituaries := Some rest\<rparr>) s)
          else
            bind_run
              (case mHandle (proxies s b) of
                 RpcHandle _ _ \<Rightarrow> Inr s
               | BinderHandle h \<Rightarrow> flushCommands D (clearDeathNotification h b s))
              (\<lambda>s. Inr (Inr (ob_recipient ob), upd_proxy b (\<lambda>p. p\<lparr>mObituaries := None\<rparr>) s)))"

definition reportOneDeath :: "ipc_env \<Rightarrow> proxy \<Rightarrow> obituary \<Rightarrow> ipc \<Rightarrow> ipc" where
  "reportOneDeath D b ob s =
     (if recipient_live D (ob_recipient ob) then s\<lparr>died := died s @ [(ob_recipient ob, b)]\<rparr> else s)"

definition sendObituary :: "ipc_env \<Rightarrow> proxy \<Rightarrow> ipc \<Rightarrow> crash + ipc" where
  "sendObituary D b s =
     (let s = upd_proxy b (\<lambda>p. p\<lparr>mAlive := False\<rparr>) s in
      if mObitsSent (proxies s b) then Inr s
      else
        let obits = mObituaries (proxies s b) in
        bind_run
          (case (obits, mHandle (proxies s b)) of
             (Some _, BinderHandle h) \<Rightarrow> flushCommands D (clearDeathNotification h b s)
           | _ \<Rightarrow> Inr s)
          (\<lambda>s. Inr (fold (reportOneDeath D b) (case obits of None \<Rightarrow> [] | Some obs \<Rightarrow> obs)
                 (upd_proxy b (\<lambda>p. p\<lparr>mObituaries := None, mObitsSent := True\<rparr>) s))))"

section \<open>Attached objects\<close>

definition attachObject :: "proxy \<Rightarrow> nat \<Rightarrow> object_entry \<Rightarrow> ipc \<Rightarrow> nat option \<times> ipc" where
  "attachObject b i e s =
     (case om_attach i e (bp_objects (proxies s b)) of (r, m) \<Rightarrow> (r, upd_proxy b (\<lambda>p. p\<lparr>bp_objects := m\<rparr>) s))"

definition findObject :: "proxy \<Rightarrow> nat \<Rightarrow> ipc \<Rightarrow> nat option" where
  "findObject b i s = om_find i (bp_objects (proxies s b))"

definition detachObject :: "proxy \<Rightarrow> nat \<Rightarrow> ipc \<Rightarrow> nat option \<times> ipc" where
  "detachObject b i s =
     (case om_detach i (bp_objects (proxies s b)) of (r, m) \<Rightarrow> (r, upd_proxy b (\<lambda>p. p\<lparr>bp_objects := m\<rparr>) s))"

section \<open>Counts per user\<close>

definition getBinderProxyCount :: "u32 \<Rightarrow> ipc \<Rightarrow> u32" where
  "getBinderProxyCount uid s = tracked (sTrackingMap s) uid AND COUNTING_VALUE_MASK"

definition setCountByUidEnabled :: "bool \<Rightarrow> ipc \<Rightarrow> ipc" where
  "setCountByUidEnabled x s = s\<lparr>sCountByUidEnabled := x\<rparr>"

definition setLimitCallback :: "bool \<Rightarrow> ipc \<Rightarrow> ipc" where
  "setLimitCallback x s = s\<lparr>sLimitCallback := x\<rparr>"

definition setBinderProxyCountWatermarks :: "u32 \<Rightarrow> u32 \<Rightarrow> ipc \<Rightarrow> ipc" where
  "setBinderProxyCountWatermarks high low s =
     s\<lparr>sBinderProxyCountHighWatermark := high, sBinderProxyCountLowWatermark := low\<rparr>"

end
