(* ===== verification/Ipc_Commands.thy ===== *)
theory Ipc_Commands
  imports Bp_Binder
begin

text \<open>
  Transactions of a thread through the driver (src/libs/binder/IPCThreadState.cpp): the commands of the
  driver, calls in both directions, replies and the loops of the thread pool. transact of a local object
  is the application's code and a parameter, \<open>local_code\<close>: it gets the data and may use the thread.
  A parcel whose data is a buffer of the driver comes with the address of that buffer. A loop of the
  code that need not end is a partial function, whose value is \<open>None\<close> when it does not.
\<close>

abbreviation TF_ONE_WAY :: u32 where "TF_ONE_WAY \<equiv> 1"
abbreviation TF_STATUS_CODE :: u32 where "TF_STATUS_CODE \<equiv> 8"
abbreviation TF_ACCEPT_FDS :: u32 where "TF_ACCEPT_FDS \<equiv> 16"
abbreviation TF_CLEAR_BUF :: u32 where "TF_CLEAR_BUF \<equiv> 32"

type_synonym local_code = "u64 \<Rightarrow> u32 \<Rightarrow> parcel \<Rightarrow> u32 \<Rightarrow> ipc \<Rightarrow> (status_t \<times> parcel) ipc_run"

type_synonym buffered = "parcel \<times> u64"

section \<open>Buffers of the driver\<close>

text \<open>The calls of its release function that an operation on a parcel made.\<close>

definition owner_calls :: "parcel \<Rightarrow> parcel \<Rightarrow> nat" where
  "owner_calls p q = count_list (drop (length (effects p)) (effects q)) OwnerFree"

definition run_release :: "env \<Rightarrow> ipc_env \<Rightarrow> parcel \<Rightarrow> parcel \<Rightarrow> u64 \<Rightarrow> ipc \<Rightarrow> crash + ipc" where
  "run_release E D p q buf s = (if owner_calls p q = 0 then Inr s else freeBuffer E D (Some p) buf s)"

definition buffer_setDataSize :: "env \<Rightarrow> ipc_env \<Rightarrow> nat \<Rightarrow> buffered \<Rightarrow> ipc \<Rightarrow> crash + buffered \<times> ipc" where
  "buffer_setDataSize E D n b s =
     bind_run (setDataSize E n (fst b)) (\<lambda>(_, q).
     bind_run (run_release E D (fst b) q (snd b) s) (\<lambda>s. Inr ((q, snd b), s)))"

definition destroy_buffered :: "env \<Rightarrow> ipc_env \<Rightarrow> buffered \<Rightarrow> ipc \<Rightarrow> crash + ipc" where
  "destroy_buffered E D b s =
     bind_run (freeDataNoInit E (fst b)) (\<lambda>q. run_release E D (fst b) q (snd b) s)"

definition set_reference :: "env \<Rightarrow> ipc_env \<Rightarrow> tr_data \<Rightarrow> buffered \<Rightarrow> ipc \<Rightarrow> crash + buffered \<times> ipc" where
  "set_reference E D tr b s =
     bind_run (ipcSetDataReference E (tr_bytes tr) (tr_offsets tr) True (fst b)) (\<lambda>q.
     bind_run (run_release E D (fst b) q (snd b) s) (\<lambda>s. Inr ((q, tr_buffer tr), s)))"

section \<open>Outgoing data\<close>

text \<open>The addresses of the data and of the offsets stand for what is stored there.\<close>

definition writeTransactionData ::
  "(tr_data \<Rightarrow> bc_command) \<Rightarrow> u32 \<Rightarrow> u32 \<Rightarrow> u32 \<Rightarrow> parcel \<Rightarrow> bool \<Rightarrow> ipc \<Rightarrow> status_t \<times> ipc" where
  "writeTransactionData cmd binderFlags handle code dat statusBuffer s =
     (let tr = \<lparr>tr_target = ucast handle, tr_cookie = 0, tr_code = code, tr_flags = binderFlags, sender_pid = 0,
                sender_euid = 0, tr_buffer = 0, tr_bytes = [], tr_offsets = []\<rparr>;
          err = errorCheck dat in
      if err = NO_ERROR
      then (NO_ERROR, emit (cmd (tr\<lparr>tr_bytes := take (ipcDataSize dat) (case mData dat of None \<Rightarrow> [] | Some b \<Rightarrow> b),
                                     tr_offsets := mObjects dat\<rparr>)) s)
      else if statusBuffer
      then (NO_ERROR, emit (cmd (tr\<lparr>tr_flags := binderFlags OR TF_STATUS_CODE, tr_bytes := enc32 (of_int err)\<rparr>)) s)
      else (err, s\<lparr>mLastError := err\<rparr>))"

section \<open>Commands of the driver\<close>

definition makeBinderThreadName :: "ipc \<Rightarrow> u32 \<times> ipc" where
  "makeBinderThreadName s = (mThreadPoolSeq s, s\<lparr>mThreadPoolSeq := mThreadPoolSeq s + 1\<rparr>)"

definition spawnPooledThread :: "bool \<Rightarrow> ipc \<Rightarrow> ipc" where
  "spawnPooledThread isMain s =
     (if mThreadPoolStarted s then (snd (makeBinderThreadName s))\<lparr>spawned := spawned s @ [isMain]\<rparr> else s)"

definition startThreadPool :: "ipc \<Rightarrow> ipc" where
  "startThreadPool s =
     (if mThreadPoolStarted s then s else spawnPooledThread True (s\<lparr>mThreadPoolStarted := True\<rparr>))"

text \<open>The commands other than transactions. ALOG_ASSERT is for debugging builds only.\<close>

definition simple_command :: "ipc_env \<Rightarrow> br_command \<Rightarrow> ipc \<Rightarrow> status_t ipc_run" where
  "simple_command D cmd s =
     (case cmd of
        BR_ERROR e \<Rightarrow> Inr (sint e, s)
      | BR_OK \<Rightarrow> Inr (NO_ERROR, s)
      | BR_ACQUIRE refs obj \<Rightarrow>
          Inr (NO_ERROR, emit (BC_ACQUIRE_DONE refs obj) (s\<lparr>ref_log := ref_log s @ [IncStrongB obj]\<rparr>))
      | BR_RELEASE refs obj \<Rightarrow> Inr (NO_ERROR, s\<lparr>mPendingStrongDerefs := mPendingStrongDerefs s @ [obj]\<rparr>)
      | BR_INCREFS refs obj \<Rightarrow>
          Inr (NO_ERROR, emit (BC_INCREFS_DONE refs obj) (s\<lparr>ref_log := ref_log s @ [IncWeakB refs]\<rparr>))
      | BR_DECREFS refs obj \<Rightarrow> Inr (NO_ERROR, s\<lparr>mPendingWeakDerefs := mPendingWeakDerefs s @ [refs]\<rparr>)
      | BR_ATTEMPT_ACQUIRE refs obj \<Rightarrow>
          let success = attempt_strong D refs in
          Inr (NO_ERROR, emit (BC_ACQUIRE_RESULT (of_bool success))
                (if success then s\<lparr>ref_log := ref_log s @ [IncStrongB obj]\<rparr> else s))
      | BR_DEAD_BINDER b \<Rightarrow>
          bind_run (sendObituary D b s) (\<lambda>s. Inr (NO_ERROR, emit (BC_DEAD_BINDER_DONE b) s))
      | BR_CLEAR_DEATH_NOTIFICATION_DONE b \<Rightarrow> Inr (NO_ERROR, s\<lparr>ref_log := ref_log s @ [DecWeakP b]\<rparr>)
      | BR_FINISHED \<Rightarrow> Inr (TIMED_OUT, s)
      | BR_NOOP \<Rightarrow> Inr (NO_ERROR, s)
      | BR_SPAWN_LOOPER \<Rightarrow> Inr (NO_ERROR, spawnPooledThread False s)
      | _ \<Rightarrow> Inr (UNKNOWN_ERROR, s))"

text \<open>What a thread is doing, as far as a transaction changes and restores it.\<close>

record caller =
  c_sp :: nat
  c_pid :: u32
  c_sid :: "nat option"
  c_uid :: u32
  c_strict :: u32
  c_flags :: u32
  c_source :: u32
  c_propagate :: bool

definition caller_of :: "ipc \<Rightarrow> caller" where
  "caller_of s = \<lparr>c_sp = mServingStackPointer s, c_pid = mCallingPid s, c_sid = mCallingSid s, c_uid = mCallingUid s,
     c_strict = mStrictModePolicy s, c_flags = mLastTransactionBinderFlags s, c_source = mWorkSource s,
     c_propagate = mPropagateWorkSource s\<rparr>"

definition restore_caller :: "caller \<Rightarrow> ipc \<Rightarrow> ipc" where
  "restore_caller c s = s\<lparr>mServingStackPointer := c_sp c, mCallingPid := c_pid c, mCallingSid := c_sid c,
     mCallingUid := c_uid c, mStrictModePolicy := c_strict c, mLastTransactionBinderFlags := c_flags c,
     mWorkSource := c_source c, mPropagateWorkSource := c_propagate c\<rparr>"

definition enter_call :: "ipc_env \<Rightarrow> tr_data \<Rightarrow> nat option \<Rightarrow> ipc \<Rightarrow> ipc" where
  "enter_call D tr sec s =
     (clearPropagateWorkSource (snd (clearCallingWorkSource (s\<lparr>mServingStackPointer := frame D\<rparr>))))
       \<lparr>mCallingPid := sender_pid tr, mCallingSid := sec, mCallingUid := sender_euid tr,
        mLastTransactionBinderFlags := tr_flags tr\<rparr>"

definition call_local :: "ipc_env \<Rightarrow> local_code \<Rightarrow> tr_data \<Rightarrow> parcel \<Rightarrow> ipc \<Rightarrow> (status_t \<times> parcel) ipc_run" where
  "call_local D A tr buf s =
     (if tr_target tr \<noteq> 0
      then if attempt_strong D (tr_target tr)
        then bind_run (A (tr_cookie tr) (tr_code tr) buf (tr_flags tr)
               (s\<lparr>ref_log := ref_log s @ [IncStrongB (tr_target tr)]\<rparr>)) (\<lambda>(r, s).
             Inr (r, s\<lparr>ref_log := ref_log s @ [DecStrongB (tr_cookie tr)]\<rparr>))
        else Inr ((UNKNOWN_TRANSACTION, Parcel), s)
      else case mContextObject s of
        None \<Rightarrow> Inl Fault
      | Some obj \<Rightarrow> A obj (tr_code tr) buf (tr_flags tr) s)"

text \<open>\<open>wait\<close> is waitForResponse(nullptr, nullptr).\<close>

definition sendReply_with :: "(ipc \<Rightarrow> (status_t ipc_run) option) \<Rightarrow> parcel \<Rightarrow> u32 \<Rightarrow> ipc \<Rightarrow> (status_t ipc_run) option" where
  "sendReply_with wait reply flags s =
     (case writeTransactionData BC_REPLY flags (- 1) 0 reply True s of
        (err, s) \<Rightarrow> if err < NO_ERROR then Some (Inr (err, s)) else wait s)"

definition answer_call ::
  "(ipc \<Rightarrow> (status_t ipc_run) option) \<Rightarrow> env \<Rightarrow> ipc_env \<Rightarrow> tr_data \<Rightarrow> status_t \<Rightarrow> parcel \<Rightarrow> buffered \<Rightarrow> ipc \<Rightarrow>
   (crash + buffered \<times> ipc) option" where
  "answer_call wait E D tr error reply b s =
     (if tr_flags tr AND TF_ONE_WAY = 0
      then
        let reply = (if error < NO_ERROR then setError error reply else reply) in
        and_then (Some (buffer_setDataSize E D 0 b s)) (\<lambda>(b, s).
        and_then (sendReply_with wait reply (tr_flags tr AND TF_CLEAR_BUF) s) (\<lambda>(_, s). Some (Inr (b, s))))
      else Some (Inr (b, s)))"

text \<open>The parcel of the data lives to the end of the block, after the caller is restored.\<close>

definition serve_call ::
  "(ipc \<Rightarrow> (status_t ipc_run) option) \<Rightarrow> env \<Rightarrow> ipc_env \<Rightarrow> local_code \<Rightarrow> tr_data \<Rightarrow> nat option \<Rightarrow> ipc \<Rightarrow>
   (status_t ipc_run) option" where
  "serve_call wait E D A tr sec s =
     and_then (Some (set_reference E D tr (Parcel, 0) s)) (\<lambda>(b, s).
     let c = caller_of s in
     and_then (Some (call_local D A tr (fst b) (enter_call D tr sec s))) (\<lambda>((error, reply), s).
     and_then (answer_call wait E D tr error reply b s) (\<lambda>(b, s).
     and_then (Some (destroy_buffered E D b (restore_caller c s))) (\<lambda>s. Some (Inr (NO_ERROR, s))))))"

definition executeCommand_with ::
  "(ipc \<Rightarrow> (status_t ipc_run) option) \<Rightarrow> env \<Rightarrow> ipc_env \<Rightarrow> local_code \<Rightarrow> br_command \<Rightarrow> ipc \<Rightarrow> (status_t ipc_run) option" where
  "executeCommand_with wait E D A cmd s =
     (case cmd of
        BR_TRANSACTION tr sec \<Rightarrow> serve_call wait E D A tr sec s
      | _ \<Rightarrow>
          and_then (Some (simple_command D cmd s)) (\<lambda>(result, s).
          Some (Inr (result, if result \<noteq> NO_ERROR then s\<lparr>mLastError := result\<rparr> else s))))"

lemma executeCommand_with_mono [partial_function_mono]:
  assumes "\<And>s. mono_option (\<lambda>f. W f s)"
  shows "mono_option (\<lambda>f. executeCommand_with (W f) E D A cmd s)"
proof -
  have reply: "mono_option (\<lambda>f. sendReply_with (W f) p fl s)" for p fl s
    unfolding sendReply_with_def
    by (cases "fst (writeTransactionData BC_REPLY fl (- 1) 0 p True s) < NO_ERROR")
      (simp_all add: assms option.const_mono split_beta)
  have answer: "mono_option (\<lambda>f. answer_call (W f) E D tr err p b s)" for tr err p b s
    unfolding answer_call_def Let_def
    by (cases "tr_flags tr AND TF_ONE_WAY = 0") (simp_all add: and_then_mono option.const_mono reply split_beta)
  have "mono_option (\<lambda>f. serve_call (W f) E D A tr sec s)" for tr sec
    unfolding serve_call_def Let_def by (simp add: and_then_mono option.const_mono answer split_beta)
  then show ?thesis unfolding executeCommand_with_def by (cases cmd) (auto simp: option.const_mono)
qed

section \<open>Waiting for an answer\<close>

type_synonym answer = "status_t \<times> buffered option \<times> status_t option"

datatype wait_action = Finish answer | Again | Execute br_command

definition finish_answer :: "status_t \<Rightarrow> buffered option \<Rightarrow> status_t option \<Rightarrow> ipc \<Rightarrow> answer \<times> ipc" where
  "finish_answer err reply acq s =
     (if err \<noteq> NO_ERROR
      then ((err, map_option (apfst (setError err)) reply, map_option (\<lambda>_. err) acq), s\<lparr>mLastError := err\<rparr>)
      else ((err, reply, acq), s))"

definition finish_wait :: "status_t \<Rightarrow> buffered option \<Rightarrow> status_t option \<Rightarrow> ipc \<Rightarrow> wait_action ipc_run" where
  "finish_wait err reply acq s = Inr (apfst Finish (finish_answer err reply acq s))"

definition take_answer :: "env \<Rightarrow> ipc_env \<Rightarrow> tr_data \<Rightarrow> buffered option \<Rightarrow> status_t option \<Rightarrow> ipc \<Rightarrow> wait_action ipc_run" where
  "take_answer E D tr reply acq s =
     (case reply of
        None \<Rightarrow> bind_run (freeBuffer E D None (tr_buffer tr) s) (\<lambda>s. Inr (Again, s))
      | Some r \<Rightarrow>
          if tr_flags tr AND TF_STATUS_CODE = 0
          then bind_run (set_reference E D tr r s) (\<lambda>(r, s). finish_wait NO_ERROR (Some r) acq s)
          else if length (tr_bytes tr) < 4 then Inl Fault
          else bind_run (freeBuffer E D None (tr_buffer tr) s) (\<lambda>s.
            finish_wait (sint (dec32 (peek 0 4 (tr_bytes tr)))) (Some r) acq s))"

text \<open>One command read by the loop.\<close>

definition wait_command ::
  "env \<Rightarrow> ipc_env \<Rightarrow> br_command \<Rightarrow> buffered option \<Rightarrow> status_t option \<Rightarrow> ipc \<Rightarrow> wait_action ipc_run" where
  "wait_command E D cmd reply acq s =
     (case cmd of
        BR_ONEWAY_SPAM_SUSPECT \<Rightarrow> if reply = None \<and> acq = None then finish_wait NO_ERROR reply acq s else Inr (Again, s)
      | BR_TRANSACTION_COMPLETE \<Rightarrow> if reply = None \<and> acq = None then finish_wait NO_ERROR reply acq s else Inr (Again, s)
      | BR_DEAD_REPLY \<Rightarrow> finish_wait DEAD_OBJECT reply acq s
      | BR_FAILED_REPLY \<Rightarrow> finish_wait FAILED_TRANSACTION reply acq s
      | BR_FROZEN_REPLY \<Rightarrow> finish_wait FAILED_TRANSACTION reply acq s
      | BR_ACQUIRE_RESULT r \<Rightarrow>
          if acq = None then Inr (Again, s)
          else finish_wait NO_ERROR reply (Some (if r \<noteq> 0 then NO_ERROR else INVALID_OPERATION)) s
      | BR_REPLY tr \<Rightarrow> take_answer E D tr reply acq s
      | _ \<Rightarrow> Inr (Execute cmd, s))"

definition wait_step :: "env \<Rightarrow> ipc_env \<Rightarrow> buffered option \<Rightarrow> status_t option \<Rightarrow> ipc \<Rightarrow> wait_action ipc_run" where
  "wait_step E D reply acq s =
     bind_run (talkWithDriver D True s) (\<lambda>(err, s).
     if err < NO_ERROR
     then if err = - EAGAIN
       then (case poll_fails D (ioctls s) of None \<Rightarrow> Inr (Again, s) | Some e \<Rightarrow> finish_wait (- e) reply acq s)
       else finish_wait err reply acq s
     else (case mIn s of [] \<Rightarrow> Inr (Again, s) | cmd # rest \<Rightarrow> wait_command E D cmd reply acq (s\<lparr>mIn := rest\<rparr>)))"

partial_function (option) wait_loop ::
  "env \<Rightarrow> ipc_env \<Rightarrow> local_code \<Rightarrow> buffered option \<Rightarrow> status_t option \<Rightarrow> ipc \<Rightarrow> (answer ipc_run) option" where
  "wait_loop E D A reply acq s =
     and_then (Some (wait_step E D reply acq s)) (\<lambda>(action, s).
     case action of
       Finish r \<Rightarrow> Some (Inr (r, s))
     | Again \<Rightarrow> wait_loop E D A reply acq s
     | Execute cmd \<Rightarrow>
         and_then (executeCommand_with (\<lambda>s.
             and_then (Some (talkWithDriver D False s)) (\<lambda>(_, s).
             and_then (wait_loop E D A None None s) (\<lambda>((err, _, _), s). Some (Inr (err, s))))) E D A cmd s) (\<lambda>(err, s).
         if err \<noteq> NO_ERROR
         then Some (Inr (finish_answer err reply acq s)) else wait_loop E D A reply acq s))"

definition waitForResponse ::
  "env \<Rightarrow> ipc_env \<Rightarrow> local_code \<Rightarrow> buffered option \<Rightarrow> status_t option \<Rightarrow> ipc \<Rightarrow>
   ((status_t \<times> buffered option \<times> status_t option) ipc_run) option" where
  "waitForResponse E D A reply acq s =
     (if reply = None \<and> acq = None
      then and_then (Some (talkWithDriver D False s)) (\<lambda>(_, s). wait_loop E D A reply acq s)
      else wait_loop E D A reply acq s)"

definition wait_none :: "env \<Rightarrow> ipc_env \<Rightarrow> local_code \<Rightarrow> ipc \<Rightarrow> (status_t ipc_run) option" where
  "wait_none E D A s = and_then (waitForResponse E D A None None s) (\<lambda>((err, _, _), s). Some (Inr (err, s)))"

definition executeCommand :: "env \<Rightarrow> ipc_env \<Rightarrow> local_code \<Rightarrow> br_command \<Rightarrow> ipc \<Rightarrow> (status_t ipc_run) option" where
  "executeCommand E D A cmd s = executeCommand_with (wait_none E D A) E D A cmd s"

definition sendReply :: "env \<Rightarrow> ipc_env \<Rightarrow> local_code \<Rightarrow> parcel \<Rightarrow> u32 \<Rightarrow> ipc \<Rightarrow> (status_t ipc_run) option" where
  "sendReply E D A reply flags s = sendReply_with (wait_none E D A) reply flags s"

section \<open>Calls\<close>

text \<open>A call without a reply parcel uses one of its own, destroyed at the end.\<close>

definition ipc_transact ::
  "env \<Rightarrow> ipc_env \<Rightarrow> local_code \<Rightarrow> u32 \<Rightarrow> u32 \<Rightarrow> parcel \<Rightarrow> buffered option \<Rightarrow> u32 \<Rightarrow> ipc \<Rightarrow>
   ((status_t \<times> buffered option) ipc_run) option" where
  "ipc_transact E D A handle code dat reply flags s =
     (if isForRpc dat then Some (Inl Abort)
      else
        let flags = flags OR TF_ACCEPT_FDS in
        (case writeTransactionData BC_TRANSACTION flags handle code dat False s of
           (err, s) \<Rightarrow>
             if err \<noteq> NO_ERROR then Some (Inr ((err, map_option (apfst (setError err)) reply), s\<lparr>mLastError := err\<rparr>))
             else if flags AND TF_ONE_WAY = 0
             then if mCallRestriction s = FATAL_IF_NOT_ONEWAY then Some (Inl Abort)
               else (case reply of
                   Some r \<Rightarrow> and_then (waitForResponse E D A (Some r) None s) (\<lambda>((err, reply, _), s). Some (Inr ((err, reply), s)))
                 | None \<Rightarrow>
                     and_then (waitForResponse E D A (Some (Parcel, 0)) None s) (\<lambda>((err, fake, _), s).
                     and_then (Some (destroy_buffered E D (the fake) s)) (\<lambda>s. Some (Inr ((err, None), s)))))
             else and_then (wait_none E D A s) (\<lambda>(err, s). Some (Inr ((err, reply), s)))))"

text \<open>BpBinder::transact on a handle of the driver.\<close>

abbreviation FLAG_PRIVATE_VENDOR :: u32 where "FLAG_PRIVATE_VENDOR \<equiv> 0x10000000"

definition BpBinder_transact ::
  "env \<Rightarrow> ipc_env \<Rightarrow> local_code \<Rightarrow> (proxy \<Rightarrow> u32 \<Rightarrow> parcel \<Rightarrow> buffered option \<Rightarrow> u32 \<Rightarrow> ipc \<Rightarrow> ((status_t \<times> buffered option) ipc_run) option) \<Rightarrow>
   proxy \<Rightarrow> u32 \<Rightarrow> parcel \<Rightarrow> buffered option \<Rightarrow> u32 \<Rightarrow> ipc \<Rightarrow> ((status_t \<times> buffered option) ipc_run) option" where
  "BpBinder_transact E D A rpc b code dat reply flags s =
     (if mAlive (proxies s b)
      then
        let flags = flags AND NOT FLAG_PRIVATE_VENDOR in
        and_then (case mHandle (proxies s b) of
            RpcHandle _ _ \<Rightarrow> rpc b code dat reply flags s
          | BinderHandle h \<Rightarrow> ipc_transact E D A h code dat reply flags s) (\<lambda>((status, reply), s).
        Some (Inr ((status, reply), if status = DEAD_OBJECT then upd_proxy b (\<lambda>p. p\<lparr>mAlive := False\<rparr>) s else s)))
      else Some (Inr ((DEAD_OBJECT, reply), s)))"

section \<open>The thread pool\<close>

definition ipc_getAndExecuteCommand :: "env \<Rightarrow> ipc_env \<Rightarrow> local_code \<Rightarrow> ipc \<Rightarrow> (status_t ipc_run) option" where
  "ipc_getAndExecuteCommand E D A s =
     and_then (Some (talkWithDriver D True s)) (\<lambda>(result, s).
     if result < NO_ERROR then Some (Inr (result, s))
     else (case mIn s of
         [] \<Rightarrow> Some (Inr (result, s))
       | cmd # rest \<Rightarrow>
           and_then (executeCommand E D A cmd
             (s\<lparr>mIn := rest, mExecutingThreadsCount := size_add (mExecutingThreadsCount s) 1\<rparr>)) (\<lambda>(result, s).
           Some (Inr (result, s\<lparr>mExecutingThreadsCount := mExecutingThreadsCount s - 1\<rparr>)))))"

partial_function (option) pool_loop :: "env \<Rightarrow> ipc_env \<Rightarrow> local_code \<Rightarrow> ipc \<Rightarrow> (status_t ipc_run) option" where
  "pool_loop E D A s =
     (let s = processPendingDerefs s in
      if mExitRequested s then Some (Inr (TIMED_OUT, s))
      else and_then (ipc_getAndExecuteCommand E D A s) (\<lambda>(result, s).
        if result < NO_ERROR \<and> result \<noteq> TIMED_OUT \<and> result \<noteq> - ECONNREFUSED \<and> result \<noteq> - EBADF then Some (Inl Abort)
        else if result = TIMED_OUT \<or> result = - ECONNREFUSED \<or> result = - EBADF then Some (Inr (result, s))
        else pool_loop E D A s))"

definition joinThreadPool :: "env \<Rightarrow> ipc_env \<Rightarrow> local_code \<Rightarrow> bool \<Rightarrow> ipc \<Rightarrow> (unit ipc_run) option" where
  "joinThreadPool E D A isMain s =
     (let s = registerThread (my_tid D) s;
          s = (emit (if isMain then BC_ENTER_LOOPER else BC_REGISTER_LOOPER) s)\<lparr>mIsLooper := True\<rparr> in
      and_then (pool_loop E D A s) (\<lambda>(_, s).
      and_then (Some (talkWithDriver D False ((emit BC_EXIT_LOOPER s)\<lparr>mIsLooper := False\<rparr>))) (\<lambda>(_, s).
      Some (Inr ((), unregisterThread (my_tid D) s)))))"

definition setupPolling :: "ipc_env \<Rightarrow> ipc \<Rightarrow> (status_t + int) ipc_run" where
  "setupPolling D s =
     (if mDriverFD s < 0 then Inr (Inl (- EBADF), s)
      else bind_run (flushCommands D (emit BC_ENTER_LOOPER s)) (\<lambda>s. Inr (Inr (mDriverFD s), s)))"

partial_function (option) polled_loop :: "env \<Rightarrow> ipc_env \<Rightarrow> local_code \<Rightarrow> ipc \<Rightarrow> (status_t ipc_run) option" where
  "polled_loop E D A s =
     and_then (ipc_getAndExecuteCommand E D A s) (\<lambda>(result, s).
     if mIn s \<noteq> [] then polled_loop E D A s else Some (Inr (result, s)))"

definition handlePolledCommands :: "env \<Rightarrow> ipc_env \<Rightarrow> local_code \<Rightarrow> ipc \<Rightarrow> (status_t ipc_run) option" where
  "handlePolledCommands E D A s =
     and_then (polled_loop E D A s) (\<lambda>(result, s).
     and_then (Some (flushCommands D (processPendingDerefs s))) (\<lambda>s.
     Some (Inr (if mExitRequested s then TIMED_OUT else result, s))))"

definition stopProcess :: "ipc_env \<Rightarrow> ipc \<Rightarrow> crash + ipc" where
  "stopProcess D s = bind_run (flushCommands D s) (\<lambda>s. Inr (s\<lparr>mDriverFD := - 1\<rparr>))"

text \<open>ProcessState::getContextObject without the mark of stability.\<close>

definition ping_context :: "env \<Rightarrow> ipc_env \<Rightarrow> local_code \<Rightarrow> ipc \<Rightarrow> status_t ipc_run" where
  "ping_context E D A s =
     (case ipc_transact E D A 0 0x5f504e47 Parcel None 0 s of
        None \<Rightarrow> Inl Hang | Some (Inl c) \<Rightarrow> Inl c | Some (Inr ((st, _), s)) \<Rightarrow> Inr (st, s))"

definition strong_proxy :: "env \<Rightarrow> ipc_env \<Rightarrow> local_code \<Rightarrow> u32 \<Rightarrow> ipc \<Rightarrow> proxy option ipc_run" where
  "strong_proxy E D A h s = getStrongProxyForHandle D (ping_context E D A) h s"

end
