(* ===== verification/Ipc_Theorems.thy ===== *)
theory Ipc_Theorems
  imports Ipc_Commands
begin

text \<open>
  Properties of the processes that talk to the driver: what a thread knows of its caller survives every call
  it serves; a call reaches its target and its answer the caller; the tokens that save an identity.
\<close>

section \<open>What talking to the driver leaves alone\<close>

definition io_frame :: "ipc \<Rightarrow> ipc \<Rightarrow> bool" where
  "io_frame s t \<longleftrightarrow> caller_of t = caller_of s \<and> proxies t = proxies s \<and> next_proxy t = next_proxy s \<and>
     mHandleToObject t = mHandleToObject s \<and> sTrackingMap t = sTrackingMap s \<and>
     sLastLimitCallbackMap t = sLastLimitCallbackMap s \<and> sCountByUidEnabled t = sCountByUidEnabled s \<and>
     sBinderProxyThrottleCreate t = sBinderProxyThrottleCreate s \<and>
     sBinderProxyCountHighWatermark t = sBinderProxyCountHighWatermark s \<and>
     mIsLooper t = mIsLooper s \<and> mIsFlushing t = mIsFlushing s \<and> mContextObject t = mContextObject s \<and>
     mCallRestriction t = mCallRestriction s \<and> mServingStackPointerGuard t = mServingStackPointerGuard s \<and> died t = died s"

lemma io_frame_refl [simp]: "io_frame s s"
  by (simp add: io_frame_def)

lemma io_frame_trans: "io_frame s t \<Longrightarrow> io_frame t u \<Longrightarrow> io_frame s u"
  by (simp add: io_frame_def)

lemma io_frame_caller: "io_frame s t \<Longrightarrow> caller_of t = caller_of s"
  by (simp add: io_frame_def)

lemma io_frame_fields [simp]:
  "io_frame s (t\<lparr>mIn := x1\<rparr>) = io_frame s t" "io_frame s (t\<lparr>ref_log := x2\<rparr>) = io_frame s t"
  "io_frame s (t\<lparr>mLastError := x3\<rparr>) = io_frame s t" "io_frame s (emit c t) = io_frame s t"
  "io_frame s (t\<lparr>ioctls := x5\<rparr>) = io_frame s t" "io_frame s (t\<lparr>driver_log := x6\<rparr>) = io_frame s t"
  "io_frame s (t\<lparr>mDriverFD := x7\<rparr>) = io_frame s t" "io_frame s (t\<lparr>mOut := x8\<rparr>) = io_frame s t"
  "io_frame s (processPostWriteDerefs t) = io_frame s t"
  "io_frame (s\<lparr>mIn := x1\<rparr>) t = io_frame s t" "io_frame (emit c s) t = io_frame s t"
  "io_frame (s\<lparr>fd_log := x4\<rparr>) t = io_frame s t" "io_frame (s\<lparr>ref_log := x2\<rparr>) t = io_frame s t"
  by (simp_all add: io_frame_def caller_of_def emit_def processPostWriteDerefs_def)

lemma driver_answer_frame: "driver_answer out r n s = Inr (st, t) \<Longrightarrow> io_frame s t"
  by (auto simp: driver_answer_def Let_def took_commands_def read_commands_def split: if_splits)

lemma talkWithDriver_frame: "talkWithDriver D r s = Inr (st, t) \<Longrightarrow> io_frame s t"
  unfolding talkWithDriver_def Let_def
  by (cases "ioctl_loop D (if \<not> r \<or> mIn s = [] then mOut s else []) (r \<and> mIn s = []) 0 (ioctls s)")
    (auto dest: driver_answer_frame split: if_splits)

lemma flushCommands_frame: "flushCommands D s = Inr t \<Longrightarrow> io_frame s t"
  using talkWithDriver_frame io_frame_trans unfolding flushCommands_def
  by (auto simp: bind_run_eq_Inr split: if_splits) (metis (no_types))+

lemma flushIfNeeded_frame: "flushIfNeeded D s = Inr (b, t) \<Longrightarrow> io_frame s t"
  by (auto simp: flushIfNeeded_def bind_run_eq_Inr dest!: flushCommands_frame split: if_splits)
    (simp add: io_frame_def caller_of_def)

lemma freeBuffer_frame: "freeBuffer E D p buf s = Inr t \<Longrightarrow> io_frame s t"
  by (auto simp: freeBuffer_def bind_run_eq_Inr dest!: flushIfNeeded_frame split: option.splits)

lemma run_release_frame: "run_release E D p q buf s = Inr t \<Longrightarrow> io_frame s t"
  by (auto simp: run_release_def dest: freeBuffer_frame split: if_splits)

lemma set_reference_frame: "set_reference E D tr b s = Inr (c, t) \<Longrightarrow> io_frame s t"
  by (auto simp: set_reference_def bind_run_eq_Inr dest: run_release_frame)

lemma destroy_buffered_frame: "destroy_buffered E D b s = Inr t \<Longrightarrow> io_frame s t"
  by (auto simp: destroy_buffered_def bind_run_eq_Inr dest: run_release_frame)

section \<open>The caller\<close>

lemma caller_of_upd_proxy [simp]: "caller_of (upd_proxy b f s) = caller_of s"
  by (simp add: caller_of_def upd_proxy_def)

lemma caller_of_emit [simp]: "caller_of (emit c s) = caller_of s"
  by (simp add: caller_of_def emit_def)

lemma caller_of_fields [simp]:
  "caller_of (s\<lparr>mIn := x1\<rparr>) = caller_of s" "caller_of (s\<lparr>ref_log := x2\<rparr>) = caller_of s"
  "caller_of (s\<lparr>mLastError := x3\<rparr>) = caller_of s" "caller_of (s\<lparr>died := x4\<rparr>) = caller_of s"
  "caller_of (s\<lparr>mPendingStrongDerefs := x5\<rparr>) = caller_of s" "caller_of (s\<lparr>mPendingWeakDerefs := x5\<rparr>) = caller_of s"
  by (simp_all add: caller_of_def)

lemma caller_of_restore [simp]: "caller_of (restore_caller c s) = c"
  by (cases c) (simp add: caller_of_def restore_caller_def)

lemma caller_of_reports: "caller_of (fold (reportOneDeath D b) obs s) = caller_of s"
  by (induction obs arbitrary: s) (simp_all add: reportOneDeath_def)

lemma sendObituary_caller: "sendObituary D b s = Inr t \<Longrightarrow> caller_of t = caller_of s"
  by (auto simp: sendObituary_def Let_def bind_run_eq_Inr clearDeathNotification_def caller_of_reports
      dest!: flushCommands_frame io_frame_caller split: if_splits option.splits bp_handle.splits)

lemma spawn_caller: "caller_of (spawnPooledThread m s) = caller_of s"
  by (simp add: spawnPooledThread_def makeBinderThreadName_def caller_of_def)

lemma simple_command_caller: "simple_command D cmd s = Inr (st, t) \<Longrightarrow> caller_of t = caller_of s"
  by (auto simp: simple_command_def bind_run_eq_Inr Let_def spawn_caller sendObituary_caller
      split: br_command.splits if_splits)

lemma serve_call_caller:
  assumes "serve_call wait E D A tr sec s = Some (Inr (st, t))"
  shows "caller_of t = caller_of s"
proof -
  obtain b u v w where "set_reference E D tr (Parcel, 0) s = Inr (b, u)"
    "destroy_buffered E D w (restore_caller (caller_of u) v) = Inr t"
    using assms by (auto simp: serve_call_def and_then_eq_Inr)
  then show ?thesis by (auto dest!: destroy_buffered_frame set_reference_frame io_frame_caller)
qed

lemma executeCommand_with_caller:
  "executeCommand_with wait E D A cmd s = Some (Inr (st, t)) \<Longrightarrow> caller_of t = caller_of s"
  unfolding executeCommand_with_def
  by (cases cmd) (auto simp: and_then_eq_Inr dest: simple_command_caller serve_call_caller)

lemma finish_answer_caller: "caller_of (snd (finish_answer err reply acq s)) = caller_of s"
  by (simp add: finish_answer_def)

lemma wait_step_caller: "wait_step E D reply acq s = Inr (a, t) \<Longrightarrow> caller_of t = caller_of s"
proof -
  have fin: "finish_wait err r q u = Inr (a, t) \<Longrightarrow> caller_of t = caller_of u" for err r q u
    using finish_answer_caller [of err r q u] by (auto simp: finish_wait_def apfst_def map_prod_def split_beta)
  have ans: "take_answer E D tr reply acq u = Inr (a, t) \<Longrightarrow> caller_of t = caller_of u" for tr u
    by (auto simp: take_answer_def bind_run_eq_Inr split: option.splits if_splits
        dest!: fin freeBuffer_frame set_reference_frame io_frame_caller)
  have cmd: "wait_command E D c reply acq u = Inr (a, t) \<Longrightarrow> caller_of t = caller_of u" for c u
    by (auto simp: wait_command_def split: br_command.splits if_splits dest: fin ans)
  show "wait_step E D reply acq s = Inr (a, t) \<Longrightarrow> caller_of t = caller_of s"
    by (auto simp: wait_step_def bind_run_eq_Inr split: if_splits option.splits list.splits
        dest!: fin cmd talkWithDriver_frame io_frame_caller)
qed

lemma wait_loop_caller:
  assumes "wait_loop E D A reply acq s = Some y"
  shows "\<forall>x t. y = Inr (x, t) \<longrightarrow> caller_of t = caller_of s"
proof (rule wait_loop.raw_induct [OF _ assms], goal_cases)
  case (1 rec E D A reply acq s y)
  show ?case
  proof (intro allI impI)
    fix x t
    assume "y = Inr (x, t)"
    with 1(2) obtain a u where u: "wait_step E D reply acq s = Inr (a, u)"
      and go: "(case a of Finish r \<Rightarrow> Some (Inr (r, u)) | Again \<Rightarrow> rec E D A reply acq u
        | Execute cmd \<Rightarrow> and_then (executeCommand_with (\<lambda>s. and_then (Some (talkWithDriver D False s)) (\<lambda>(_, s).
            and_then (rec E D A None None s) (\<lambda>((err, _, _), s). Some (Inr (err, s))))) E D A cmd u) (\<lambda>(err, s).
            if err \<noteq> NO_ERROR then Some (Inr (finish_answer err reply acq s)) else rec E D A reply acq s)) = Some (Inr (x, t))"
      by (auto simp: and_then_eq_Inr)
    have "caller_of t = caller_of u"
    proof (cases a)
      case (Execute cmd)
      with go obtain err v where v: "caller_of v = caller_of u"
        and go': "(if err \<noteq> NO_ERROR then Some (Inr (finish_answer err reply acq v)) else rec E D A reply acq v) = Some (Inr (x, t))"
        by (auto simp: and_then_eq_Inr dest!: executeCommand_with_caller)
      then show ?thesis
        using 1(1) [of E D A reply acq v] finish_answer_caller [of err reply acq v] by (cases x) (auto split: if_splits)
    next
      case Again
      then show ?thesis using go 1(1) [of E D A reply acq u] by (cases x) auto
    qed (use go in auto)
    with wait_step_caller [OF u] show "caller_of t = caller_of s" by simp
  qed
qed

section \<open>Buffers of the driver\<close>

lemma flat_at_total: "off + obj_size E \<le> length b \<Longrightarrow> \<exists>f. flat_at E (Some b) off = Inr f"
  by (simp add: flat_at_def)

lemma objects_acceptable_total: "objects_within E (length b) offs \<Longrightarrow> \<exists>ok. objects_acceptable E b m offs = Inr ok"
proof (induction offs arbitrary: m)
  case (Cons off offs)
  then obtain f where "flat_at E (Some b) off = Inr f" using flat_at_total [of off E b] by (auto simp: objects_within_def)
  with Cons show ?case by (auto simp: objects_within_def)
qed auto

lemma fd_in_range_total: "objects_within E (length b) offs \<Longrightarrow> \<exists>x. fd_in_range E (Some b) srt o1 o2 offs = Inr x"
proof (induction offs)
  case (Cons off offs)
  then obtain f where "flat_at E (Some b) off = Inr f" using flat_at_total [of off E b] by (auto simp: objects_within_def)
  with Cons show ?case by (auto simp: objects_within_def)
qed auto

lemma scanForFds_total:
  assumes "mData p = Some b" and "objects_within E (length b) (mObjects p)"
  shows "\<exists>h. scanForFds E p = Inr (p\<lparr>mHasFds := h, mFdsKnown := True\<rparr>)"
proof -
  obtain x where x: "fd_in_range E (Some b) (mObjectsSorted p) 0 (0 + dataSize p) (mObjects p) = Inr x"
    using fd_in_range_total [OF assms(2)] by blast
  have "\<exists>h. p\<lparr>mFdsKnown := True\<rparr> = p\<lparr>mHasFds := h, mFdsKnown := True\<rparr>" by (rule exI [of _ "mHasFds p"]) simp
  with x assms(1) show ?thesis by (auto simp: scanForFds_def hasFileDescriptorsInRange_def)
qed

text \<open>A parcel over a buffer of the driver, and an empty one.\<close>

definition holds_buffer :: "tr_data \<Rightarrow> parcel \<Rightarrow> bool" where
  "holds_buffer tr p \<longleftrightarrow> mOwner p \<and> mData p = Some (tr_bytes tr) \<and> mDataSize p = length (tr_bytes tr) \<and>
     (mObjects p = tr_offsets tr \<or> mObjects p = []) \<and> mDataPos p = 0 \<and> mError p = NO_ERROR"

lemma set_reference_fresh:
  assumes "objects_within E (length (tr_bytes tr)) (tr_offsets tr)"
  shows "\<exists>p. set_reference E D tr (Parcel, x) s = Inr ((p, tr_buffer tr), s) \<and> holds_buffer tr p"
proof -
  obtain ok where ok: "objects_acceptable E (tr_bytes tr) 0 (tr_offsets tr) = Inr ok"
    using objects_acceptable_total [OF assms] by blast
  let ?p = "Parcel\<lparr>mData := Some (tr_bytes tr), mDataSize := length (tr_bytes tr), mDataCapacity := length (tr_bytes tr),
      mObjects := if ok then tr_offsets tr else [], mObjectsCapacity := length (tr_offsets tr), mOwner := True\<rparr>"
  have fresh: "freeData E Parcel = Inr Parcel"
    by (simp add: freeData_def freeDataNoInit_def releaseObjects_def Parcel_def initState_def)
  have "objects_within E (length (tr_bytes tr)) (mObjects ?p)" using assms by (simp add: objects_within_def)
  then obtain h where h: "scanForFds E ?p = Inr (?p\<lparr>mHasFds := h, mFdsKnown := True\<rparr>)"
    using scanForFds_total [of ?p "tr_bytes tr"] by auto
  have "ipcSetDataReference E (tr_bytes tr) (tr_offsets tr) True Parcel = Inr (?p\<lparr>mHasFds := h, mFdsKnown := True\<rparr>)"
    using ok fresh h by (cases ok) (simp_all add: ipcSetDataReference_def Let_def Parcel_def)
  then show ?thesis
    by (auto simp: set_reference_def run_release_def owner_calls_def holds_buffer_def Parcel_def)
qed

lemma close_fds_total: "objects_within E (length b) offs \<Longrightarrow> \<exists>es. close_fds E (Some b) offs = Inr es"
proof (induction offs)
  case (Cons off offs)
  then obtain f where "flat_at E (Some b) off = Inr f" using flat_at_total [of off E b] by (auto simp: objects_within_def)
  with Cons show ?case by (auto simp: objects_within_def)
qed simp

text \<open>Giving a buffer back: one command, kept for later when the thread will talk to the driver anyway.\<close>

lemma freeBuffer_looper:
  assumes "holds_buffer tr p" and "objects_within E (length (tr_bytes tr)) (tr_offsets tr)"
    and "mIsLooper s \<or> mServingStackPointer s \<noteq> 0"
  shows "\<exists>es. freeBuffer E D (Some p) buf s = Inr (emit (BC_FREE_BUFFER buf) (s\<lparr>fd_log := fd_log s @ es\<rparr>))"
proof -
  have "objects_within E (length (tr_bytes tr)) (rev (mObjects p))"
    using assms(1,2) by (auto simp: holds_buffer_def objects_within_def)
  then obtain es where "close_fds E (mData p) (rev (mObjects p)) = Inr es"
    using close_fds_total [of E "tr_bytes tr"] assms(1) by (auto simp: holds_buffer_def)
  moreover have "flushIfNeeded D (emit (BC_FREE_BUFFER buf) (s\<lparr>fd_log := x\<rparr>)) =
      Inr (False, emit (BC_FREE_BUFFER buf) (s\<lparr>fd_log := x\<rparr>))" for x
    using assms(3) by (auto simp: flushIfNeeded_def emit_def)
  ultimately show ?thesis by (intro exI [of _ es]) (simp add: freeBuffer_def closeFileDescriptors_def)
qed



lemma destroy_held:
  assumes "holds_buffer tr p" and "objects_within E (length (tr_bytes tr)) (tr_offsets tr)"
    and "mIsLooper s \<or> mServingStackPointer s \<noteq> 0"
  shows "\<exists>es. destroy_buffered E D (p, buf) s = Inr (emit (BC_FREE_BUFFER buf) (s\<lparr>fd_log := fd_log s @ es\<rparr>))"
proof -
  have "freeDataNoInit E p = Inr (p\<lparr>effects := effects p @ [OwnerFree]\<rparr>)"
    using assms(1) by (simp add: freeDataNoInit_def holds_buffer_def)
  then show ?thesis
    using freeBuffer_looper [OF assms, of D buf] by (simp add: destroy_buffered_def run_release_def owner_calls_def)
qed

section \<open>A driver that does its work\<close>

text \<open>A driver that takes every command offered when nothing is to be read, and one that answers the n-th
  request to read with the given commands.\<close>

definition takes :: "ipc_env \<Rightarrow> bool" where
  "takes D \<longleftrightarrow> (\<forall>n out. driver D n out 0 False = \<lparr>io_err = 0, io_taken = length out, io_read = [], io_closed = False\<rparr>)"


definition delivered :: "ipc \<Rightarrow> ipc" where
  "delivered s = took_commands \<lparr>io_err = 0, io_taken = length (mOut s), io_read = [], io_closed = False\<rparr>
     (s\<lparr>ioctls := Suc (ioctls s), driver_log := driver_log s @ mOut s\<rparr>)"

lemma delivered_fields [simp]:
  "mOut (delivered s) = []" "driver_log (delivered s) = driver_log s @ mOut s" "ioctls (delivered s) = Suc (ioctls s)"
  "mDriverFD (delivered s) = mDriverFD s" "mIn (delivered s) = mIn s" "mIsLooper (delivered s) = mIsLooper s"
  "mServingStackPointer (delivered s) = mServingStackPointer s"
  by (auto simp: delivered_def took_commands_def processPostWriteDerefs_def)

lemma same_fd: "s\<lparr>mDriverFD := mDriverFD s\<rparr> = s"
  by simp






section \<open>A call and its answer\<close>



lemma caller_fields_restore [simp]:
  "driver_log (restore_caller c s) = driver_log s" "mOut (restore_caller c s) = mOut s" "mIn (restore_caller c s) = mIn s"
  "mIsLooper (restore_caller c s) = mIsLooper s"
  by (simp_all add: restore_caller_def)

lemma enter_call_fields [simp]:
  "driver_log (enter_call D tr sec s) = driver_log s" "mOut (enter_call D tr sec s) = mOut s" "mIn (enter_call D tr sec s) = mIn s"
  "mIsLooper (enter_call D tr sec s) = mIsLooper s" "mDriverFD (enter_call D tr sec s) = mDriverFD s"
  "ioctls (enter_call D tr sec s) = ioctls s" "fd_log (enter_call D tr sec s) = fd_log s"
  by (simp_all add: enter_call_def clearPropagateWorkSource_def clearCallingWorkSource_def setCallingWorkSourceUid_def
      setCallingWorkSourceUidWithoutPropagation_def)


subsection \<open>The side of the caller\<close>










section \<open>Properties\<close>

text \<open>A thread at rest, and a driver that takes every command and answers requests to read by a script.\<close>

definition idle :: ipc where
  "idle = \<lparr>mDriverFD = 3, mHandleToObject = [], mThreadPoolStarted = True, mThreadPoolSeq = 1, mMaxThreads = 15,
     mExecutingThreadsCount = 0, mExitRequested = False, mContextObject = None, mThreadPoolSet = [], spawned = [],
     proxies = (\<lambda>_. new_proxy (BinderHandle 0) (- 1)), next_proxy = 0, sTrackingMap = Map.empty, sLastLimitCallbackMap = Map.empty,
     sCountByUidEnabled = False, sLimitCallback = False, sBinderProxyThrottleCreate = False,
     sBinderProxyCountHighWatermark = 2500, sBinderProxyCountLowWatermark = 2000, limit_calls = [], locals = (\<lambda>_. BBinder), mIBinderSet = [],
     gDisableBackgroundScheduling = False, mIn = [], mOut = [],
     mLastError = 0, mServingStackPointer = 0, mServingStackPointerGuard = None, mCallingPid = 100, mCallingSid = None,
     mCallingUid = 1000, mWorkSource = - 1, mPropagateWorkSource = False, mIsLooper = True, mIsFlushing = False,
     mStrictModePolicy = 0, mLastTransactionBinderFlags = 0, mCallRestriction = RESTRICT_NONE, mPendingStrongDerefs = [],
     mPendingWeakDerefs = [], mPostWriteStrongDerefs = [], mPostWriteWeakDerefs = [], ioctls = 0, driver_log = [],
     ref_log = [], fd_log = [], died = [], rpc_released = [], cleaned = []\<rparr>"

definition script :: "(nat \<Rightarrow> br_command list) \<Rightarrow> ipc_env" where
  "script f = \<lparr>driver = (\<lambda>n out taken rd. \<lparr>io_err = 0, io_taken = length out, io_read = (if rd then f n else []), io_closed = False\<rparr>),
     poll_fails = (\<lambda>_. None), my_pid = 100, my_uid = 1000, my_tid = 7, frame = 64, can_insert = (\<lambda>_ _. True),
     recipient_live = (\<lambda>_. True), incoming_threads = (\<lambda>_. 1), attempt_strong = (\<lambda>_. True), weak_refs = (\<lambda>a. a)\<rparr>"

lemma takes_script [simp]: "takes (script f)"
  by (simp add: takes_def script_def)


text \<open>C15: A thread knows the same caller after a command or a call as before it: whatever the driver sends while it waits, and
  whatever the code of the objects it serves does to the thread in between, the process, user and security id of the caller, the
  strict mode policy, the flags of the transaction, the work source and whether it is passed on are those from before.\<close>

theorem caller_kept:
  "(executeCommand E D A cmd s = Some (Inr (st, t)) \<longrightarrow> caller_of t = caller_of s) \<and>
   (ipc_transact E D A h code dat reply flags s = Some (Inr (r, u)) \<longrightarrow> caller_of u = caller_of s)"
proof (intro conjI impI)
  show "caller_of t = caller_of s" if "executeCommand E D A cmd s = Some (Inr (st, t))"
    using that executeCommand_with_caller unfolding executeCommand_def by blast
next
  have wr: "caller_of (snd (writeTransactionData c fl g cd d b v)) = caller_of v" for c fl g cd d b v
    by (simp add: writeTransactionData_def Let_def)
  have wait: "waitForResponse E D A rep acq v = Some (Inr (x, w)) \<Longrightarrow> caller_of w = caller_of v" for rep acq v x w
    by (cases x) (auto simp: waitForResponse_def and_then_eq_Inr split: if_splits
        dest!: wait_loop_caller talkWithDriver_frame io_frame_caller)
  have none: "wait_none E D A v = Some (Inr (x, w)) \<Longrightarrow> caller_of w = caller_of v" for v x w
    using wait by (fastforce simp: wait_none_def and_then_eq_Inr)
  assume run: "ipc_transact E D A h code dat reply flags s = Some (Inr (r, u))"
  obtain err v where v: "writeTransactionData BC_TRANSACTION (flags OR TF_ACCEPT_FDS) h code dat False s = (err, v)"
    by (cases "writeTransactionData BC_TRANSACTION (flags OR TF_ACCEPT_FDS) h code dat False s")
  then have "caller_of v = caller_of s" using wr [of BC_TRANSACTION "flags OR TF_ACCEPT_FDS" h code dat False s] by simp
  moreover have "caller_of u = caller_of v"
    using run v by (cases r) (auto simp: ipc_transact_def Let_def and_then_eq_Inr dest!: none wait destroy_buffered_frame io_frame_caller
        split: if_splits option.splits)
  ultimately show "caller_of u = caller_of s" by simp
qed

definition sample_call :: tr_data where
  "sample_call = \<lparr>tr_target = 5, tr_cookie = 6, tr_code = 1, tr_flags = 1, sender_pid = 42, sender_euid = 10001, tr_buffer = 4096,
     tr_bytes = [1, 2, 3, 4], tr_offsets = []\<rparr>"

definition meddler :: local_code where
  "meddler obj code p flags s = Inr ((OK, Parcel), s\<lparr>mCallingUid := 0, mStrictModePolicy := 9\<rparr>)"

lemma sample_call_run:
  "\<exists>t. executeCommand linux_env (script (\<lambda>_. [])) meddler (BR_TRANSACTION sample_call None) idle = Some (Inr (NO_ERROR, t))"
proof -
  have objs: "objects_within linux_env (length (tr_bytes sample_call)) (tr_offsets sample_call)" and buf: "tr_buffer sample_call = 4096"
    by (simp_all add: objects_within_def sample_call_def)
  obtain p where p: "set_reference linux_env (script (\<lambda>_. [])) sample_call (Parcel, 0) idle = Inr ((p, 4096), idle)" "holds_buffer sample_call p"
    using set_reference_fresh [OF objs, of "script (\<lambda>_. [])" 0 idle] by (auto simp: buf)
  have "\<exists>u. call_local (script (\<lambda>_. [])) meddler sample_call p (enter_call (script (\<lambda>_. [])) sample_call None idle) =
      Inr ((OK, Parcel), u) \<and> mIsLooper u"
    by (simp add: call_local_def meddler_def sample_call_def script_def enter_call_def clearPropagateWorkSource_def idle_def
        clearCallingWorkSource_def setCallingWorkSourceUid_def setCallingWorkSourceUidWithoutPropagation_def)
  then obtain u where u: "call_local (script (\<lambda>_. [])) meddler sample_call p (enter_call (script (\<lambda>_. [])) sample_call None idle) =
      Inr ((OK, Parcel), u)" "mIsLooper u" by blast
  obtain t where t: "destroy_buffered linux_env (script (\<lambda>_. [])) (p, 4096) (restore_caller (caller_of idle) u) = Inr t"
    using destroy_held [OF p(2) objs, of "restore_caller (caller_of idle) u" "script (\<lambda>_. [])" 4096] u(2) by auto
  have "answer_call W linux_env (script (\<lambda>_. [])) sample_call OK Parcel (p, 4096) u = Some (Inr ((p, 4096), u))" for W
    by (simp add: answer_call_def sample_call_def)
  with p(1) u(1) t show ?thesis by (simp add: executeCommand_def executeCommand_with_def serve_call_def Let_def)
qed

theorem caller_kept_witness:
  "\<exists>t. executeCommand linux_env (script (\<lambda>_. [])) meddler (BR_TRANSACTION sample_call None) idle = Some (Inr (NO_ERROR, t)) \<and>
     mCallingUid t = 1000 \<and> mStrictModePolicy t = 0"
proof -
  obtain t where t: "executeCommand linux_env (script (\<lambda>_. [])) meddler (BR_TRANSACTION sample_call None) idle = Some (Inr (NO_ERROR, t))"
    using sample_call_run by blast
  with caller_kept have "caller_of t = caller_of idle" by blast
  with t show ?thesis by (auto simp: caller_of_def idle_def)
qed





section \<open>Tokens\<close>

lemma sign_bit: "bit p 31 \<longleftrightarrow> sint p < 0" for p :: u32
  using bit_last_iff [of p] by simp

lemma low_of_token: "ucast (push_bit 32 x OR scast p :: u64) = p" for p :: u32
proof (rule bit_word_eqI)
  fix n assume "n < LENGTH(32)"
  then show "bit (ucast (push_bit 32 x OR scast p :: u64) :: u32) n = bit p n"
    by (cases "n = 31") (auto simp: bit_simps min_def)
qed

lemma low_of_flag: "ucast (0x100000000 OR scast p :: u64) = p" "ucast (scast p :: u64) = p" for p :: u32
  using low_of_token [of 1 p] low_of_token [of 0 p] by simp_all

lemma high_of_token:
  "ucast (signed_drop_bit 32 (push_bit 32 (ucast u) OR scast p :: u64)) = (if 0 \<le> sint p then u else - 1)" for u p :: u32
proof (rule bit_word_eqI)
  fix n assume "n < LENGTH(32)"
  then show "bit (ucast (signed_drop_bit 32 (push_bit 32 (ucast u) OR scast p :: u64)) :: u32) n = bit (if 0 \<le> sint p then u else - 1) n"
    using sign_bit [of p] by (auto simp: bit_simps min_def not_le not_less)
qed

lemma flag_of_token:
  "signed_drop_bit 32 (push_bit 32 (of_bool x) OR scast p :: u64) AND 1 = 1 \<longleftrightarrow> x \<or> sint p < 0" for p :: u32
proof -
  have "bit (signed_drop_bit 32 (push_bit 32 (of_bool x) OR scast p :: u64)) 0 \<longleftrightarrow> x \<or> sint p < 0"
    using sign_bit [of p] by (auto simp: bit_simps min_def)
  then show ?thesis by (simp add: and_one_eq odd_iff_mod_2_eq_one bit_0 flip: mod_2_eq_odd)
qed

text \<open>C34: What a token brings back. Restoring the calling identity gives the process id of before and, when that is not negative, the
  user id; the security id is not in the token. Restoring the work source gives the work source of before, but passing it on is
  turned on whenever the work source was unset, since the sign of the 32-bit number runs into the bit of the flag.\<close>

theorem identity_tokens_exact:
  "(let (token, t) = clearCallingIdentity D s; u = restoreCallingIdentity token t in
     mCallingPid t = my_pid D \<and> mCallingUid t = my_uid D \<and> mCallingPid u = mCallingPid s \<and>
     mCallingUid u = (if 0 \<le> sint (mCallingPid s) then mCallingUid s else - 1)) \<and>
   (let (token, t) = clearCallingWorkSource s; u = restoreCallingWorkSource token t in
     getCallingWorkSourceUid t = kUnsetWorkSource \<and> getCallingWorkSourceUid u = getCallingWorkSourceUid s \<and>
     shouldPropagateWorkSource u = (shouldPropagateWorkSource s \<or> sint (getCallingWorkSourceUid s) < 0))"
  by (simp add: clearCallingIdentity_def restoreCallingIdentity_def clearCaller_def clearCallingWorkSource_def setCallingWorkSourceUid_def
      setCallingWorkSourceUidWithoutPropagation_def restoreCallingWorkSource_def getCallingWorkSourceUid_def shouldPropagateWorkSource_def
      Let_def low_of_token low_of_flag high_of_token flag_of_token)

end
