(* ===== verification/Proxy_Spec.thy ===== *)
theory Proxy_Spec
  imports Ipc_Theorems
begin

text \<open>
  What a process promises about its proxies, apart from the driver: \<open>view\<close> is the part of the state
  that is concerned (the table of handles, the proxies, the counts per user and the commands about references),
  \<open>proxy_spec\<close> the steps it may take, and \<open>table_inv\<close>, \<open>books_inv\<close>, \<open>death_inv\<close> and \<open>count_inv\<close> hold
  in every state these steps lead to. The first part computes what the operations of Ipc_State and Bp_Binder do to a view.
\<close>

section \<open>Commands written so far\<close>

definition commands :: "ipc \<Rightarrow> bc_command list" where
  "commands s = driver_log s @ mOut s"

text \<open>A driver that takes all commands it is offered or, when it reports an error, none.\<close>

definition driver_ok :: "ipc_env \<Rightarrow> bool" where
  "driver_ok D \<longleftrightarrow> (\<forall>n out k rd. let r = driver D n out k rd in
     if io_closed r \<or> io_err r < 0 then io_taken r = 0 else io_taken r = length out)"

lemma commands_emit [simp]: "commands (emit c s) = commands s @ [c]"
  by (simp add: commands_def emit_def)

lemma commands_fields [simp]:
  "commands (s\<lparr>ref_log := x1\<rparr>) = commands s" "commands (s\<lparr>mIsFlushing := x2\<rparr>) = commands s"
  "commands (s\<lparr>mPostWriteStrongDerefs := x3\<rparr>) = commands s" "commands (s\<lparr>mPostWriteWeakDerefs := x3\<rparr>) = commands s"
  "commands (upd_proxy b f s) = commands s" "commands (s\<lparr>mHandleToObject := x4\<rparr>) = commands s"
  "commands (s\<lparr>died := x5\<rparr>) = commands s" "commands (s\<lparr>mCallRestriction := x6\<rparr>) = commands s"
  by (simp_all add: commands_def upd_proxy_def)

lemma ioctl_loop_ok:
  assumes "ioctl_loop D out rd k n = Some y" and "driver_ok D"
  shows "if io_err (fst y) < 0 then io_taken (fst y) = 0 else io_taken (fst y) = length out"
proof -
  have "driver_ok D \<longrightarrow> (if io_err (fst y) < 0 then io_taken (fst y) = 0 else io_taken (fst y) = length out)"
  proof (rule ioctl_loop.raw_induct [OF _ assms(1)], goal_cases)
    case (1 rec D out rd k n y)
    show ?case
    proof
      assume ok: "driver_ok D"
      have "if io_closed (driver D n out k rd) \<or> io_err (driver D n out k rd) < 0 then io_taken (driver D n out k rd) = 0
          else io_taken (driver D n out k rd) = length out"
        using ok unfolding driver_ok_def Let_def by blast
      then show "if io_err (fst y) < 0 then io_taken (fst y) = 0 else io_taken (fst y) = length out"
        using 1(2) 1(1) ok by (auto simp: Let_def split: if_splits)
    qed
  qed
  with assms(2) show ?thesis by blast
qed

lemma driver_answer_commands:
  assumes "driver_answer out r n s = Inr (st, t)" and "if io_err r < 0 then io_taken r = 0 else io_taken r = length out"
    and "out = mOut s \<or> out = []"
  shows "commands t = commands s"
proof (cases "io_err r < 0")
  case True
  with assms show ?thesis by (auto simp: driver_answer_def Let_def commands_def)
next
  case False
  with assms(1) have "t = read_commands r (took_commands r (s\<lparr>ioctls := n, driver_log := driver_log s @ take (io_taken r) out,
      mDriverFD := (if io_closed r then - 1 else mDriverFD s)\<rparr>))" by (simp add: driver_answer_def Let_def split: if_splits)
  moreover have "commands (read_commands r u) = commands u" for u by (simp add: read_commands_def commands_def)
  ultimately show ?thesis using False assms(2,3) by (auto simp: took_commands_def commands_def processPostWriteDerefs_def)
qed

lemma talkWithDriver_commands:
  assumes "talkWithDriver D r s = Inr (st, t)" and "driver_ok D"
  shows "commands t = commands s"
proof (cases "mDriverFD s < 0 \<or> ((if \<not> r \<or> mIn s = [] then mOut s else []) = [] \<and> \<not> (r \<and> mIn s = []))")
  case True
  with assms(1) have "t = s" unfolding talkWithDriver_def Let_def by (auto split: if_splits)
  then show ?thesis by simp
next
  case False
  define out where "out = (if \<not> r \<or> mIn s = [] then mOut s else [])"
  from False assms(1) obtain y where y: "ioctl_loop D out (r \<and> mIn s = []) 0 (ioctls s) = Some y"
    "driver_answer out (fst y) (snd y) s = Inr (st, t)"
    unfolding talkWithDriver_def Let_def out_def [symmetric] by (auto split: option.splits)
  show ?thesis
    by (rule driver_answer_commands [OF y(2) ioctl_loop_ok [OF y(1) assms(2)]]) (simp add: out_def)
qed

lemma flushCommands_commands: "flushCommands D s = Inr t \<Longrightarrow> driver_ok D \<Longrightarrow> commands t = commands s"
  by (auto simp: flushCommands_def bind_run_eq_Inr dest!: talkWithDriver_commands split: if_splits)

lemma flushIfNeeded_commands: "flushIfNeeded D s = Inr (b, t) \<Longrightarrow> driver_ok D \<Longrightarrow> commands t = commands s"
  by (auto simp: flushIfNeeded_def bind_run_eq_Inr dest!: flushCommands_commands split: if_splits)

lemma io_frame_derefs [simp]:
  "io_frame s (t\<lparr>mPostWriteStrongDerefs := x\<rparr>) = io_frame s t" "io_frame s (t\<lparr>mPostWriteWeakDerefs := x\<rparr>) = io_frame s t"
  by (simp_all add: io_frame_def caller_of_def)

lemma incStrongHandle_effect:
  assumes "incStrongHandle D h b s = Inr t" and "driver_ok D"
  shows "io_frame s t \<and> commands t = commands s @ [BC_ACQUIRE h]"
proof -
  obtain f u where "flushIfNeeded D (emit (BC_ACQUIRE h) s) = Inr (f, u)"
    "t = (if f then u else u\<lparr>ref_log := ref_log u @ [IncStrongP b], mPostWriteStrongDerefs := mPostWriteStrongDerefs u @ [b]\<rparr>)"
    using assms(1) by (auto simp: incStrongHandle_def bind_run_eq_Inr)
  with flushIfNeeded_frame flushIfNeeded_commands [OF _ assms(2)] show ?thesis by fastforce
qed

lemma decStrongHandle_effect:
  "decStrongHandle D h s = Inr t \<Longrightarrow> driver_ok D \<Longrightarrow> io_frame s t \<and> commands t = commands s @ [BC_RELEASE h]"
  by (auto simp: decStrongHandle_def bind_run_eq_Inr dest: flushIfNeeded_commands flushIfNeeded_frame)

lemma incWeakHandle_effect:
  assumes "incWeakHandle D h b s = Inr t" and "driver_ok D"
  shows "io_frame s t \<and> commands t = commands s @ [BC_INCREFS h]"
proof -
  obtain f u where "flushIfNeeded D (emit (BC_INCREFS h) s) = Inr (f, u)"
    "t = (if f then u else u\<lparr>ref_log := ref_log u @ [IncWeakP b], mPostWriteWeakDerefs := mPostWriteWeakDerefs u @ [b]\<rparr>)"
    using assms(1) by (auto simp: incWeakHandle_def bind_run_eq_Inr)
  with flushIfNeeded_frame flushIfNeeded_commands [OF _ assms(2)] show ?thesis by fastforce
qed

lemma decWeakHandle_effect:
  "decWeakHandle D h s = Inr t \<Longrightarrow> driver_ok D \<Longrightarrow> io_frame s t \<and> commands t = commands s @ [BC_DECREFS h]"
  by (auto simp: decWeakHandle_def bind_run_eq_Inr dest: flushIfNeeded_commands flushIfNeeded_frame)

section \<open>Effects of the operations\<close>

text \<open>What the table of handles, the proxies and the references are about.\<close>

record view =
  v_table :: "handle_entry list"
  v_proxies :: "proxy \<Rightarrow> bp_binder"
  v_next :: proxy
  v_track :: "u32 \<rightharpoonup> u32"
  v_commands :: "bc_command list"
  v_died :: "(nat \<times> proxy) list"
  v_throttle :: bool
  v_high :: u32

fun ref_command :: "bc_command \<Rightarrow> bool" where
  "ref_command (BC_ACQUIRE h) = True"
| "ref_command (BC_RELEASE h) = True"
| "ref_command (BC_INCREFS h) = True"
| "ref_command (BC_DECREFS h) = True"
| "ref_command (BC_REQUEST_DEATH_NOTIFICATION h b) = True"
| "ref_command (BC_CLEAR_DEATH_NOTIFICATION h b) = True"
| "ref_command _ = False"

definition view_of :: "ipc \<Rightarrow> view" where
  "view_of s = \<lparr>v_table = mHandleToObject s, v_proxies = proxies s, v_next = next_proxy s, v_track = sTrackingMap s,
     v_commands = filter ref_command (commands s), v_died = died s, v_throttle = sBinderProxyThrottleCreate s,
     v_high = sBinderProxyCountHighWatermark s\<rparr>"

definition add_command :: "bc_command \<Rightarrow> view \<Rightarrow> view" where
  "add_command c v = v\<lparr>v_commands := v_commands v @ [c]\<rparr>"

definition set_proxy :: "proxy \<Rightarrow> (bp_binder \<Rightarrow> bp_binder) \<Rightarrow> view \<Rightarrow> view" where
  "set_proxy b f v = v\<lparr>v_proxies := (v_proxies v)(b := f (v_proxies v b))\<rparr>"

lemma view_frame: "io_frame s t \<Longrightarrow> commands t = commands s \<Longrightarrow> view_of t = view_of s"
  by (simp add: view_of_def io_frame_def)

lemma view_frame_add:
  "io_frame s t \<Longrightarrow> commands t = commands s @ [c] \<Longrightarrow> ref_command c \<Longrightarrow> view_of t = add_command c (view_of s)"
  by (simp add: view_of_def io_frame_def add_command_def)

lemma view_updates [simp]:
  "view_of (upd_proxy b f s) = set_proxy b f (view_of s)" "view_of (s\<lparr>ref_log := x1\<rparr>) = view_of s"
  "view_of (s\<lparr>mCallRestriction := x2\<rparr>) = view_of s"
  "view_of (s\<lparr>mHandleToObject := x3\<rparr>) = (view_of s)\<lparr>v_table := x3\<rparr>"
  "view_of (s\<lparr>died := x4\<rparr>) = (view_of s)\<lparr>v_died := x4\<rparr>"
  "view_of (s\<lparr>sTrackingMap := x5\<rparr>) = (view_of s)\<lparr>v_track := x5\<rparr>"
  "view_of (s\<lparr>sLastLimitCallbackMap := x6\<rparr>) = view_of s" "view_of (s\<lparr>limit_calls := x7\<rparr>) = view_of s"
  "view_of (s\<lparr>cleaned := x8\<rparr>) = view_of s"
  "view_of (s\<lparr>next_proxy := x9, proxies := x10\<rparr>) = (view_of s)\<lparr>v_next := x9, v_proxies := x10\<rparr>"
  "ref_command c \<Longrightarrow> view_of (emit c s) = add_command c (view_of s)"
  by (simp_all add: view_of_def commands_def set_proxy_def upd_proxy_def add_command_def emit_def)

lemma view_fields [simp]:
  "v_table (view_of s) = mHandleToObject s" "v_proxies (view_of s) = proxies s" "v_next (view_of s) = next_proxy s"
  "v_track (view_of s) = sTrackingMap s" "v_died (view_of s) = died s"
  "v_throttle (view_of s) = sBinderProxyThrottleCreate s" "v_high (view_of s) = sBinderProxyCountHighWatermark s"
  by (simp_all add: view_of_def)

lemma view_updates_commute [simp]:
  "v_table (add_command c v) = v_table v" "v_proxies (add_command c v) = v_proxies v" "v_next (add_command c v) = v_next v"
  "v_track (add_command c v) = v_track v" "v_died (add_command c v) = v_died v" "v_commands (add_command c v) = v_commands v @ [c]"
  "v_throttle (add_command c v) = v_throttle v" "v_high (add_command c v) = v_high v"
  "v_table (set_proxy b f v) = v_table v" "v_proxies (set_proxy b f v) = (v_proxies v)(b := f (v_proxies v b))"
  "v_next (set_proxy b f v) = v_next v" "v_track (set_proxy b f v) = v_track v" "v_died (set_proxy b f v) = v_died v"
  "v_commands (set_proxy b f v) = v_commands v" "v_throttle (set_proxy b f v) = v_throttle v" "v_high (set_proxy b f v) = v_high v"
  by (simp_all add: add_command_def set_proxy_def)

lemma flushCommands_view: "flushCommands D s = Inr t \<Longrightarrow> driver_ok D \<Longrightarrow> view_of t = view_of s"
  by (rule view_frame [OF flushCommands_frame flushCommands_commands])

lemma handles_view:
  "incStrongHandle D h b s = Inr t \<Longrightarrow> driver_ok D \<Longrightarrow> view_of t = add_command (BC_ACQUIRE h) (view_of s)"
  "decStrongHandle D h s = Inr t \<Longrightarrow> driver_ok D \<Longrightarrow> view_of t = add_command (BC_RELEASE h) (view_of s)"
  "incWeakHandle D h b s = Inr t \<Longrightarrow> driver_ok D \<Longrightarrow> view_of t = add_command (BC_INCREFS h) (view_of s)"
  "decWeakHandle D h s = Inr t \<Longrightarrow> driver_ok D \<Longrightarrow> view_of t = add_command (BC_DECREFS h) (view_of s)"
  using incStrongHandle_effect [of D h b s t] decStrongHandle_effect [of D h s t] incWeakHandle_effect [of D h b s t]
    decWeakHandle_effect [of D h s t] by (simp_all add: view_frame_add)

lemma lookup_view:
  assumes "lookupHandleLocked D h s = Inr (e, t)" and "0 \<le> sint h"
  shows "\<exists>n. view_of t = (view_of s)\<lparr>v_table := mHandleToObject s @ replicate n \<lparr>he_binder = None, he_refs = None\<rparr>\<rparr> \<and>
     (case e of Some i \<Rightarrow> i = unat h \<and> i < length (mHandleToObject s) + n | None \<Rightarrow> n = 0 \<and> length (mHandleToObject s) \<le> unat h)"
proof -
  have "uint h = sint h" using assms(2) sint_less [of h] by (simp add: uint_sint take_bit_int_eq_self)
  then have h: "nat (sint h mod 18446744073709551616) = unat h"
    using assms(2) sint_less [of h] by (simp flip: nat_uint_eq)
  have "\<exists>n. t = s\<lparr>mHandleToObject := mHandleToObject s @ replicate n \<lparr>he_binder = None, he_refs = None\<rparr>\<rparr> \<and>
     (case e of Some i \<Rightarrow> i = unat h \<and> i < length (mHandleToObject s) + n | None \<Rightarrow> n = 0 \<and> length (mHandleToObject s) \<le> unat h)"
    using assms(1) unfolding lookupHandleLocked_def Let_def h
    by (auto split: if_splits intro: exI [of _ 0])
  then show ?thesis by auto
qed

section \<open>Counts per user\<close>

definition held_count :: "(u32 \<rightharpoonup> u32) \<Rightarrow> u32 \<Rightarrow> nat" where
  "held_count m uid = unat (tracked m uid) mod 2147483648"

lemma counting_mask: "unat (v AND COUNTING_VALUE_MASK) = unat v mod 2147483648" for v :: u32
proof -
  have "v AND COUNTING_VALUE_MASK = take_bit 31 v" by (simp add: take_bit_eq_mask mask_eq_exp_minus_1)
  then show ?thesis by (simp add: take_bit_eq_mod unat_mod_distrib)
qed

lemma count_is_held: "unat (getBinderProxyCount uid s) = held_count (sTrackingMap s) uid"
  by (simp only: getBinderProxyCount_def held_count_def counting_mask)

lemma counting_limit: "(v OR LIMIT_REACHED_MASK) AND COUNTING_VALUE_MASK = v AND COUNTING_VALUE_MASK"
  "(v AND NOT LIMIT_REACHED_MASK) AND COUNTING_VALUE_MASK = v AND COUNTING_VALUE_MASK" for v :: u32
  by (simp_all add: bit.conj_disj_distrib2 and.assoc)

lemma limit_mod:
  "unat (v OR LIMIT_REACHED_MASK) mod 2147483648 = unat v mod 2147483648"
  "unat (v AND NOT LIMIT_REACHED_MASK) mod 2147483648 = unat v mod 2147483648" for v :: u32
  by (simp_all only: counting_mask [symmetric] counting_limit)

lemma succ_mod:
  "unat v mod 2147483648 < 2147483647 \<Longrightarrow> unat (v + 1) mod 2147483648 = Suc (unat v mod 2147483648)" for v :: u32
proof -
  assume "unat v mod 2147483648 < 2147483647"
  moreover have "unat (v + 1) mod 2147483648 = Suc (unat v) mod 2147483648"
    by (simp add: unat_word_ariths mod_mod_cancel)
  ultimately show ?thesis by (simp add: mod_Suc)
qed

lemma pred_mod:
  "0 < unat v mod 2147483648 \<Longrightarrow> unat (v - 1) mod 2147483648 = unat v mod 2147483648 - 1" for v :: u32
proof -
  assume a: "0 < unat v mod 2147483648"
  have "v \<noteq> 0" using a by auto
  then have "Suc (unat (v - 1)) = unat v" using unat_minus_one [of v] by (simp add: unat_gt_0)
  then show ?thesis using a mod_Suc [of "unat (v - 1)" 2147483648] by (auto split: if_splits)
qed

lemma held_count_upd [simp]:
  "held_count (m(uid \<mapsto> v)) uid = unat v mod 2147483648" "held_count (m(uid := None)) uid = 0"
  "u \<noteq> uid \<Longrightarrow> held_count (m(uid := x)) u = held_count m u"
  by (simp_all add: held_count_def tracked_def)

lemma call_limit_fields [simp]:
  "view_of (call_limit uid s) = view_of s" "sTrackingMap (call_limit uid s) = sTrackingMap s"
  "sBinderProxyThrottleCreate (call_limit uid s) = sBinderProxyThrottleCreate s"
  by (simp_all add: call_limit_def)

lemma track_create_view:
  assumes "track_create uid s = (ok, t)"
  shows "view_of t = (view_of s)\<lparr>v_track := sTrackingMap t\<rparr> \<and>
    (\<forall>u. u \<noteq> uid \<longrightarrow> held_count (sTrackingMap t) u = held_count (sTrackingMap s) u) \<and>
    (held_count (sTrackingMap s) uid < 2147483647 \<longrightarrow>
      held_count (sTrackingMap t) uid = held_count (sTrackingMap s) uid + of_bool ok) \<and>
    (ok \<and> sBinderProxyThrottleCreate s \<longrightarrow> held_count (sTrackingMap s) uid < unat (sBinderProxyCountHighWatermark s))"
proof -
  define v where "v = tracked (sTrackingMap s) uid"
  have h: "held_count (sTrackingMap s) uid = unat v mod 2147483648" by (simp add: held_count_def v_def)
  have less: "v AND COUNTING_VALUE_MASK < w \<longleftrightarrow> unat v mod 2147483648 < unat w" for w
    by (simp only: word_less_nat_alt counting_mask)
  have vs: "(view_of s)\<lparr>v_track := sTrackingMap s\<rparr> = view_of s" for s by (simp add: view_of_def)
  show ?thesis using assms h unfolding track_create_def Let_def v_def [symmetric]
    by (auto simp: not_le less succ_mod limit_mod vs split: if_splits)
qed

lemma track_destroy_view:
  assumes "track_destroy uid s = t"
  shows "view_of t = (view_of s)\<lparr>v_track := sTrackingMap t\<rparr> \<and>
    (\<forall>u. u \<noteq> uid \<longrightarrow> held_count (sTrackingMap t) u = held_count (sTrackingMap s) u) \<and>
    held_count (sTrackingMap t) uid = held_count (sTrackingMap s) uid - 1"
proof -
  define v where "v = tracked (sTrackingMap s) uid"
  have h: "held_count (sTrackingMap s) uid = unat v mod 2147483648" by (simp add: held_count_def v_def)
  have zero: "v AND COUNTING_VALUE_MASK = 0 \<longleftrightarrow> unat v mod 2147483648 = 0"
    by (metis counting_mask unat_eq_0)
  have off: "unat ((v AND NOT LIMIT_REACHED_MASK) - 1) mod 2147483648 = unat v mod 2147483648 - 1"
    if "0 < unat v mod 2147483648" using that pred_mod [of "v AND NOT LIMIT_REACHED_MASK"] by (simp only: limit_mod)
  have one: "unat (v - 1) mod 2147483648 = unat v mod 2147483648 - 1"
    if "0 < unat v mod 2147483648" using that by (rule pred_mod)
  show ?thesis using assms unfolding track_destroy_def Let_def v_def [symmetric] h zero
    using off one by (auto simp: h split: if_splits)
qed

section \<open>Effects of the operations on proxies\<close>

definition new_view :: "u32 \<Rightarrow> u32 \<Rightarrow> view \<Rightarrow> view" where
  "new_view h uid v = add_command (BC_ACQUIRE h) (add_command (BC_INCREFS h) (v\<lparr>v_next := Suc (v_next v),
     v_proxies := (v_proxies v)(v_next v := (new_proxy (BinderHandle h) uid)\<lparr>bp_stage := Strong\<rparr>)\<rparr>))"

lemma onFirstRef_view:
  "onFirstRef D b s = Inr t \<Longrightarrow> mHandle (proxies s b) = BinderHandle h \<Longrightarrow> driver_ok D \<Longrightarrow>
    view_of t = add_command (BC_ACQUIRE h) (view_of s)"
  by (auto simp: onFirstRef_def isRpcBinder_def binderHandle_def handles_view split: if_splits bp_handle.splits)

lemma make_view:
  assumes "BpBinder_make D h uid s = Inr (b, t)" and "driver_ok D"
  shows "b = next_proxy s \<and> view_of t = new_view h uid (view_of s)"
proof -
  define u where "u = s\<lparr>next_proxy := Suc (next_proxy s),
    proxies := (proxies s)(next_proxy s := new_proxy (BinderHandle h) uid)\<rparr>"
  obtain w where w: "incWeakHandle D h (next_proxy s) u = Inr w"
    "onFirstRef D (next_proxy s) (upd_proxy (next_proxy s) (\<lambda>p. p\<lparr>bp_stage := Strong\<rparr>) w) = Inr t" "b = next_proxy s"
    using assms(1) unfolding BpBinder_make_def Let_def u_def [symmetric] by (auto simp: bind_run_eq_Inr)
  have v: "view_of w = add_command (BC_INCREFS h) (view_of u)" using handles_view(3) [OF w(1) assms(2)] .
  then have "proxies w = proxies u" by (metis view_fields(2) view_updates_commute(2))
  then have "mHandle (proxies (upd_proxy (next_proxy s) (\<lambda>p. p\<lparr>bp_stage := Strong\<rparr>) w) (next_proxy s)) = BinderHandle h"
    by (simp add: upd_proxy_def u_def new_proxy_def)
  from onFirstRef_view [OF w(2) this assms(2)] w(3) show ?thesis
    by (simp add: v new_view_def) (simp add: u_def set_proxy_def add_command_def)
qed

text \<open>The context manager is asked whether it is there without a change of references.\<close>

definition ping_ok :: "(ipc \<Rightarrow> status_t ipc_run) \<Rightarrow> bool" where
  "ping_ok ping \<longleftrightarrow> (\<forall>s st t. ping s = Inr (st, t) \<longrightarrow> view_of t = view_of s)"

text \<open>What BpBinder_create did to the counts, and which user the proxy counts for.\<close>

definition counted :: "view \<Rightarrow> bool \<Rightarrow> u32 \<Rightarrow> (u32 \<rightharpoonup> u32) \<Rightarrow> bool" where
  "counted v ok uid m \<longleftrightarrow> (\<forall>u. 0 \<le> sint u \<longrightarrow> held_count (v_track v) u < 2147483647 \<longrightarrow>
       held_count m u = held_count (v_track v) u + of_bool (ok \<and> u = uid)) \<and>
     (ok \<and> 0 \<le> sint uid \<and> v_throttle v \<longrightarrow> held_count (v_track v) uid < unat (v_high v))"

lemma create_view:
  assumes "BpBinder_create D h s = Inr (r, t)" and "driver_ok D"
  shows "\<exists>uid m. counted (view_of s) (r \<noteq> None) uid m \<and>
    (case r of None \<Rightarrow> view_of t = (view_of s)\<lparr>v_track := m\<rparr>
     | Some b \<Rightarrow> b = next_proxy s \<and> view_of t = new_view h uid ((view_of s)\<lparr>v_track := m\<rparr>))"
proof (cases "sCountByUidEnabled s")
  case False
  then obtain b where b: "r = Some b" "BpBinder_make D h (- 1) s = Inr (b, t)"
    using assms(1) by (auto simp: BpBinder_create_def bind_run_eq_Inr)
  have "counted (view_of s) True (- 1) (sTrackingMap s)" by (auto simp: counted_def sint_n1)
  then show ?thesis using make_view [OF b(2) assms(2)] b(1)
    by (intro exI [of _ "- 1"] exI [of _ "sTrackingMap s"]) (simp add: view_of_def)
next
  case True
  then obtain uid where uid: "(case track_create uid s of (False, s) \<Rightarrow> Inr (None, s)
      | (True, s) \<Rightarrow> bind_run (BpBinder_make D h uid s) (\<lambda>(b, s). Inr (Some b, s))) = Inr (r, t)"
    using assms(1) unfolding BpBinder_create_def bind_run_eq_Inr by (simp add: bind_run_eq_Inr) blast
  obtain ok u where u: "track_create uid s = (ok, u)" by (cases "track_create uid s")
  with uid have u: "track_create uid s = (ok, u)"
    "(\<not> ok \<and> r = None \<and> t = u) \<or> (ok \<and> (\<exists>b. r = Some b \<and> BpBinder_make D h uid u = Inr (b, t)))"
    by (cases ok; auto simp: bind_run_eq_Inr)+
  note v = track_create_view [OF u(1)]
  then have "counted (view_of s) ok uid (sTrackingMap u)" unfolding counted_def by auto
  moreover have "v_next (view_of u) = v_next (view_of s)" using v by simp
  then have "next_proxy u = next_proxy s" by simp
  ultimately show ?thesis using u(2) v make_view [OF _ assms(2), of h uid u _ t]
    by (intro exI [of _ uid] exI [of _ "sTrackingMap u"]) (auto split: option.splits)
qed

definition grown :: "nat \<Rightarrow> view \<Rightarrow> view" where
  "grown n v = v\<lparr>v_table := v_table v @ replicate n \<lparr>he_binder = None, he_refs = None\<rparr>\<rparr>"

definition entered :: "nat \<Rightarrow> proxy option \<Rightarrow> view \<Rightarrow> view" where
  "entered i r v = v\<lparr>v_table := (v_table v)[i := (case r of Some b \<Rightarrow> \<lparr>he_binder = Some b, he_refs = Some b\<rparr>
     | None \<Rightarrow> (v_table v ! i)\<lparr>he_binder := None\<rparr>)]\<rparr>"

lemma set_entry_view: "view_of (set_entry i r s) = entered i r (view_of s)"
  by (simp add: set_entry_def entered_def split: option.splits)

lemma new_entry_view:
  assumes "new_entry D ping i h s = Inr (r, t)" and "driver_ok D" and "ping_ok ping"
  shows "r = None \<and> view_of t = view_of s \<or> (\<exists>uid m. counted (view_of s) (r \<noteq> None) uid m \<and>
    (case r of None \<Rightarrow> view_of t = entered i None ((view_of s)\<lparr>v_track := m\<rparr>)
     | Some b \<Rightarrow> b = next_proxy s \<and> view_of t = entered i (Some b) (new_view h uid ((view_of s)\<lparr>v_track := m\<rparr>))))"
proof -
  have ping: "view_of w = view_of u" if "ping u = Inr (st, w)" for u st w using that assms(3) unfolding ping_ok_def by blast
  obtain st u where su: "(if h = 0 then bind_run (ping (s\<lparr>mCallRestriction := RESTRICT_NONE\<rparr>)) (\<lambda>(st, t).
      Inr (st, t\<lparr>mCallRestriction := mCallRestriction s\<rparr>)) else Inr (OK, s)) = Inr (st, u)"
    and rest: "(if h = 0 \<and> st = DEAD_OBJECT then Inr (None, u)
      else bind_run (BpBinder_create D h u) (\<lambda>(b, s). Inr (b, set_entry i b s))) = Inr (r, t)"
    using assms(1) unfolding new_entry_def by (auto simp: bind_run_eq_Inr)
  have u: "view_of u = view_of s"
    "(r = None \<and> t = u) \<or> (\<exists>w. BpBinder_create D h u = Inr (r, w) \<and> t = set_entry i r w)"
    using su rest by (auto simp: bind_run_eq_Inr dest!: ping split: if_splits)
  from u(2) show ?thesis
  proof
    assume "r = None \<and> t = u" then show ?thesis using u(1) by simp
  next
    assume "\<exists>w. BpBinder_create D h u = Inr (r, w) \<and> t = set_entry i r w"
    then obtain w where w: "BpBinder_create D h u = Inr (r, w)" "t = set_entry i r w" by blast
    have "next_proxy u = next_proxy s" using u(1) by (metis view_fields(3))
    then obtain uid m where "counted (view_of s) (r \<noteq> None) uid m"
      "case r of None \<Rightarrow> view_of w = (view_of s)\<lparr>v_track := m\<rparr>
       | Some b \<Rightarrow> b = next_proxy s \<and> view_of w = new_view h uid ((view_of s)\<lparr>v_track := m\<rparr>)"
      using create_view [OF w(1) assms(2)] unfolding u(1) by (metis (no_types))
    then show ?thesis by (intro disjI2 exI [of _ uid] exI [of _ m]) (simp add: w(2) set_entry_view split: option.splits)
  qed
qed

section \<open>What may happen to the proxies\<close>

text \<open>The specification: the steps of the table of handles and of the proxies, without the driver. \<open>usable\<close> are the proxies that
  a handle may be turned into again.\<close>

definition usable :: "bp_binder \<Rightarrow> bool" where
  "usable p \<longleftrightarrow> bp_stage p = Strong \<or> bp_stage p = WeakOnly"

definition free_entry :: "nat \<Rightarrow> view \<Rightarrow> bool" where
  "free_entry i v \<longleftrightarrow> i < length (v_table v) \<and> (\<forall>b. he_binder (v_table v ! i) = Some b \<longrightarrow> bp_stage (v_proxies v b) = Dying)"

definition has_handle :: "proxy \<Rightarrow> u32 \<Rightarrow> view \<Rightarrow> bool" where
  "has_handle b h v \<longleftrightarrow> b < v_next v \<and> mHandle (v_proxies v b) = BinderHandle h"

definition changed :: "proxy \<Rightarrow> bp_binder \<Rightarrow> bc_command list \<Rightarrow> view \<Rightarrow> view" where
  "changed b q cs v = v\<lparr>v_proxies := (v_proxies v)(b := q), v_commands := v_commands v @ cs\<rparr>"

lemma changed_fields [simp]:
  "v_table (changed b q cs v) = v_table v" "v_next (changed b q cs v) = v_next v" "v_track (changed b q cs v) = v_track v"
  "v_throttle (changed b q cs v) = v_throttle v" "v_high (changed b q cs v) = v_high v" "v_died (changed b q cs v) = v_died v"
  "v_proxies (changed b q cs v) = (v_proxies v)(b := q)" "v_commands (changed b q cs v) = v_commands v @ cs"
  by (simp_all add: changed_def)

definition told :: "ipc_env \<Rightarrow> proxy \<Rightarrow> obituary list \<Rightarrow> (nat \<times> proxy) list" where
  "told D b obs = map (\<lambda>ob. (ob_recipient ob, b)) (filter (\<lambda>ob. recipient_live D (ob_recipient ob)) obs)"

text \<open>What may become of one proxy of a handle, with the commands that go with it.\<close>

inductive proxy_change :: "u32 \<Rightarrow> proxy \<Rightarrow> bp_binder \<Rightarrow> bp_binder \<Rightarrow> bc_command list \<Rightarrow> bool" for h b p where
  again: "bp_stage p = WeakOnly \<Longrightarrow> proxy_change h b p (p\<lparr>bp_stage := Strong\<rparr>) [BC_ACQUIRE h]"
| release: "bp_stage p = Strong \<Longrightarrow> mObituaries p = None \<Longrightarrow> proxy_change h b p (p\<lparr>bp_stage := WeakOnly\<rparr>) [BC_RELEASE h]"
| release_unlink: "bp_stage p = Strong \<Longrightarrow> mObituaries p \<noteq> None \<Longrightarrow>
    proxy_change h b p (p\<lparr>bp_stage := WeakOnly, mObituaries := None\<rparr>) [BC_RELEASE h, BC_CLEAR_DEATH_NOTIFICATION h b]"
| die: "bp_stage p = WeakOnly \<Longrightarrow> proxy_change h b p (p\<lparr>bp_stage := Dying\<rparr>) []"
| link: "bp_stage p = Strong \<Longrightarrow> \<not> mObitsSent p \<Longrightarrow> mObituaries p = None \<Longrightarrow>
    proxy_change h b p (p\<lparr>mObituaries := Some [ob]\<rparr>) [BC_REQUEST_DEATH_NOTIFICATION h b]"
| relink: "mObituaries p \<noteq> None \<Longrightarrow> obs \<noteq> [] \<Longrightarrow> proxy_change h b p (p\<lparr>mObituaries := Some obs\<rparr>) []"
| unlink: "mObituaries p \<noteq> None \<Longrightarrow> proxy_change h b p (p\<lparr>mObituaries := None\<rparr>) [BC_CLEAR_DEATH_NOTIFICATION h b]"
| dead: "proxy_change h b p (p\<lparr>mAlive := False\<rparr>) []"
| obituary: "mObituaries p = None \<Longrightarrow> proxy_change h b p (p\<lparr>mObitsSent := True\<rparr>) []"

inductive proxy_spec :: "ipc_env \<Rightarrow> view \<Rightarrow> view \<Rightarrow> bool" for D where
  grow: "proxy_spec D v (grown n v)"
| create: "0 \<le> sint h \<Longrightarrow> free_entry (unat h) v \<Longrightarrow> counted v True uid m \<Longrightarrow>
    proxy_spec D v (entered (unat h) (Some (v_next v)) (new_view h uid (v\<lparr>v_track := m\<rparr>)))"
| refuse: "free_entry i v \<Longrightarrow> counted v False uid m \<Longrightarrow> proxy_spec D v (entered i None (v\<lparr>v_track := m\<rparr>))"
| change: "has_handle b h v \<Longrightarrow> proxy_change h b (v_proxies v b) q cs \<Longrightarrow> proxy_spec D v (changed b q cs v)"
| expunge: "free_entry i v \<Longrightarrow> proxy_spec D v (entered i None v)"
| destroy: "has_handle b h v \<Longrightarrow> bp_stage (v_proxies v b) = Dying \<Longrightarrow>
    (\<forall>i < length (v_table v). he_binder (v_table v ! i) \<noteq> Some b) \<Longrightarrow>
    (\<forall>u. 0 \<le> sint u \<longrightarrow> held_count m u = held_count (v_track v) u - of_bool (u = mTrackedUid (v_proxies v b))) \<Longrightarrow>
    proxy_spec D v (changed b ((v_proxies v b)\<lparr>bp_objects := [], bp_stage := Destroyed\<rparr>) [BC_DECREFS h] (v\<lparr>v_track := m\<rparr>))"
| tell: "proxy_spec D v (v\<lparr>v_died := v_died v @ told D b obs\<rparr>)"

section \<open>The invariant\<close>

definition holders :: "(bp_binder \<Rightarrow> bool) \<Rightarrow> view \<Rightarrow> nat" where
  "holders P v = card {b. b < v_next v \<and> P (v_proxies v b)}"

lemma holders_same [simp]:
  "holders P (add_command c v) = holders P v" "holders P (v\<lparr>v_table := x1\<rparr>) = holders P v"
  "holders P (v\<lparr>v_track := x2\<rparr>) = holders P v" "holders P (v\<lparr>v_died := x3\<rparr>) = holders P v"
  "holders P (grown n v) = holders P v" "holders P (entered i r v) = holders P v"
  by (simp_all add: holders_def grown_def entered_def)

lemma holders_new [simp]:
  "holders P (new_view h uid v) = holders P v + of_bool (P ((new_proxy (BinderHandle h) uid)\<lparr>bp_stage := Strong\<rparr>))"
proof -
  define q where "q = (new_proxy (BinderHandle h) uid)\<lparr>bp_stage := Strong\<rparr>"
  have "{b. b < Suc (v_next v) \<and> P (((v_proxies v)(v_next v := q)) b)} =
     {b. b < v_next v \<and> P (v_proxies v b)} \<union> (if P q then {v_next v} else {})" by (auto simp: less_Suc_eq)
  then show ?thesis unfolding q_def [symmetric] by (simp add: holders_def new_view_def q_def [symmetric] card_insert_if)
qed

lemma holders_changed:
  assumes "b < v_next v"
  shows "holders P (changed b q cs v) + of_bool (P (v_proxies v b)) = holders P v + of_bool (P q)"
proof -
  let ?A = "{c. c < v_next v \<and> c \<noteq> b \<and> P (v_proxies v c)}"
  have "{c. c < v_next v \<and> P (v_proxies v c)} = ?A \<union> (if P (v_proxies v b) then {b} else {})" using assms by auto
  moreover have "{c. c < v_next v \<and> P (((v_proxies v)(b := q)) c)} = ?A \<union> (if P q then {b} else {})" using assms by auto
  ultimately show ?thesis by (simp add: holders_def changed_def card_insert_if)
qed

definition entry_ok :: "view \<Rightarrow> nat \<Rightarrow> bool" where
  "entry_ok v i \<longleftrightarrow> (\<forall>b. he_binder (v_table v ! i) = Some b \<longrightarrow> b < v_next v \<and> he_refs (v_table v ! i) = Some b \<and>
     i < 2147483648 \<and> mHandle (v_proxies v b) = BinderHandle (of_nat i) \<and> bp_stage (v_proxies v b) \<noteq> Destroyed)"

definition proxy_ok :: "view \<Rightarrow> proxy \<Rightarrow> bool" where
  "proxy_ok v b \<longleftrightarrow> (case mHandle (v_proxies v b) of
     BinderHandle h \<Rightarrow> 0 \<le> sint h \<and>
       (usable (v_proxies v b) \<longrightarrow> unat h < length (v_table v) \<and> he_binder (v_table v ! unat h) = Some b)
   | RpcHandle _ _ \<Rightarrow> False)"

definition table_inv :: "view \<Rightarrow> bool" where
  "table_inv v \<longleftrightarrow> (\<forall>i < length (v_table v). entry_ok v i) \<and> (\<forall>b < v_next v. proxy_ok v b)"

definition holds_strong :: "u32 \<Rightarrow> bp_binder \<Rightarrow> bool" where
  "holds_strong h p \<longleftrightarrow> mHandle p = BinderHandle h \<and> bp_stage p = Strong"

definition holds_weak :: "u32 \<Rightarrow> bp_binder \<Rightarrow> bool" where
  "holds_weak h p \<longleftrightarrow> mHandle p = BinderHandle h \<and> bp_stage p \<noteq> Destroyed"

definition count_for :: "u32 \<Rightarrow> bp_binder \<Rightarrow> bool" where
  "count_for uid p \<longleftrightarrow> mTrackedUid p = uid \<and> bp_stage p \<noteq> Destroyed"

definition books_inv :: "view \<Rightarrow> bool" where
  "books_inv v \<longleftrightarrow> (\<forall>h.
     count_list (v_commands v) (BC_ACQUIRE h) = count_list (v_commands v) (BC_RELEASE h) + holders (holds_strong h) v \<and>
     count_list (v_commands v) (BC_INCREFS h) = count_list (v_commands v) (BC_DECREFS h) + holders (holds_weak h) v)"

definition notice_ok :: "bp_binder \<Rightarrow> bool" where
  "notice_ok p \<longleftrightarrow> (mObituaries p \<noteq> None \<longrightarrow> mObituaries p \<noteq> Some [] \<and> bp_stage p = Strong \<and> \<not> mObitsSent p)"

definition death_inv :: "view \<Rightarrow> bool" where
  "death_inv v \<longleftrightarrow> (\<forall>h b. count_list (v_commands v) (BC_REQUEST_DEATH_NOTIFICATION h b) =
       count_list (v_commands v) (BC_CLEAR_DEATH_NOTIFICATION h b) + of_bool (has_handle b h v \<and> mObituaries (v_proxies v b) \<noteq> None)) \<and>
     (\<forall>b < v_next v. notice_ok (v_proxies v b))"

definition count_inv :: "view \<Rightarrow> bool" where
  "count_inv v \<longleftrightarrow> v_next v < 2147483647 \<longrightarrow> (\<forall>u. 0 \<le> sint u \<longrightarrow> held_count (v_track v) u = holders (count_for u) v \<and>
     (v_throttle v \<longrightarrow> holders (count_for u) v \<le> unat (v_high v)))"

lemma grown_nth:
  "i < length (v_table (grown n v)) \<Longrightarrow>
   v_table (grown n v) ! i = (if i < length (v_table v) then v_table v ! i else \<lparr>he_binder = None, he_refs = None\<rparr>)"
  by (simp add: grown_def nth_append)

lemma nonneg_handle: "0 \<le> sint h \<Longrightarrow> unat h < 2147483648" for h :: u32
  using sint_less [of h] by (simp add: uint_sint take_bit_int_eq_self flip: nat_uint_eq)

lemma table_inv_same [simp]:
  "table_inv (add_command c v) = table_inv v" "table_inv (v\<lparr>v_track := x1\<rparr>) = table_inv v" "table_inv (v\<lparr>v_died := x2\<rparr>) = table_inv v"
  by (simp_all add: table_inv_def entry_ok_def proxy_ok_def cong: bp_handle.case_cong)

lemma table_inv_changed:
  assumes "table_inv v" and "mHandle q = mHandle (v_proxies v b)" and "usable q \<longrightarrow> usable (v_proxies v b)"
    and "bp_stage q = Destroyed \<longrightarrow> bp_stage (v_proxies v b) \<noteq> Destroyed \<longrightarrow> (\<forall>i < length (v_table v). he_binder (v_table v ! i) \<noteq> Some b)"
  shows "table_inv (changed b q cs v)"
proof -
  have "entry_ok v i \<Longrightarrow> i < length (v_table v) \<Longrightarrow> entry_ok (changed b q cs v) i" for i
    using assms(2,4) by (auto simp: entry_ok_def changed_def)
  moreover have "proxy_ok v c \<Longrightarrow> proxy_ok (changed b q cs v) c" for c
    using assms(2,3) by (auto simp: proxy_ok_def changed_def split: bp_handle.splits)
  ultimately show ?thesis using assms(1) by (simp add: table_inv_def)
qed

lemma table_inv_grown: "table_inv v \<Longrightarrow> table_inv (grown n v)"
proof -
  have "entry_ok v i \<Longrightarrow> i < length (v_table v) \<Longrightarrow> entry_ok (grown n v) i" for i
    by (simp add: entry_ok_def grown_def nth_append)
  moreover have "length (v_table v) \<le> i \<Longrightarrow> i < length (v_table (grown n v)) \<Longrightarrow> entry_ok (grown n v) i" for i
    by (simp add: entry_ok_def grown_def nth_append)
  moreover have "proxy_ok v c \<Longrightarrow> proxy_ok (grown n v) c" for c
    by (auto simp: proxy_ok_def grown_def nth_append split: bp_handle.splits)
  ultimately show "table_inv v \<Longrightarrow> table_inv (grown n v)" by (auto simp: table_inv_def grown_def not_le [symmetric])
qed

lemma table_inv_expunged:
  assumes "table_inv v" and "free_entry i v"
  shows "table_inv (entered i None v)"
proof -
  have "entry_ok v j \<Longrightarrow> entry_ok (entered i None v) j" if "j < length (v_table v)" for j
    using that assms(2) by (simp add: entry_ok_def entered_def nth_list_update free_entry_def)
  moreover have "proxy_ok v c \<Longrightarrow> proxy_ok (entered i None v) c" for c
    using assms(2) by (auto simp: proxy_ok_def entered_def nth_list_update free_entry_def usable_def split: bp_handle.splits)
  ultimately show ?thesis using assms(1) by (simp add: table_inv_def) (simp add: entered_def)
qed

lemma table_inv_create:
  assumes "table_inv v" and "free_entry (unat h) v" and "0 \<le> sint h"
  shows "table_inv (entered (unat h) (Some (v_next v)) (new_view h uid v))" (is "table_inv ?w")
proof -
  have "entry_ok v j \<Longrightarrow> entry_ok ?w j" if "j < length (v_table v)" for j
    using that assms(2) nonneg_handle [OF assms(3)]
    by (auto simp: entry_ok_def entered_def new_view_def new_proxy_def nth_list_update free_entry_def)
  moreover have "proxy_ok v c \<Longrightarrow> proxy_ok ?w c" if "c < v_next v" for c
    using that assms(2)
    by (auto simp: proxy_ok_def entered_def new_view_def nth_list_update free_entry_def usable_def split: bp_handle.splits)
  moreover have "proxy_ok ?w (v_next v)" using assms(2,3)
    by (simp add: proxy_ok_def entered_def new_view_def new_proxy_def free_entry_def)
  ultimately show ?thesis using assms(1) by (auto simp: table_inv_def) (auto simp: entered_def new_view_def less_Suc_eq)
qed

lemma free_track: "free_entry i (v\<lparr>v_track := m\<rparr>) = free_entry i v"
  by (simp add: free_entry_def)

lemma track_next: "v_next (v\<lparr>v_track := m\<rparr>) = v_next v"
  by simp

lemma change_kept:
  assumes "proxy_change h b p q cs" and "notice_ok p"
  shows "mHandle q = mHandle p" "mTrackedUid q = mTrackedUid p" "usable q \<longrightarrow> usable p" "notice_ok q"
    "bp_stage q = Destroyed \<longleftrightarrow> bp_stage p = Destroyed"
  using assms by (cases; auto simp: usable_def notice_ok_def)+

lemma change_counts:
  assumes "proxy_change h b p q cs" and "mHandle p = BinderHandle h"
  shows "count_list cs (BC_ACQUIRE g) + of_bool (holds_strong g p) = count_list cs (BC_RELEASE g) + of_bool (holds_strong g q)"
    "count_list cs (BC_INCREFS g) + of_bool (holds_weak g p) = count_list cs (BC_DECREFS g) + of_bool (holds_weak g q)"
    "count_list cs (BC_REQUEST_DEATH_NOTIFICATION h b) + of_bool (mObituaries p \<noteq> None) =
      count_list cs (BC_CLEAR_DEATH_NOTIFICATION h b) + of_bool (mObituaries q \<noteq> None)"
    "(g, c) \<noteq> (h, b) \<Longrightarrow> count_list cs (BC_REQUEST_DEATH_NOTIFICATION g c) = 0 \<and> count_list cs (BC_CLEAR_DEATH_NOTIFICATION g c) = 0"
  using assms by (cases; auto simp: holds_strong_def holds_weak_def)+

lemma notices: "death_inv v \<Longrightarrow> has_handle b h v \<Longrightarrow> notice_ok (v_proxies v b)"
  by (simp add: death_inv_def has_handle_def)

lemma table_inv_step:
  assumes "proxy_spec D v w" and "table_inv v" and "death_inv v"
  shows "table_inv w"
  using assms(1)
proof cases
  case (create h uid m)
  then show ?thesis using assms(2) table_inv_create [of "v\<lparr>v_track := m\<rparr>" h uid] by (simp add: free_track)
next
  case (change b h q cs)
  then show ?thesis using assms(2) change_kept [OF change(3) notices [OF assms(3) change(2)]] by (simp add: table_inv_changed)
next
  case (destroy b h m)
  then show ?thesis using assms(2) by (auto simp: usable_def intro!: table_inv_changed)
qed (use assms(2) in \<open>auto simp: free_track intro!: table_inv_grown table_inv_expunged\<close>)

lemma holders_cong: "v_next w = v_next v \<Longrightarrow> v_proxies w = v_proxies v \<Longrightarrow> holders P w = holders P v"
  by (simp add: holders_def)

lemma books_inv_changed:
  assumes "books_inv v" and "b < v_next v"
    and "\<And>g. count_list cs (BC_ACQUIRE g) + of_bool (holds_strong g (v_proxies v b)) = count_list cs (BC_RELEASE g) + of_bool (holds_strong g q)"
    and "\<And>g. count_list cs (BC_INCREFS g) + of_bool (holds_weak g (v_proxies v b)) = count_list cs (BC_DECREFS g) + of_bool (holds_weak g q)"
  shows "books_inv (changed b q cs v)"
proof -
  have cmds: "v_commands (changed b q cs v) = v_commands v @ cs" by (simp add: changed_def)
  show ?thesis unfolding books_inv_def cmds count_list_append
  proof (intro allI conjI, goal_cases)
    case (1 g)
    show ?case using assms(1) [unfolded books_inv_def, rule_format, of g] assms(3) [of g]
        holders_changed [OF assms(2), of "holds_strong g" q cs] by linarith
  next
    case (2 g)
    show ?case using assms(1) [unfolded books_inv_def, rule_format, of g] assms(4) [of g]
        holders_changed [OF assms(2), of "holds_weak g" q cs] by linarith
  qed
qed

lemma books_inv_same:
  "books_inv v \<Longrightarrow> v_commands w = v_commands v \<Longrightarrow> v_next w = v_next v \<Longrightarrow> v_proxies w = v_proxies v \<Longrightarrow> books_inv w"
  by (simp add: books_inv_def holders_cong [of w v])

lemma books_inv_step:
  assumes "proxy_spec D v w" and "books_inv v"
  shows "books_inv w"
  using assms(1)
proof cases
  case (create h uid m)
  then show ?thesis using assms(2)
    by (auto simp: books_inv_def) (auto simp: holds_strong_def holds_weak_def new_proxy_def entered_def new_view_def)
next
  case (change b h q cs)
  then show ?thesis using change_counts(1,2) [OF change(3)] by (auto simp: has_handle_def intro!: books_inv_changed [OF assms(2)])
next
  case (destroy b h m)
  have "books_inv (v\<lparr>v_track := m\<rparr>)" by (rule books_inv_same [OF assms(2)]) simp_all
  then show ?thesis using destroy
    by (auto simp: holds_strong_def holds_weak_def has_handle_def intro!: books_inv_changed)
qed (auto intro: books_inv_same [OF assms(2)] simp: grown_def entered_def)

lemma death_inv_same:
  "death_inv v \<Longrightarrow> v_commands w = v_commands v \<Longrightarrow> v_next w = v_next v \<Longrightarrow> v_proxies w = v_proxies v \<Longrightarrow> death_inv w"
  by (simp add: death_inv_def has_handle_def)

lemma death_inv_changed:
  assumes "death_inv v" and "has_handle b h v" and "mHandle q = BinderHandle h" and "notice_ok q"
    and "count_list cs (BC_REQUEST_DEATH_NOTIFICATION h b) + of_bool (mObituaries (v_proxies v b) \<noteq> None) =
       count_list cs (BC_CLEAR_DEATH_NOTIFICATION h b) + of_bool (mObituaries q \<noteq> None)"
    and "\<And>g c. (g, c) \<noteq> (h, b) \<Longrightarrow> count_list cs (BC_REQUEST_DEATH_NOTIFICATION g c) = 0 \<and> count_list cs (BC_CLEAR_DEATH_NOTIFICATION g c) = 0"
  shows "death_inv (changed b q cs v)" (is "death_inv ?w")
proof -
  have handle: "has_handle c g ?w \<longleftrightarrow> has_handle c g v" for c g using assms(2,3) by (auto simp: has_handle_def changed_def)
  have "count_list (v_commands ?w) (BC_REQUEST_DEATH_NOTIFICATION g c) = count_list (v_commands ?w) (BC_CLEAR_DEATH_NOTIFICATION g c) +
      of_bool (has_handle c g ?w \<and> mObituaries (v_proxies ?w c) \<noteq> None)" for g c
  proof (cases "(g, c) = (h, b)")
    case True
    with assms(1) [unfolded death_inv_def, THEN conjunct1, rule_format, of h b] assms(2,5) show ?thesis
      unfolding handle by (simp add: changed_def)
  next
    case False
    then have "(has_handle c g v \<and> mObituaries (v_proxies ?w c) \<noteq> None) = (has_handle c g v \<and> mObituaries (v_proxies v c) \<noteq> None)"
      using assms(2) by (auto simp: changed_def has_handle_def)
    with False assms(1) [unfolded death_inv_def, THEN conjunct1, rule_format, of g c] assms(6) [OF False] show ?thesis
      unfolding handle by (simp add: changed_def)
  qed
  moreover have "\<forall>c < v_next ?w. notice_ok (v_proxies ?w c)" using assms(1,4) by (simp add: death_inv_def changed_def)
  ultimately show ?thesis unfolding death_inv_def by blast
qed

lemma death_inv_step:
  assumes "proxy_spec D v w" and "death_inv v"
  shows "death_inv w"
  using assms(1)
proof cases
  case (create h uid m)
  then show ?thesis using assms(2)
    by (auto simp: death_inv_def notice_ok_def entered_def new_view_def new_proxy_def has_handle_def less_Suc_eq)
next
  case (change b h q cs)
  have h: "mHandle (v_proxies v b) = BinderHandle h" using change(2) by (simp add: has_handle_def)
  note k = change_kept [OF change(3) notices [OF assms(2) change(2)]] and c = change_counts(3,4) [OF change(3) h]
  show ?thesis unfolding change(1) by (rule death_inv_changed [OF assms(2) change(2) _ k(4) c]) (simp_all add: k(1) h)
next
  case (destroy b h m)
  have "death_inv (v\<lparr>v_track := m\<rparr>)" by (rule death_inv_same [OF assms(2)]) simp_all
  then show ?thesis using destroy notices [OF assms(2) destroy(2)]
    by (auto simp: has_handle_def notice_ok_def intro!: death_inv_changed [of _ b h])
qed (auto intro: death_inv_same [OF assms(2)] simp: grown_def entered_def)

lemma holders_le: "holders P v \<le> v_next v"
proof -
  have "card {b. b < v_next v \<and> P (v_proxies v b)} \<le> card {..< v_next v}" by (rule card_mono) auto
  then show ?thesis by (simp add: holders_def)
qed

lemma count_inv_same:
  "count_inv v \<Longrightarrow> v_next w = v_next v \<Longrightarrow> v_proxies w = v_proxies v \<Longrightarrow> v_throttle w = v_throttle v \<Longrightarrow> v_high w = v_high v \<Longrightarrow>
    (\<And>u. v_next v < 2147483647 \<Longrightarrow> 0 \<le> sint u \<Longrightarrow> held_count (v_track v) u = holders (count_for u) v \<Longrightarrow>
      held_count (v_track w) u = held_count (v_track v) u) \<Longrightarrow> count_inv w"
  by (simp add: count_inv_def holders_cong [of w v])

lemma count_inv_changed:
  assumes "count_inv v" and "b < v_next v"
    and "\<And>u. 0 \<le> sint u \<Longrightarrow> v_next v < 2147483647 \<Longrightarrow> count_for u q \<longrightarrow> count_for u (v_proxies v b)"
    and "\<And>u. 0 \<le> sint u \<Longrightarrow> held_count m u = held_count (v_track v) u - of_bool (count_for u (v_proxies v b) \<and> \<not> count_for u q)"
  shows "count_inv (changed b q cs (v\<lparr>v_track := m\<rparr>))"
proof -
  have one: "holders (count_for u) (changed b q cs v) = holders (count_for u) v - of_bool (count_for u (v_proxies v b) \<and> \<not> count_for u q)"
    if "0 \<le> sint u" "v_next v < 2147483647" for u
    using holders_changed [OF assms(2), of "count_for u" q cs] assms(3) [OF that] by (auto split: if_splits)
  have same: "holders P (changed b q cs (v\<lparr>v_track := m\<rparr>)) = holders P (changed b q cs v)" for P
    by (rule holders_cong) (simp_all add: changed_def)
  show ?thesis using assms(1,4) unfolding count_inv_def same by (auto simp: one intro: le_trans [OF diff_le_self])
qed

lemma count_inv_create:
  assumes "count_inv v" and "counted v True uid m"
  shows "count_inv (entered i r (new_view h uid (v\<lparr>v_track := m\<rparr>)))" (is "count_inv ?w")
proof -
  have fields: "v_next ?w = Suc (v_next v)" "v_track ?w = m" "v_throttle ?w = v_throttle v" "v_high ?w = v_high v"
    by (simp_all add: entered_def new_view_def)
  have more_held: "holders (count_for u) ?w = holders (count_for u) v + of_bool (u = uid)" for u
    by (auto simp: count_for_def new_proxy_def)
  have "held_count m u = holders (count_for u) ?w \<and> (v_throttle v \<longrightarrow> holders (count_for u) ?w \<le> unat (v_high v))"
    if "Suc (v_next v) < 2147483647" "0 \<le> sint u" for u
  proof -
    have old: "held_count (v_track v) u = holders (count_for u) v" "v_throttle v \<longrightarrow> holders (count_for u) v \<le> unat (v_high v)"
      using assms(1) that by (simp_all add: count_inv_def)
    then have "held_count (v_track v) u < 2147483647" using holders_le [of "count_for u" v] that(1) by simp
    then show ?thesis using assms(2) old that(2) unfolding counted_def more_held by auto
  qed
  then show ?thesis unfolding count_inv_def fields by blast
qed

lemma count_inv_step:
  assumes "proxy_spec D v w" and "count_inv v" and "death_inv v"
  shows "count_inv w"
  using assms(1)
proof cases
  case (create h uid m)
  then show ?thesis using count_inv_create [OF assms(2)] by simp
next
  case (refuse i uid m)
  have "held_count m u = held_count (v_track v) u"
    if "v_next v < 2147483647" "0 \<le> sint u" "held_count (v_track v) u = holders (count_for u) v" for u
    using refuse(3) that holders_le [of "count_for u" v] by (simp add: counted_def)
  then show ?thesis unfolding refuse(1) by (intro count_inv_same [OF assms(2)]) (simp_all add: entered_def)
next
  case (change b h q cs)
  note k = change_kept [OF change(3) notices [OF assms(3) change(2)]]
  then have "count_for u q = count_for u (v_proxies v b)" for u by (simp add: count_for_def)
  then show ?thesis using count_inv_changed [OF assms(2), of b q "v_track v" cs] change(2) unfolding change(1) by (simp add: has_handle_def)
next
  case (destroy b h m)
  then show ?thesis unfolding destroy(1)
    by (intro count_inv_changed [OF assms(2)]) (auto simp: has_handle_def count_for_def)
qed (auto intro!: count_inv_same [OF assms(2)] simp: grown_def entered_def)

end
