(* ===== verification/Proxy_Theorems.thy ===== *)
theory Proxy_Theorems
  imports Proxy_Spec
begin

text \<open>
  The proxies of a process as a transition system: handles that arrive, what RefBase calls back, death
  notifications and anything else the thread does, in any order. Every operation takes steps of the specification of the
  theory Proxy_Spec; so in every reachable state the table of handles names exactly the usable proxies, and the commands
  written for the driver account for every reference and every death notification the proxies hold.
\<close>

section \<open>The operations refine the specification\<close>

abbreviation spec_steps :: "ipc_env \<Rightarrow> view \<Rightarrow> view \<Rightarrow> bool" where
  "spec_steps D \<equiv> (proxy_spec D)\<^sup>*\<^sup>*"

lemma changes:
  "set_proxy b f v = changed b (f (v_proxies v b)) [] v" "add_command c (changed b q cs v) = changed b q (cs @ [c]) v"
  "changed b q' cs' (changed b q cs v) = changed b q' (cs @ cs') v"
  by (simp_all add: changed_def set_proxy_def add_command_def)

lemma change_steps:
  "has_handle b h v \<Longrightarrow> proxy_change h b (v_proxies v b) q cs \<Longrightarrow> spec_steps D v (changed b q cs v)"
  by (rule r_into_rtranclp) (rule change)

lemma lookup_steps:
  assumes "lookupHandleLocked D h s = Inr (e, u)" and "0 \<le> sint h" and "table_inv (view_of s)"
  shows "spec_steps D (view_of s) (view_of u)" "table_inv (view_of u)" "e = Some i \<Longrightarrow> i = unat h \<and> i < length (mHandleToObject u)"
    "proxies u = proxies s" "next_proxy u = next_proxy s"
proof -
  obtain n where n: "view_of u = grown n (view_of s)" "case e of Some i \<Rightarrow> i = unat h \<and> i < length (mHandleToObject s) + n
      | None \<Rightarrow> n = 0 \<and> length (mHandleToObject s) \<le> unat h" using lookup_view [OF assms(1,2)] by (auto simp: grown_def)
  show "spec_steps D (view_of s) (view_of u)" unfolding n(1) by (rule r_into_rtranclp) (rule grow)
  show "table_inv (view_of u)" unfolding n(1) by (rule table_inv_grown [OF assms(3)])
  have t: "v_table (view_of u) = v_table (grown n (view_of s))" by (simp only: n(1))
  then show "e = Some i \<Longrightarrow> i = unat h \<and> i < length (mHandleToObject u)" using n(2) by (simp add: grown_def)
  have "v_proxies (view_of u) = v_proxies (view_of s)" "v_next (view_of u) = v_next (view_of s)"
    by (simp_all only: n(1)) (simp_all add: grown_def)
  then show "proxies u = proxies s" "next_proxy u = next_proxy s" by simp_all
qed

lemma new_entry_steps:
  assumes "new_entry D ping (unat h) h s = Inr (r, t)" and "driver_ok D" and "ping_ok ping" and "0 \<le> sint h"
    and "free_entry (unat h) (view_of s)"
  shows "spec_steps D (view_of s) (view_of t)"
  using new_entry_view [OF assms(1-3)]
proof
  assume "r = None \<and> view_of t = view_of s" then show ?thesis by simp
next
  assume "\<exists>uid m. counted (view_of s) (r \<noteq> None) uid m \<and>
    (case r of None \<Rightarrow> view_of t = entered (unat h) None ((view_of s)\<lparr>v_track := m\<rparr>)
     | Some b \<Rightarrow> b = next_proxy s \<and> view_of t = entered (unat h) (Some b) (new_view h uid ((view_of s)\<lparr>v_track := m\<rparr>)))"
  then obtain uid m where "counted (view_of s) (r \<noteq> None) uid m"
    "case r of None \<Rightarrow> view_of t = entered (unat h) None ((view_of s)\<lparr>v_track := m\<rparr>)
     | Some b \<Rightarrow> b = next_proxy s \<and> view_of t = entered (unat h) (Some b) (new_view h uid ((view_of s)\<lparr>v_track := m\<rparr>))" by blast
  then have "proxy_spec D (view_of s) (view_of t)"
    using create [of h "view_of s" uid m D] refuse [of "unat h" "view_of s" uid m D] assms(4,5) by (cases r) simp_all
  then show ?thesis by (rule r_into_rtranclp)
qed

lemma force_set_steps:
  assumes "force_set D b s = Inr t" and "has_handle b h (view_of s)" and "driver_ok D"
  shows "spec_steps D (view_of s) (view_of t)"
proof (cases "bp_stage (proxies s b) = WeakOnly")
  case False
  with assms(1) have "t = s" by (simp add: force_set_def)
  then show ?thesis by simp
next
  case True
  have "onFirstRef D b (upd_proxy b (\<lambda>p. p\<lparr>bp_stage := Strong\<rparr>) s) = Inr t" using assms(1) True by (simp add: force_set_def)
  then have "view_of t = add_command (BC_ACQUIRE h) (view_of (upd_proxy b (\<lambda>p. p\<lparr>bp_stage := Strong\<rparr>) s))"
    by (rule onFirstRef_view) (use assms(2,3) in \<open>simp_all add: has_handle_def upd_proxy_def\<close>)
  then have "view_of t = changed b ((proxies s b)\<lparr>bp_stage := Strong\<rparr>) [BC_ACQUIRE h] (view_of s)" by (simp add: changes)
  then show ?thesis using change_steps [OF assms(2), of "(proxies s b)\<lparr>bp_stage := Strong\<rparr>" "[BC_ACQUIRE h]" D] True
    by (simp add: again)
qed

lemma entry_handle:
  "table_inv v \<Longrightarrow> unat h < length (v_table v) \<Longrightarrow> he_binder (v_table v ! unat h) = Some b \<Longrightarrow>
    has_handle b h v \<and> he_refs (v_table v ! unat h) = Some b \<and> bp_stage (v_proxies v b) \<noteq> Destroyed"
  by (auto simp: table_inv_def entry_ok_def has_handle_def)

lemma get_proxy_steps:
  assumes "getStrongProxyForHandle D ping h s = Inr (r, t)" and "driver_ok D" and "ping_ok ping" and "0 \<le> sint h"
    and "table_inv (view_of s)"
  shows "spec_steps D (view_of s) (view_of t)"
proof -
  obtain e u where u: "lookupHandleLocked D h s = Inr (e, u)"
    using assms(1) by (auto simp: getStrongProxyForHandle_def bind_run_eq_Inr)
  note lk = lookup_steps [OF u assms(4,5)]
  have "spec_steps D (view_of u) (view_of t)"
  proof (cases e)
    case None
    then show ?thesis using assms(1) by (simp add: getStrongProxyForHandle_def u)
  next
    case (Some i)
    then have i: "e = Some (unat h)" "unat h < length (mHandleToObject u)" using lk(3) by auto
    note new = new_entry_steps [OF _ assms(2,3,4), of u r t]
    show ?thesis
    proof (cases "he_binder (mHandleToObject u ! unat h)")
      case None
      then show ?thesis using assms(1) i by (auto simp: getStrongProxyForHandle_def u free_entry_def intro!: new)
    next
      case (Some b)
      then have b: "has_handle b h (view_of u)" "he_refs (mHandleToObject u ! unat h) = Some b"
        using entry_handle [OF lk(2), of h b] i by simp_all
      from assms(1) i Some b(2) obtain got where got: "attemptIncWeak u b = Inr got"
        "(if \<not> got then new_entry D ping (unat h) h u else bind_run (force_set D b (u\<lparr>ref_log := ref_log u @ [IncWeakP b]\<rparr>)) (\<lambda>s.
          Inr (Some b, s\<lparr>ref_log := ref_log s @ [DecWeakP b]\<rparr>))) = Inr (r, t)"
        by (auto simp: getStrongProxyForHandle_def u bind_run_eq_Inr)
      show ?thesis
      proof (cases got)
        case True
        then obtain w where w: "force_set D b (u\<lparr>ref_log := ref_log u @ [IncWeakP b]\<rparr>) = Inr w" "view_of t = view_of w"
          using got(2) by (auto simp: bind_run_eq_Inr)
        show ?thesis using force_set_steps [OF w(1) _ assms(2), of h] b(1) by (simp add: w(2))
      next
        case False
        then have "free_entry (unat h) (view_of u)" using got(1) i(2) Some
          by (auto simp: free_entry_def attemptIncWeak_def split: stage.splits)
        with False got(2) show ?thesis by (auto intro!: new)
      qed
    qed
  qed
  with lk(1) show ?thesis by (rule rtranclp_trans)
qed

text \<open>RefBase has dropped the last strong reference when it calls onLastStrongRef, and the destructor runs on a dying proxy.\<close>

lemma last_strong_steps:
  assumes "onLastStrongRef D b (upd_proxy b (\<lambda>p. p\<lparr>bp_stage := WeakOnly\<rparr>) s) = Inr t" and "driver_ok D"
    and "has_handle b h (view_of s)" and "bp_stage (proxies s b) = Strong"
  shows "spec_steps D (view_of s) (view_of t)"
proof -
  define u where "u = upd_proxy b (\<lambda>p. p\<lparr>bp_stage := WeakOnly\<rparr>) s"
  have h: "mHandle (proxies u b) = BinderHandle h" using assms(3) by (simp add: u_def has_handle_def upd_proxy_def)
  obtain w where w: "decStrongHandle D h u = Inr w" "t = (case mObituaries (proxies w b) of None \<Rightarrow> w
      | Some _ \<Rightarrow> upd_proxy b (\<lambda>p. p\<lparr>mObituaries := None\<rparr>) (clearDeathNotification h b w))"
    using assms(1) unfolding u_def [symmetric] by (auto simp: onLastStrongRef_def isRpcBinder_def binderHandle_def h bind_run_eq_Inr)
  have v: "view_of w = changed b ((proxies s b)\<lparr>bp_stage := WeakOnly\<rparr>) [BC_RELEASE h] (view_of s)"
    using handles_view(2) [OF w(1) assms(2)] by (simp add: u_def changes)
  then have p: "proxies w b = (proxies s b)\<lparr>bp_stage := WeakOnly\<rparr>" by (metis changed_fields(7) fun_upd_same view_fields(2))
  show ?thesis
  proof (cases "mObituaries (proxies s b)")
    case None
    then have "view_of t = view_of w" using w(2) p by simp
    then show ?thesis unfolding v by (simp add: change_steps [OF assms(3)] release None assms(4))
  next
    case (Some obs)
    then have "view_of t = changed b ((proxies s b)\<lparr>bp_stage := WeakOnly, mObituaries := None\<rparr>)
        [BC_RELEASE h, BC_CLEAR_DEATH_NOTIFICATION h b] (view_of s)"
      using w(2) p by (simp add: clearDeathNotification_def v changes)
    then show ?thesis by (simp add: change_steps [OF assms(3)] release_unlink Some assms(4))
  qed
qed

lemma expunged_gone:
  assumes "table_inv v" and "has_handle b h v" and "0 \<le> sint h"
    and "unat h < length (v_table v) \<longrightarrow> he_binder (v_table v ! unat h) \<noteq> Some b"
  shows "\<forall>i < length (v_table v). he_binder (v_table v ! i) \<noteq> Some b"
proof (intro allI impI notI)
  fix i assume i: "i < length (v_table v)" "he_binder (v_table v ! i) = Some b"
  then have "i < 2147483648" "h = of_nat i" using assms(1,2) by (auto simp: table_inv_def entry_ok_def has_handle_def)
  then have "unat h = i" by (simp add: unat_of_nat)
  with i assms(4) show False by simp
qed

lemma expunge_view:
  assumes "expungeHandle D h b s = Inr t" and "0 \<le> sint h" and "table_inv (view_of s)" and "has_handle b h (view_of s)"
    and "bp_stage (proxies s b) = Dying"
  shows "\<exists>n i w. w = grown n (view_of s) \<and> (view_of t = w \<or> free_entry i w \<and> view_of t = entered i None w) \<and>
     (\<forall>i < length (mHandleToObject t). he_binder (mHandleToObject t ! i) \<noteq> Some b)"
proof -
  obtain e u where u: "lookupHandleLocked D h s = Inr (e, u)" "t = (case e of None \<Rightarrow> u
     | Some i \<Rightarrow> if he_binder (mHandleToObject u ! i) = Some b then set_entry i None u else u)"
    using assms(1) by (fastforce simp: expungeHandle_def bind_run_eq_Inr split: option.splits)
  obtain n where n: "view_of u = grown n (view_of s)" "case e of Some i \<Rightarrow> i = unat h \<and> i < length (mHandleToObject s) + n
      | None \<Rightarrow> n = 0 \<and> length (mHandleToObject s) \<le> unat h" using lookup_view [OF u(1) assms(2)] by (auto simp: grown_def)
  have inv: "table_inv (view_of u)" "has_handle b h (view_of u)" unfolding n(1)
    using assms(3,4) by (simp_all add: table_inv_grown) (simp add: has_handle_def grown_def)
  have len: "length (mHandleToObject u) = length (mHandleToObject s) + n" using arg_cong [OF n(1), of "length \<circ> v_table"] by (simp add: grown_def)
  have pu: "proxies u = proxies s" using arg_cong [OF n(1), of v_proxies] by (simp add: grown_def)
  show ?thesis
  proof (cases "e = Some (unat h) \<and> he_binder (mHandleToObject u ! unat h) = Some b")
    case True
    then have t: "t = set_entry (unat h) None u" "unat h < length (mHandleToObject u)" using u(2) n(2) len by auto
    have free: "free_entry (unat h) (view_of u)" using True t(2) assms(5) pu by (simp add: free_entry_def)
    then have "table_inv (view_of t)" "has_handle b h (view_of t)"
      using inv by (simp_all add: t(1) set_entry_view table_inv_expunged) (simp add: has_handle_def entered_def)
    then have "\<forall>i < length (mHandleToObject t). he_binder (mHandleToObject t ! i) \<noteq> Some b"
      using expunged_gone [of "view_of t" b h] assms(2) t by (simp add: set_entry_def)
    then show ?thesis using free n(1) t(1) by (metis set_entry_view)
  next
    case False
    then have t: "t = u" using u(2) n(2) by (auto split: option.splits)
    have "unat h < length (mHandleToObject u) \<longrightarrow> he_binder (mHandleToObject u ! unat h) \<noteq> Some b"
      using False n(2) len by (auto split: option.splits)
    then have "\<forall>i < length (mHandleToObject t). he_binder (mHandleToObject t ! i) \<noteq> Some b"
      using expunged_gone [OF inv assms(2)] t by simp
    then show ?thesis using n(1) t by blast
  qed
qed

lemma track_self: "(view_of s)\<lparr>v_track := sTrackingMap s\<rparr> = view_of s"
  by (simp add: view_of_def)

lemma track_out:
  "(grown n (v\<lparr>v_track := m\<rparr>))\<lparr>v_track := k\<rparr> = grown n (v\<lparr>v_track := k\<rparr>)"
  "(entered i None (grown n (v\<lparr>v_track := m\<rparr>)))\<lparr>v_track := k\<rparr> = entered i None (grown n (v\<lparr>v_track := k\<rparr>))"
  by (simp_all add: grown_def entered_def)

lemma destroy_steps:
  assumes "BpBinder_destroy D b s = Inr t" and "driver_ok D" and "table_inv (view_of s)"
    and "has_handle b h (view_of s)" and "bp_stage (proxies s b) = Dying"
  shows "spec_steps D (view_of s) (view_of t)"
proof -
  have h: "mHandle (proxies s b) = BinderHandle h" "0 \<le> sint h" using assms(3,4)
    by (auto simp: has_handle_def table_inv_def proxy_ok_def split: bp_handle.splits)
  define u where "u = (if sint (mTrackedUid (proxies s b)) \<ge> 0 then track_destroy (mTrackedUid (proxies s b)) s else s)"
  have u: "view_of u = (view_of s)\<lparr>v_track := sTrackingMap u\<rparr>" "\<forall>g. 0 \<le> sint g \<longrightarrow>
      held_count (sTrackingMap u) g = held_count (sTrackingMap s) g - of_bool (g = mTrackedUid (proxies s b))"
    using track_destroy_view [OF refl, of "mTrackedUid (proxies s b)" s] unfolding u_def by (auto simp: view_of_def)
  have "v_proxies (view_of u) = v_proxies (view_of s)" by (subst u(1)) simp
  then have pu: "proxies u = proxies s" by simp
  obtain x y where x: "expungeHandle D h b u = Inr x" "decWeakHandle D h x = Inr y"
    "t = upd_proxy b (\<lambda>p. p\<lparr>bp_stage := Destroyed\<rparr>) (ObjectManager_kill b y)"
    using assms(1) unfolding BpBinder_destroy_def Let_def u_def [symmetric]
    by (auto simp: isRpcBinder_def binderHandle_def h pu bind_run_eq_Inr)
  have hu: "has_handle b h (view_of u)" using assms(4) unfolding u(1) by (simp add: has_handle_def)
  obtain n i w where w: "w = grown n (view_of u)" "view_of x = w \<or> free_entry i w \<and> view_of x = entered i None w"
     "\<forall>i < length (mHandleToObject x). he_binder (mHandleToObject x ! i) \<noteq> Some b"
    using expunge_view [OF x(1) h(2) _ hu] assms(3,5) pu unfolding u(1) by auto
  define X where "X = (view_of x)\<lparr>v_track := sTrackingMap s\<rparr>"
  have grow: "spec_steps D (view_of s) (grown n (view_of s))" by (rule r_into_rtranclp) (rule grow)
  have X: "spec_steps D (view_of s) X"
    using w(2)
  proof
    assume "view_of x = w"
    then have "X = grown n (view_of s)" unfolding X_def w(1) u(1) by (simp only: track_out track_self)
    then show ?thesis using grow by simp
  next
    assume a: "free_entry i w \<and> view_of x = entered i None w"
    then have "X = entered i None (grown n (view_of s))" unfolding X_def w(1) u(1) by (simp only: track_out track_self)
    moreover have "free_entry i (grown n (view_of s))" using a unfolding w(1) u(1) by (simp add: free_entry_def grown_def)
    ultimately show ?thesis using grow by (simp add: rtranclp.rtrancl_into_rtrancl expunge)
  qed
  have "v_proxies (view_of x) = v_proxies w \<and> v_next (view_of x) = v_next w \<and> v_track (view_of x) = v_track w"
    using w(2) by (elim disjE conjE; simp only:; simp add: entered_def)
  then have px: "v_proxies X = proxies s" "v_next X = next_proxy s" "v_track X = sTrackingMap s" "proxies x = proxies s"
    "X\<lparr>v_track := sTrackingMap u\<rparr> = view_of x"
    unfolding w(1) u(1) X_def by (simp_all add: grown_def)
  have "view_of t = changed b ((proxies s b)\<lparr>bp_objects := [], bp_stage := Destroyed\<rparr>) [BC_DECREFS h] (X\<lparr>v_track := sTrackingMap u\<rparr>)"
    using handles_view(4) [OF x(2) assms(2)] unfolding px(5) x(3) ObjectManager_kill_def
    by (simp add: px(4) changes changed_def add_command_def)
  then have "proxy_spec D X (view_of t)"
    using destroy [of b h X "sTrackingMap u" D] assms(4,5) u(2) w(3) px by (simp add: has_handle_def X_def)
  with X show ?thesis by (rule rtranclp.rtrancl_into_rtrancl)
qed

lemma upd_proxy_same [simp]:
  "proxies (upd_proxy b f s) b = f (proxies s b)" "ref_log (upd_proxy b f s) = ref_log s" "died (upd_proxy b f s) = died s"
  by (simp_all add: upd_proxy_def)

lemma link_first:
  assumes "mHandle (proxies s b) = BinderHandle h" and "\<not> mObitsSent (proxies s b)" and "mObituaries (proxies s b) = None"
  shows "linkToDeath D b (Some r) cookie flags s =
    bind_run (flushCommands D (requestDeathNotification h b ((upd_proxy b (\<lambda>p. p\<lparr>mObituaries := Some []\<rparr>) s)\<lparr>ref_log := ref_log s @ [IncWeakP b]\<rparr>)))
      (\<lambda>s. Inr (NO_ERROR, upd_proxy b (\<lambda>p. p\<lparr>mObituaries := Some [\<lparr>ob_recipient = r, ob_cookie = cookie, ob_flags = flags\<rparr>]\<rparr>) s))"
  unfolding linkToDeath_def Let_def by (simp add: assms)

lemma link_more:
  assumes "mHandle (proxies s b) = BinderHandle h" and "\<not> mObitsSent (proxies s b)" and "mObituaries (proxies s b) = Some obs"
  shows "linkToDeath D b (Some r) cookie flags s =
    Inr (NO_ERROR, upd_proxy b (\<lambda>p. p\<lparr>mObituaries := Some (obs @ [\<lparr>ob_recipient = r, ob_cookie = cookie, ob_flags = flags\<rparr>])\<rparr>) s)"
  unfolding linkToDeath_def Let_def by (simp add: assms)

lemma link_sent:
  assumes "mHandle (proxies s b) = BinderHandle h" and "mObitsSent (proxies s b)"
  shows "linkToDeath D b (Some r) cookie flags s = Inr (DEAD_OBJECT, s)"
  unfolding linkToDeath_def by (simp add: assms)

lemma link_recipient: "linkToDeath D b recipient cookie flags s = Inr x \<Longrightarrow> \<exists>r. recipient = Some r"
  by (cases recipient) (simp_all add: linkToDeath_def split: if_splits)

lemma link_steps:
  assumes "linkToDeath D b recipient cookie flags s = Inr (st, t)" and "driver_ok D"
    and "has_handle b h (view_of s)" and "bp_stage (proxies s b) = Strong"
  shows "spec_steps D (view_of s) (view_of t)"
proof -
  obtain r where r: "recipient = Some r" using link_recipient [OF assms(1)] by blast
  have h: "mHandle (proxies s b) = BinderHandle h" using assms(3) by (simp add: has_handle_def)
  consider "mObitsSent (proxies s b)" | obs where "\<not> mObitsSent (proxies s b)" "mObituaries (proxies s b) = Some obs"
    | "\<not> mObitsSent (proxies s b)" "mObituaries (proxies s b) = None" by blast
  then show ?thesis
  proof cases
    case 1
    then show ?thesis using assms(1) by (simp add: r link_sent [OF h])
  next
    case (2 obs)
    define q where "q = (proxies s b)\<lparr>mObituaries := Some (obs @ [\<lparr>ob_recipient = r, ob_cookie = cookie, ob_flags = flags\<rparr>])\<rparr>"
    have "view_of t = changed b q [] (view_of s)"
      using assms(1) unfolding r link_more [OF h 2] q_def by (auto simp: changes)
    then show ?thesis using relink [of "proxies s b" _ h b] 2(2) by (simp add: change_steps [OF assms(3)] q_def)
  next
    case 3
    define ob where "ob = \<lparr>ob_recipient = r, ob_cookie = cookie, ob_flags = flags\<rparr>"
    obtain w where w: "flushCommands D (requestDeathNotification h b
        ((upd_proxy b (\<lambda>p. p\<lparr>mObituaries := Some []\<rparr>) s)\<lparr>ref_log := ref_log s @ [IncWeakP b]\<rparr>)) = Inr w"
      "t = upd_proxy b (\<lambda>p. p\<lparr>mObituaries := Some [ob]\<rparr>) w"
      using assms(1) unfolding r link_first [OF h 3] ob_def by (auto simp only: bind_run_eq_Inr prod.inject sum.inject)
    have v: "view_of w = changed b ((proxies s b)\<lparr>mObituaries := Some []\<rparr>) [BC_REQUEST_DEATH_NOTIFICATION h b] (view_of s)"
      using flushCommands_view [OF w(1) assms(2)] by (simp add: requestDeathNotification_def changes)
    then have p: "proxies w b = (proxies s b)\<lparr>mObituaries := Some []\<rparr>" by (metis changed_fields(7) fun_upd_same view_fields(2))
    have "view_of t = changed b ((proxies s b)\<lparr>mObituaries := Some [ob]\<rparr>) [BC_REQUEST_DEATH_NOTIFICATION h b] (view_of s)"
      unfolding w(2) by (simp add: v p changes)
    then show ?thesis using link [OF assms(4) 3, of h b ob] by (simp add: change_steps [OF assms(3)])
  qed
qed

lemma unlink_steps:
  assumes "unlinkToDeath D b recipient cookie flags s = Inr (r, t)" and "driver_ok D" and "has_handle b h (view_of s)"
  shows "spec_steps D (view_of s) (view_of t)"
proof -
  have h: "mHandle (proxies s b) = BinderHandle h" using assms(3) by (simp add: has_handle_def)
  show ?thesis
  proof (cases "mObitsSent (proxies s b) \<or> remove_first (obit_matches recipient cookie flags)
      (case mObituaries (proxies s b) of None \<Rightarrow> [] | Some obs \<Rightarrow> obs) = None")
    case True
    then have "t = s" using assms(1) by (auto simp: unlinkToDeath_def split: if_splits)
    then show ?thesis by simp
  next
    case False
    then obtain ob rest where rest: "remove_first (obit_matches recipient cookie flags)
      (case mObituaries (proxies s b) of None \<Rightarrow> [] | Some obs \<Rightarrow> obs) = Some (ob, rest)" "mObituaries (proxies s b) \<noteq> None"
      by (cases "mObituaries (proxies s b)") auto
    show ?thesis
    proof (cases "rest = []")
      case True
      obtain w where w: "flushCommands D (clearDeathNotification h b s) = Inr w" "t = upd_proxy b (\<lambda>p. p\<lparr>mObituaries := None\<rparr>) w"
        using assms(1) False by (auto simp: unlinkToDeath_def rest(1) True h bind_run_eq_Inr)
      have v: "view_of w = add_command (BC_CLEAR_DEATH_NOTIFICATION h b) (view_of s)"
        using flushCommands_view [OF w(1) assms(2)] by (simp add: clearDeathNotification_def)
      then have p: "proxies w b = proxies s b" by (metis view_updates_commute(2) view_fields(2))
      have "view_of t = changed b ((proxies s b)\<lparr>mObituaries := None\<rparr>) [BC_CLEAR_DEATH_NOTIFICATION h b] (view_of s)"
        unfolding w(2) by (simp add: v p changes changed_def add_command_def)
      then show ?thesis using rest(2) by (simp add: change_steps [OF assms(3)] unlink)
    next
      case False
      with assms(1) \<open>\<not> (mObitsSent (proxies s b) \<or> _)\<close> have "view_of t = changed b ((proxies s b)\<lparr>mObituaries := Some rest\<rparr>) [] (view_of s)"
        by (auto simp: unlinkToDeath_def rest(1) changes)
      then show ?thesis using rest(2) False by (simp add: change_steps [OF assms(3)] relink)
    qed
  qed
qed

lemma reports:
  "fold (reportOneDeath D b) obs s = s\<lparr>died := died s @ told D b obs\<rparr>"
  by (induction obs arbitrary: s) (simp_all add: reportOneDeath_def told_def)

definition mourned :: "bp_binder \<Rightarrow> bp_binder" where
  "mourned p = p\<lparr>mAlive := False, mObituaries := None, mObitsSent := True\<rparr>"

lemma mourned_steps:
  assumes "has_handle b h v"
  shows "spec_steps D v (changed b (mourned (v_proxies v b))
    (if mObituaries (v_proxies v b) = None then [] else [BC_CLEAR_DEATH_NOTIFICATION h b]) v)"
proof -
  define p where "p = (v_proxies v b)\<lparr>mAlive := False\<rparr>"
  define v1 where "v1 = changed b p [] v"
  define cs where "cs = (if mObituaries p = None then [] else [BC_CLEAR_DEATH_NOTIFICATION h b])"
  define v2 where "v2 = changed b (p\<lparr>mObituaries := None\<rparr>) cs v1"
  have p1: "v_proxies v1 b = p" "has_handle b h v1" using assms by (simp_all add: v1_def has_handle_def p_def)
  have p2: "v_proxies v2 b = p\<lparr>mObituaries := None\<rparr>" "has_handle b h v2" using p1(2) by (simp_all add: v2_def has_handle_def v1_def p_def)
  have s1: "spec_steps D v v1" unfolding v1_def p_def by (rule change_steps [OF assms dead])
  have s2: "spec_steps D v1 v2"
  proof (cases "mObituaries p = None")
    case True
    then have "p\<lparr>mObituaries := None\<rparr> = p" by simp
    then have "v2 = v1" using p1(1) by (simp add: v2_def cs_def True changed_def fun_upd_idem)
    then show ?thesis by simp
  next
    case False
    then have "cs = [BC_CLEAR_DEATH_NOTIFICATION h b]" by (simp add: cs_def)
    then show ?thesis using unlink [OF False, of h b] change_steps [OF p1(2)] p1(1) by (simp add: v2_def)
  qed
  have s3: "spec_steps D v2 (changed b (p\<lparr>mObituaries := None, mObitsSent := True\<rparr>) [] v2)"
    using obituary [of "p\<lparr>mObituaries := None\<rparr>" h b] change_steps [OF p2(2)] p2(1) by simp
  have "changed b (p\<lparr>mObituaries := None, mObitsSent := True\<rparr>) [] v2 = changed b (mourned (v_proxies v b)) cs v"
    by (simp add: v2_def v1_def changes mourned_def p_def)
  with s1 s2 s3 show ?thesis by (simp add: cs_def p_def)
qed

lemma obituary_run:
  assumes "sendObituary D b s = Inr t" and "driver_ok D" and "mHandle (proxies s b) = BinderHandle h" and "\<not> mObitsSent (proxies s b)"
  shows "view_of t = (changed b (mourned (proxies s b))
      (if mObituaries (proxies s b) = None then [] else [BC_CLEAR_DEATH_NOTIFICATION h b]) (view_of s))
    \<lparr>v_died := died s @ told D b (case mObituaries (proxies s b) of None \<Rightarrow> [] | Some obs \<Rightarrow> obs)\<rparr>"
proof -
  define u where "u = upd_proxy b (\<lambda>p. p\<lparr>mAlive := False\<rparr>) s"
  have u: "proxies u b = (proxies s b)\<lparr>mAlive := False\<rparr>" by (simp add: u_def)
  show ?thesis
  proof (cases "mObituaries (proxies s b)")
    case None
    have "t = upd_proxy b (\<lambda>p. p\<lparr>mObituaries := None, mObitsSent := True\<rparr>) u"
      using assms(1,4) None unfolding sendObituary_def Let_def u_def [symmetric] by (simp add: u assms(3))
    then show ?thesis by (simp add: None u_def changes mourned_def told_def)
  next
    case (Some obs)
    obtain w where w: "flushCommands D (clearDeathNotification h b u) = Inr w"
      "t = fold (reportOneDeath D b) obs (upd_proxy b (\<lambda>p. p\<lparr>mObituaries := None, mObitsSent := True\<rparr>) w)"
      using assms(1,4) Some unfolding sendObituary_def Let_def u_def [symmetric] by (auto simp: u assms(3) bind_run_eq_Inr)
    have v: "view_of w = changed b ((proxies s b)\<lparr>mAlive := False\<rparr>) [BC_CLEAR_DEATH_NOTIFICATION h b] (view_of s)"
      using flushCommands_view [OF w(1) assms(2)] by (simp add: clearDeathNotification_def u_def changes)
    then have p: "proxies w b = (proxies s b)\<lparr>mAlive := False\<rparr>" "died w = died s"
      by (metis changed_fields(7) fun_upd_same view_fields(2), metis changed_fields(6) view_fields(5))
    then show ?thesis unfolding w(2) reports by (simp add: v Some changes mourned_def p)
  qed
qed

lemma obituary_steps:
  assumes "sendObituary D b s = Inr t" and "driver_ok D" and "has_handle b h (view_of s)"
  shows "spec_steps D (view_of s) (view_of t)"
proof -
  have h: "mHandle (proxies s b) = BinderHandle h" using assms(3) by (simp add: has_handle_def)
  show ?thesis
  proof (cases "mObitsSent (proxies s b)")
    case True
    then have "view_of t = changed b ((proxies s b)\<lparr>mAlive := False\<rparr>) [] (view_of s)"
      using assms(1) by (auto simp: sendObituary_def Let_def changes)
    then show ?thesis using dead [of h b "proxies s b"] by (simp add: change_steps [OF assms(3)])
  next
    case False
    note run = obituary_run [OF assms(1,2) h False]
    show ?thesis unfolding run
      using rtranclp.rtrancl_into_rtrancl [OF mourned_steps [OF assms(3), of D] tell] by (simp add: view_of_def)
  qed
qed

section \<open>The proxies as a transition system\<close>

datatype proxy_event =
    Lookup u32 | LastStrong proxy | LastWeak proxy | Destructor proxy
  | Link proxy nat nat u32 | Unlink proxy "nat option" nat u32 | Died proxy | Other

text \<open>A process without proxies, and what may happen to it: a handle arrives; RefBase drops a last reference or runs a destructor;
  a holder of a proxy links or unlinks a recipient; the driver reports a death; the thread does something else, such as talking to
  the driver, that leaves proxies and references alone.\<close>

definition no_proxies :: "ipc \<Rightarrow> bool" where
  "no_proxies s \<longleftrightarrow> next_proxy s = 0 \<and> mHandleToObject s = [] \<and> sTrackingMap s = Map.empty \<and> commands s = []"

inductive proxy_step :: "ipc_env \<Rightarrow> (ipc \<Rightarrow> status_t ipc_run) \<Rightarrow> ipc \<Rightarrow> proxy_event \<Rightarrow> ipc \<Rightarrow> bool" for D ping where
  "0 \<le> sint h \<Longrightarrow> getStrongProxyForHandle D ping h s = Inr (r, t) \<Longrightarrow> proxy_step D ping s (Lookup h) t"
| "b < next_proxy s \<Longrightarrow> bp_stage (proxies s b) = Strong \<Longrightarrow>
    onLastStrongRef D b (upd_proxy b (\<lambda>p. p\<lparr>bp_stage := WeakOnly\<rparr>) s) = Inr t \<Longrightarrow> proxy_step D ping s (LastStrong b) t"
| "b < next_proxy s \<Longrightarrow> bp_stage (proxies s b) = WeakOnly \<Longrightarrow>
    proxy_step D ping s (LastWeak b) (upd_proxy b (\<lambda>p. p\<lparr>bp_stage := Dying\<rparr>) s)"
| "b < next_proxy s \<Longrightarrow> bp_stage (proxies s b) = Dying \<Longrightarrow> BpBinder_destroy D b s = Inr t \<Longrightarrow>
    proxy_step D ping s (Destructor b) t"
| "b < next_proxy s \<Longrightarrow> bp_stage (proxies s b) = Strong \<Longrightarrow> linkToDeath D b (Some r) cookie flags s = Inr (st, t) \<Longrightarrow>
    proxy_step D ping s (Link b r cookie flags) t"
| "b < next_proxy s \<Longrightarrow> unlinkToDeath D b r cookie flags s = Inr (out, t) \<Longrightarrow> proxy_step D ping s (Unlink b r cookie flags) t"
| "b < next_proxy s \<Longrightarrow> sendObituary D b s = Inr t \<Longrightarrow> proxy_step D ping s (Died b) t"
| "view_of t = view_of s \<Longrightarrow> proxy_step D ping s Other t"

interpretation px: transition_system no_proxies "proxy_step D ping" for D ping .

definition view_inv :: "view \<Rightarrow> bool" where
  "view_inv v \<longleftrightarrow> table_inv v \<and> books_inv v \<and> death_inv v \<and> count_inv v"

lemma view_inv_init: "no_proxies s \<Longrightarrow> view_inv (view_of s)"
  by (simp add: no_proxies_def view_inv_def table_inv_def books_inv_def death_inv_def count_inv_def holders_def has_handle_def
      view_of_def held_count_def tracked_def)

lemma view_inv_steps: "spec_steps D v w \<Longrightarrow> view_inv v \<Longrightarrow> view_inv w"
  by (induction rule: rtranclp_induct)
    (auto simp: view_inv_def intro: table_inv_step books_inv_step death_inv_step count_inv_step)

lemma handle_of: "table_inv (view_of s) \<Longrightarrow> b < next_proxy s \<Longrightarrow> \<exists>h. has_handle b h (view_of s)"
  by (cases "mHandle (proxies s b)") (auto simp: table_inv_def proxy_ok_def has_handle_def)

lemma step_refines:
  assumes "proxy_step D ping s e t" and "driver_ok D" and "ping_ok ping" and "table_inv (view_of s)"
  shows "spec_steps D (view_of s) (view_of t)"
  using assms(1)
proof cases
  case (1 h r)
  then show ?thesis using get_proxy_steps assms(2-4) by blast
next
  case (2 b)
  then show ?thesis using last_strong_steps [OF 2(4) assms(2)] handle_of [OF assms(4) 2(2)] by blast
next
  case (3 b)
  then obtain h where "has_handle b h (view_of s)" using handle_of [OF assms(4)] by blast
  then show ?thesis using 3 die [of "proxies s b" h b] by (simp add: changes change_steps)
next
  case (4 b)
  then show ?thesis using destroy_steps [OF 4(4) assms(2,4)] handle_of [OF assms(4) 4(2)] by blast
next
  case (5 b r cookie flags st)
  then show ?thesis using link_steps [OF 5(4) assms(2)] handle_of [OF assms(4) 5(2)] by blast
next
  case (6 b r cookie flags out)
  then show ?thesis using unlink_steps [OF 6(3) assms(2)] handle_of [OF assms(4) 6(2)] by blast
next
  case (7 b)
  then show ?thesis using obituary_steps [OF 7(3) assms(2)] handle_of [OF assms(4) 7(2)] by blast
qed simp

lemma reach_inv:
  assumes "px.reach D ping s" and "driver_ok D" and "ping_ok ping"
  shows "view_inv (view_of s)"
  using assms(1)
proof (rule px.invariant_rule [rotated -1])
  fix s e t assume "px.reach D ping s" "view_inv (view_of s)" "proxy_step D ping s e t"
  moreover from this have "table_inv (view_of s)" by (simp add: view_inv_def)
  ultimately show "view_inv (view_of t)" using view_inv_steps step_refines [OF _ assms(2,3)] by blast
qed (rule view_inv_init)

section \<open>Properties\<close>

definition proxy_of :: "ipc \<Rightarrow> u32 \<Rightarrow> proxy \<Rightarrow> bool" where
  "proxy_of s h b \<longleftrightarrow> b < next_proxy s \<and> mHandle (proxies s b) = BinderHandle h"

lemma proxy_of_handle: "proxy_of s h b = has_handle b h (view_of s)"
  by (simp add: proxy_of_def has_handle_def)

lemma usable_entry:
  "table_inv (view_of s) \<Longrightarrow> proxy_of s h b \<Longrightarrow> usable (proxies s b) \<Longrightarrow>
    0 \<le> sint h \<and> unat h < length (mHandleToObject s) \<and> he_binder (mHandleToObject s ! unat h) = Some b \<and>
    he_refs (mHandleToObject s ! unat h) = Some b"
  by (fastforce simp: table_inv_def proxy_ok_def entry_ok_def proxy_of_def)

lemma lookup_present:
  "0 \<le> sint h \<Longrightarrow> unat h < length (mHandleToObject s) \<Longrightarrow> lookupHandleLocked D h s = Inr (Some (unat h), s)"
proof -
  assume a: "0 \<le> sint h" "unat h < length (mHandleToObject s)"
  have "uint h = sint h" using a(1) sint_less [of h] by (simp add: uint_sint take_bit_int_eq_self)
  then have "nat (sint h mod 18446744073709551616) = unat h" using a(1) sint_less [of h] by (simp flip: nat_uint_eq)
  with a(2) show ?thesis unfolding lookupHandleLocked_def Let_def by simp
qed

lemma strong_lookup:
  "0 \<le> sint h \<Longrightarrow> unat h < length (mHandleToObject s) \<Longrightarrow> he_binder (mHandleToObject s ! unat h) = Some b \<Longrightarrow>
    he_refs (mHandleToObject s ! unat h) = Some b \<Longrightarrow> bp_stage (proxies s b) = Strong \<Longrightarrow>
    getStrongProxyForHandle D ping h s = Inr (Some b, s\<lparr>ref_log := ref_log s @ [IncWeakP b, DecWeakP b]\<rparr>)"
  by (simp add: getStrongProxyForHandle_def lookup_present attemptIncWeak_def force_set_def)

text \<open>C7: In every reachable state of the proxies of a process, a handle belongs to at most one proxy that can still be used. As long
  as one has strong references every arrival of its handle gives that proxy and changes nothing else, and no lookup of a handle
  touches a proxy that has been destroyed, even when a destructor is still to run.\<close>

theorem one_proxy_per_handle:
  assumes "px.reach D ping s" and "driver_ok D" and "ping_ok ping"
  shows "(\<forall>h b c. proxy_of s h b \<and> usable (proxies s b) \<and> proxy_of s h c \<and> usable (proxies s c) \<longrightarrow> b = c) \<and>
    (\<forall>h b. proxy_of s h b \<and> bp_stage (proxies s b) = Strong \<longrightarrow>
       getStrongProxyForHandle D ping h s = Inr (Some b, s\<lparr>ref_log := ref_log s @ [IncWeakP b, DecWeakP b]\<rparr>)) \<and>
    (\<forall>i b. i < length (mHandleToObject s) \<and> he_binder (mHandleToObject s ! i) = Some b \<longrightarrow>
       he_refs (mHandleToObject s ! i) = Some b \<and> attemptIncWeak s b = Inr (usable (proxies s b)))"
proof -
  have inv: "table_inv (view_of s)" using reach_inv [OF assms] by (simp add: view_inv_def)
  have "b = c" if "proxy_of s h b" "usable (proxies s b)" "proxy_of s h c" "usable (proxies s c)" for h b c
    using usable_entry [OF inv that(1,2)] usable_entry [OF inv that(3,4)] by simp
  moreover have "getStrongProxyForHandle D ping h s = Inr (Some b, s\<lparr>ref_log := ref_log s @ [IncWeakP b, DecWeakP b]\<rparr>)"
    if "proxy_of s h b" "bp_stage (proxies s b) = Strong" for h b
    using usable_entry [OF inv that(1)] that(2) by (simp add: usable_def strong_lookup)
  moreover have "he_refs (mHandleToObject s ! i) = Some b \<and> attemptIncWeak s b = Inr (usable (proxies s b))"
    if "i < length (mHandleToObject s)" "he_binder (mHandleToObject s ! i) = Some b" for i b
    using inv that by (auto simp: table_inv_def entry_ok_def attemptIncWeak_def usable_def split: stage.splits)
  ultimately show ?thesis by blast
qed

text \<open>C8: In every reachable state the commands written for the driver account for the references of the process: for every handle,
  the strong references acquired and not released are as many as its proxies with strong references, and the weak ones as many as
  its proxies that are not destroyed.\<close>

theorem driver_references_balanced:
  assumes "px.reach D ping s" and "driver_ok D" and "ping_ok ping"
  shows "count_list (commands s) (BC_ACQUIRE h) =
      count_list (commands s) (BC_RELEASE h) + card {b. proxy_of s h b \<and> bp_stage (proxies s b) = Strong} \<and>
    count_list (commands s) (BC_INCREFS h) =
      count_list (commands s) (BC_DECREFS h) + card {b. proxy_of s h b \<and> bp_stage (proxies s b) \<noteq> Destroyed}"
proof -
  have f: "count_list (filter ref_command cs) c = count_list cs c" if "ref_command c" for cs c
    using that by (induction cs) auto
  have "books_inv (view_of s)" using reach_inv [OF assms] by (simp add: view_inv_def)
  then show ?thesis by (simp add: books_inv_def holders_def holds_strong_def holds_weak_def proxy_of_def view_of_def f conj_assoc)
qed

text \<open>C22: In every reachable state the driver has been asked for a death notification of a proxy, and not since told to forget it,
  exactly when recipients are linked. When the death is reported each of them that is still there is told once, in the order in which
  they were linked, and none a second time; afterwards nobody is linked and linking is refused.\<close>

theorem death_notifications_exact:
  assumes "px.reach D ping s" and "driver_ok D" and "ping_ok ping" and "proxy_of s h b"
  shows "count_list (commands s) (BC_REQUEST_DEATH_NOTIFICATION h b) =
      count_list (commands s) (BC_CLEAR_DEATH_NOTIFICATION h b) + of_bool (mObituaries (proxies s b) \<noteq> None) \<and>
    (\<forall>t. sendObituary D b s = Inr t \<longrightarrow>
       died t = died s @ told D b (case mObituaries (proxies s b) of None \<Rightarrow> [] | Some obs \<Rightarrow> obs) \<and>
       mObituaries (proxies t b) = None \<and> \<not> isBinderAlive t b \<and>
       (\<forall>r cookie flags. linkToDeath D b (Some r) cookie flags t = Inr (DEAD_OBJECT, t)) \<and>
       (\<forall>u. sendObituary D b t = Inr u \<longrightarrow> died u = died t))"
proof -
  have f: "count_list (filter ref_command cs) c = count_list cs c" if "ref_command c" for cs c
    using that by (induction cs) auto
  have inv: "death_inv (view_of s)" using reach_inv [OF assms(1-3)] by (simp add: view_inv_def)
  have h: "mHandle (proxies s b) = BinderHandle h" "notice_ok (proxies s b)"
    using assms(4) inv by (simp_all add: proxy_of_def death_inv_def)
  have sent: "died t = died s @ told D b (case mObituaries (proxies s b) of None \<Rightarrow> [] | Some obs \<Rightarrow> obs) \<and>
      mHandle (proxies t b) = BinderHandle h \<and> mObituaries (proxies t b) = None \<and> mObitsSent (proxies t b) \<and> \<not> mAlive (proxies t b)"
    if "sendObituary D b s = Inr t" for t
  proof (cases "mObitsSent (proxies s b)")
    case True
    then have "mObituaries (proxies s b) = None" using h(2) by (auto simp: notice_ok_def)
    moreover have "t = upd_proxy b (\<lambda>p. p\<lparr>mAlive := False\<rparr>) s" using that True by (simp add: sendObituary_def Let_def)
    ultimately show ?thesis using True h(1) by (simp add: told_def)
  next
    case False
    note run = obituary_run [OF that assms(2) h(1) False]
    show ?thesis using arg_cong [OF run, of v_died] arg_cong [OF run, of v_proxies] h(1) by (simp add: mourned_def)
  qed
  have again: "died u = died t" if "mObitsSent (proxies t b)" "sendObituary D b t = Inr u" for t u
    using that by (auto simp: sendObituary_def Let_def)
  have "count_list (commands s) (BC_REQUEST_DEATH_NOTIFICATION h b) =
      count_list (commands s) (BC_CLEAR_DEATH_NOTIFICATION h b) + of_bool (mObituaries (proxies s b) \<noteq> None)"
    using inv assms(4) by (simp add: death_inv_def proxy_of_handle view_of_def f)
  then show ?thesis using sent again link_sent unfolding isBinderAlive_def by blast
qed


subsection \<open>A process with one proxy\<close>

definition pong :: "ipc \<Rightarrow> status_t ipc_run" where
  "pong s = Inr (OK, s)"

definition one_proxy :: ipc where
  "one_proxy = idle\<lparr>mHandleToObject := (replicate 6 \<lparr>he_binder = None, he_refs = None\<rparr>)[5 := \<lparr>he_binder = Some 0, he_refs = Some 0\<rparr>],
     next_proxy := 1, proxies := (proxies idle)(0 := (new_proxy (BinderHandle 5) 1000)\<lparr>bp_stage := Strong\<rparr>),
     sCountByUidEnabled := True, sTrackingMap := [1000 \<mapsto> 1], mOut := [BC_INCREFS 5, BC_ACQUIRE 5],
     ref_log := [IncWeakP 0, IncStrongP 0], mPostWriteWeakDerefs := [0], mPostWriteStrongDerefs := [0]\<rparr>"

lemma one_proxy_run:
  "getStrongProxyForHandle (script (\<lambda>_. [])) pong 5 (idle\<lparr>sCountByUidEnabled := True\<rparr>) = Inr (Some 0, one_proxy)"
  by (simp add: getStrongProxyForHandle_def lookupHandleLocked_def Let_def new_entry_def BpBinder_create_def getCallingUid_def
      checkContextIsBinderForUse_def track_create_def tracked_def BpBinder_make_def incWeakHandle_def incStrongHandle_def
      flushIfNeeded_def emit_def onFirstRef_def isRpcBinder_def binderHandle_def upd_proxy_def set_entry_def
      one_proxy_def idle_def script_def new_proxy_def)

lemma one_proxy_reached: "px.reach (script (\<lambda>_. [])) pong one_proxy"
proof (rule px.reach_step)
  show "px.reach (script (\<lambda>_. [])) pong (idle\<lparr>sCountByUidEnabled := True\<rparr>)"
    by (rule px.reach_init) (simp add: no_proxies_def idle_def commands_def)
  show "proxy_step (script (\<lambda>_. [])) pong (idle\<lparr>sCountByUidEnabled := True\<rparr>) (Lookup 5) one_proxy"
    by (rule proxy_step.intros(1) [OF _ one_proxy_run]) simp
qed

lemma sample_driver: "driver_ok (script f)" "ping_ok pong"
  by (simp_all add: driver_ok_def script_def ping_ok_def pong_def)

definition one_obituary :: obituary where
  "one_obituary = \<lparr>ob_recipient = 7, ob_cookie = 0, ob_flags = 0\<rparr>"

definition linked_proxy :: ipc where
  "linked_proxy = upd_proxy 0 (\<lambda>p. p\<lparr>mObituaries := Some [one_obituary]\<rparr>)
     (one_proxy\<lparr>mOut := [], driver_log := [BC_INCREFS 5, BC_ACQUIRE 5, BC_REQUEST_DEATH_NOTIFICATION 5 0], ioctls := 1,
       ref_log := [IncWeakP 0, IncStrongP 0, IncWeakP 0, DecWeakP 0, DecStrongP 0], mPostWriteWeakDerefs := [], mPostWriteStrongDerefs := []\<rparr>)"

lemma script_loop: "ioctl_loop (script f) out rd k n = Some (\<lparr>io_err = 0, io_taken = length out, io_read = (if rd then f n else []), io_closed = False\<rparr>, Suc n)"
  by (subst ioctl_loop.simps) (simp add: script_def)

lemma linked_proxy_run: "linkToDeath (script (\<lambda>_. [])) 0 (Some 7) 0 0 one_proxy = Inr (NO_ERROR, linked_proxy)"
  by (subst link_first [of _ _ 5])
    (simp_all add: one_proxy_def idle_def new_proxy_def linked_proxy_def upd_proxy_def flushCommands_def requestDeathNotification_def emit_def
      talkWithDriver_def Let_def script_loop driver_answer_def took_commands_def read_commands_def processPostWriteDerefs_def one_obituary_def)

lemma linked_proxy_reached: "px.reach (script (\<lambda>_. [])) pong linked_proxy"
  by (rule px.reach_step [OF one_proxy_reached proxy_step.intros(5) [OF _ _ linked_proxy_run]])
    (simp_all add: one_proxy_def idle_def new_proxy_def)

lemma linked_proxy_facts:
  "proxy_of linked_proxy 5 0" "bp_stage (proxies linked_proxy 0) = Strong" "mObituaries (proxies linked_proxy 0) = Some [one_obituary]"
  "next_proxy linked_proxy = 1" "mTrackedUid (proxies linked_proxy 0) = 1000" "died linked_proxy = []"
  "commands linked_proxy = [BC_INCREFS 5, BC_ACQUIRE 5, BC_REQUEST_DEATH_NOTIFICATION 5 0]"
  by (simp_all add: linked_proxy_def one_proxy_def idle_def new_proxy_def proxy_of_def upd_proxy_def commands_def)

lemma linked_proxy_dies: "\<exists>t. sendObituary (script (\<lambda>_. [])) 0 linked_proxy = Inr t"
  by (simp add: sendObituary_def Let_def flushCommands_def clearDeathNotification_def emit_def talkWithDriver_def script_loop
      driver_answer_def took_commands_def processPostWriteDerefs_def linked_proxy_def one_proxy_def idle_def new_proxy_def upd_proxy_def
      read_commands_def)

theorem one_proxy_per_handle_witness:
  "getStrongProxyForHandle (script (\<lambda>_. [])) pong 5 linked_proxy =
     Inr (Some 0, linked_proxy\<lparr>ref_log := ref_log linked_proxy @ [IncWeakP 0, DecWeakP 0]\<rparr>)"
  using one_proxy_per_handle [OF linked_proxy_reached sample_driver] linked_proxy_facts(1,2) by blast

theorem driver_references_balanced_witness:
  "card {b. proxy_of linked_proxy 5 b \<and> bp_stage (proxies linked_proxy b) = Strong} = 1"
  using driver_references_balanced [OF linked_proxy_reached sample_driver, of 5] by (simp add: linked_proxy_facts)

theorem death_notifications_exact_witness:
  "\<exists>t. sendObituary (script (\<lambda>_. [])) 0 linked_proxy = Inr t \<and> died t = [(7, 0)] \<and>
     linkToDeath (script (\<lambda>_. [])) 0 (Some 8) 0 0 t = Inr (DEAD_OBJECT, t)"
proof -
  obtain t where t: "sendObituary (script (\<lambda>_. [])) 0 linked_proxy = Inr t" using linked_proxy_dies by blast
  have "told (script (\<lambda>_. [])) 0 [one_obituary] = [(7, 0)]" by (simp add: told_def script_def one_obituary_def)
  with t death_notifications_exact [OF linked_proxy_reached sample_driver linked_proxy_facts(1)] show ?thesis
    by (auto simp: linked_proxy_facts(3,6))
qed


end
