(* ===== verification/Binder_Parcels.thy ===== *)
theory Binder_Parcels
  imports Ipc_Commands Stability
begin

text \<open>
  Binders in parcels of the kernel driver and the code of a local object that every transaction goes
  through (src/libs/binder/Parcel.cpp and Binder.cpp): flattening and unflattening with the mark of
  stability, the header of a request with strict mode policy, work source and name of the interface,
  and BBinder::transact. The parcels here have no RPC session; binders in parcels of a session are
  part of the theory Rpc_Commands. What an application does in onTransact, the descriptor of its interface and the result
  receiver of a shell command are parameters. \<open>vndk\<close> says how the library was compiled; the recovery build,
  which has a header of its own, is not considered.
\<close>

type_synonym 'a binder_run = "crash + 'a \<times> parcel \<times> ipc"

section \<open>Binders\<close>

definition upd_local :: "u64 \<Rightarrow> (bbinder \<Rightarrow> bbinder) \<Rightarrow> ipc \<Rightarrow> ipc" where
  "upd_local a f s = s\<lparr>locals := (locals s)(a := f (locals s a))\<rparr>"

text \<open>The part of a binder that Stability looks at, and back.\<close>

definition stable_of :: "ipc \<Rightarrow> ibinder option \<Rightarrow> stable_binder option" where
  "stable_of s b =
     (case b of
        None \<Rightarrow> None
      | Some (LocalB a) \<Rightarrow> Some \<lparr>is_local = True, mStability = bb_stability (locals s a)\<rparr>
      | Some (RemoteB x) \<Rightarrow> Some \<lparr>is_local = False, mStability = bp_stability (proxies s x)\<rparr>)"

definition store_stable :: "ibinder option \<Rightarrow> stable_binder option \<Rightarrow> ipc \<Rightarrow> ipc" where
  "store_stable b r s =
     (case (b, r) of
        (Some (LocalB a), Some x) \<Rightarrow> upd_local a (\<lambda>l. l\<lparr>bb_stability := mStability x\<rparr>) s
      | (Some (RemoteB y), Some x) \<Rightarrow> upd_proxy y (\<lambda>l. l\<lparr>bp_stability := mStability x\<rparr>) s
      | _ \<Rightarrow> s)"

definition schedPolicyMask :: "env \<Rightarrow> int \<Rightarrow> int \<Rightarrow> u32" where
  "schedPolicyMask E policy priority =
     (of_int priority AND PRIORITY_MASK E) OR push_bit (SCHED_POLICY_SHIFT E) (of_int policy AND 3)"

definition ipc_finishFlattenBinder :: "env \<Rightarrow> bool \<Rightarrow> ibinder option \<Rightarrow> parcel \<Rightarrow> ipc \<Rightarrow> status_t binder_run" where
  "ipc_finishFlattenBinder E vndk b p s =
     (let s = store_stable b (tryMarkCompilationUnit vndk (stable_of s b)) s in
      bind_run (writeInt32 E (of_int (getRepr (stable_of s b))) p) (\<lambda>(st, p). Inr (st, p, s)))"

definition ipc_finishUnflattenBinder :: "env \<Rightarrow> ibinder option \<Rightarrow> parcel \<Rightarrow> ipc \<Rightarrow> (status_t + ibinder option) binder_run" where
  "ipc_finishUnflattenBinder E b p s =
     bind_run (readInt32 E p) (\<lambda>(r, p).
     case r of
       Inl st \<Rightarrow> Inr (Inl st, p, s)
     | Inr stability \<Rightarrow>
         (case setRepr (stable_of s b) (sint (ucast stability :: u16)) REPR_LOG of
            (st, x) \<Rightarrow> let s = store_stable b x s in Inr (if st \<noteq> OK then Inl st else Inr b, p, s)))"

text \<open>A local object: its weak references are the binder of the object, its address the cookie.\<close>

definition local_object :: "env \<Rightarrow> ipc_env \<Rightarrow> u64 \<Rightarrow> u32 \<Rightarrow> ipc \<Rightarrow> flat" where
  "local_object E D a schedBits s =
     (let l = locals s a; policy = getMinSchedulerPolicy l; priority = getMinSchedulerPriority l;
          schedBits = (if policy \<noteq> 0 \<or> priority \<noteq> 0 then schedPolicyMask E policy priority else schedBits) in
      \<lparr>obj_type = T_BINDER E,
       obj_flags = (FLAG_ACCEPTS_FDS E OR (if isRequestingSid l then FLAG_TXN_SECURITY_CTX E else 0) OR
         (if isInheritRt l then FLAG_INHERIT_RT E else 0)) OR schedBits,
       obj_binder = weak_refs D a, obj_cookie = a\<rparr>)"

definition ipc_flattenBinder ::
  "env \<Rightarrow> ipc_env \<Rightarrow> bool \<Rightarrow> ibinder option \<Rightarrow> parcel \<Rightarrow> ipc \<Rightarrow> status_t binder_run" where
  "ipc_flattenBinder E D vndk b p s =
     (let schedBits = (if backgroundSchedulingDisabled s then 0 else schedPolicyMask E SCHED_NORMAL 19);
          put = (\<lambda>obj s. bind_run (writeObject E obj False p) (\<lambda>(st, p).
            if st \<noteq> OK then Inr (st, p, s) else ipc_finishFlattenBinder E vndk b p s)) in
      case b of
        None \<Rightarrow> put \<lparr>obj_type = T_BINDER E, obj_flags = schedBits, obj_binder = 0, obj_cookie = 0\<rparr> s
      | Some (LocalB a) \<Rightarrow>
          let s = insertBBinder a (upd_local a setParceled s) in put (local_object E D a schedBits s) s
      | Some (RemoteB x) \<Rightarrow>
          if isRpcBinder s x then Inr (INVALID_OPERATION, p, s)
          else bind_run (binderHandle s x) (\<lambda>h.
            put \<lparr>obj_type = T_HANDLE E, obj_flags = schedBits, obj_binder = ucast h, obj_cookie = 0\<rparr> s))"

text \<open>The pointer in a flattened local object is taken as it is.\<close>

definition ipc_unflattenBinder ::
  "env \<Rightarrow> ipc_env \<Rightarrow> local_code \<Rightarrow> parcel \<Rightarrow> ipc \<Rightarrow> (status_t + ibinder option) binder_run" where
  "ipc_unflattenBinder E D A p s =
     bind_run (readObject E False p) (\<lambda>(f, p).
     case f of
       None \<Rightarrow> Inr (Inl BAD_TYPE, p, s)
     | Some f \<Rightarrow>
         if obj_type f = T_BINDER E
         then ipc_finishUnflattenBinder E (if obj_cookie f = 0 then None else Some (LocalB (obj_cookie f))) p s
         else if obj_type f = T_HANDLE E
         then bind_run (strong_proxy E D A (obj_handle f) s) (\<lambda>(r, s).
           ipc_finishUnflattenBinder E (map_option RemoteB r) p s)
         else Inr (Inl BAD_TYPE, p, s))"

definition writeStrongBinder :: "env \<Rightarrow> ipc_env \<Rightarrow> bool \<Rightarrow> ibinder option \<Rightarrow> parcel \<Rightarrow> ipc \<Rightarrow> status_t binder_run" where
  "writeStrongBinder E D vndk b p s = ipc_flattenBinder E D vndk b p s"

definition readNullableStrongBinder ::
  "env \<Rightarrow> ipc_env \<Rightarrow> local_code \<Rightarrow> parcel \<Rightarrow> ipc \<Rightarrow> (status_t + ibinder option) binder_run" where
  "readNullableStrongBinder E D A p s = ipc_unflattenBinder E D A p s"

definition readStrongBinder ::
  "env \<Rightarrow> ipc_env \<Rightarrow> local_code \<Rightarrow> parcel \<Rightarrow> ipc \<Rightarrow> (status_t + ibinder) binder_run" where
  "readStrongBinder E D A p s =
     bind_run (readNullableStrongBinder E D A p s) (\<lambda>(r, p, s).
     Inr (case r of Inl st \<Rightarrow> Inl st | Inr None \<Rightarrow> Inl UNEXPECTED_NULL | Inr (Some b) \<Rightarrow> Inr b, p, s))"

text \<open>Without a status: null on failure.\<close>

definition readStrongBinder_value ::
  "env \<Rightarrow> ipc_env \<Rightarrow> local_code \<Rightarrow> parcel \<Rightarrow> ipc \<Rightarrow> ibinder option binder_run" where
  "readStrongBinder_value E D A p s =
     bind_run (readNullableStrongBinder E D A p s) (\<lambda>(r, p, s). Inr (case r of Inl _ \<Rightarrow> None | Inr b \<Rightarrow> b, p, s))"

definition markForBinder :: "ibinder option \<Rightarrow> parcel \<Rightarrow> ipc \<Rightarrow> crash + parcel" where
  "markForBinder b p s =
     (if mData p \<noteq> None then Inl Abort
      else case b of
        Some (RemoteB x) \<Rightarrow> (case mHandle (proxies s x) of RpcHandle session _ \<Rightarrow> markForRpc (Some session) p | BinderHandle _ \<Rightarrow> Inr p)
      | _ \<Rightarrow> Inr p)"

section \<open>The header of a request\<close>

abbreviation STRICT_MODE_PENALTY_GATHER :: u32 where "STRICT_MODE_PENALTY_GATHER \<equiv> 0x80000000"
abbreviation FLAG_ONEWAY :: u32 where "FLAG_ONEWAY \<equiv> 1"
abbreviation FLAG_CLEAR_BUF :: u32 where "FLAG_CLEAR_BUF \<equiv> 0x20"

text \<open>The characters VNDR and SYST.\<close>

definition kHeader :: "bool \<Rightarrow> u32" where
  "kHeader vndk = (if vndk then 0x564e4452 else 0x53595354)"

definition updateWorkSourceRequestHeaderPosition :: "parcel \<Rightarrow> parcel" where
  "updateWorkSourceRequestHeaderPosition p =
     (if mRequestHeaderPresent p then p
      else p\<lparr>mWorkSourceRequestHeaderPosition := dataPosition p, mRequestHeaderPresent := True\<rparr>)"

text \<open>The status of the first three writes is ignored.\<close>

definition writeInterfaceToken :: "env \<Rightarrow> bool \<Rightarrow> u16 list \<Rightarrow> parcel \<Rightarrow> ipc \<Rightarrow> status_t parcel_run" where
  "writeInterfaceToken E vndk interface p s =
     bind_run
       (if isForRpc p then Inr p
        else
          bind_run (writeInt32 E (getStrictModePolicy s OR STRICT_MODE_PENALTY_GATHER) p) (\<lambda>(_, p).
          bind_run (writeInt32 E (if shouldPropagateWorkSource s then getCallingWorkSourceUid s else kUnsetWorkSource)
              (updateWorkSourceRequestHeaderPosition p)) (\<lambda>(_, p).
          bind_run (writeInt32 E (kHeader vndk) p) (\<lambda>(_, p). Inr p))))
       (\<lambda>p. writeString16 E (Some interface) p)"

definition replaceCallingWorkSourceUid :: "env \<Rightarrow> u32 \<Rightarrow> parcel \<Rightarrow> bool parcel_run" where
  "replaceCallingWorkSourceUid E uid p =
     (if \<not> mRequestHeaderPresent p then Inr (False, p)
      else
        let initialPosition = dataPosition p in
        bind_run (setDataPosition (mWorkSourceRequestHeaderPosition p) p) (\<lambda>p.
        bind_run (writeInt32 E uid p) (\<lambda>(err, p).
        bind_run (setDataPosition initialPosition p) (\<lambda>p. Inr (err = NO_ERROR, p)))))"

definition readCallingWorkSourceUid :: "env \<Rightarrow> parcel \<Rightarrow> u32 parcel_run" where
  "readCallingWorkSourceUid E p =
     (if \<not> mRequestHeaderPresent p then Inr (kUnsetWorkSource, p)
      else
        let initialPosition = dataPosition p in
        bind_run (setDataPosition (mWorkSourceRequestHeaderPosition p) p) (\<lambda>p.
        bind_run (readInt32_value E p) (\<lambda>(uid, p).
        bind_run (setDataPosition initialPosition p) (\<lambda>p. Inr (uid, p)))))"

text \<open>The name is compared when the lengths agree and are not 0; a string that cannot be read has length 0.\<close>

definition same_interface :: "env \<Rightarrow> u16 list \<Rightarrow> parcel \<Rightarrow> bool parcel_run" where
  "same_interface E interface p =
     bind_run (readString16Inplace E p) (\<lambda>(r, p).
     case r of
       None \<Rightarrow> Inr (interface = [], p)
     | Some (d, n) \<Rightarrow>
         if length interface \<noteq> n then Inr (False, p)
         else if n = 0 then Inr (True, p)
         else bind_run (memcpy_out d (n * 2) p) (\<lambda>bs. Inr (bs = enc_chars interface, p)))"

definition enforceInterface :: "env \<Rightarrow> bool \<Rightarrow> u16 list \<Rightarrow> parcel \<Rightarrow> ipc \<Rightarrow> bool binder_run" where
  "enforceInterface E vndk interface p s =
     (if isForRpc p then bind_run (same_interface E interface p) (\<lambda>(ok, p). Inr (ok, p, s))
      else
        bind_run (readInt32_value E p) (\<lambda>(strictPolicy, p).
        let s = setStrictModePolicy (if getLastTransactionBinderFlags s AND FLAG_ONEWAY \<noteq> 0 then 0 else strictPolicy) s in
        bind_run (readInt32_value E (updateWorkSourceRequestHeaderPosition p)) (\<lambda>(workSource, p).
        let s = snd (setCallingWorkSourceUidWithoutPropagation workSource s) in
        bind_run (readInt32_value E p) (\<lambda>(header, p).
        if header \<noteq> kHeader vndk then Inr (False, p, s)
        else bind_run (same_interface E interface p) (\<lambda>(ok, p). Inr (ok, p, s))))))"

section \<open>Transactions on a local object\<close>

abbreviation PING_TRANSACTION :: u32 where "PING_TRANSACTION \<equiv> 0x5f504e47"
abbreviation DUMP_TRANSACTION :: u32 where "DUMP_TRANSACTION \<equiv> 0x5f444d50"
abbreviation SHELL_COMMAND_TRANSACTION :: u32 where "SHELL_COMMAND_TRANSACTION \<equiv> 0x5f434d44"
abbreviation INTERFACE_TRANSACTION :: u32 where "INTERFACE_TRANSACTION \<equiv> 0x5f4e5446"
abbreviation SYSPROPS_TRANSACTION :: u32 where "SYSPROPS_TRANSACTION \<equiv> 0x5f535052"
abbreviation EXTENSION_TRANSACTION :: u32 where "EXTENSION_TRANSACTION \<equiv> 0x5f455854"
abbreviation DEBUG_PID_TRANSACTION :: u32 where "DEBUG_PID_TRANSACTION \<equiv> 0x5f504944"
abbreviation SET_RPC_CLIENT_TRANSACTION :: u32 where "SET_RPC_CLIENT_TRANSACTION \<equiv> 0x5f525043"

text \<open>What a class derived from BBinder provides; the reply is null when there is none to give.\<close>

type_synonym on_transact =
  "u64 \<Rightarrow> u32 \<Rightarrow> parcel \<Rightarrow> parcel option \<Rightarrow> u32 \<Rightarrow> ipc \<Rightarrow> crash + (status_t \<times> parcel option) \<times> ipc"

text \<open>The codes BBinder::transact answers itself; CHECK(reply != nullptr) ends the process.\<close>

definition answer_builtin ::
  "env \<Rightarrow> ipc_env \<Rightarrow> bool \<Rightarrow> u64 \<Rightarrow> u32 \<Rightarrow> parcel option \<Rightarrow> ipc \<Rightarrow> crash + (status_t \<times> parcel option) \<times> ipc" where
  "answer_builtin E D vndk a code reply s =
     (if code = PING_TRANSACTION then Inr ((BBinder_pingBinder, reply), s)
      else if code = SET_RPC_CLIENT_TRANSACTION then Inr ((INVALID_OPERATION, reply), s)
      else case reply of
        None \<Rightarrow> Inl Abort
      | Some r \<Rightarrow>
          if code = EXTENSION_TRANSACTION
          then bind_run (writeStrongBinder E D vndk (BBinder_getExtension (locals s a)) r s) (\<lambda>(st, r, s). Inr ((st, Some r), s))
          else bind_run (writeInt32 E (my_pid D) r) (\<lambda>(st, r). Inr ((st, Some r), s)))"

definition BBinder_transact ::
  "env \<Rightarrow> ipc_env \<Rightarrow> bool \<Rightarrow> on_transact \<Rightarrow> u64 \<Rightarrow> u32 \<Rightarrow> parcel \<Rightarrow> parcel option \<Rightarrow> u32 \<Rightarrow> ipc \<Rightarrow>
   crash + (status_t \<times> parcel option) \<times> ipc" where
  "BBinder_transact E D vndk app a code dat reply flags s =
     bind_run (setDataPosition 0 dat) (\<lambda>dat.
     let reply = (if flags AND FLAG_CLEAR_BUF \<noteq> 0 then map_option markSensitive reply else reply) in
     bind_run
       (if code = PING_TRANSACTION \<or> code = EXTENSION_TRANSACTION \<or> code = DEBUG_PID_TRANSACTION \<or> code = SET_RPC_CLIENT_TRANSACTION
        then answer_builtin E D vndk a code reply s else app a code dat reply flags s) (\<lambda>((err, reply), s).
     case reply of
       None \<Rightarrow> Inr ((err, None), s)
     | Some r \<Rightarrow> bind_run (setDataPosition 0 r) (\<lambda>r. Inr ((err, Some r), s))))"

text \<open>As the code behind a transaction of the driver.\<close>

definition as_local_code :: "env \<Rightarrow> ipc_env \<Rightarrow> bool \<Rightarrow> on_transact \<Rightarrow> local_code" where
  "as_local_code E D vndk app a code dat flags s =
     bind_run (BBinder_transact E D vndk app a code dat (Some Parcel) flags s) (\<lambda>((err, reply), s).
     Inr ((err, case reply of None \<Rightarrow> Parcel | Some r \<Rightarrow> r), s))"

text \<open>The arguments of dump and of a shell command: at most as many as announced, while data is left.\<close>

fun read_args :: "env \<Rightarrow> nat \<Rightarrow> parcel \<Rightarrow> (u16 list list) parcel_run" where
  "read_args E 0 p = Inr ([], p)"
| "read_args E (Suc n) p =
     bind_run (dataAvail p) (\<lambda>avail.
     if avail = 0 then Inr ([], p)
     else bind_run (readString16 E p) (\<lambda>(r, p).
       bind_run (read_args E n p) (\<lambda>(rest, p). Inr ((case r of Inl _ \<Rightarrow> [] | Inr x \<Rightarrow> x) # rest, p))))"

definition shell_command ::
  "env \<Rightarrow> ipc_env \<Rightarrow> local_code \<Rightarrow> (ibinder \<Rightarrow> ipc \<Rightarrow> crash + ipc) \<Rightarrow> parcel \<Rightarrow> ipc \<Rightarrow> crash + ipc" where
  "shell_command E D A refuse dat s =
     bind_run (readFileDescriptor E dat) (\<lambda>(_, dat).
     bind_run (readFileDescriptor E dat) (\<lambda>(_, dat).
     bind_run (readFileDescriptor E dat) (\<lambda>(_, dat).
     bind_run (readInt32_value E dat) (\<lambda>(argc, dat).
     bind_run (read_args E (nat (sint argc)) dat) (\<lambda>(_, dat).
     bind_run (readStrongBinder_value E D A dat s) (\<lambda>(_, dat, s).
     bind_run (readStrongBinder_value E D A dat s) (\<lambda>(receiver, dat, s).
     case receiver of None \<Rightarrow> Inr s | Some r \<Rightarrow> refuse r s)))))))"

text \<open>BBinder::onTransact: what an object without code of its own answers. \<open>descriptor\<close> is getInterfaceDescriptor() and
  \<open>dump_with\<close> is dump() of the object, \<open>refuse\<close> tells the result receiver of a shell command INVALID_OPERATION.\<close>

definition BBinder_onTransact ::
  "env \<Rightarrow> ipc_env \<Rightarrow> local_code \<Rightarrow> (u64 \<Rightarrow> u16 list) \<Rightarrow> (int \<Rightarrow> u16 list list \<Rightarrow> status_t) \<Rightarrow> (ibinder \<Rightarrow> ipc \<Rightarrow> crash + ipc) \<Rightarrow> on_transact" where
  "BBinder_onTransact E D A descriptor dump_with refuse a code dat reply flags s =
     (if code = INTERFACE_TRANSACTION
      then (case reply of
          None \<Rightarrow> Inl Abort
        | Some r \<Rightarrow> bind_run (writeString16 E (Some (descriptor a)) r) (\<lambda>(_, r). Inr ((NO_ERROR, Some r), s)))
      else if code = DUMP_TRANSACTION
      then
        bind_run (readFileDescriptor E dat) (\<lambda>(fd, dat).
        bind_run (readInt32_value E dat) (\<lambda>(argc, dat).
        bind_run (read_args E (nat (sint argc)) dat) (\<lambda>(args, dat).
        Inr ((dump_with fd args, reply), s))))
      else if code = SHELL_COMMAND_TRANSACTION
      then bind_run (shell_command E D A refuse dat s) (\<lambda>s. Inr ((NO_ERROR, reply), s))
      else if code = SYSPROPS_TRANSACTION then Inr ((NO_ERROR, reply), s)
      else Inr ((UNKNOWN_TRANSACTION, reply), s))"

section \<open>Questions to any binder\<close>

text \<open>\<open>remote\<close> is BpBinder::transact; the reply parcel is there when it returns.\<close>

type_synonym remote_call = "proxy \<Rightarrow> u32 \<Rightarrow> parcel \<Rightarrow> ipc \<Rightarrow> (status_t \<times> parcel) ipc_run"

definition ibinder_getExtension ::
  "env \<Rightarrow> ipc_env \<Rightarrow> local_code \<Rightarrow> remote_call \<Rightarrow> ibinder \<Rightarrow> ipc \<Rightarrow> (status_t + ibinder option) ipc_run" where
  "ibinder_getExtension E D A remote b s =
     (case b of
        LocalB a \<Rightarrow> Inr (Inr (BBinder_getExtension (locals s a)), s)
      | RemoteB x \<Rightarrow>
          bind_run (remote x EXTENSION_TRANSACTION Parcel s) (\<lambda>((st, reply), s).
          if st \<noteq> OK then Inr (Inl st, s)
          else bind_run (readNullableStrongBinder E D A reply s) (\<lambda>(r, _, s). Inr (r, s))))"

definition ibinder_getDebugPid :: "env \<Rightarrow> ipc_env \<Rightarrow> remote_call \<Rightarrow> ibinder \<Rightarrow> ipc \<Rightarrow> (status_t + u32) ipc_run" where
  "ibinder_getDebugPid E D remote b s =
     (case b of
        LocalB a \<Rightarrow> Inr (Inr (my_pid D), s)
      | RemoteB x \<Rightarrow>
          bind_run (remote x DEBUG_PID_TRANSACTION Parcel s) (\<lambda>((st, reply), s).
          if st \<noteq> OK then Inr (Inl st, s)
          else bind_run (readInt32 E reply) (\<lambda>(r, _).
            Inr (case r of Inl st \<Rightarrow> Inl st | Inr pid \<Rightarrow> if sint pid < 0 then Inl BAD_VALUE else Inr pid, s))))"

end
