(* ===== verification/Binder_Theorems.thy ===== *)
theory Binder_Theorems
  imports Binder_Parcels Proxy_Theorems
begin

text \<open>
  What the theory Binder_Parcels is for: a binder that was written to a parcel is read from it as the same
  binder with the same stability, and a request is accepted exactly by the interface it was made for, which
  then knows the policy and the work source of the caller.
\<close>

section \<open>An object and a number\<close>

text \<open>An object that was written behind all others, followed by a number, is found again, with the number behind it.\<close>

definition behind :: "env \<Rightarrow> parcel \<Rightarrow> bool" where
  "behind E p \<longleftrightarrow> sorted (mObjects p) \<and> objects_within E (mDataPos p) (mObjects p)"

definition after_object :: "env \<Rightarrow> parcel \<Rightarrow> nat \<Rightarrow> parcel" where
  "after_object E p i = p\<lparr>mDataPos := mDataPos p + obj_size E, mNextObjectHint := i\<rparr>"

lemma after_object_simps:
  "contents (after_object E p i) = contents p" "parcel_inv E (after_object E p i) = parcel_inv E p"
  "mDataSize (after_object E p i) = mDataSize p" "mObjects (after_object E p i) = mObjects p"
  "mDataPos (after_object E p i) = mDataPos p + obj_size E" "mObjectsSorted (after_object E p i) = mObjectsSorted p"
  by (simp_all add: after_object_def contents_def parcel_inv_def buf_ok_def cong: option.case_cong)

lemma readObject_found:
  assumes inv: "parcel_inv E p" "read_inv E p" and ok: "env_ok E" and srt: "sorted (mObjects p)"
    and room: "mDataPos p + obj_size E \<le> mDataSize p" and bytes: "peek (mDataPos p) (obj_size E) (contents p) = obj_enc E val"
    and mem: "mDataPos p \<in> set (mObjects p) \<or> obj_binder val = 0 \<and> obj_cookie val = 0"
  shows "\<exists>i. readObject E False p = Inr (Some val, after_object E p i)"
proof (cases "obj_binder val = 0 \<and> obj_cookie val = 0")
  case True
  have "readObject E False p = Inr (Some val, p\<lparr>mDataPos := mDataPos p + obj_size E\<rparr>)"
    using True room bytes ok by (simp add: readObject_cases [OF inv ok] Let_def env_ok_def)
  then show ?thesis by (intro exI [of _ "mNextObjectHint p"]) (simp add: after_object_def)
next
  case False
  then obtain i where i: "find_object (mObjects p) (mNextObjectHint p) (mDataPos p) = Some i"
    using find_object_complete [OF srt] mem by blast
  have "obj_dec E (peek (mDataPos p) (obj_size E) (contents p)) = val" using bytes ok by (simp add: env_ok_def)
  then have "readObject E False p = Inr (Some val, p\<lparr>mDataPos := mDataPos p + obj_size E, mNextObjectHint := i + 1\<rparr>)"
    using False room mem i by (auto simp: readObject_cases [OF inv ok] Let_def)
  then show ?thesis by (auto simp: after_object_def)
qed

lemma parcel_size_le: "parcel_inv E p \<Longrightarrow> mDataSize p \<le> INT32_MAX"
  by (simp add: parcel_inv_def)

lemma after_object_readable:
  assumes inv: "parcel_inv E p" and ok: "env_ok E" and within: "objects_within E (mDataPos p + obj_size E) (mObjects p)"
    and room: "mDataPos p + obj_size E + length bs \<le> mDataSize p" and uns: "\<not> mObjectsSorted p"
    and bytes: "peek (mDataPos p + obj_size E) (length bs) (contents p) = bs"
  shows "readable E bs (after_object E p i)"
proof -
  have "\<forall>off\<in>set (mObjects p). off + obj_size E \<le> mDataPos p + obj_size E" using within by (simp add: objects_within_def list_all_iff)
  then show ?thesis
    using assms parcel_size_le [OF inv]
    by (auto simp: readable_def after_object_simps read_inv_def clear_of_objects_def list_all_iff dest!: in_set_takeD)
qed

lemma object_written_index:
  "object_written E val f p q \<Longrightarrow> mObjects q = (if f \<or> obj_binder val \<noteq> 0 then mObjects p @ [mDataPos p] else mObjects p)"
  unfolding object_written_def by (cases "f \<or> obj_binder val \<noteq> 0") (elim conjE exE; simp)+

lemma object_readable:
  assumes w: "writable E (obj_size E + 4) p" and ok: "env_ok E" and own: "\<not> mOwner p"
    and n: "length (mObjects p) \<le> INT32_MAX" and bhd: "behind E p"
    and fd: "obj_type val \<noteq> T_FD E" and null: "obj_binder val = 0 \<longrightarrow> obj_cookie val = 0"
  shows "\<exists>q1 q r1 r. writeObject E val False p = Inr (NO_ERROR, q1) \<and> writeInt32 E v q1 = Inr (OK, q) \<and>
    readObject E False (rewound (mDataPos p) q) = Inr (Some val, r1) \<and> readInt32 E r1 = Inr (Inr v, r) \<and> mDataPos r = mDataPos q"
proof -
  have sz: "0 < obj_size E" "obj_size E \<le> 64" "length (obj_enc E val) = obj_size E" using ok by (auto simp: env_ok_def)
  obtain q1 where q1: "writeObject E val False p = Inr (NO_ERROR, q1)" "object_written E val False p q1"
    using writeObject_ok [OF writable_mono [OF w le_add1] ok own n, of val False] fd by auto
  have "parcel_inv E p" using w by (simp add: writable_def)
  then have p: "mDataPos p \<le> mDataSize p" "mDataSize p \<le> INT32_MAX" "length (contents p) = mDataSize p"
    using w length_contents parcel_size_le by (simp_all add: writable_def)
  have "mDataSize q1 + 4 \<le> mDataSize p + (obj_size E + 4)" using q1(2) p(1) by (simp add: object_written_def)
  then have "((mDataSize q1 + 4) * 3) div 2 \<le> ((mDataSize p + (obj_size E + 4)) * 3) div 2" by (intro div_le_mono mult_le_mono1)
  then have w1: "writable E 4 q1" using q1(2) w unfolding object_written_def writable_def by (auto elim: order_trans)
  obtain q where q: "writeInt32 E v q1 = Inr (OK, q)" "wrote E q1 (enc32 v) q" using writeInt32_ok [of E q1 v] w1 by auto
  let ?pos = "mDataPos p" and ?q = "rewound (mDataPos p) q"
  have len: "length (contents q1) = mDataSize q1" "?pos + obj_size E \<le> mDataSize q1" "mDataPos q1 = ?pos + obj_size E"
    using q1(2) length_contents [of E q1] by (simp_all add: object_written_def)
  have at_obj: "peek ?pos (obj_size E) (contents q) = obj_enc E val"
  proof -
    have "peek ?pos (obj_size E) (contents q) = peek ?pos (obj_size E) (contents q1)"
      using q(2) len by (simp add: wrote_def peek_poke_disjoint)
    then show ?thesis using q1(2) p sz peek_poke_same [of ?pos "contents p" "obj_enc E val"] by (simp add: object_written_def)
  qed
  have at_num: "peek (?pos + obj_size E) 4 (contents q) = enc32 v"
    using q(2) len peek_poke_same [of "?pos + obj_size E" "contents q1" "enc32 v"] by (simp add: wrote_def)
  have before: "\<forall>off\<in>set (mObjects p). off \<le> ?pos" using bhd by (auto simp: behind_def objects_within_def list_all_iff)
  have "mObjects q = (if obj_binder val \<noteq> 0 then mObjects p @ [?pos] else mObjects p)"
    using object_written_index [OF q1(2)] q(2) by (simp add: wrote_def same_flags_def)
  then have objs: "sorted (mObjects q)" "objects_within E (?pos + obj_size E) (mObjects q)"
    "?pos \<in> set (mObjects q) \<or> obj_binder val = 0 \<and> obj_cookie val = 0"
    using bhd null before by (simp_all add: behind_def objects_within_def list_all_iff sorted_append)
  have inv: "parcel_inv E ?q" "mDataPos q = ?pos + obj_size E + 4" "?pos + obj_size E + 4 \<le> mDataSize q"
    using q(2) len by (simp_all add: wrote_def)
  have rinv: "read_inv E ?q" "\<not> mObjectsSorted ?q" using p by (simp_all add: read_inv_def rewound_def)
  obtain i where i: "readObject E False ?q = Inr (Some val, after_object E ?q i)"
    using readObject_found [OF inv(1) rinv(1) ok, of val] objs at_obj inv(3) by auto
  have "readable E (enc32 v) (after_object E ?q i)"
    using after_object_readable [OF inv(1) ok, of "enc32 v" i] objs at_num inv(3) rinv(2) by simp
  then obtain r where "readInt32 E (after_object E ?q i) = Inr (Inr v, r)" "mDataPos r = mDataPos q"
    using readInt32_ok [of E v "after_object E ?q i"] inv(2) by (auto simp: advanced_def after_object_simps)
  then show ?thesis using q1(1) q(1) i by blast
qed

section \<open>Binders\<close>

text \<open>The mark a binder gets when it is sent is the one it has when it is received.\<close>

definition marked :: "bool \<Rightarrow> ibinder option \<Rightarrow> ipc \<Rightarrow> ipc" where
  "marked vndk b s = store_stable b (tryMarkCompilationUnit vndk (stable_of s b)) s"

lemma stable_of_marked: "stable_of (marked vndk b s) b = tryMarkCompilationUnit vndk (stable_of s b)"
  by (auto simp: marked_def store_stable_def stable_of_def tryMark_Some upd_local_def upd_proxy_def split: option.splits ibinder.splits)

lemma store_stable_same: "store_stable b (stable_of s b) s = s"
  by (auto simp: store_stable_def stable_of_def upd_local_def upd_proxy_def split: option.splits ibinder.splits)

lemma mark_survives:
  assumes "binder_known x" and "y = tryMarkCompilationUnit vndk x"
  shows "setRepr y (sint (ucast (of_int (getRepr y) :: u32) :: u16)) REPR_LOG = (OK, y)"
proof (cases x)
  case None
  with assms show ?thesis by (simp add: setRepr_def getRepr_def)
next
  case (Some z)
  with assms have "mStability (the y) \<in> {VENDOR, SYSTEM, VINTF}"
    by (auto simp: tryMark_Some binder_known_def known_level_def isDeclaredLevel_def getRepr_def getLocalLevel_def)
  moreover from Some assms have "y = Some (the y)" by (simp add: tryMark_Some)
  ultimately show ?thesis by (cases y) (auto simp: setRepr_def getRepr_def isDeclaredLevel_def Let_def check_def)
qed

lemma put_get:
  assumes "writable E (obj_size E + 4) p" "env_ok E" "\<not> mOwner p" "length (mObjects p) \<le> INT32_MAX" "behind E p"
    and "obj_type val \<noteq> T_FD E" "obj_binder val = 0 \<longrightarrow> obj_cookie val = 0" and known: "binder_known (stable_of s b)"
  shows "\<exists>q r1 r. bind_run (writeObject E val False p) (\<lambda>(st, p).
      if st \<noteq> OK then Inr (st, p, s) else ipc_finishFlattenBinder E vndk b p s) = Inr (OK, q, marked vndk b s) \<and>
    readObject E False (rewound (mDataPos p) q) = Inr (Some val, r1) \<and> mDataPos r = mDataPos q \<and>
    (\<forall>t. stable_of t b = stable_of (marked vndk b s) b \<longrightarrow> ipc_finishUnflattenBinder E b r1 t = Inr (Inr b, r, t))"
proof -
  let ?y = "tryMarkCompilationUnit vndk (stable_of s b)"
  obtain q1 q r1 r where run: "writeObject E val False p = Inr (NO_ERROR, q1)" "writeInt32 E (of_int (getRepr ?y)) q1 = Inr (OK, q)"
    "readObject E False (rewound (mDataPos p) q) = Inr (Some val, r1)" "readInt32 E r1 = Inr (Inr (of_int (getRepr ?y)), r)"
    "mDataPos r = mDataPos q"
    using object_readable [OF assms(1-7), of "of_int (getRepr ?y)"] by blast
  have w: "ipc_finishFlattenBinder E vndk b q1 s = Inr (OK, q, marked vndk b s)"
    using run(2) stable_of_marked [of vndk b s] by (simp add: ipc_finishFlattenBinder_def marked_def Let_def)
  have "ipc_finishUnflattenBinder E b r1 t = Inr (Inr b, r, t)" if "stable_of t b = stable_of (marked vndk b s) b" for t
    using run(4) that mark_survives [OF known refl, of vndk] store_stable_same [of b t]
    by (simp add: ipc_finishUnflattenBinder_def stable_of_marked)
  with run w show ?thesis by auto
qed

text \<open>The binders that can be sent: a null pointer, an object of the process, a proxy of the driver with strong references.\<close>

definition sendable :: "ipc_env \<Rightarrow> ipc \<Rightarrow> ibinder option \<Rightarrow> bool" where
  "sendable D s b \<longleftrightarrow> binder_known (stable_of s b) \<and>
     (case b of
        None \<Rightarrow> True
      | Some (LocalB a) \<Rightarrow> a \<noteq> 0 \<and> weak_refs D a \<noteq> 0
      | Some (RemoteB x) \<Rightarrow> (\<exists>h. proxy_of s h x) \<and> bp_stage (proxies s x) = Strong)"

lemma local_object_fields [simp]:
  "obj_type (local_object E D a bits s) = T_BINDER E" "obj_binder (local_object E D a bits s) = weak_refs D a"
  "obj_cookie (local_object E D a bits s) = a"
  by (simp_all add: local_object_def Let_def)

lemma parceled_stable: "stable_of (insertBBinder a (upd_local a setParceled s)) (Some (LocalB a)) = stable_of s (Some (LocalB a))"
  by (simp add: stable_of_def insertBBinder_def upd_local_def setParceled_def)

lemma marked_proxy:
  assumes "table_inv (view_of s)" and "proxy_of s h x" and "bp_stage (proxies s x) = Strong"
  shows "\<exists>t. strong_proxy E D A h (marked vndk (Some (RemoteB x)) s) = Inr (Some x, t) \<and>
    stable_of t (Some (RemoteB x)) = stable_of (marked vndk (Some (RemoteB x)) s) (Some (RemoteB x))"
proof -
  let ?s = "marked vndk (Some (RemoteB x)) s"
  have same: "mHandleToObject ?s = mHandleToObject s" "bp_stage (proxies ?s x) = bp_stage (proxies s x)"
    by (simp_all add: marked_def store_stable_def stable_of_def tryMark_Some upd_proxy_def)
  have "strong_proxy E D A h ?s = Inr (Some x, ?s\<lparr>ref_log := ref_log ?s @ [IncWeakP x, DecWeakP x]\<rparr>)"
    unfolding strong_proxy_def using usable_entry [OF assms(1,2)] assms(3) by (intro strong_lookup) (simp_all add: same usable_def)
  then show ?thesis by (simp add: stable_of_def)
qed

text \<open>Enough for a round trip: which object stands for the binder, and that this object stands for it when it is read.\<close>

lemma sent_and_received:
  assumes ready: "writable E (obj_size E + 4) p" "env_ok E" "\<not> mOwner p" "length (mObjects p) \<le> INT32_MAX" "behind E p"
    and val: "obj_type val \<noteq> T_FD E" "obj_binder val = 0 \<longrightarrow> obj_cookie val = 0" "binder_known (stable_of s1 b)"
    and wr: "writeStrongBinder E D vndk b p s = bind_run (writeObject E val False p) (\<lambda>(st, p).
      if st \<noteq> OK then Inr (st, p, s1) else ipc_finishFlattenBinder E vndk b p s1)"
    and rd: "\<And>r0 r1. readObject E False r0 = Inr (Some val, r1) \<Longrightarrow>
      readNullableStrongBinder E D A r0 (marked vndk b s1) = ipc_finishUnflattenBinder E b r1 t"
    and stable: "stable_of t b = stable_of (marked vndk b s1) b"
  shows "\<exists>q r. writeStrongBinder E D vndk b p s = Inr (OK, q, marked vndk b s1) \<and>
    readNullableStrongBinder E D A (rewound (mDataPos p) q) (marked vndk b s1) = Inr (Inr b, r, t) \<and> mDataPos r = mDataPos q \<and>
    stable_of t b = tryMarkCompilationUnit vndk (stable_of s1 b)"
proof -
  obtain q r1 r where "writeStrongBinder E D vndk b p s = Inr (OK, q, marked vndk b s1)"
    "readObject E False (rewound (mDataPos p) q) = Inr (Some val, r1)" "mDataPos r = mDataPos q"
    "ipc_finishUnflattenBinder E b r1 t = Inr (Inr b, r, t)"
    unfolding wr using put_get [OF ready val, of vndk] stable by blast
  then show ?thesis using rd stable by (auto simp: stable_of_marked)
qed

lemmas send_defs = writeStrongBinder_def ipc_flattenBinder_def Let_def
lemmas receive_defs = readNullableStrongBinder_def ipc_unflattenBinder_def

text \<open>C9: A binder that is written to a parcel is what is read from it: a null pointer, an object of the process, or a proxy of the
  driver that has strong references comes out as the same binder, whatever else the parcel holds, with the stability it had, or that
  of the sending library when it had none. A local object is marked as parceled and remembered.\<close>
theorem binder_roundtrip:
  assumes "writable E (obj_size E + 4) p" and "env_ok E" and "\<not> mOwner p" and "length (mObjects p) \<le> INT32_MAX" and "behind E p"
    and "px.reach D ping s" and "driver_ok D" and "ping_ok ping" and "sendable D s b"
  shows "\<exists>q r s' s''. writeStrongBinder E D vndk b p s = Inr (OK, q, s') \<and>
    readNullableStrongBinder E D A (rewound (mDataPos p) q) s' = Inr (Inr b, r, s'') \<and> mDataPos r = mDataPos q \<and>
    stable_of s'' b = tryMarkCompilationUnit vndk (stable_of s b) \<and>
    (\<forall>a. b = Some (LocalB a) \<longrightarrow> wasParceled (locals s' a) \<and> a \<in> set (mIBinderSet s'))"
proof -
  have types: "T_BINDER E \<noteq> T_FD E" "T_HANDLE E \<noteq> T_FD E" "T_BINDER E \<noteq> T_HANDLE E" using assms(2) by (auto simp: env_ok_def)
  have inv: "table_inv (view_of s)" using reach_inv [OF assms(6-8)] by (simp add: view_inv_def)
  have known: "binder_known (stable_of s b)" using assms(9) by (simp add: sendable_def)
  define bits where "bits = (if backgroundSchedulingDisabled s then 0 else schedPolicyMask E SCHED_NORMAL 19)"
  note trip = sent_and_received [OF assms(1-5), where vndk = vndk and s = s and D = D and A = A]
  consider (null) "b = None" | (local) a where "b = Some (LocalB a)" | (remote) x where "b = Some (RemoteB x)"
    by (metis ibinder.exhaust option.exhaust)
  then show ?thesis
  proof cases
    case null
    let ?v = "\<lparr>obj_type = T_BINDER E, obj_flags = bits, obj_binder = 0, obj_cookie = 0\<rparr>"
    have "\<exists>q r. writeStrongBinder E D vndk None p s = Inr (OK, q, marked vndk None s) \<and>
        readNullableStrongBinder E D A (rewound (mDataPos p) q) (marked vndk None s) = Inr (Inr None, r, marked vndk None s) \<and>
        mDataPos r = mDataPos q \<and> stable_of (marked vndk None s) None = tryMarkCompilationUnit vndk (stable_of s None)"
      by (rule trip [of ?v]) (use types known null in \<open>simp_all add: send_defs receive_defs flip: bits_def\<close>)
    then show ?thesis using null by auto
  next
    case (local a)
    let ?b = "Some (LocalB a)"
    let ?s = "insertBBinder a (upd_local a setParceled s)"
    have mem: "wasParceled (locals (marked vndk ?b ?s) a) \<and> a \<in> set (mIBinderSet (marked vndk ?b ?s))"
      by (simp add: marked_def store_stable_def stable_of_def tryMark_Some upd_local_def insertBBinder_def
        setParceled_def wasParceled_def)
    have same: "stable_of ?s ?b = stable_of s ?b" by (rule parceled_stable)
    have "\<exists>q r. writeStrongBinder E D vndk ?b p s = Inr (OK, q, marked vndk ?b ?s) \<and>
        readNullableStrongBinder E D A (rewound (mDataPos p) q) (marked vndk ?b ?s) = Inr (Inr ?b, r, marked vndk ?b ?s) \<and>
        mDataPos r = mDataPos q \<and> stable_of (marked vndk ?b ?s) ?b = tryMarkCompilationUnit vndk (stable_of ?s ?b)"
      by (rule trip [of "local_object E D a bits ?s"])
         (use types known same assms(9) local in \<open>simp_all add: sendable_def send_defs receive_defs flip: bits_def\<close>)
    then show ?thesis using local mem same by auto
  next
    case (remote x)
    with assms(9) obtain h where h: "proxy_of s h x" "bp_stage (proxies s x) = Strong" by (auto simp: sendable_def)
    let ?b = "Some (RemoteB x)"
    let ?v = "\<lparr>obj_type = T_HANDLE E, obj_flags = bits, obj_binder = ucast h, obj_cookie = 0\<rparr>"
    have hd: "mHandle (proxies s x) = BinderHandle h" "obj_handle ?v = h"
      using h(1) by (simp_all add: proxy_of_def obj_handle_def ucast_up_ucast_id is_up)
    obtain t where t: "strong_proxy E D A h (marked vndk ?b s) = Inr (Some x, t)" "stable_of t ?b = stable_of (marked vndk ?b s) ?b"
      using marked_proxy [OF inv h] by blast
    have "\<exists>q r. writeStrongBinder E D vndk ?b p s = Inr (OK, q, marked vndk ?b s) \<and>
        readNullableStrongBinder E D A (rewound (mDataPos p) q) (marked vndk ?b s) = Inr (Inr ?b, r, t) \<and>
        mDataPos r = mDataPos q \<and> stable_of t ?b = tryMarkCompilationUnit vndk (stable_of s ?b)"
      by (rule trip [of ?v])
         (use types known remote hd t in \<open>simp_all add: send_defs receive_defs isRpcBinder_def binderHandle_def flip: bits_def\<close>)
    then show ?thesis using remote by auto
  qed
qed

text \<open>A witness: the proxy for handle 5 and an object of the process, each sent and received.\<close>
theorem binder_roundtrip_witness:
  "\<exists>q r s' s''. writeStrongBinder linux_env (script (\<lambda>_. [])) False (Some (RemoteB 0)) Parcel linked_proxy = Inr (OK, q, s') \<and>
    readNullableStrongBinder linux_env (script (\<lambda>_. [])) (\<lambda>_ _ _ _ s. Inr ((OK, Parcel), s)) (rewound 0 q) s' = Inr (Inr (Some (RemoteB 0)), r, s'') \<and>
    getRepr (stable_of s'' (Some (RemoteB 0))) = SYSTEM"
proof -
  have "stable_of linked_proxy (Some (RemoteB 0)) = Some \<lparr>is_local = False, mStability = UNDECLARED\<rparr>"
    by (simp add: stable_of_def linked_proxy_def one_proxy_def upd_proxy_def new_proxy_def)
  moreover from this have "sendable (script (\<lambda>_. [])) linked_proxy (Some (RemoteB 0))"
    using linked_proxy_facts(1,2) by (auto simp: sendable_def binder_known_def known_level_def getRepr_def)
  moreover have "writable linux_env (obj_size linux_env + 4) Parcel" by (rule writable_fresh) (simp add: linux_env_def)
  ultimately show ?thesis
    using binder_roundtrip [OF _ env_ok_linux _ _ _ linked_proxy_reached sample_driver, of Parcel "Some (RemoteB 0)" False "\<lambda>_ _ _ _ s. Inr ((OK, Parcel), s)"]
    by (auto simp: Parcel_def behind_def objects_within_def tryMark_Some getRepr_def getLocalLevel_def)
qed

section \<open>Requests\<close>

text \<open>The bytes in front of the arguments of a request.\<close>

definition token_bytes :: "bool \<Rightarrow> u16 list \<Rightarrow> ipc \<Rightarrow> byte list" where
  "token_bytes vndk name s = enc32 (getStrictModePolicy s OR STRICT_MODE_PENALTY_GATHER) @
     enc32 (if shouldPropagateWorkSource s then getCallingWorkSourceUid s else kUnsetWorkSource) @
     enc32 (kHeader vndk) @ enc_string16 (Some name)"

lemma updateWorkSource_fields:
  "parcel_inv E (updateWorkSourceRequestHeaderPosition p) = parcel_inv E p"
  "contents (updateWorkSourceRequestHeaderPosition p) = contents p"
  "mDataPos (updateWorkSourceRequestHeaderPosition p) = mDataPos p"
  "mDataSize (updateWorkSourceRequestHeaderPosition p) = mDataSize p"
  "mError (updateWorkSourceRequestHeaderPosition p) = mError p"
  "mSession (updateWorkSourceRequestHeaderPosition p) = mSession p"
  "mObjects (updateWorkSourceRequestHeaderPosition p) = mObjects p"
  "mNextObjectHint (updateWorkSourceRequestHeaderPosition p) = mNextObjectHint p"
  "mObjectsSorted (updateWorkSourceRequestHeaderPosition p) = mObjectsSorted p"
  by (simp_all add: updateWorkSourceRequestHeaderPosition_def parcel_inv_def buf_ok_def contents_def cong: option.case_cong)

lemma token_written:
  assumes w: "writable E (length (token_bytes vndk name s)) p" and local: "mSession p = None"
  shows "\<exists>q. writeInterfaceToken E vndk name p s = Inr (OK, q) \<and> mDataPos q = mDataPos p + length (token_bytes vndk name s) \<and>
    contents q = poke (mDataPos p) (token_bytes vndk name s) (contents p) \<and> mDataPos q \<le> mDataSize q \<and>
    parcel_inv E q \<and> mSession q = None \<and> mObjects q = mObjects p"
proof -
  let ?a = "enc32 (getStrictModePolicy s OR STRICT_MODE_PENALTY_GATHER)"
  let ?b = "enc32 (if shouldPropagateWorkSource s then getCallingWorkSourceUid s else kUnsetWorkSource)"
  let ?c = "enc32 (kHeader vndk)" and ?d = "enc_string16 (Some name)"
  have p: "mDataPos p \<le> mDataSize p" "parcel_inv E p" using w by (simp_all add: writable_def)
  obtain q1 where q1: "writeInt32 E (getStrictModePolicy s OR STRICT_MODE_PENALTY_GATHER) p = Inr (NO_ERROR, q1)" "wrote E p ?a q1"
    using writeInt32_ok [OF writable_mono [OF w]] by (auto simp: token_bytes_def)
  let ?p1 = "updateWorkSourceRequestHeaderPosition q1"
  have "writable E (4 + (4 + length ?d)) q1" using wrote_writable [OF q1(2)] w by (simp add: token_bytes_def add.assoc)
  then have w1: "writable E (4 + (4 + length ?d)) ?p1" by (simp add: writable_def updateWorkSource_fields)
  obtain q2 where q2: "writeInt32 E (if shouldPropagateWorkSource s then getCallingWorkSourceUid s else kUnsetWorkSource) ?p1 =
      Inr (NO_ERROR, q2)" "wrote E ?p1 ?b q2"
    using writeInt32_ok [OF writable_mono [OF w1]] by auto
  have w2: "writable E (4 + length ?d) q2" using wrote_writable [OF q2(2)] w1 by simp
  obtain q3 where q3: "writeInt32 E (kHeader vndk) q2 = Inr (NO_ERROR, q3)" "wrote E q2 ?c q3"
    using writeInt32_ok [OF writable_mono [OF w2]] by auto
  have "writable E (length ?d) q3" using wrote_writable [OF q3(2)] w2 by simp
  then obtain q where q: "writeString16 E (Some name) q3 = Inr (NO_ERROR, q)" "wrote E q3 ?d q" using writeString16_ok by blast
  have "wrote E q2 (?c @ ?d) q" using wrote_trans [OF q3(2) q(2)] w2 by (simp add: writable_def)
  then have all: "wrote E ?p1 (?b @ ?c @ ?d) q" using wrote_trans [OF q2(2)] w1 by (simp add: writable_def)
  have "contents q = poke (mDataPos p + length ?a) (?b @ ?c @ ?d) (poke (mDataPos p) ?a (contents p))"
    using all q1(2) by (simp add: wrote_def updateWorkSource_fields)
  then have "contents q = poke (mDataPos p) (token_bytes vndk name s) (contents p)"
    using p length_contents [OF p(2)] poke_poke_adjacent [of "mDataPos p" "contents p" ?a "?b @ ?c @ ?d"] by (simp only: token_bytes_def)
  moreover have "mDataPos q = mDataPos p + length (token_bytes vndk name s)"
    using all q1(2) by (simp add: wrote_def updateWorkSource_fields token_bytes_def)
  moreover have "mDataPos q \<le> mDataSize q" "parcel_inv E q" "mSession q = None" "mObjects q = mObjects p"
    using all q1(2) local by (simp_all add: wrote_def same_flags_def updateWorkSource_fields)
  ultimately show ?thesis using q1(1) q2(1) q3(1) q(1) local by (simp add: writeInterfaceToken_def isForRpc_def)
qed

lemma same_interface_ok:
  assumes "readable E (enc_string16 (Some name)) p"
  shows "\<exists>q. same_interface E other p = Inr (other = name, q) \<and> advanced E p (length (enc_string16 (Some name))) q"
proof -
  have r: "readable E (enc32 (of_nat (length name)) @ pad_bytes (enc_chars name @ [0, 0])) p"
    using assms by (simp add: enc_string16_def)
  have "enc_chars name = enc_chars other \<longleftrightarrow> other = name" by (metis dec_enc_chars)
  then show ?thesis using read_counted [OF r]
    by (auto simp: same_interface_def readString16Inplace_def enc_string16_def mult.commute numeral_2_eq_2)
qed

lemma updated_readable: "readable E bs (updateWorkSourceRequestHeaderPosition p) = readable E bs p"
  by (simp add: readable_def read_inv_def clear_of_objects_def updateWorkSource_fields)

lemma token_accepted:
  assumes r: "readable E (token_bytes vndk name c) r" and local: "mSession r = None"
  shows "\<exists>q t. enforceInterface E vndk' other r s = Inr (vndk' = vndk \<and> other = name, q, t) \<and>
    getStrictModePolicy t =
      (if getLastTransactionBinderFlags s AND FLAG_ONEWAY \<noteq> 0 then 0 else getStrictModePolicy c OR STRICT_MODE_PENALTY_GATHER) \<and>
    getCallingWorkSourceUid t = (if shouldPropagateWorkSource c then getCallingWorkSourceUid c else kUnsetWorkSource) \<and>
    shouldPropagateWorkSource t = shouldPropagateWorkSource s"
proof -
  let ?a = "getStrictModePolicy c OR STRICT_MODE_PENALTY_GATHER"
  let ?b = "if shouldPropagateWorkSource c then getCallingWorkSourceUid c else kUnsetWorkSource"
  let ?cd = "enc32 (kHeader vndk) @ enc_string16 (Some name)"
  have "readable E (enc32 ?a @ enc32 ?b @ ?cd) r" using r by (simp only: token_bytes_def)
  note r1 = readable_append [OF this]
  obtain q1 where q1: "readInt32_value E r = Inr (?a, q1)" "advanced E r 4 q1" using readInt32_value_ok [OF r1(1)] by blast
  let ?q1 = "updateWorkSourceRequestHeaderPosition q1"
  have "readable E (enc32 ?b @ ?cd) ?q1" using r1(2) [of q1] q1(2) updated_readable by simp
  note r2 = readable_append [OF this]
  obtain q2 where q2: "readInt32_value E ?q1 = Inr (?b, q2)" "advanced E ?q1 4 q2" using readInt32_value_ok [OF r2(1)] by blast
  have "readable E ?cd q2" using r2(2) [of q2] q2(2) by simp
  note r3 = readable_append [OF this]
  obtain q3 where q3: "readInt32_value E q2 = Inr (kHeader vndk, q3)" "advanced E q2 4 q3" using readInt32_value_ok [OF r3(1)] by blast
  have "readable E (enc_string16 (Some name)) q3" using r3(2) [of q3] q3(2) by simp
  then obtain q4 where q4: "same_interface E other q3 = Inr (other = name, q4)" using same_interface_ok by blast
  have "kHeader vndk = kHeader vndk' \<longleftrightarrow> vndk' = vndk" by (auto simp: kHeader_def)
  with q1(1) q2(1) q3(1) q4 local show ?thesis
    by (auto simp: enforceInterface_def isForRpc_def Let_def getStrictModePolicy_def setStrictModePolicy_def getCallingWorkSourceUid_def
      setCallingWorkSourceUidWithoutPropagation_def shouldPropagateWorkSource_def)
qed

text \<open>C14: The header of a request is understood exactly by its addressee. After a thread has written the token for an interface, a parcel
  that holds these bytes is accepted by a thread that enforces the same name with a library of the same kind and by nobody else; the
  accepting thread then has the strict mode policy of the caller, marked as inherited, or none when the call is one way, and the work
  source of the caller, while whether it passes one on stays as it was.\<close>
theorem interface_token_roundtrip:
  assumes "writable E (length (token_bytes vndk name c)) p" and "mSession p = None"
  shows "\<exists>q. writeInterfaceToken E vndk name p c = Inr (OK, q) \<and>
    (\<forall>r s vndk' other. mSession r = None \<and>
       readable E (peek (mDataPos p) (mDataPos q - mDataPos p) (contents q)) r \<longrightarrow>
       (\<exists>r' t. enforceInterface E vndk' other r s = Inr (vndk' = vndk \<and> other = name, r', t) \<and>
          getStrictModePolicy t =
            (if getLastTransactionBinderFlags s AND FLAG_ONEWAY \<noteq> 0 then 0 else getStrictModePolicy c OR STRICT_MODE_PENALTY_GATHER) \<and>
          getCallingWorkSourceUid t = (if shouldPropagateWorkSource c then getCallingWorkSourceUid c else kUnsetWorkSource) \<and>
          shouldPropagateWorkSource t = shouldPropagateWorkSource s))"
proof -
  have p: "parcel_inv E p" "mDataPos p \<le> mDataSize p" using assms(1) by (simp_all add: writable_def)
  obtain q where q: "writeInterfaceToken E vndk name p c = Inr (OK, q)" "mDataPos q = mDataPos p + length (token_bytes vndk name c)"
    "contents q = poke (mDataPos p) (token_bytes vndk name c) (contents p)"
    using token_written [OF assms] by blast
  have "peek (mDataPos p) (mDataPos q - mDataPos p) (contents q) = token_bytes vndk name c"
    using q(2,3) p length_contents [OF p(1)] by (simp add: peek_poke_same)
  with q(1) token_accepted show ?thesis by metis
qed

lemma token_rewound:
  assumes "writable E (length (token_bytes vndk name s)) p" "mSession p = None" "mObjects p = []"
    and "writeInterfaceToken E vndk name p s = Inr (OK, q)"
  shows "readable E (peek (mDataPos p) (mDataPos q - mDataPos p) (contents q)) (rewound (mDataPos p) q) \<and> mSession (rewound (mDataPos p) q) = None"
proof -
  have q: "mDataPos q = mDataPos p + length (token_bytes vndk name s)" "contents q = poke (mDataPos p) (token_bytes vndk name s) (contents p)"
    "parcel_inv E q" "mSession q = None" "mObjects q = []" "mDataPos q \<le> mDataSize q"
    using token_written [OF assms(1,2)] assms(3,4) by auto
  have "mDataPos p \<le> length (contents p)" using assms(1) length_contents [of E p] by (simp add: writable_def)
  then show ?thesis using q parcel_size_le [OF q(3)]
    by (simp add: readable_def read_inv_def clear_of_objects_def peek_poke_same) (simp add: rewound_def)
qed

text \<open>A witness: a token for the interface of one character, read back in the same parcel, under that name and under another.\<close>
theorem interface_token_roundtrip_witness:
  "\<exists>q r t. writeInterfaceToken linux_env False [65] Parcel idle = Inr (OK, q) \<and>
     enforceInterface linux_env False [65] (rewound 0 q) idle = Inr (True, r, t) \<and> getStrictModePolicy t = STRICT_MODE_PENALTY_GATHER \<and>
     (\<exists>r' t'. enforceInterface linux_env False [66] (rewound 0 q) idle = Inr (False, r', t'))"
proof -
  have w: "writable linux_env (length (token_bytes False [65] idle)) Parcel" "mSession Parcel = None" "mObjects Parcel = []"
    by (rule writable_fresh) (simp_all add: token_bytes_def enc_string16_def padded_len_def Parcel_def)
  obtain q where q: "writeInterfaceToken linux_env False [65] Parcel idle = Inr (OK, q)"
    and acc: "\<forall>r s vndk' other. mSession r = None \<and>
       readable linux_env (peek (mDataPos Parcel) (mDataPos q - mDataPos Parcel) (contents q)) r \<longrightarrow>
       (\<exists>r' t. enforceInterface linux_env vndk' other r s = Inr (vndk' = False \<and> other = [65], r', t) \<and>
          getStrictModePolicy t = (if getLastTransactionBinderFlags s AND FLAG_ONEWAY \<noteq> 0 then 0
            else getStrictModePolicy idle OR STRICT_MODE_PENALTY_GATHER))"
    using interface_token_roundtrip [OF w(1,2)] by blast
  have pos: "mDataPos Parcel = 0" by (simp add: Parcel_def)
  have ok: "\<exists>r t. enforceInterface linux_env False other (rewound 0 q) idle = Inr (other = [65], r, t) \<and>
      getStrictModePolicy t = (if getLastTransactionBinderFlags idle AND FLAG_ONEWAY \<noteq> 0 then 0
        else getStrictModePolicy idle OR STRICT_MODE_PENALTY_GATHER)" for other
    using acc [rule_format, of "rewound 0 q" False other idle] token_rewound [OF w q] unfolding pos by simp
  have "getLastTransactionBinderFlags idle = 0" "getStrictModePolicy idle = 0"
    by (simp_all add: getLastTransactionBinderFlags_def getStrictModePolicy_def idle_def)
  with q ok [of "[65]"] ok [of "[66]"] show ?thesis by auto
qed

end
