(* ===== verification/Ndk_Parcel.thy ===== *)
theory Ndk_Parcel
  imports Parcel_Safe Parcel_Objects
begin

text \<open>
  The C interface of the parcel (\<open>libs/binder/ndk/parcel.cpp\<close> and \<open>PruneStatusT\<close> of \<open>ndk/status.cpp\<close>). An \<open>AParcel\<close>
  is a wrapper around a \<open>Parcel\<close>, so its functions run on the parcel of the theory Parcel_State.

  A caller hands over memory through callbacks. \<open>'d\<close> is the type of what \<open>void* arrayData\<close> points to. An allocator of a
  contiguous array says whether it succeeded, whether the buffer it gives is not null, and what became of the data; \<open>store\<close> says what
  an assignment to an element of the buffer does to the data. An \<open>int32_t\<close> is an \<open>int\<close> in the range of the type.
  The conversions of libutils between UTF-8 and UTF-16 are parameters.
\<close>

section \<open>Status\<close>

abbreviation NO_INIT :: status_t where "NO_INIT \<equiv> - 19"
abbreviation ALREADY_EXISTS :: status_t where "ALREADY_EXISTS \<equiv> - 17"
abbreviation BAD_INDEX :: status_t where "BAD_INDEX \<equiv> - 75"
abbreviation WOULD_BLOCK :: status_t where "WOULD_BLOCK \<equiv> - 11"
abbreviation TIMED_OUT :: status_t where "TIMED_OUT \<equiv> - 110"

text \<open>The constants of \<open>binder_status_t\<close> have the values of the \<open>status_t\<close> they are named after.\<close>

definition PruneStatusT :: "status_t \<Rightarrow> status_t" where
  "PruneStatusT status =
     (if status \<in> {OK, NO_MEMORY, INVALID_OPERATION, BAD_VALUE, BAD_TYPE, NAME_NOT_FOUND, PERMISSION_DENIED, NO_INIT, ALREADY_EXISTS,
        DEAD_OBJECT, FAILED_TRANSACTION, BAD_INDEX, NOT_ENOUGH_DATA, WOULD_BLOCK, TIMED_OUT, UNKNOWN_TRANSACTION, FDS_NOT_ALLOWED,
        UNEXPECTED_NULL, UNKNOWN_ERROR}
      then status else UNKNOWN_ERROR)"

definition pruned :: "status_t parcel_run \<Rightarrow> status_t parcel_run" where
  "pruned r = bind_run r (\<lambda>(status, p). Inr (PruneStatusT status, p))"

text \<open>A value that is read into \<open>*value\<close>: untouched when the status is not \<open>OK\<close>.\<close>

type_synonym 'd into_run = "(status_t \<times> 'd) parcel_run"

definition pruned_into :: "'a read_run \<Rightarrow> 'd \<Rightarrow> ('a \<Rightarrow> 'd) \<Rightarrow> 'd into_run" where
  "pruned_into r d put = bind_run r (\<lambda>(x, p). Inr (case x of Inl st \<Rightarrow> (PruneStatusT st, d) | Inr v \<Rightarrow> (OK, put v), p))"

section \<open>Scalars\<close>

text \<open>The nine functions AParcel_write\<open>T\<close> and the nine AParcel_read\<open>T\<close> differ in the method of the parcel that they call.\<close>

definition AParcel_write :: "(env \<Rightarrow> 'a \<Rightarrow> parcel \<Rightarrow> status_t parcel_run) \<Rightarrow> env \<Rightarrow> 'a \<Rightarrow> parcel \<Rightarrow> status_t parcel_run" where
  "AParcel_write wr E value p = pruned (wr E value p)"

definition AParcel_read :: "(env \<Rightarrow> parcel \<Rightarrow> 'a read_run) \<Rightarrow> env \<Rightarrow> 'a \<Rightarrow> parcel \<Rightarrow> 'a into_run" where
  "AParcel_read rd E value p = pruned_into (rd E p) value id"

definition AParcel_setDataPosition :: "int \<Rightarrow> parcel \<Rightarrow> status_t parcel_run" where
  "AParcel_setDataPosition position p =
     (if position < 0 then Inr (BAD_VALUE, p) else bind_run (setDataPosition (nat position) p) (\<lambda>p. Inr (OK, p)))"

definition AParcel_getDataPosition :: "parcel \<Rightarrow> int" where
  "AParcel_getDataPosition p = sint (of_nat (dataPosition p) :: u32)"

definition AParcel_getDataSize :: "parcel \<Rightarrow> int" where
  "AParcel_getDataSize p = sint (of_nat (dataSize p) :: u32)"

definition AParcel_reset :: "env \<Rightarrow> parcel \<Rightarrow> status_t parcel_run" where
  "AParcel_reset E p = bind_run (freeData E p) (\<lambda>p. Inr (OK, p))"

section \<open>Arrays\<close>

definition WriteAndValidateArraySize :: "env \<Rightarrow> bool \<Rightarrow> int \<Rightarrow> parcel \<Rightarrow> status_t parcel_run" where
  "WriteAndValidateArraySize E isNullArray len p =
     (if len < - 1 then Inr (BAD_VALUE, p)
      else if \<not> isNullArray \<and> len < 0 then Inr (BAD_VALUE, p)
      else if isNullArray \<and> len > 0 then Inr (BAD_VALUE, p)
      else pruned (writeInt32 E (of_int len) p))"

definition ReadAndValidateArraySize :: "env \<Rightarrow> parcel \<Rightarrow> int read_run" where
  "ReadAndValidateArraySize E p =
     bind_run (readInt32 E p) (\<lambda>(x, p).
     case x of
       Inl st \<Rightarrow> Inr (Inl (PruneStatusT st), p)
     | Inr w \<Rightarrow>
         let len = sint w in
         if len < - 1 then Inr (Inl BAD_VALUE, p)
         else if len \<le> 0 then Inr (Inr len, p)
         else bind_run (dataAvail p) (\<lambda>avail. if nat len > avail then Inr (Inl NO_MEMORY, p) else Inr (Inr len, p)))"

text \<open>The loops over the elements.\<close>

fun write_each :: "(nat \<Rightarrow> parcel \<Rightarrow> status_t parcel_run) \<Rightarrow> nat \<Rightarrow> nat \<Rightarrow> parcel \<Rightarrow> status_t parcel_run" where
  "write_each w i 0 p = Inr (OK, p)"
| "write_each w i (Suc n) p =
     bind_run (w i p) (\<lambda>(status, p). if status \<noteq> OK then Inr (status, p) else write_each w (Suc i) n p)"

fun read_each :: "(nat \<Rightarrow> 'd \<Rightarrow> parcel \<Rightarrow> 'd into_run) \<Rightarrow> nat \<Rightarrow> nat \<Rightarrow> 'd \<Rightarrow> parcel \<Rightarrow> 'd into_run" where
  "read_each r i 0 d p = Inr ((OK, d), p)"
| "read_each r i (Suc n) d p =
     bind_run (r i d p) (\<lambda>((status, d), p). if status \<noteq> OK then Inr ((status, d), p) else read_each r (Suc i) n d p)"

text \<open>Element types that are copied as they lie in memory: \<open>enc\<close> and \<open>dec\<close> for one element, \<open>sz\<close> for \<open>sizeof(T)\<close>. The product
  of size and length is an \<open>int\<close> or an overflow. An array with fewer elements than its length says is read past its end.\<close>

definition WriteArray :: "('a \<Rightarrow> byte list) \<Rightarrow> nat \<Rightarrow> env \<Rightarrow> 'a list option \<Rightarrow> int \<Rightarrow> parcel \<Rightarrow> status_t parcel_run" where
  "WriteArray enc sz E array len p =
     bind_run (WriteAndValidateArraySize E (array = None) len p) (\<lambda>(status, p).
     if status \<noteq> OK then Inr (status, p)
     else if len \<le> 0 then Inr (OK, p)
     else if sz * nat len > INT32_MAX then Inr (NO_MEMORY, p)
     else bind_run (writeInplace E (sz * nat len) p) (\<lambda>(dat, p).
       case dat of
         None \<Rightarrow> Inr (NO_MEMORY, p)
       | Some d \<Rightarrow>
           if length (the array) < nat len then Inl Fault
           else bind_run (memcpy_in d (concat (map enc (take (nat len) (the array)))) p) (\<lambda>p. Inr (OK, p))))"

definition WriteArray_char16 :: "env \<Rightarrow> u16 list option \<Rightarrow> int \<Rightarrow> parcel \<Rightarrow> status_t parcel_run" where
  "WriteArray_char16 E array len p =
     bind_run (WriteAndValidateArraySize E (array = None) len p) (\<lambda>(status, p).
     if status \<noteq> OK then Inr (status, p)
     else if len \<le> 0 then Inr (OK, p)
     else if 2 * nat len > INT32_MAX then Inr (NO_MEMORY, p)
     else write_each (\<lambda>i p. if i < length (the array) then pruned (writeChar E (the array ! i) p) else Inl Fault) 0 (nat len) p)"

definition WriteArray_getter ::
  "(env \<Rightarrow> 'a \<Rightarrow> parcel \<Rightarrow> status_t parcel_run) \<Rightarrow> env \<Rightarrow> int \<Rightarrow> (nat \<Rightarrow> 'a) \<Rightarrow> parcel \<Rightarrow> status_t parcel_run" where
  "WriteArray_getter wr E len getter p =
     bind_run (WriteAndValidateArraySize E (len < 0) len p) (\<lambda>(status, p).
     if status \<noteq> OK then Inr (status, p)
     else if len \<le> 0 then Inr (OK, p)
     else write_each (\<lambda>i p. pruned (wr E (getter i) p)) 0 (nat len) p)"

text \<open>An allocator of a contiguous array: success, a buffer that is not null, the data. \<open>fill\<close> is a copy of elements into the buffer.\<close>

type_synonym 'd contiguous = "'d \<Rightarrow> int \<Rightarrow> bool \<times> bool \<times> 'd"

definition fill :: "('d \<Rightarrow> nat \<Rightarrow> 'a \<Rightarrow> 'd) \<Rightarrow> 'a list \<Rightarrow> 'd \<Rightarrow> 'd" where
  "fill store xs d = fold (\<lambda>i d. store d i (xs ! i)) [0..<length xs] d"

definition ReadArray ::
  "(byte list \<Rightarrow> 'a) \<Rightarrow> nat \<Rightarrow> env \<Rightarrow> 'd contiguous \<Rightarrow> ('d \<Rightarrow> nat \<Rightarrow> 'a \<Rightarrow> 'd) \<Rightarrow> 'd \<Rightarrow> parcel \<Rightarrow> 'd into_run" where
  "ReadArray dec sz E allocator store arrayData p =
     bind_run (ReadAndValidateArraySize E p) (\<lambda>(x, p).
     case x of
       Inl st \<Rightarrow> Inr ((st, arrayData), p)
     | Inr len \<Rightarrow>
         (case allocator arrayData len of (ok, buffer, arrayData) \<Rightarrow>
            if \<not> ok then Inr ((NO_MEMORY, arrayData), p)
            else if len \<le> 0 then Inr ((OK, arrayData), p)
            else if \<not> buffer then Inr ((NO_MEMORY, arrayData), p)
            else if sz * nat len > INT32_MAX then Inr ((NO_MEMORY, arrayData), p)
            else bind_run (readInplace E (sz * nat len) p) (\<lambda>(dat, p).
              case dat of
                None \<Rightarrow> Inr ((NO_MEMORY, arrayData), p)
              | Some d \<Rightarrow> bind_run (memcpy_out d (sz * nat len) p) (\<lambda>bs.
                  Inr ((OK, fill store (dec_seq sz dec (nat len) bs) arrayData), p)))))"

definition ReadArray_char16 ::
  "env \<Rightarrow> 'd contiguous \<Rightarrow> ('d \<Rightarrow> nat \<Rightarrow> u16 \<Rightarrow> 'd) \<Rightarrow> 'd \<Rightarrow> parcel \<Rightarrow> 'd into_run" where
  "ReadArray_char16 E allocator store arrayData p =
     bind_run (ReadAndValidateArraySize E p) (\<lambda>(x, p).
     case x of
       Inl st \<Rightarrow> Inr ((st, arrayData), p)
     | Inr len \<Rightarrow>
         (case allocator arrayData len of (ok, buffer, arrayData) \<Rightarrow>
            if \<not> ok then Inr ((NO_MEMORY, arrayData), p)
            else if len \<le> 0 then Inr ((OK, arrayData), p)
            else if \<not> buffer then Inr ((NO_MEMORY, arrayData), p)
            else if 2 * nat len > INT32_MAX then Inr ((NO_MEMORY, arrayData), p)
            else read_each (\<lambda>i d p. pruned_into (readChar E p) d (store d i)) 0 (nat len) arrayData p))"

type_synonym 'd external = "'d \<Rightarrow> int \<Rightarrow> bool \<times> 'd"

definition ReadArray_setter ::
  "(env \<Rightarrow> parcel \<Rightarrow> 'a read_run) \<Rightarrow> env \<Rightarrow> 'd external \<Rightarrow> ('d \<Rightarrow> nat \<Rightarrow> 'a \<Rightarrow> 'd) \<Rightarrow> 'd \<Rightarrow> parcel \<Rightarrow> 'd into_run" where
  "ReadArray_setter rd E allocator setter arrayData p =
     bind_run (ReadAndValidateArraySize E p) (\<lambda>(x, p).
     case x of
       Inl st \<Rightarrow> Inr ((st, arrayData), p)
     | Inr len \<Rightarrow>
         (case allocator arrayData len of (ok, arrayData) \<Rightarrow>
            if \<not> ok then Inr ((NO_MEMORY, arrayData), p)
            else if len \<le> 0 then Inr ((OK, arrayData), p)
            else read_each (\<lambda>i d p. pruned_into (rd E p) d (setter d i)) 0 (nat len) arrayData p))"

definition AParcel_writeParcelableArray ::
  "env \<Rightarrow> int \<Rightarrow> (nat \<Rightarrow> parcel \<Rightarrow> status_t parcel_run) \<Rightarrow> parcel \<Rightarrow> status_t parcel_run" where
  "AParcel_writeParcelableArray E len elementWriter p =
     bind_run (WriteAndValidateArraySize E (len < 0) len p) (\<lambda>(status, p).
     if status \<noteq> OK then Inr (status, p)
     else if len \<le> 0 then Inr (OK, p)
     else write_each elementWriter 0 (nat len) p)"

definition AParcel_readParcelableArray ::
  "env \<Rightarrow> 'd external \<Rightarrow> (nat \<Rightarrow> 'd \<Rightarrow> parcel \<Rightarrow> 'd into_run) \<Rightarrow> 'd \<Rightarrow> parcel \<Rightarrow> 'd into_run" where
  "AParcel_readParcelableArray E allocator elementReader arrayData p =
     bind_run (ReadAndValidateArraySize E p) (\<lambda>(x, p).
     case x of
       Inl st \<Rightarrow> Inr ((st, arrayData), p)
     | Inr len \<Rightarrow>
         (case allocator arrayData len of (ok, arrayData) \<Rightarrow>
            if \<not> ok then Inr ((NO_MEMORY, arrayData), p)
            else if len = - 1 then Inr ((OK, arrayData), p)
            else read_each elementReader 0 (nat len) arrayData p))"

section \<open>Strings\<close>

text \<open>Lengths are negative when the conversion is impossible.\<close>

record unicode =
  utf8_to_utf16_length :: "byte list \<Rightarrow> int"
  utf8_to_utf16 :: "byte list \<Rightarrow> u16 list"
  utf16_to_utf8_length :: "u16 list \<Rightarrow> int"
  utf16_to_utf8 :: "u16 list \<Rightarrow> byte list"

definition AParcel_writeString :: "unicode \<Rightarrow> env \<Rightarrow> byte list option \<Rightarrow> int \<Rightarrow> parcel \<Rightarrow> status_t parcel_run" where
  "AParcel_writeString U E str len p =
     (case str of
        None \<Rightarrow> if len \<noteq> - 1 then Inr (BAD_VALUE, p) else pruned (writeInt32 E (- 1) p)
      | Some s \<Rightarrow>
          if len < 0 then Inr (BAD_VALUE, p)
          else if length s < nat len then Inl Fault
          else
            let str8 = take (nat len) s; len16 = utf8_to_utf16_length U str8 in
            if len16 < 0 \<or> len16 \<ge> int INT32_MAX then Inr (BAD_VALUE, p)
            else bind_run (writeInt32 E (of_int len16) p) (\<lambda>(err, p).
              if err \<noteq> OK then Inr (PruneStatusT err, p)
              else bind_run (writeInplace E ((nat len16 + 1) * 2) p) (\<lambda>(str16, p).
                case str16 of
                  None \<Rightarrow> Inr (NO_MEMORY, p)
                | Some d \<Rightarrow> bind_run (memcpy_in d (enc_chars (utf8_to_utf16 U str8) @ [0, 0]) p) (\<lambda>p. Inr (OK, p)))))"

text \<open>\<open>put\<close> is the conversion into the buffer that the allocator gave. A string that cannot be read is taken for null.\<close>

definition AParcel_readString ::
  "unicode \<Rightarrow> env \<Rightarrow> 'd contiguous \<Rightarrow> ('d \<Rightarrow> byte list \<Rightarrow> 'd) \<Rightarrow> 'd \<Rightarrow> parcel \<Rightarrow> 'd into_run" where
  "AParcel_readString U E allocator put stringData p =
     bind_run (readString16Inplace E p) (\<lambda>(str16, p).
     case str16 of
       None \<Rightarrow> (case allocator stringData (- 1) of (ok, _, stringData) \<Rightarrow> Inr ((if ok then OK else UNEXPECTED_NULL, stringData), p))
     | Some (d, len16) \<Rightarrow>
         bind_run (memcpy_out d (len16 * 2) p) (\<lambda>bs.
         let s = dec_chars bs; len8 = (if len16 = 0 then 1 else utf16_to_utf8_length U s + 1) in
         if len8 \<le> 0 \<or> len8 > int INT32_MAX then Inr ((BAD_VALUE, stringData), p)
         else (case allocator stringData len8 of (ok, buffer, stringData) \<Rightarrow>
           if \<not> ok \<or> \<not> buffer then Inr ((NO_MEMORY, stringData), p)
           else Inr ((OK, put stringData (utf16_to_utf8 U s)), p))))"

text \<open>The getter of an element gives its characters, or null, and its length.\<close>

definition AParcel_writeStringArray ::
  "unicode \<Rightarrow> env \<Rightarrow> int \<Rightarrow> (nat \<Rightarrow> byte list option \<times> int) \<Rightarrow> parcel \<Rightarrow> status_t parcel_run" where
  "AParcel_writeStringArray U E len getter p =
     bind_run (WriteAndValidateArraySize E (len < 0) len p) (\<lambda>(status, p).
     if status \<noteq> OK then Inr (status, p)
     else if len \<le> 0 then Inr (OK, p)
     else write_each (\<lambda>i p.
       case getter i of (str, elementLength) \<Rightarrow>
         if str = None \<and> elementLength \<noteq> - 1 then Inr (BAD_VALUE, p)
         else AParcel_writeString U E str elementLength p) 0 (nat len) p)"

definition AParcel_readStringArray ::
  "unicode \<Rightarrow> env \<Rightarrow> 'd external \<Rightarrow> (nat \<Rightarrow> 'd contiguous) \<Rightarrow> (nat \<Rightarrow> 'd \<Rightarrow> byte list \<Rightarrow> 'd) \<Rightarrow> 'd \<Rightarrow> parcel \<Rightarrow> 'd into_run" where
  "AParcel_readStringArray U E allocator elementAllocator put arrayData p =
     bind_run (ReadAndValidateArraySize E p) (\<lambda>(x, p).
     case x of
       Inl st \<Rightarrow> Inr ((st, arrayData), p)
     | Inr len \<Rightarrow>
         (case allocator arrayData len of (ok, arrayData) \<Rightarrow>
            if \<not> ok then Inr ((NO_MEMORY, arrayData), p)
            else if len = - 1 then Inr ((OK, arrayData), p)
            else read_each (\<lambda>i d p. AParcel_readString U E (elementAllocator i) (put i) d p) 0 (nat len) arrayData p))"

section \<open>The bytes of a parcel\<close>

text \<open>\<open>start\<close> and \<open>len\<close> are size_t; the bytes go to the buffer of the caller.\<close>

definition AParcel_marshal :: "nat \<Rightarrow> nat \<Rightarrow> parcel \<Rightarrow> crash + status_t \<times> byte list" where
  "AParcel_marshal start len p =
     (if length (mObjects p) \<noteq> 0 then Inr (INVALID_OPERATION, [])
      else
        let dataSize = nat (AParcel_getDataSize p mod 2 ^ 64) in
        if len > dataSize \<or> start > dataSize - len then Inr (BAD_VALUE, [])
        else bind_run (memcpy_out start len p) (\<lambda>bs. Inr (OK, bs)))"

definition AParcel_unmarshal :: "env \<Rightarrow> byte list \<Rightarrow> parcel \<Rightarrow> status_t parcel_run" where
  "AParcel_unmarshal E buffer p =
     bind_run (setDataSize E (length buffer) p) (\<lambda>(status, p).
     if status \<noteq> OK then Inr (PruneStatusT status, p)
     else bind_run (setDataPosition 0 p) (\<lambda>p.
       bind_run (writeInplace E (length buffer) p) (\<lambda>(raw, p).
       case raw of
         None \<Rightarrow> Inr (NO_MEMORY, p)
       | Some d \<Rightarrow> bind_run (memcpy_in d buffer p) (\<lambda>p. Inr (OK, p)))))"

text \<open>\<open>start\<close> and \<open>amount\<close> (\<open>size\<close> in the code) are \<open>int32_t\<close> and become \<open>size_t\<close>.\<close>

definition AParcel_appendFrom :: "env \<Rightarrow> (u32 \<Rightarrow> u32) \<Rightarrow> parcel \<Rightarrow> int \<Rightarrow> int \<Rightarrow> parcel \<Rightarrow> status_t parcel_run" where
  "AParcel_appendFrom E dup from start amount p =
     pruned (appendFrom E dup from (nat (start mod 2 ^ 64)) (nat (amount mod 2 ^ 64)) p)"

end
