(* ===== verification/Ndk_Types.thy ===== *)
theory Ndk_Types
  imports Ndk_Parcel
begin

text \<open>
  The C++ layer over the C interface (\<open>libs/binder/ndk/include_cpp/android/binder_parcel_utils.h\<close>): the allocators and
  setters for \<open>std::vector\<close>, \<open>std::array\<close>, \<open>std::optional\<close> and \<open>std::string\<close>, the overloads of AParcel_writeVector and
  AParcel_readVector, and AParcel_writeData and AParcel_readData, which choose among them by the type of the value.

  The choice is made when a template is instantiated, so it is a recursion over a datatype of types here. A value of a type is a tree of
  \<open>ndk_value\<close>; a float or double is its bits and an empty \<open>std::optional\<close> is \<open>VNull\<close>. Parcelables are code of applications, a
  parameter. The variants for plain pointers, for descriptors and for binders are not part of the type.
\<close>

section \<open>Types and values\<close>

datatype ndk_type =
  TBool | TInt8 | TUint8 | TChar16 | TInt32 | TUint32 | TInt64 | TUint64 | TFloat | TDouble | TEnum8 | TEnum32 | TEnum64 | TString
| TParcelable nat | TVector ndk_type | TArray ndk_type nat | TOptional ndk_type

datatype 'p ndk_value =
  VBool bool | VByte byte | VChar u16 | VWord u32 | VLong u64 | VText "byte list" | VStruct 'p | VSeq "'p ndk_value list" | VNull

primrec bool_of :: "'p ndk_value \<Rightarrow> bool" where "bool_of (VBool b) = b"
primrec char_of :: "'p ndk_value \<Rightarrow> u16" where "char_of (VChar c) = c"
primrec byte_of :: "'p ndk_value \<Rightarrow> byte" where "byte_of (VByte b) = b"
primrec word_of :: "'p ndk_value \<Rightarrow> u32" where "word_of (VWord w) = w"
primrec long_of :: "'p ndk_value \<Rightarrow> u64" where "long_of (VLong l) = l"
primrec struct_of :: "'p ndk_value \<Rightarrow> 'p" where "struct_of (VStruct x) = x"
primrec text_of :: "'p ndk_value \<Rightarrow> byte list" where "text_of (VText s) = s"
primrec seq_of :: "'p ndk_value \<Rightarrow> 'p ndk_value list" where "seq_of (VSeq xs) = xs"

definition opt_of :: "('p ndk_value \<Rightarrow> 'b) \<Rightarrow> 'p ndk_value \<Rightarrow> 'b option" where
  "opt_of f v = (case v of VNull \<Rightarrow> None | _ \<Rightarrow> Some (f v))"

definition of_opt :: "('b \<Rightarrow> 'p ndk_value) \<Rightarrow> 'b option \<Rightarrow> 'p ndk_value" where
  "of_opt f x = (case x of None \<Rightarrow> VNull | Some b \<Rightarrow> f b)"

text \<open>The operations of parcelables: by number, the code of writeToParcel and readFromParcel and a fresh object.\<close>

record 'p parcelables =
  p_write :: "nat \<Rightarrow> env \<Rightarrow> 'p \<Rightarrow> parcel \<Rightarrow> status_t parcel_run"
  p_read :: "nat \<Rightarrow> env \<Rightarrow> 'p \<Rightarrow> parcel \<Rightarrow> 'p into_run"
  p_blank :: "nat \<Rightarrow> 'p"

text \<open>What \<open>T()\<close> is.\<close>

fun blank :: "'p parcelables \<Rightarrow> ndk_type \<Rightarrow> 'p ndk_value" where
  "blank O' TBool = VBool False"
| "blank O' TChar16 = VChar 0"
| "blank O' TString = VText []"
| "blank O' (TParcelable k) = VStruct (p_blank O' k)"
| "blank O' (TVector P) = VSeq []"
| "blank O' (TArray P n) = VSeq (replicate n (blank O' P))"
| "blank O' (TOptional P) = VNull"
| "blank O' P = (if P \<in> {TInt8, TUint8, TEnum8} then VByte 0 else if P \<in> {TInt32, TUint32, TFloat, TEnum32} then VWord 0 else VLong 0)"

definition int32_of :: "nat \<Rightarrow> int" where
  "int32_of n = sint (of_nat n :: u32)"

section \<open>Allocators\<close>

text \<open>An element is below 4 GiB, so that no \<open>int32_t\<close> exceeds max_size() of a vector.\<close>

definition resized :: "'a \<Rightarrow> nat \<Rightarrow> 'a list \<Rightarrow> 'a list" where
  "resized zero n xs = take n xs @ replicate (n - length xs) zero"

definition AParcel_stdArrayAllocator :: "nat \<Rightarrow> 'a list contiguous" where
  "AParcel_stdArrayAllocator n arr len =
     (if len < 0 then (False, False, arr) else if len \<noteq> int32_of n then (False, False, arr) else (True, True, arr))"

definition AParcel_nullableStdArrayAllocator :: "'a \<Rightarrow> nat \<Rightarrow> 'a list option contiguous" where
  "AParcel_nullableStdArrayAllocator zero n arr len =
     (if len < 0 then (True, False, None) else if len \<noteq> int32_of n then (False, False, arr) else (True, True, Some (replicate n zero)))"

definition AParcel_stdArrayExternalAllocator :: "nat \<Rightarrow> 'a list external" where
  "AParcel_stdArrayExternalAllocator n arr len = (len = int32_of n, arr)"

definition AParcel_nullableStdArrayExternalAllocator :: "'a \<Rightarrow> nat \<Rightarrow> 'a list option external" where
  "AParcel_nullableStdArrayExternalAllocator zero n arr len =
     (if len < 0 then (True, None) else if len \<noteq> int32_of n then (False, arr) else (True, Some (replicate n zero)))"

definition AParcel_stdVectorAllocator :: "'a \<Rightarrow> 'a list contiguous" where
  "AParcel_stdVectorAllocator zero vec len =
     (if len < 0 then (False, False, vec) else (True, True, resized zero (nat len) vec))"

definition AParcel_nullableStdVectorAllocator :: "'a \<Rightarrow> 'a list option contiguous" where
  "AParcel_nullableStdVectorAllocator zero vec len =
     (if len < 0 then (True, False, None) else (True, True, Some (resized zero (nat len) [])))"

definition AParcel_stdVectorExternalAllocator :: "'a \<Rightarrow> 'a list external" where
  "AParcel_stdVectorExternalAllocator zero vec len = (if len < 0 then (False, vec) else (True, resized zero (nat len) vec))"

definition AParcel_nullableStdVectorExternalAllocator :: "'a \<Rightarrow> 'a list option external" where
  "AParcel_nullableStdVectorExternalAllocator zero vec len = (if len < 0 then (True, None) else (True, Some (resized zero (nat len) [])))"

definition AParcel_stdVectorSetter :: "'a list \<Rightarrow> nat \<Rightarrow> 'a \<Rightarrow> 'a list" where
  "AParcel_stdVectorSetter vec i value = vec[i := value]"

definition AParcel_nullableStdVectorSetter :: "'a list option \<Rightarrow> nat \<Rightarrow> 'a \<Rightarrow> 'a list option" where
  "AParcel_nullableStdVectorSetter vec i value = map_option (\<lambda>xs. xs[i := value]) vec"

text \<open>The buffer of a string has room for the terminator; \<open>put_text\<close> is the conversion into it.\<close>

definition AParcel_stdStringAllocator :: "byte list contiguous" where
  "AParcel_stdStringAllocator str len = (if len \<le> 0 then (False, False, str) else (True, True, resized 0 (nat len - 1) str))"

definition AParcel_nullableStdStringAllocator :: "byte list option contiguous" where
  "AParcel_nullableStdStringAllocator str len =
     (if len = 0 then (False, False, str)
      else if len < 0 then (True, False, None)
      else (True, True, Some (resized 0 (nat len - 1) [])))"

definition put_text :: "byte list \<Rightarrow> byte list \<Rightarrow> byte list" where
  "put_text buffer s = s @ drop (length s) buffer"

definition AParcel_stdVectorStringElementAllocator :: "nat \<Rightarrow> 'p ndk_value list contiguous" where
  "AParcel_stdVectorStringElementAllocator i vec len =
     (case AParcel_stdStringAllocator (text_of (vec ! i)) len of (ok, buffer, s) \<Rightarrow> (ok, buffer, vec[i := VText s]))"

definition AParcel_stdArrayNullableStringElementAllocator :: "nat \<Rightarrow> 'p ndk_value list contiguous" where
  "AParcel_stdArrayNullableStringElementAllocator i arr len =
     (case AParcel_nullableStdStringAllocator (opt_of text_of (arr ! i)) len of
        (ok, buffer, s) \<Rightarrow> (ok, buffer, arr[i := of_opt VText s]))"

definition AParcel_nullableStdVectorStringElementAllocator :: "nat \<Rightarrow> 'p ndk_value list option contiguous" where
  "AParcel_nullableStdVectorStringElementAllocator i vec len =
     (case AParcel_stdArrayNullableStringElementAllocator i (the vec) len of (ok, buffer, xs) \<Rightarrow> (ok, buffer, Some xs))"

definition put_element :: "nat \<Rightarrow> 'p ndk_value list \<Rightarrow> byte list \<Rightarrow> 'p ndk_value list" where
  "put_element i vec s = vec[i := VText (put_text (text_of (vec ! i)) s)]"

definition AParcel_stdVectorStringElementGetter :: "'p ndk_value list \<Rightarrow> nat \<Rightarrow> byte list option \<times> int" where
  "AParcel_stdVectorStringElementGetter vec i = (Some (text_of (vec ! i)), int32_of (length (text_of (vec ! i))))"

definition AParcel_nullableStdVectorStringElementGetter :: "'p ndk_value list \<Rightarrow> nat \<Rightarrow> byte list option \<times> int" where
  "AParcel_nullableStdVectorStringElementGetter vec i =
     (case opt_of text_of (vec ! i) of None \<Rightarrow> (None, - 1) | Some s \<Rightarrow> (Some s, int32_of (length s)))"

section \<open>Strings and parcelables\<close>

definition AParcel_writeString_std :: "unicode \<Rightarrow> env \<Rightarrow> byte list \<Rightarrow> parcel \<Rightarrow> status_t parcel_run" where
  "AParcel_writeString_std U E str p = AParcel_writeString U E (Some str) (int32_of (length str)) p"

definition AParcel_readString_std :: "unicode \<Rightarrow> env \<Rightarrow> byte list \<Rightarrow> parcel \<Rightarrow> byte list into_run" where
  "AParcel_readString_std U E str p = AParcel_readString U E AParcel_stdStringAllocator put_text str p"

definition AParcel_writeString_optional :: "unicode \<Rightarrow> env \<Rightarrow> byte list option \<Rightarrow> parcel \<Rightarrow> status_t parcel_run" where
  "AParcel_writeString_optional U E str p =
     (case str of
        None \<Rightarrow> AParcel_writeString U E None (- 1) p
      | Some s \<Rightarrow> AParcel_writeString U E (Some s) (int32_of (length s)) p)"

definition AParcel_readString_optional :: "unicode \<Rightarrow> env \<Rightarrow> byte list option \<Rightarrow> parcel \<Rightarrow> byte list option into_run" where
  "AParcel_readString_optional U E str p =
     AParcel_readString U E AParcel_nullableStdStringAllocator (\<lambda>d s. map_option (\<lambda>b. put_text b s) d) str p"

definition AParcel_writeParcelable :: "'p parcelables \<Rightarrow> env \<Rightarrow> nat \<Rightarrow> 'p \<Rightarrow> parcel \<Rightarrow> status_t parcel_run" where
  "AParcel_writeParcelable O' E k x p =
     bind_run (AParcel_write writeInt32 E 1 p) (\<lambda>(status, p). if status \<noteq> OK then Inr (status, p) else p_write O' k E x p)"

definition AParcel_readParcelable :: "'p parcelables \<Rightarrow> env \<Rightarrow> nat \<Rightarrow> 'p \<Rightarrow> parcel \<Rightarrow> 'p into_run" where
  "AParcel_readParcelable O' E k x p =
     bind_run (AParcel_read readInt32 E 0 p) (\<lambda>((status, null), p).
     if status \<noteq> OK then Inr ((status, x), p)
     else if null = 0 then Inr ((UNEXPECTED_NULL, x), p)
     else p_read O' k E x p)"

definition AParcel_writeNullableParcelable :: "'p parcelables \<Rightarrow> env \<Rightarrow> nat \<Rightarrow> 'p option \<Rightarrow> parcel \<Rightarrow> status_t parcel_run" where
  "AParcel_writeNullableParcelable O' E k x p =
     (case x of
        None \<Rightarrow> AParcel_write writeInt32 E 0 p
      | Some y \<Rightarrow>
          bind_run (AParcel_write writeInt32 E 1 p) (\<lambda>(status, p).
          if status \<noteq> OK then Inr (status, p) else p_write O' k E y p))"

definition AParcel_readNullableParcelable :: "'p parcelables \<Rightarrow> env \<Rightarrow> nat \<Rightarrow> 'p option \<Rightarrow> parcel \<Rightarrow> 'p option into_run" where
  "AParcel_readNullableParcelable O' E k x p =
     bind_run (AParcel_read readInt32 E 0 p) (\<lambda>((status, null), p).
     if status \<noteq> OK then Inr ((status, x), p)
     else if null = 0 then Inr ((OK, None), p)
     else bind_run (p_read O' k E (p_blank O' k) p) (\<lambda>((status, y), p). Inr ((status, Some y), p)))"

section \<open>Vectors\<close>

text \<open>The elements that are copied as they lie in memory.\<close>

definition packed :: "ndk_type \<Rightarrow> bool" where
  "packed P \<longleftrightarrow> P \<in> {TInt32, TUint32, TInt64, TUint64, TFloat, TDouble, TUint8, TEnum8, TEnum32, TEnum64}"

definition elem_size :: "ndk_type \<Rightarrow> nat" where
  "elem_size P = (if P \<in> {TUint8, TEnum8} then 1 else if P \<in> {TInt32, TUint32, TFloat, TEnum32} then 4 else 8)"

definition elem_enc :: "ndk_type \<Rightarrow> 'p ndk_value \<Rightarrow> byte list" where
  "elem_enc P v = (if elem_size P = 1 then [byte_of v] else if elem_size P = 4 then enc32 (word_of v) else enc64 (long_of v))"

definition elem_dec :: "ndk_type \<Rightarrow> byte list \<Rightarrow> 'p ndk_value" where
  "elem_dec P bs = (if elem_size P = 1 then VByte (hd bs) else if elem_size P = 4 then VWord (dec32 bs) else VLong (dec64 bs))"

text \<open>\<open>std::vector<P>\<close>. The data pointer of an empty vector is null.\<close>

definition AParcel_writeVector ::
  "unicode \<Rightarrow> 'p parcelables \<Rightarrow> env \<Rightarrow> ndk_type \<Rightarrow> 'p ndk_value list \<Rightarrow> parcel \<Rightarrow> status_t parcel_run" where
  "AParcel_writeVector U O' E P vec p =
     (let len = int32_of (length vec) in
      case P of
        TBool \<Rightarrow> WriteArray_getter writeBool E len (\<lambda>i. bool_of (vec ! i)) p
      | TChar16 \<Rightarrow> WriteArray_char16 E (if vec = [] then None else Some (map char_of vec)) len p
      | TString \<Rightarrow> AParcel_writeStringArray U E len (AParcel_stdVectorStringElementGetter vec) p
      | TParcelable k \<Rightarrow> AParcel_writeParcelableArray E len (\<lambda>i p. AParcel_writeParcelable O' E k (struct_of (vec ! i)) p) p
      | _ \<Rightarrow> if packed P then WriteArray (elem_enc P) (elem_size P) E (if vec = [] then None else Some vec) len p else Inr (OK, p))"

definition AParcel_readVector ::
  "unicode \<Rightarrow> 'p parcelables \<Rightarrow> env \<Rightarrow> ndk_type \<Rightarrow> 'p ndk_value list \<Rightarrow> parcel \<Rightarrow> 'p ndk_value list into_run" where
  "AParcel_readVector U O' E P vec p =
     (let zero = blank O' P in
      case P of
        TBool \<Rightarrow> ReadArray_setter readBool E (AParcel_stdVectorExternalAllocator zero) (\<lambda>d i b. AParcel_stdVectorSetter d i (VBool b)) vec p
      | TChar16 \<Rightarrow> ReadArray_char16 E (AParcel_stdVectorAllocator zero) (\<lambda>d i c. d[i := VChar c]) vec p
      | TString \<Rightarrow> AParcel_readStringArray U E (AParcel_stdVectorExternalAllocator zero) AParcel_stdVectorStringElementAllocator
          put_element vec p
      | TParcelable k \<Rightarrow> AParcel_readParcelableArray E (AParcel_stdVectorExternalAllocator zero)
          (\<lambda>i d p. bind_run (AParcel_readParcelable O' E k (struct_of (d ! i)) p) (\<lambda>((status, x), p).
             Inr ((status, d[i := VStruct x]), p))) vec p
      | _ \<Rightarrow>
          if packed P then ReadArray (elem_dec P) (elem_size P) E (AParcel_stdVectorAllocator zero) (\<lambda>d i v. d[i := v]) vec p
          else Inr ((OK, vec), p))"

text \<open>\<open>std::optional<std::vector<P>>\<close>.\<close>

definition AParcel_writeVector_optional ::
  "unicode \<Rightarrow> 'p parcelables \<Rightarrow> env \<Rightarrow> ndk_type \<Rightarrow> 'p ndk_value list option \<Rightarrow> parcel \<Rightarrow> status_t parcel_run" where
  "AParcel_writeVector_optional U O' E P vec p =
     (case P of
        TOptional TString \<Rightarrow>
          AParcel_writeStringArray U E (case vec of None \<Rightarrow> - 1 | Some xs \<Rightarrow> int32_of (length xs))
            (AParcel_nullableStdVectorStringElementGetter (the vec)) p
      | TOptional (TParcelable k) \<Rightarrow>
          (case vec of
             None \<Rightarrow> AParcel_write writeInt32 E (- 1) p
           | Some xs \<Rightarrow> AParcel_writeParcelableArray E (int32_of (length xs))
               (\<lambda>i p. AParcel_writeNullableParcelable O' E k (opt_of struct_of (xs ! i)) p) p)
      | TBool \<Rightarrow>
          (case vec of None \<Rightarrow> WriteArray_getter writeBool E (- 1) (\<lambda>i. False) p | Some xs \<Rightarrow> AParcel_writeVector U O' E P xs p)
      | TChar16 \<Rightarrow> (case vec of None \<Rightarrow> WriteArray_char16 E None (- 1) p | Some xs \<Rightarrow> AParcel_writeVector U O' E P xs p)
      | _ \<Rightarrow>
          if packed P then
            (case vec of
               None \<Rightarrow> WriteArray (elem_enc P :: 'p ndk_value \<Rightarrow> byte list) (elem_size P) E None (- 1) p
             | Some xs \<Rightarrow> AParcel_writeVector U O' E P xs p)
          else Inr (OK, p))"

definition AParcel_readVector_optional ::
  "unicode \<Rightarrow> 'p parcelables \<Rightarrow> env \<Rightarrow> ndk_type \<Rightarrow> 'p ndk_value list option \<Rightarrow> parcel \<Rightarrow> 'p ndk_value list option into_run" where
  "AParcel_readVector_optional U O' E P vec p =
     (let zero = blank O' P in
      case P of
        TOptional TString \<Rightarrow>
          AParcel_readStringArray U E (AParcel_nullableStdVectorExternalAllocator zero) AParcel_nullableStdVectorStringElementAllocator
            (\<lambda>i d s. map_option (\<lambda>xs. put_element i xs s) d) vec p
      | TOptional (TParcelable k) \<Rightarrow>
          AParcel_readParcelableArray E (AParcel_nullableStdVectorExternalAllocator zero)
            (\<lambda>i d p. bind_run (AParcel_readNullableParcelable O' E k (opt_of struct_of (the d ! i)) p) (\<lambda>((status, x), p).
               Inr ((status, map_option (\<lambda>xs. xs[i := of_opt VStruct x]) d), p))) vec p
      | TBool \<Rightarrow>
          ReadArray_setter readBool E (AParcel_nullableStdVectorExternalAllocator zero)
            (\<lambda>d i b. AParcel_nullableStdVectorSetter d i (VBool b)) vec p
      | TChar16 \<Rightarrow>
          ReadArray_char16 E (AParcel_nullableStdVectorAllocator zero) (\<lambda>d i c. map_option (\<lambda>xs. xs[i := VChar c]) d) vec p
      | _ \<Rightarrow>
          if packed P then
            ReadArray (elem_dec P) (elem_size P) E (AParcel_nullableStdVectorAllocator zero) (\<lambda>d i v. map_option (\<lambda>xs. xs[i := v]) d) vec p
          else Inr ((OK, vec), p))"

text \<open>Out parameters: only the size of a vector is sent and the vector resized.\<close>

definition AParcel_writeVectorSize :: "env \<Rightarrow> 'a list option \<Rightarrow> parcel \<Rightarrow> status_t parcel_run" where
  "AParcel_writeVectorSize E vec p =
     (case vec of
        None \<Rightarrow> AParcel_write writeInt32 E (- 1) p
      | Some xs \<Rightarrow> if length xs > INT32_MAX then Inr (BAD_VALUE, p) else AParcel_write writeInt32 E (of_nat (length xs)) p)"

definition AParcel_resizeVector :: "'a \<Rightarrow> env \<Rightarrow> 'a list \<Rightarrow> parcel \<Rightarrow> 'a list into_run" where
  "AParcel_resizeVector zero E vec p =
     bind_run (AParcel_read readInt32 E 0 p) (\<lambda>((err, sz), p).
     if err \<noteq> OK then Inr ((err, vec), p)
     else if sint sz < 0 then Inr ((UNEXPECTED_NULL, vec), p)
     else if sint sz > 1000000 then Inr ((NO_MEMORY, vec), p)
     else Inr ((OK, resized zero (nat (sint sz)) vec), p))"

definition AParcel_resizeVector_optional :: "'a \<Rightarrow> env \<Rightarrow> 'a list option \<Rightarrow> parcel \<Rightarrow> 'a list option into_run" where
  "AParcel_resizeVector_optional zero E vec p =
     bind_run (AParcel_read readInt32 E 0 p) (\<lambda>((err, sz), p).
     if err \<noteq> OK then Inr ((err, vec), p)
     else if sint sz < - 1 then Inr ((UNEXPECTED_NULL, vec), p)
     else if sint sz = - 1 then Inr ((OK, None), p)
     else if sint sz > 1000000 then Inr ((NO_MEMORY, vec), p)
     else Inr ((OK, Some (resized zero (nat (sint sz)) [])), p))"

section \<open>Arrays of fixed size\<close>

text \<open>\<open>elem\<close> is the code for an element of a type without a case of its own.\<close>

definition AParcel_writeFixedArray ::
  "unicode \<Rightarrow> env \<Rightarrow> ndk_type \<Rightarrow> ('p ndk_value \<Rightarrow> parcel \<Rightarrow> status_t parcel_run) \<Rightarrow> 'p ndk_value list \<Rightarrow> parcel \<Rightarrow> status_t parcel_run"
where
  "AParcel_writeFixedArray U E P elem arr p =
     (let len = int32_of (length arr) in
      if P = TBool then WriteArray_getter writeBool E len (\<lambda>i. bool_of (arr ! i)) p
      else if P = TChar16 then WriteArray_char16 E (Some (map char_of arr)) len p
      else if P \<in> {TUint8, TInt32, TInt64, TFloat, TDouble} then WriteArray (elem_enc P) (elem_size P) E (Some arr) len p
      else if P = TString then AParcel_writeStringArray U E len (AParcel_stdVectorStringElementGetter arr) p
      else AParcel_writeParcelableArray E len (\<lambda>i p. elem (arr ! i) p) p)"

definition plain :: "ndk_type \<Rightarrow> bool" where
  "plain P \<longleftrightarrow> P \<in> {TBool, TUint8, TChar16, TInt32, TInt64, TFloat, TDouble, TString}"

definition AParcel_writeFixedArrayWithNullableData ::
  "unicode \<Rightarrow> env \<Rightarrow> ndk_type \<Rightarrow> ('p ndk_value \<Rightarrow> parcel \<Rightarrow> status_t parcel_run) \<Rightarrow> 'p ndk_value list \<Rightarrow> parcel \<Rightarrow> status_t parcel_run"
where
  "AParcel_writeFixedArrayWithNullableData U E P elem arr p =
     (if plain P then AParcel_writeFixedArray U E P elem arr p
      else if P = TOptional TString
      then AParcel_writeStringArray U E (int32_of (length arr)) (AParcel_nullableStdVectorStringElementGetter arr) p
      else AParcel_writeParcelableArray E (int32_of (length arr)) (\<lambda>i p. elem (arr ! i) p) p)"

definition AParcel_writeNullableFixedArrayWithNullableData ::
  "unicode \<Rightarrow> env \<Rightarrow> ndk_type \<Rightarrow> ('p ndk_value \<Rightarrow> parcel \<Rightarrow> status_t parcel_run) \<Rightarrow> 'p ndk_value list option \<Rightarrow> parcel \<Rightarrow>
   status_t parcel_run"
where
  "AParcel_writeNullableFixedArrayWithNullableData U E P elem arr p =
     (case arr of
        None \<Rightarrow> AParcel_write writeInt32 E (- 1) p
      | Some xs \<Rightarrow> AParcel_writeFixedArrayWithNullableData U E P elem xs p)"

text \<open>The element at an index of an array, read in place.\<close>

definition at_index :: "('a \<Rightarrow> parcel \<Rightarrow> 'a into_run) \<Rightarrow> nat \<Rightarrow> 'a list \<Rightarrow> parcel \<Rightarrow> 'a list into_run" where
  "at_index elem i arr p = bind_run (elem (arr ! i) p) (\<lambda>((status, x), p). Inr ((status, arr[i := x]), p))"

definition AParcel_readFixedArray ::
  "unicode \<Rightarrow> env \<Rightarrow> ndk_type \<Rightarrow> nat \<Rightarrow> ('p ndk_value \<Rightarrow> parcel \<Rightarrow> 'p ndk_value into_run) \<Rightarrow> 'p ndk_value list \<Rightarrow> parcel \<Rightarrow>
   'p ndk_value list into_run"
where
  "AParcel_readFixedArray U E P n elem arr p =
     (if P = TBool then ReadArray_setter readBool E (AParcel_stdArrayExternalAllocator n) (\<lambda>d i b. d[i := VBool b]) arr p
      else if P = TChar16 then ReadArray_char16 E (AParcel_stdArrayAllocator n) (\<lambda>d i c. d[i := VChar c]) arr p
      else if P \<in> {TUint8, TInt32, TInt64, TFloat, TDouble}
      then ReadArray (elem_dec P) (elem_size P) E (AParcel_stdArrayAllocator n) (\<lambda>d i v. d[i := v]) arr p
      else if P = TString
      then AParcel_readStringArray U E (AParcel_stdArrayExternalAllocator n) AParcel_stdVectorStringElementAllocator put_element arr p
      else AParcel_readParcelableArray E (AParcel_stdArrayExternalAllocator n) (at_index elem) arr p)"

definition AParcel_readFixedArrayWithNullableData ::
  "unicode \<Rightarrow> env \<Rightarrow> ndk_type \<Rightarrow> nat \<Rightarrow> ('p ndk_value \<Rightarrow> parcel \<Rightarrow> 'p ndk_value into_run) \<Rightarrow> 'p ndk_value list \<Rightarrow> parcel \<Rightarrow>
   'p ndk_value list into_run"
where
  "AParcel_readFixedArrayWithNullableData U E P n elem arr p =
     (if plain P then AParcel_readFixedArray U E P n elem arr p
      else if P = TOptional TString
      then AParcel_readStringArray U E (AParcel_stdArrayExternalAllocator n) AParcel_stdArrayNullableStringElementAllocator put_element arr p
      else AParcel_readParcelableArray E (AParcel_stdArrayExternalAllocator n) (at_index elem) arr p)"

text \<open>The last case passes a pointer to a \<open>std::optional<std::array>\<close> where one to a \<open>std::array\<close> is expected; the array lies at the
  start of the optional. The case for strings cannot be instantiated.\<close>

definition AParcel_readNullableFixedArrayWithNullableData ::
  "unicode \<Rightarrow> env \<Rightarrow> 'p ndk_value \<Rightarrow> ndk_type \<Rightarrow> nat \<Rightarrow> ('p ndk_value \<Rightarrow> parcel \<Rightarrow> 'p ndk_value into_run) \<Rightarrow>
   'p ndk_value list option \<Rightarrow> parcel \<Rightarrow> 'p ndk_value list option into_run"
where
  "AParcel_readNullableFixedArrayWithNullableData U E zero P n elem arr p =
     (if P = TBool
      then ReadArray_setter readBool E (AParcel_nullableStdArrayExternalAllocator zero n) (\<lambda>d i b. map_option (\<lambda>xs. xs[i := VBool b]) d) arr p
      else if P = TChar16
      then ReadArray_char16 E (AParcel_nullableStdArrayAllocator zero n) (\<lambda>d i c. map_option (\<lambda>xs. xs[i := VChar c]) d) arr p
      else if P \<in> {TUint8, TInt32, TInt64, TFloat, TDouble}
      then ReadArray (elem_dec P) (elem_size P) E (AParcel_nullableStdArrayAllocator zero n) (\<lambda>d i v. map_option (\<lambda>xs. xs[i := v]) d) arr p
      else AParcel_readParcelableArray E (AParcel_nullableStdArrayExternalAllocator zero n)
        (\<lambda>i d p. bind_run (at_index elem i (the d) p) (\<lambda>((status, xs), p). Inr ((status, Some xs), p))) arr p)"

section \<open>Values of any type\<close>

definition into_value :: "('a \<Rightarrow> 'p ndk_value) \<Rightarrow> 'a into_run \<Rightarrow> 'p ndk_value into_run" where
  "into_value f r = bind_run r (\<lambda>((status, x), p). Inr ((status, f x), p))"

primrec AParcel_writeData ::
  "unicode \<Rightarrow> 'p parcelables \<Rightarrow> env \<Rightarrow> ndk_type \<Rightarrow> 'p ndk_value \<Rightarrow> parcel \<Rightarrow> status_t parcel_run"
where
  "AParcel_writeData U O' E TBool v = AParcel_write writeBool E (bool_of v)"
| "AParcel_writeData U O' E TInt8 v = AParcel_write writeByte E (byte_of v)"
| "AParcel_writeData U O' E TUint8 v = AParcel_write writeByte E (byte_of v)"
| "AParcel_writeData U O' E TChar16 v = AParcel_write writeChar E (char_of v)"
| "AParcel_writeData U O' E TInt32 v = AParcel_write writeInt32 E (word_of v)"
| "AParcel_writeData U O' E TUint32 v = (\<lambda>p. Inr (OK, p))"
| "AParcel_writeData U O' E TInt64 v = AParcel_write writeInt64 E (long_of v)"
| "AParcel_writeData U O' E TUint64 v = (\<lambda>p. Inr (OK, p))"
| "AParcel_writeData U O' E TFloat v = AParcel_write writeFloat E (word_of v)"
| "AParcel_writeData U O' E TDouble v = AParcel_write writeDouble E (long_of v)"
| "AParcel_writeData U O' E TEnum8 v = AParcel_write writeByte E (byte_of v)"
| "AParcel_writeData U O' E TEnum32 v = AParcel_write writeInt32 E (word_of v)"
| "AParcel_writeData U O' E TEnum64 v = AParcel_write writeInt64 E (long_of v)"
| "AParcel_writeData U O' E TString v = AParcel_writeString_std U E (text_of v)"
| "AParcel_writeData U O' E (TParcelable k) v = AParcel_writeParcelable O' E k (struct_of v)"
| "AParcel_writeData U O' E (TVector P) v = AParcel_writeVector U O' E P (seq_of v)"
| "AParcel_writeData U O' E (TArray P n) v = AParcel_writeFixedArray U E P (AParcel_writeData U O' E P) (seq_of v)"
| "AParcel_writeData U O' E (TOptional P) v = (\<lambda>p. Inr (OK, p))"

primrec AParcel_readData ::
  "unicode \<Rightarrow> 'p parcelables \<Rightarrow> env \<Rightarrow> ndk_type \<Rightarrow> 'p ndk_value \<Rightarrow> parcel \<Rightarrow> 'p ndk_value into_run"
where
  "AParcel_readData U O' E TBool v = (\<lambda>p. into_value VBool (AParcel_read readBool E (bool_of v) p))"
| "AParcel_readData U O' E TInt8 v = (\<lambda>p. into_value VByte (AParcel_read readByte E (byte_of v) p))"
| "AParcel_readData U O' E TUint8 v = (\<lambda>p. into_value VByte (AParcel_read readByte E (byte_of v) p))"
| "AParcel_readData U O' E TChar16 v = (\<lambda>p. into_value VChar (AParcel_read readChar E (char_of v) p))"
| "AParcel_readData U O' E TInt32 v = (\<lambda>p. into_value VWord (AParcel_read readInt32 E (word_of v) p))"
| "AParcel_readData U O' E TUint32 v = (\<lambda>p. Inr ((OK, v), p))"
| "AParcel_readData U O' E TInt64 v = (\<lambda>p. into_value VLong (AParcel_read readInt64 E (long_of v) p))"
| "AParcel_readData U O' E TUint64 v = (\<lambda>p. Inr ((OK, v), p))"
| "AParcel_readData U O' E TFloat v = (\<lambda>p. into_value VWord (AParcel_read readFloat E (word_of v) p))"
| "AParcel_readData U O' E TDouble v = (\<lambda>p. into_value VLong (AParcel_read readDouble E (long_of v) p))"
| "AParcel_readData U O' E TEnum8 v = (\<lambda>p. into_value VByte (AParcel_read readByte E (byte_of v) p))"
| "AParcel_readData U O' E TEnum32 v = (\<lambda>p. into_value VWord (AParcel_read readInt32 E (word_of v) p))"
| "AParcel_readData U O' E TEnum64 v = (\<lambda>p. into_value VLong (AParcel_read readInt64 E (long_of v) p))"
| "AParcel_readData U O' E TString v = (\<lambda>p. into_value VText (AParcel_readString_std U E (text_of v) p))"
| "AParcel_readData U O' E (TParcelable k) v = (\<lambda>p. into_value VStruct (AParcel_readParcelable O' E k (struct_of v) p))"
| "AParcel_readData U O' E (TVector P) v = (\<lambda>p. into_value VSeq (AParcel_readVector U O' E P (seq_of v) p))"
| "AParcel_readData U O' E (TArray P n) v =
     (\<lambda>p. into_value VSeq (AParcel_readFixedArray U E P n (AParcel_readData U O' E P) (seq_of v) p))"
| "AParcel_readData U O' E (TOptional P) v = (\<lambda>p. Inr ((OK, v), p))"

fun AParcel_writeNullableData ::
  "unicode \<Rightarrow> 'p parcelables \<Rightarrow> env \<Rightarrow> ndk_type \<Rightarrow> 'p ndk_value \<Rightarrow> parcel \<Rightarrow> status_t parcel_run"
where
  "AParcel_writeNullableData U O' E (TOptional (TVector P)) v p = AParcel_writeVector_optional U O' E P (opt_of seq_of v) p"
| "AParcel_writeNullableData U O' E (TOptional (TArray P n)) v p =
     AParcel_writeNullableFixedArrayWithNullableData U E P (AParcel_writeNullableData U O' E P) (opt_of seq_of v) p"
| "AParcel_writeNullableData U O' E (TArray P n) v p =
     AParcel_writeFixedArrayWithNullableData U E P (AParcel_writeNullableData U O' E P) (seq_of v) p"
| "AParcel_writeNullableData U O' E (TOptional TString) v p = AParcel_writeString_optional U E (opt_of text_of v) p"
| "AParcel_writeNullableData U O' E (TOptional (TParcelable k)) v p = AParcel_writeNullableParcelable O' E k (opt_of struct_of v) p"
| "AParcel_writeNullableData U O' E P v p = AParcel_writeData U O' E P v p"

fun AParcel_readNullableData ::
  "unicode \<Rightarrow> 'p parcelables \<Rightarrow> env \<Rightarrow> ndk_type \<Rightarrow> 'p ndk_value \<Rightarrow> parcel \<Rightarrow> 'p ndk_value into_run"
where
  "AParcel_readNullableData U O' E (TOptional (TVector P)) v p =
     into_value (of_opt VSeq) (AParcel_readVector_optional U O' E P (opt_of seq_of v) p)"
| "AParcel_readNullableData U O' E (TOptional (TArray P n)) v p =
     into_value (of_opt VSeq)
       (AParcel_readNullableFixedArrayWithNullableData U E (blank O' P) P n (AParcel_readNullableData U O' E P) (opt_of seq_of v) p)"
| "AParcel_readNullableData U O' E (TArray P n) v p =
     into_value VSeq (AParcel_readFixedArrayWithNullableData U E P n (AParcel_readNullableData U O' E P) (seq_of v) p)"
| "AParcel_readNullableData U O' E (TOptional TString) v p =
     into_value (of_opt VText) (AParcel_readString_optional U E (opt_of text_of v) p)"
| "AParcel_readNullableData U O' E (TOptional (TParcelable k)) v p =
     into_value (of_opt VStruct) (AParcel_readNullableParcelable O' E k (opt_of struct_of v) p)"
| "AParcel_readNullableData U O' E P v p = AParcel_readData U O' E P v p"

end
