(* ===== verification/Ndk_Codec.thy ===== *)
theory Ndk_Codec
  imports Ndk_Types
begin

text \<open>
  What the two directions of the C++ layer promise each other. The locale \<open>value_codec\<close> is the contract of a writer and a reader that
  fills a destination; the locale \<open>container\<close> is what the allocators promise about the memory that elements are read into. The
  readers of arrays are proved once inside \<open>container\<close>, which is interpreted on the four kinds of containers: vectors and arrays of
  fixed size, each with and without \<open>std::optional\<close>.
\<close>

section \<open>Statuses and lengths\<close>

lemma PruneStatusT_OK [simp]: "PruneStatusT OK = OK"
  by (simp add: PruneStatusT_def)

lemma PruneStatusT_not_OK: "PruneStatusT st = OK \<longleftrightarrow> st = OK"
  by (simp add: PruneStatusT_def)

lemma pruned_ok [simp]: "pruned (Inr (OK, q)) = Inr (OK, q)"
  by (simp add: pruned_def)

lemma int32_of_small [simp]: "n \<le> INT32_MAX \<Longrightarrow> int32_of n = int n"
  by (simp add: int32_of_def sint_of_nat_small)

lemma array_size_written:
  assumes w: "writable E (4 + m) p" and n: "n \<le> INT32_MAX" and null: "isNull \<longrightarrow> n = 0"
  shows "\<exists>q. WriteAndValidateArraySize E isNull (int n) p = Inr (OK, q) \<and> wrote E p (enc32 (of_nat n)) q \<and> writable E m q"
proof -
  obtain q where "writeInt32 E (of_nat n) p = Inr (OK, q)" "wrote E p (enc32 (of_nat n)) q"
    using writeInt32_ok [OF writable_mono [OF w le_add1], of "of_nat n"] by blast
  with wrote_writable [of E p "enc32 (of_nat n)" q m] w null show ?thesis
    by (auto simp: WriteAndValidateArraySize_def)
qed

lemma array_size_read:
  assumes r: "readable E (enc32 (of_nat n) @ bs) p" and n: "n \<le> length bs"
  shows "\<exists>q. ReadAndValidateArraySize E p = Inr (Inr (int n), q) \<and> advanced E p 4 q \<and> readable E bs q"
proof -
  have small: "length bs \<le> INT32_MAX" using r by (auto simp: readable_def parcel_inv_def)
  obtain q where q: "readInt32 E p = Inr (Inr (of_nat n), q)" "advanced E p 4 q"
    using readInt32_ok readable_append(1) [OF r] by blast
  have bs: "readable E bs q" using readable_append(2) [OF r] q(2) by simp
  then have "dataAvail q = Inr (mDataSize q - mDataPos q)" "length bs \<le> mDataSize q - mDataPos q"
    by (auto simp: dataAvail_def dataSize_def dataPosition_def Let_def readable_def parcel_inv_def)
  with q bs small n show ?thesis by (auto simp: ReadAndValidateArraySize_def sint_of_nat_small Let_def)
qed

lemma null_array_read:
  assumes r: "readable E (enc32 (- 1)) p"
  shows "\<exists>q. ReadAndValidateArraySize E p = Inr (Inr (- 1), q) \<and> advanced E p 4 q"
  using readInt32_ok [OF r] by (auto simp: ReadAndValidateArraySize_def Let_def)

section \<open>Elements\<close>

lemma write_each_ok:
  assumes w: "\<And>i p. i < length xs \<Longrightarrow> writable E (length (enc (xs ! i))) p \<Longrightarrow>
      \<exists>q. w i p = Inr (OK, q) \<and> wrote E p (enc (xs ! i)) q"
    and "k + n = length xs" and "writable E (length (concat (map enc (drop k xs)))) p"
  shows "\<exists>q. write_each w k n p = Inr (OK, q) \<and> wrote E p (concat (map enc (drop k xs))) q"
  using assms(2,3)
proof (induction n arbitrary: k p)
  case 0
  then show ?case by (auto simp: writable_def intro: wrote_refl)
next
  case (Suc n)
  then have k: "k < length xs" and split: "drop k xs = xs ! k # drop (Suc k) xs" by (simp_all add: Cons_nth_drop_Suc)
  have wr: "writable E (length (enc (xs ! k)) + length (concat (map enc (drop (Suc k) xs)))) p"
    using Suc.prems(2) by (simp add: split)
  obtain q where q: "w k p = Inr (OK, q)" "wrote E p (enc (xs ! k)) q" using w [OF k writable_mono [OF wr le_add1]] by blast
  obtain r where "write_each w (Suc k) n q = Inr (OK, r)" "wrote E q (concat (map enc (drop (Suc k) xs))) r"
    using Suc.IH [of "Suc k" q] Suc.prems(1) wrote_writable [OF q(2) wr] by auto
  with q wrote_trans [OF q(2)] wr show ?case by (auto simp: split writable_def)
qed

lemma read_each_ok:
  assumes r: "\<And>i ys p. i < length xs \<Longrightarrow> length ys = length xs \<Longrightarrow> good (ys ! i) \<Longrightarrow> readable E (enc (xs ! i)) p \<Longrightarrow>
      \<exists>q. r i (wrap ys) p = Inr ((OK, wrap (ys[i := xs ! i])), q) \<and> advanced E p (length (enc (xs ! i))) q"
    and "k + n = length xs" "length ys = length xs" "take k ys = take k xs" "\<And>i. k \<le> i \<Longrightarrow> i < length xs \<Longrightarrow> good (ys ! i)"
    and "readable E (concat (map enc (drop k xs))) p"
  shows "\<exists>q. read_each r k n (wrap ys) p = Inr ((OK, wrap xs), q) \<and> advanced E p (length (concat (map enc (drop k xs)))) q"
  using assms(2-)
proof (induction n arbitrary: k ys p)
  case 0
  then show ?case by (auto simp: readable_def advanced_def)
next
  case (Suc n)
  then have k: "k < length xs" and split: "drop k xs = xs ! k # drop (Suc k) xs" by (simp_all add: Cons_nth_drop_Suc)
  have rd: "readable E (enc (xs ! k) @ concat (map enc (drop (Suc k) xs))) p" using Suc.prems(5) by (simp add: split)
  let ?ys = "ys[k := xs ! k]"
  obtain q where q: "r k (wrap ys) p = Inr ((OK, wrap ?ys), q)" "advanced E p (length (enc (xs ! k))) q"
    using r [OF k Suc.prems(2) Suc.prems(4) readable_append(1) [OF rd]] k by auto
  have "take (Suc k) ?ys = take (Suc k) xs" using k Suc.prems(2,3) by (simp add: take_Suc_conv_app_nth)
  then obtain s where "read_each r (Suc k) n (wrap ?ys) q = Inr ((OK, wrap xs), s)"
    "advanced E q (length (concat (map enc (drop (Suc k) xs)))) s"
    using Suc.IH [of "Suc k" ?ys q] Suc.prems readable_append(2) [OF rd q(2)] by auto
  with q(1) advanced_trans [OF q(2)] show ?case by (auto simp: split)
qed

lemma fill_list: "length ys = length xs \<Longrightarrow> (\<And>ys i v. store (wrap ys) i v = wrap (ys[i := v])) \<Longrightarrow> fill store xs (wrap ys) = wrap xs"
proof -
  assume len: "length ys = length xs" and st: "\<And>ys i v. store (wrap ys) i v = wrap (ys[i := v])"
  have "fold (\<lambda>i d. store d i (xs ! i)) [0..<k] (wrap ys) = wrap (take k xs @ drop k ys)" if "k \<le> length xs" for k
    using that
  proof (induction k)
    case (Suc k)
    then have "k < length ys" using len by simp
    then have "(take k xs @ drop k ys)[k := xs ! k] = take (Suc k) xs @ drop (Suc k) ys"
      using Suc.prems by (simp add: list_update_append take_Suc_conv_app_nth flip: Cons_nth_drop_Suc)
    with Suc st show ?case by simp
  qed simp
  from this [of "length xs"] len show ?thesis by (simp add: fill_def)
qed

lemma nonempty_count: "(\<And>x. x \<in> set xs \<Longrightarrow> enc x \<noteq> []) \<Longrightarrow> length xs \<le> length (concat (map enc xs))"
proof (induction xs)
  case (Cons x xs)
  from Cons.prems [of x] have "1 \<le> length (enc x)" by (cases "enc x") auto
  moreover have "length xs \<le> length (concat (map enc xs))" using Cons.IH Cons.prems by simp
  ultimately show ?case by simp
qed simp

lemma elements_written:
  assumes w: "\<And>i p. i < length xs \<Longrightarrow> writable E (length (enc (xs ! i))) p \<Longrightarrow>
      \<exists>q. w i p = Inr (OK, q) \<and> wrote E p (enc (xs ! i)) q"
    and ne: "\<And>x. x \<in> set xs \<Longrightarrow> enc x \<noteq> []" and null: "isNull \<longrightarrow> xs = []"
    and wr: "writable E (length (enc_vector enc xs)) p"
  shows "\<exists>q. bind_run (WriteAndValidateArraySize E isNull (int32_of (length xs)) p) (\<lambda>(status, p).
      if status \<noteq> OK then Inr (status, p) else if int32_of (length xs) \<le> 0 then Inr (OK, p)
      else write_each w 0 (nat (int32_of (length xs))) p) = Inr (OK, q) \<and> wrote E p (enc_vector enc xs) q \<and> length xs \<le> INT32_MAX"
proof -
  have wr: "writable E (4 + length (concat (map enc xs))) p" using wr by (simp add: enc_vector_def)
  have n: "length xs \<le> INT32_MAX" using nonempty_count [of xs enc] ne writable_small [OF wr] by fastforce
  obtain q where q: "WriteAndValidateArraySize E isNull (int (length xs)) p = Inr (OK, q)" "wrote E p (enc32 (of_nat (length xs))) q"
    "writable E (length (concat (map enc xs))) q"
    using array_size_written [OF wr n, of isNull] null by auto
  obtain r where r: "write_each w 0 (length xs) q = Inr (OK, r)" "wrote E q (concat (map enc xs)) r"
    using write_each_ok [of xs E enc w 0 "length xs" q] w q(3) by auto
  have "wrote E p (enc_vector enc xs) r" using wrote_trans [OF q(2) r(2)] wr by (simp add: enc_vector_def writable_def)
  with q r n show ?thesis by (cases "xs = []") auto
qed

text \<open>Elements that are copied as they lie in memory.\<close>

definition pods :: "('a \<Rightarrow> byte list) \<Rightarrow> (byte list \<Rightarrow> 'a) \<Rightarrow> nat \<Rightarrow> 'a list \<Rightarrow> bool" where
  "pods enc dec sz xs \<longleftrightarrow> 0 < sz \<and> (\<forall>x\<in>set xs. length (enc x) = sz \<and> dec (enc x) = x)"

lemma pods_length: "pods enc dec sz xs \<Longrightarrow> length (concat (map enc xs)) = length xs * sz"
  by (induction xs) (auto simp: pods_def)

lemma pods_decode: "pods enc dec sz xs \<Longrightarrow> dec_seq sz dec (length xs) (concat (map enc xs)) = xs"
  by (induction xs) (auto simp: pods_def)

lemma pods_count: "pods enc dec sz xs \<Longrightarrow> length xs \<le> length xs * sz"
  by (simp add: pods_def)

lemma WriteArray_ok:
  assumes pods: "pods enc dec sz xs" and w: "writable E (length (enc_pod enc xs)) p" and arr: "array = None \<longrightarrow> xs = []" "xs \<noteq> [] \<longrightarrow> array = Some xs"
  shows "\<exists>q. WriteArray enc sz E array (int32_of (length xs)) p = Inr (OK, q) \<and> wrote E p (enc_pod enc xs) q"
proof -
  have wr: "writable E (4 + padded_len (length xs * sz)) p" using w pods_length [OF pods] by (simp add: enc_pod_def)
  have size: "length xs * sz \<le> INT32_MAX" using writable_small [OF wr] padded_len_ge [of "length xs * sz"] by linarith
  then have n: "length xs \<le> INT32_MAX" using pods_count [OF pods] by linarith
  obtain q where q: "WriteAndValidateArraySize E (array = None) (int (length xs)) p = Inr (OK, q)"
    "wrote E p (enc32 (of_nat (length xs))) q" "writable E (padded_len (length xs * sz)) q"
    using array_size_written [OF wr n, of "array = None"] arr by auto
  show ?thesis
  proof (cases "xs = []")
    case True
    with q n show ?thesis by (auto simp: WriteArray_def enc_pod_def pad_bytes_def)
  next
    case False
    have "parcel_inv E q" "0 < mDataCapacity q" using q(2) by (auto simp: wrote_def parcel_inv_def)
    then have data: "mData q \<noteq> None" by (rule same_frame_data)
    obtain r s where r: "writeInplace E (length xs * sz) q = Inr (Some (mDataPos q), r)"
      "memcpy_in (mDataPos q) (concat (map enc xs)) r = Inr s" "wrote E q (pad_bytes (concat (map enc xs))) s"
      using writeInplace_fill [of E "concat (map enc xs)" "[]" q] q(3) data pods_length [OF pods] by (auto dest!: memcpy_in_Nil)
    have "wrote E p (enc_pod enc xs) s" using wrote_trans [OF q(2) r(3)] wr by (simp add: enc_pod_def writable_def)
    moreover have "array = Some xs" "\<not> int (length xs) \<le> 0" using False arr by simp_all
    ultimately show ?thesis using q(1) r(1,2) n size by (simp add: WriteArray_def mult.commute [of sz "length xs"])
  qed
qed

section \<open>Containers\<close>

locale container =
  fixes wrap :: "'a list \<Rightarrow> 'd" and elems :: "'d \<Rightarrow> 'a list" and store :: "'d \<Rightarrow> nat \<Rightarrow> 'a \<Rightarrow> 'd"
    and dst :: "'d \<Rightarrow> bool" and fits :: "nat \<Rightarrow> bool" and good :: "'a \<Rightarrow> bool"
    and con :: "'d contiguous" and ext :: "'d external"
  assumes elems_wrap: "elems (wrap ys) = ys"
    and store_wrap: "store (wrap ys) i v = wrap (ys[i := v])"
    and con_ok: "dst d \<Longrightarrow> fits n \<Longrightarrow> n \<le> INT32_MAX \<Longrightarrow>
      \<exists>ys. con d (int n) = (True, True, wrap ys) \<and> length ys = n \<and> (\<forall>y\<in>set ys. good y)"
    and ext_ok: "dst d \<Longrightarrow> fits n \<Longrightarrow> n \<le> INT32_MAX \<Longrightarrow>
      \<exists>ys. ext d (int n) = (True, wrap ys) \<and> length ys = n \<and> (\<forall>y\<in>set ys. good y)"
begin

lemma elements_read:
  assumes r: "\<And>i ys p. i < length xs \<Longrightarrow> length ys = length xs \<Longrightarrow> good (ys ! i) \<Longrightarrow> readable E (enc (xs ! i)) p \<Longrightarrow>
      \<exists>q. r i (wrap ys) p = Inr ((OK, wrap (ys[i := xs ! i])), q) \<and> advanced E p (length (enc (xs ! i))) q"
    and ne: "\<And>x. x \<in> set xs \<Longrightarrow> enc x \<noteq> []" and d: "dst d" "fits (length xs)"
    and rd: "readable E (enc_vector enc xs) p"
  shows "\<exists>q ys t. ReadAndValidateArraySize E p = Inr (Inr (int (length xs)), q) \<and> length xs \<le> INT32_MAX \<and>
      length (concat (map enc xs)) \<le> INT32_MAX \<and>
      ext d (int (length xs)) = (True, wrap ys) \<and> read_each r 0 (length xs) (wrap ys) q = Inr ((OK, wrap xs), t) \<and>
      advanced E p (length (enc_vector enc xs)) t \<and> length ys = length xs"
    "\<exists>q ys t. ReadAndValidateArraySize E p = Inr (Inr (int (length xs)), q) \<and> length xs \<le> INT32_MAX \<and>
      length (concat (map enc xs)) \<le> INT32_MAX \<and>
      con d (int (length xs)) = (True, True, wrap ys) \<and> read_each r 0 (length xs) (wrap ys) q = Inr ((OK, wrap xs), t) \<and>
      advanced E p (length (enc_vector enc xs)) t \<and> length ys = length xs"
proof -
  have rd: "readable E (enc32 (of_nat (length xs)) @ concat (map enc xs)) p" using rd by (simp add: enc_vector_def)
  have size: "length (concat (map enc xs)) \<le> INT32_MAX" using rd by (auto simp: readable_def parcel_inv_def)
  then have n: "length xs \<le> INT32_MAX" using nonempty_count [of xs enc] ne by fastforce
  obtain q where q: "ReadAndValidateArraySize E p = Inr (Inr (int (length xs)), q)" "advanced E p 4 q" "readable E (concat (map enc xs)) q"
    using array_size_read [OF rd] nonempty_count [of xs enc] ne by blast
  have each: "\<exists>t. read_each r 0 (length xs) (wrap ys) q = Inr ((OK, wrap xs), t) \<and> advanced E p (length (enc_vector enc xs)) t"
    if "length ys = length xs" "\<forall>y\<in>set ys. good y" for ys
    using read_each_ok [of xs good E enc r wrap 0 "length xs" ys q] r that q(3) advanced_trans [OF q(2)]
    by (fastforce simp: enc_vector_def)
  show "\<exists>q ys t. ReadAndValidateArraySize E p = Inr (Inr (int (length xs)), q) \<and> length xs \<le> INT32_MAX \<and>
      length (concat (map enc xs)) \<le> INT32_MAX \<and>
      ext d (int (length xs)) = (True, wrap ys) \<and> read_each r 0 (length xs) (wrap ys) q = Inr ((OK, wrap xs), t) \<and>
      advanced E p (length (enc_vector enc xs)) t \<and> length ys = length xs"
  proof -
    obtain ys where "ext d (int (length xs)) = (True, wrap ys)" "length ys = length xs" "\<forall>y\<in>set ys. good y" using ext_ok [OF d n] by blast
    with q(1) each [of ys] n size show ?thesis by blast
  qed
  show "\<exists>q ys t. ReadAndValidateArraySize E p = Inr (Inr (int (length xs)), q) \<and> length xs \<le> INT32_MAX \<and>
      length (concat (map enc xs)) \<le> INT32_MAX \<and>
      con d (int (length xs)) = (True, True, wrap ys) \<and> read_each r 0 (length xs) (wrap ys) q = Inr ((OK, wrap xs), t) \<and>
      advanced E p (length (enc_vector enc xs)) t \<and> length ys = length xs"
  proof -
    obtain ys where "con d (int (length xs)) = (True, True, wrap ys)" "length ys = length xs" "\<forall>y\<in>set ys. good y" using con_ok [OF d n] by blast
    with q(1) each [of ys] n size show ?thesis by blast
  qed
qed

lemma ReadArray_ok:
  assumes pods: "pods enc dec sz xs" and d: "dst d" "fits (length xs)" and rd: "readable E (enc_pod enc xs) p"
  shows "\<exists>q. ReadArray dec sz E con store d p = Inr ((OK, wrap xs), q) \<and> advanced E p (length (enc_pod enc xs)) q"
proof -
  have rd: "readable E (enc32 (of_nat (length xs)) @ pad_bytes (concat (map enc xs))) p" using rd by (simp add: enc_pod_def)
  have len: "length (concat (map enc xs)) = length xs * sz" using pods_length [OF pods] .
  have size: "padded_len (length xs * sz) \<le> INT32_MAX" using rd len by (auto simp: readable_def parcel_inv_def)
  have count: "length xs \<le> padded_len (length xs * sz)" using pods_count [OF pods] padded_len_ge [of "length xs * sz"] by linarith
  obtain q where q: "ReadAndValidateArraySize E p = Inr (Inr (int (length xs)), q)" "advanced E p 4 q"
    "readable E (pad_bytes (concat (map enc xs))) q"
    using array_size_read [OF rd] count len by auto
  obtain ys where ys: "con d (int (length xs)) = (True, True, wrap ys)" "length ys = length xs"
    using con_ok [OF d] count size by fastforce
  show ?thesis
  proof (cases "xs = []")
    case True
    with q ys show ?thesis by (auto simp: ReadArray_def enc_pod_def pad_bytes_def)
  next
    case False
    have "parcel_inv E q" "0 < mDataCapacity q" using q(2,3) False pods by (auto simp: advanced_def readable_def parcel_inv_def)
    then have "mData q \<noteq> None" by (rule same_frame_data)
    from readInplace_pad_ok [OF q(3) this] obtain s where
      s: "readInplace E (length xs * sz) q = Inr (Some (mDataPos q), s)" "advanced E q (padded_len (length xs * sz)) s"
        "\<And>i n. i + n \<le> length xs * sz \<Longrightarrow> memcpy_out (mDataPos q + i) n s = Inr (peek i n (concat (map enc xs)))"
      unfolding len by blast
    have "memcpy_out (mDataPos q) (length xs * sz) s = Inr (concat (map enc xs))" using s(3) [of 0 "length xs * sz"] len by (simp add: peek_def)
    moreover have "length xs * sz \<le> INT32_MAX" using size padded_len_ge [of "length xs * sz"] by linarith
    moreover have "fill store xs (wrap ys) = wrap xs" using fill_list [OF ys(2), of store wrap] store_wrap by simp
    ultimately show ?thesis
      using False q(1) ys(1) s(1) advanced_trans [OF q(2) s(2)] pods_decode [OF pods] len
      by (simp add: ReadArray_def mult.commute [of sz "length xs"] enc_pod_def)
  qed
qed

end

lemma resized_length [simp]: "length (resized z n xs) = n"
  by (simp add: resized_def)

lemma resized_set: "y \<in> set (resized z n xs) \<Longrightarrow> y = z \<or> y \<in> set xs"
  by (auto simp: resized_def dest: in_set_takeD split: if_splits)

text \<open>The four kinds of containers; \<open>P\<close> is what holds of every element, and of a fresh one.\<close>

interpretation vec: container id id AParcel_stdVectorSetter "\<lambda>d. \<forall>y\<in>set d. y = z \<or> P y" "\<lambda>n. True" "\<lambda>y. y = z \<or> P y"
    "AParcel_stdVectorAllocator z" "AParcel_stdVectorExternalAllocator z" for z P
  by unfold_locales
    (auto simp: AParcel_stdVectorSetter_def AParcel_stdVectorAllocator_def AParcel_stdVectorExternalAllocator_def dest!: resized_set)

interpretation arr: container id id AParcel_stdVectorSetter "\<lambda>d. length d = n \<and> (\<forall>y\<in>set d. P y)" "\<lambda>k. k = n" P
    "AParcel_stdArrayAllocator n" "AParcel_stdArrayExternalAllocator n" for n P
  by unfold_locales (auto simp: AParcel_stdVectorSetter_def AParcel_stdArrayAllocator_def AParcel_stdArrayExternalAllocator_def)

interpretation opt_vec: container Some the AParcel_nullableStdVectorSetter "\<lambda>d. True" "\<lambda>n. True" "\<lambda>y. y = z"
    "AParcel_nullableStdVectorAllocator z" "AParcel_nullableStdVectorExternalAllocator z" for z
  by unfold_locales
    (auto simp: AParcel_nullableStdVectorSetter_def AParcel_nullableStdVectorAllocator_def AParcel_nullableStdVectorExternalAllocator_def
      dest!: resized_set)

interpretation opt_arr: container Some the AParcel_nullableStdVectorSetter "\<lambda>d. True" "\<lambda>k. k = n" "\<lambda>y. y = z"
    "AParcel_nullableStdArrayAllocator z n" "AParcel_nullableStdArrayExternalAllocator z n" for z n
  by unfold_locales
    (auto simp: AParcel_nullableStdVectorSetter_def AParcel_nullableStdArrayAllocator_def AParcel_nullableStdArrayExternalAllocator_def)

section \<open>A writer and a reader into a destination\<close>

locale value_codec =
  fixes ok :: "'v \<Rightarrow> bool" and dst :: "'v \<Rightarrow> bool" and wr :: "env \<Rightarrow> 'v \<Rightarrow> parcel \<Rightarrow> status_t parcel_run"
    and rd :: "env \<Rightarrow> 'v \<Rightarrow> parcel \<Rightarrow> 'v into_run" and enc :: "'v \<Rightarrow> byte list"
  assumes wr_ok: "ok v \<Longrightarrow> writable E (length (enc v)) p \<Longrightarrow> \<exists>q. wr E v p = Inr (OK, q) \<and> wrote E p (enc v) q"
    and rd_ok: "ok v \<Longrightarrow> dst d \<Longrightarrow> readable E (enc v) p \<Longrightarrow> \<exists>q. rd E d p = Inr ((OK, v), q) \<and> advanced E p (length (enc v)) q"
    and enc_nonempty: "ok v \<Longrightarrow> enc v \<noteq> []"
begin

lemma roundtrip:
  assumes v: "ok v" "dst d" and w: "writable E (length (enc v)) p" and objs: "objects_within E (mDataPos p) (mObjects p)"
  shows "\<exists>q r. wr E v p = Inr (OK, q) \<and> rd E d (rewound (mDataPos p) q) = Inr ((OK, v), r) \<and> mDataPos r = mDataPos q"
proof -
  have inv: "parcel_inv E p" "mDataPos p \<le> mDataSize p" using w by (simp_all add: writable_def)
  obtain q where q: "wr E v p = Inr (OK, q)" "wrote E p (enc v) q" using wr_ok [OF v(1) w] by blast
  obtain r where "rd E d (rewound (mDataPos p) q) = Inr ((OK, v), r)" "advanced E (rewound (mDataPos p) q) (length (enc v)) r"
    using rd_ok [OF v wrote_readable [OF q(2) inv objs]] by blast
  with q show ?thesis by (auto simp: advanced_def wrote_def)
qed

text \<open>The same codec on another type.\<close>

lemma under:
  assumes un: "\<And>x. un (C x) = x"
  shows "value_codec (\<lambda>v. \<exists>x. v = C x \<and> ok x) (\<lambda>d. dst (un d)) (\<lambda>E v. wr E (un v)) (\<lambda>E d p. into_value C (rd E (un d) p)) (\<lambda>v. enc (un v))"
proof
  fix v E p
  assume "\<exists>x. v = C x \<and> ok x" and "writable E (length (enc (un v))) p"
  then show "\<exists>q. wr E (un v) p = Inr (OK, q) \<and> wrote E p (enc (un v)) q" using wr_ok un by auto
next
  fix v d E p
  assume v: "\<exists>x. v = C x \<and> ok x" and d: "dst (un d)" and r: "readable E (enc (un v)) p"
  then obtain x where x: "v = C x" "ok x" by blast
  obtain q where "rd E (un d) p = Inr ((OK, x), q)" "advanced E p (length (enc x)) q" using rd_ok [OF x(2) d, of E p] r x un by auto
  with x un show "\<exists>q. into_value C (rd E (un d) p) = Inr ((OK, v), q) \<and> advanced E p (length (enc (un v))) q"
    by (simp add: into_value_def)
next
  fix v assume "\<exists>x. v = C x \<and> ok x"
  then show "enc (un v) \<noteq> []" using enc_nonempty un by auto
qed

text \<open>The same codec under other definitions of the two directions.\<close>

lemma change:
  assumes "\<And>v. ok' v \<Longrightarrow> ok v" "\<And>d. dst' d \<Longrightarrow> dst d" "\<And>E v p. ok' v \<Longrightarrow> wr' E v p = wr E v p"
    "\<And>E d p. dst' d \<Longrightarrow> rd' E d p = rd E d p" "\<And>v. ok' v \<Longrightarrow> enc' v = enc v"
  shows "value_codec ok' dst' wr' rd' enc'"
  by unfold_locales (simp_all add: assms wr_ok rd_ok enc_nonempty)

lemma weaken: "(\<And>v. ok' v \<Longrightarrow> ok v) \<Longrightarrow> (\<And>d. dst' d \<Longrightarrow> dst d) \<Longrightarrow> value_codec ok' dst' wr rd enc"
  by unfold_locales (auto simp: wr_ok rd_ok enc_nonempty)

end

context parcel_element
begin

lemma ndk_codec: "value_codec (\<lambda>_. True) (\<lambda>_. True) (AParcel_write wr) (AParcel_read rd) enc"
proof
  fix v E p assume "writable E (length (enc v)) p"
  then show "\<exists>q. AParcel_write wr E v p = Inr (OK, q) \<and> wrote E p (enc v) q" using wr_ok by (fastforce simp: AParcel_write_def)
next
  fix v d E p assume "readable E (enc v) p"
  then show "\<exists>q. AParcel_read rd E d p = Inr ((OK, v), q) \<and> advanced E p (length (enc v)) q"
    using rd_ok by (fastforce simp: AParcel_read_def pruned_into_def)
qed (simp add: enc_nonempty)

lemma scalar_codec:
  assumes "\<And>x. un (C x) = x" "\<And>v. ok v \<Longrightarrow> \<exists>x. v = C x" "\<And>E v p. wr' E v p = AParcel_write wr E (un v) p"
    "\<And>E d p. rd' E d p = into_value C (AParcel_read rd E (un d) p)" "\<And>v. enc' v = enc (un v)"
  shows "value_codec ok dst wr' rd' enc'"
  by (rule value_codec.change [OF value_codec.under [OF ndk_codec, of un C]]) (auto simp: assms)

end

interpretation ndk_int32: value_codec "\<lambda>_. True" "\<lambda>_. True" "AParcel_write writeInt32" "AParcel_read readInt32" enc32
  by (rule int32.ndk_codec)

section \<open>Strings\<close>

text \<open>What libutils promises of a text: lengths are those of the conversions, and converting it back gives the text.\<close>

definition unicode_text :: "unicode \<Rightarrow> byte list \<Rightarrow> bool" where
  "unicode_text U s \<longleftrightarrow> utf8_to_utf16_length U s = int (length (utf8_to_utf16 U s)) \<and>
     utf16_to_utf8_length U (utf8_to_utf16 U s) = int (length s) \<and> utf16_to_utf8 U (utf8_to_utf16 U s) = s \<and>
     (utf8_to_utf16 U s = [] \<longrightarrow> s = []) \<and> length s < INT32_MAX"

definition wire_text :: "unicode \<Rightarrow> byte list option \<Rightarrow> byte list" where
  "wire_text U s = enc_string16 (map_option (utf8_to_utf16 U) s)"

lemma text_written:
  assumes t: "unicode_text U s" and w: "writable E (length (wire_text U (Some s))) p"
  shows "\<exists>q. AParcel_writeString U E (Some s) (int32_of (length s)) p = Inr (OK, q) \<and> wrote E p (wire_text U (Some s)) q"
proof -
  let ?t = "utf8_to_utf16 U s"
  let ?bs = "enc_chars ?t @ [0, 0]"
  have len: "length ?bs = (length ?t + 1) * 2" by simp
  have w4: "writable E (4 + padded_len (length ?bs)) p" using w by (simp add: wire_text_def enc_string16_def)
  have small: "length ?bs \<le> INT32_MAX" using writable_small [OF w4] padded_len_ge [of "length ?bs"] by linarith
  have body: "\<exists>r. bind_run (writeInplace E ((length ?t + 1) * 2) q) (\<lambda>(str16, p). case str16 of None \<Rightarrow> Inr (NO_MEMORY, p)
      | Some d \<Rightarrow> bind_run (memcpy_in d ?bs p) (\<lambda>p. Inr (OK, p))) = Inr (OK, r) \<and> wrote E q (pad_bytes ?bs) r"
    if "writable E (padded_len (length ?bs)) q" "mData q \<noteq> None" for q
    using writeInplace_fill [of E ?bs "[]" q] that unfolding len by (auto dest!: memcpy_in_Nil)
  obtain q r where q: "writeInt32 E (of_nat (length ?t)) p = Inr (NO_ERROR, q)"
    "bind_run (writeInplace E ((length ?t + 1) * 2) q) (\<lambda>(str16, p). case str16 of None \<Rightarrow> Inr (NO_MEMORY, p)
      | Some d \<Rightarrow> bind_run (memcpy_in d ?bs p) (\<lambda>p. Inr (OK, p))) = Inr (OK, r)"
    "wrote E p (enc32 (of_nat (length ?t)) @ pad_bytes ?bs) r"
    using wrote_header [OF w4 body, where v = "of_nat (length ?t)"] by blast
  have "AParcel_writeString U E (Some s) (int32_of (length s)) p = Inr (OK, r)"
    using t q(1,2) small by (simp add: AParcel_writeString_def unicode_text_def Let_def)
  with q(3) show ?thesis by (simp add: wire_text_def enc_string16_def)
qed

lemma text_read:
  assumes t: "unicode_text U s" and r: "readable E (wire_text U (Some s)) p"
    and al: "\<exists>d'. allocator d (int (length s) + 1) = (True, True, d') \<and> put d' s = x"
  shows "\<exists>q. AParcel_readString U E allocator put d p = Inr ((OK, x), q) \<and> advanced E p (length (wire_text U (Some s))) q"
proof -
  let ?t = "utf8_to_utf16 U s"
  have rd: "readable E (enc32 (of_nat (length ?t)) @ pad_bytes (enc_chars ?t @ [0, 0])) p"
    using r by (simp add: wire_text_def enc_string16_def)
  obtain q q' where q: "readInt32_value E p = Inr (of_nat (length ?t), q)" "sint (of_nat (length ?t) :: u32) = int (length ?t)"
    "length ?t < INT32_MAX" "readInplace E (length (enc_chars ?t @ [0, 0])) q = Inr (Some (mDataPos q), q')"
    "memcpy_out (mDataPos q) (length (enc_chars ?t)) q' = Inr (enc_chars ?t)"
    "memcpy_out (mDataPos q + length (enc_chars ?t)) (length [0, 0 :: byte]) q' = Inr [0, 0]"
    "advanced E p (4 + padded_len (length (enc_chars ?t @ [0, 0]))) q'"
    using read_counted [OF rd] by auto
  have "readString16Inplace E p = Inr (Some (mDataPos q, length ?t), q')"
    using q(1,2,3,4,6) by (simp add: readString16Inplace_def Let_def mult.commute numeral_2_eq_2)
  moreover have "(if length ?t = 0 then 1 else utf16_to_utf8_length U ?t + 1) = int (length s) + 1" using t by (auto simp: unicode_text_def)
  ultimately show ?thesis
    using q(5,7) t al by (auto simp: AParcel_readString_def unicode_text_def Let_def mult.commute wire_text_def enc_string16_def)
qed

lemma null_text_read:
  assumes r: "readable E (wire_text U None) p" and al: "\<exists>b. allocator d (- 1) = (True, b, x)"
  shows "\<exists>q. AParcel_readString U E allocator put d p = Inr ((OK, x), q) \<and> advanced E p (length (wire_text U None)) q"
proof -
  have "readable E (enc32 (- 1)) p" using r by (simp add: wire_text_def enc_string16_def)
  from readInt32_value_ok [OF this] al show ?thesis
    by (auto simp: AParcel_readString_def readString16Inplace_def wire_text_def enc_string16_def)
qed

lemma put_text_exact [simp]: "length b = length s \<Longrightarrow> put_text b s = s"
  by (simp add: put_text_def)

lemma string_allocated: "AParcel_stdStringAllocator str (int (length s) + 1) = (True, True, resized 0 (length s) str)"
  "AParcel_nullableStdStringAllocator str' (int (length s) + 1) = (True, True, Some (resized 0 (length s) []))"
  "AParcel_nullableStdStringAllocator str' (- 1) = (True, False, None)"
  by (simp_all add: AParcel_stdStringAllocator_def AParcel_nullableStdStringAllocator_def nat_add_distrib)

lemma wire_text_nonempty: "wire_text U s \<noteq> []"
  by (simp add: wire_text_def enc_scalar_nonempty)

lemma string_codec:
  "value_codec (unicode_text U) (\<lambda>_. True) (AParcel_writeString_std U) (AParcel_readString_std U) (\<lambda>s. wire_text U (Some s))"
proof
  fix v E p assume "unicode_text U v" "writable E (length (wire_text U (Some v))) p"
  then show "\<exists>q. AParcel_writeString_std U E v p = Inr (OK, q) \<and> wrote E p (wire_text U (Some v)) q"
    using text_written by (simp add: AParcel_writeString_std_def)
next
  fix v d E p assume "unicode_text U v" "readable E (wire_text U (Some v)) p"
  from text_read [OF this, of AParcel_stdStringAllocator d put_text v]
  show "\<exists>q. AParcel_readString_std U E d p = Inr ((OK, v), q) \<and> advanced E p (length (wire_text U (Some v))) q"
    by (simp add: AParcel_readString_std_def string_allocated)
qed (rule wire_text_nonempty)

lemma optional_string_codec:
  "value_codec (\<lambda>s. \<forall>t. s = Some t \<longrightarrow> unicode_text U t) (\<lambda>_. True) (AParcel_writeString_optional U) (AParcel_readString_optional U) (wire_text U)"
proof
  fix v E p assume v: "\<forall>t. v = Some t \<longrightarrow> unicode_text U t" and w: "writable E (length (wire_text U v)) p"
  show "\<exists>q. AParcel_writeString_optional U E v p = Inr (OK, q) \<and> wrote E p (wire_text U v) q"
  proof (cases v)
    case None
    then show ?thesis using writeInt32_ok [of E p "- 1"] w
      by (auto simp: AParcel_writeString_optional_def AParcel_writeString_def wire_text_def enc_string16_def)
  next
    case (Some t)
    then show ?thesis using text_written [of U t E p] v w by (auto simp: AParcel_writeString_optional_def)
  qed
next
  fix v d E p assume v: "\<forall>t. v = Some t \<longrightarrow> unicode_text U t" and r: "readable E (wire_text U v) p"
  let ?put = "\<lambda>d s. map_option (\<lambda>b. put_text b s) d"
  show "\<exists>q. AParcel_readString_optional U E d p = Inr ((OK, v), q) \<and> advanced E p (length (wire_text U v)) q"
  proof (cases v)
    case None
    then show ?thesis using null_text_read [of E U p AParcel_nullableStdStringAllocator d None ?put] r string_allocated(3) [of d]
      by (auto simp: AParcel_readString_optional_def)
  next
    case (Some t)
    then show ?thesis using text_read [of U t E p AParcel_nullableStdStringAllocator d ?put v] v r
      by (simp add: AParcel_readString_optional_def string_allocated)
  qed
qed (rule wire_text_nonempty)

section \<open>Parcelables\<close>

text \<open>What the code of a parcelable promises: the bytes \<open>enc k x\<close> for an object \<open>x\<close> that satisfies \<open>S k\<close>, both ways.\<close>

definition parcelables_ok :: "'p parcelables \<Rightarrow> (nat \<Rightarrow> 'p \<Rightarrow> bool) \<Rightarrow> (nat \<Rightarrow> 'p \<Rightarrow> byte list) \<Rightarrow> bool" where
  "parcelables_ok O' S enc \<longleftrightarrow>
     (\<forall>k x E p. S k x \<and> writable E (length (enc k x)) p \<longrightarrow> (\<exists>q. p_write O' k E x p = Inr (OK, q) \<and> wrote E p (enc k x) q)) \<and>
     (\<forall>k x d E p. S k x \<and> readable E (enc k x) p \<longrightarrow>
        (\<exists>q. p_read O' k E d p = Inr ((OK, x), q) \<and> advanced E p (length (enc k x)) q))"

lemma flag_read:
  assumes "readable E (enc32 w @ bs) p"
  shows "\<exists>q. AParcel_read readInt32 E d p = Inr ((OK, w), q) \<and> advanced E p 4 q \<and> readable E bs q"
proof -
  obtain q where q: "AParcel_read readInt32 E d p = Inr ((OK, w), q)" "advanced E p 4 q"
    using ndk_int32.rd_ok [where v = w and d = d and E = E and p = p] readable_append(1) [OF assms] by auto
  with readable_append(2) [OF assms, of q] show ?thesis by simp
qed

lemma flag_written:
  assumes w: "writable E (4 + n) p" and body: "\<And>q. writable E n q \<Longrightarrow> \<exists>r. f q = Inr (OK, r) \<and> wrote E q bs r"
  shows "\<exists>r. bind_run (AParcel_write writeInt32 E v p) (\<lambda>(status, p). if status \<noteq> OK then Inr (status, p) else f p) = Inr (OK, r) \<and>
    wrote E p (enc32 v @ bs) r"
  using wrote_header [OF w, of f OK bs v] body by (auto simp: AParcel_write_def)

lemma parcelable_codec:
  assumes ok: "parcelables_ok O' S enc"
  shows "value_codec (S k) (\<lambda>_. True) (\<lambda>E. AParcel_writeParcelable O' E k) (\<lambda>E. AParcel_readParcelable O' E k) (\<lambda>x. enc32 1 @ enc k x)"
proof
  fix v E p assume v: "S k v" and w: "writable E (length (enc32 1 @ enc k v)) p"
  have "\<exists>r. p_write O' k E v q = Inr (OK, r) \<and> wrote E q (enc k v) r" if "writable E (length (enc k v)) q" for q
    using ok v that by (auto simp: parcelables_ok_def)
  with flag_written [of E "length (enc k v)" p "p_write O' k E v" "enc k v" 1] w
  show "\<exists>q. AParcel_writeParcelable O' E k v p = Inr (OK, q) \<and> wrote E p (enc32 1 @ enc k v) q"
    by (simp add: AParcel_writeParcelable_def)
next
  fix v d E p assume v: "S k v" and r: "readable E (enc32 1 @ enc k v) p"
  obtain q where q: "AParcel_read readInt32 E 0 p = Inr ((OK, 1), q)" "advanced E p 4 q" "readable E (enc k v) q" using flag_read [OF r] by blast
  obtain t where t: "p_read O' k E d q = Inr ((OK, v), t)" "advanced E q (length (enc k v)) t"
    using ok v q(3) by (fastforce simp: parcelables_ok_def)
  with q advanced_trans [OF q(2) t(2)]
  show "\<exists>q. AParcel_readParcelable O' E k d p = Inr ((OK, v), q) \<and> advanced E p (length (enc32 1 @ enc k v)) q"
    by (simp add: AParcel_readParcelable_def)
qed (simp add: enc_scalar_nonempty)

definition wire_nullable :: "('p \<Rightarrow> byte list) \<Rightarrow> 'p option \<Rightarrow> byte list" where
  "wire_nullable enc x = (case x of None \<Rightarrow> enc32 0 | Some y \<Rightarrow> enc32 1 @ enc y)"

lemma nullable_parcelable_codec:
  assumes ok: "parcelables_ok O' S enc"
  shows "value_codec (\<lambda>x. \<forall>y. x = Some y \<longrightarrow> S k y) (\<lambda>_. True) (\<lambda>E. AParcel_writeNullableParcelable O' E k)
    (\<lambda>E. AParcel_readNullableParcelable O' E k) (wire_nullable (enc k))"
proof
  fix v E p assume v: "\<forall>y. v = Some y \<longrightarrow> S k y" and w: "writable E (length (wire_nullable (enc k) v)) p"
  show "\<exists>q. AParcel_writeNullableParcelable O' E k v p = Inr (OK, q) \<and> wrote E p (wire_nullable (enc k) v) q"
  proof (cases v)
    case None
    then show ?thesis using ndk_int32.wr_ok [where v = 0 and E = E and p = p] w by (simp add: AParcel_writeNullableParcelable_def wire_nullable_def)
  next
    case (Some y)
    then show ?thesis using value_codec.wr_ok [OF parcelable_codec [OF ok, of k], of y E p] v w
      by (simp add: AParcel_writeNullableParcelable_def AParcel_writeParcelable_def wire_nullable_def)
  qed
next
  fix v d E p assume v: "\<forall>y. v = Some y \<longrightarrow> S k y" and r: "readable E (wire_nullable (enc k) v) p"
  show "\<exists>q. AParcel_readNullableParcelable O' E k d p = Inr ((OK, v), q) \<and> advanced E p (length (wire_nullable (enc k) v)) q"
  proof (cases v)
    case None
    then show ?thesis using ndk_int32.rd_ok [where v = 0 and d = 0 and E = E and p = p] r by (auto simp: AParcel_readNullableParcelable_def wire_nullable_def)
  next
    case (Some y)
    obtain q where q: "AParcel_read readInt32 E 0 p = Inr ((OK, 1), q)" "advanced E p 4 q" "readable E (enc k y) q"
      using flag_read [of E 1 "enc k y" p] r Some by (auto simp: wire_nullable_def)
    obtain t where t: "p_read O' k E (p_blank O' k) q = Inr ((OK, y), t)" "advanced E q (length (enc k y)) t"
      using ok v q(3) Some by (fastforce simp: parcelables_ok_def)
    with Some q advanced_trans [OF q(2) t(2)] show ?thesis by (simp add: AParcel_readNullableParcelable_def wire_nullable_def)
  qed
qed (simp add: wire_nullable_def enc_scalar_nonempty split: option.split)

section \<open>Arrays over the codec of an element\<close>

context value_codec
begin

lemma writeParcelableArray_ok:
  assumes w: "\<And>i p. i < length xs \<Longrightarrow> w i p = wr E (xs ! i) p" and ok: "\<forall>x\<in>set xs. ok x"
    and wr: "writable E (length (enc_vector enc xs)) p"
  shows "\<exists>q. AParcel_writeParcelableArray E (int32_of (length xs)) w p = Inr (OK, q) \<and> wrote E p (enc_vector enc xs) q"
    "2 * length xs \<le> length (concat (map enc xs)) \<Longrightarrow> w = (\<lambda>i p. if i < length cs then pruned (writeChar E (cs ! i) p) else Inl Fault) \<Longrightarrow>
      a = None \<and> xs = [] \<or> a = Some cs \<Longrightarrow>
      \<exists>q. WriteArray_char16 E a (int32_of (length xs)) p = Inr (OK, q) \<and> wrote E p (enc_vector enc xs) q"
proof -
  have each: "\<exists>q. w i p = Inr (OK, q) \<and> wrote E p (enc (xs ! i)) q" if "i < length xs" "writable E (length (enc (xs ! i))) p" for i p
    using wr_ok ok w that by simp
  have ne: "enc x \<noteq> []" if "x \<in> set xs" for x using enc_nonempty ok that by blast
  have small: "length (concat (map enc xs)) \<le> INT32_MAX" using writable_small [OF wr] by (simp add: enc_vector_def)
  then have "length xs \<le> INT32_MAX" using nonempty_count [of xs enc] ne by fastforce
  then have pos: "\<not> int32_of (length xs) < 0" and n: "nat (int32_of (length xs)) = length xs" by simp_all
  show "\<exists>q. AParcel_writeParcelableArray E (int32_of (length xs)) w p = Inr (OK, q) \<and> wrote E p (enc_vector enc xs) q"
    using elements_written [of xs E enc w "int32_of (length xs) < 0" p] each ne pos wr unfolding AParcel_writeParcelableArray_def by blast
  assume two: "2 * length xs \<le> length (concat (map enc xs))" and w: "w = (\<lambda>i p. if i < length cs then pruned (writeChar E (cs ! i) p) else Inl Fault)"
    and a: "a = None \<and> xs = [] \<or> a = Some cs"
  have "\<not> 2 * nat (int32_of (length xs)) > INT32_MAX" using two small n by linarith
  then have "WriteArray_char16 E a (int32_of (length xs)) p =
      bind_run (WriteAndValidateArraySize E (a = None) (int32_of (length xs)) p) (\<lambda>(status, p).
      if status \<noteq> OK then Inr (status, p) else if int32_of (length xs) \<le> 0 then Inr (OK, p)
      else write_each w 0 (nat (int32_of (length xs))) p)"
    using a unfolding w WriteArray_char16_def by (cases "xs = []") (auto simp: fun_eq_iff cong: if_cong intro!: arg_cong [where f = "bind_run _"])
  then show "\<exists>q. WriteArray_char16 E a (int32_of (length xs)) p = Inr (OK, q) \<and> wrote E p (enc_vector enc xs) q"
    using elements_written [of xs E enc w "a = None" p] each ne a wr by (metis (no_types, lifting) option.distinct(1))
qed

end

lemma WriteArray_getter_eq:
  "WriteArray_getter wr E len getter p = AParcel_writeParcelableArray E len (\<lambda>i p. AParcel_write wr E (getter i) p) p"
  by (simp add: WriteArray_getter_def AParcel_writeParcelableArray_def AParcel_write_def)

lemma AParcel_writeStringArray_eq:
  "AParcel_writeStringArray U E len getter p = AParcel_writeParcelableArray E len (\<lambda>i p.
       case getter i of (str, elementLength) \<Rightarrow>
         if str = None \<and> elementLength \<noteq> - 1 then Inr (BAD_VALUE, p)
         else AParcel_writeString U E str elementLength p) p"
  by (simp add: AParcel_writeStringArray_def AParcel_writeParcelableArray_def)

lemma AParcel_readStringArray_eq:
  "AParcel_readStringArray U E al ea put d p =
    AParcel_readParcelableArray E al (\<lambda>i d p. AParcel_readString U E (ea i) (put i) d p) d p"
  by (simp add: AParcel_readStringArray_def AParcel_readParcelableArray_def)

context container
begin

lemma arrays_read:
  assumes c: "value_codec ok dst' wr rd enc" and good: "\<And>y. good y \<Longrightarrow> dst' y" and ok: "\<forall>x\<in>set xs. ok x" and d: "dst d" "fits (length xs)"
    and rd: "readable E (enc_vector enc xs) p"
    and r: "\<And>i ys p x q. i < length ys \<Longrightarrow> ok x \<Longrightarrow> good (ys ! i) \<Longrightarrow> rd E (ys ! i) p = Inr ((OK, x), q) \<Longrightarrow>
      r i (wrap ys) p = Inr ((OK, wrap (ys[i := x])), q)"
  shows "\<exists>q. AParcel_readParcelableArray E ext r d p = Inr ((OK, wrap xs), q) \<and> advanced E p (length (enc_vector enc xs)) q"
    "r = (\<lambda>i d p. pruned_into (rd' E p) d (setter d i)) \<Longrightarrow>
      \<exists>q. ReadArray_setter rd' E ext setter d p = Inr ((OK, wrap xs), q) \<and> advanced E p (length (enc_vector enc xs)) q"
    "r = (\<lambda>i d p. pruned_into (readChar E p) d (store' d i)) \<Longrightarrow> 2 * length xs \<le> length (concat (map enc xs)) \<Longrightarrow>
      \<exists>q. ReadArray_char16 E con store' d p = Inr ((OK, wrap xs), q) \<and> advanced E p (length (enc_vector enc xs)) q"
proof -
  have each: "\<exists>q. r i (wrap ys) p = Inr ((OK, wrap (ys[i := xs ! i])), q) \<and> advanced E p (length (enc (xs ! i))) q"
    if "i < length xs" "length ys = length xs" "good (ys ! i)" "readable E (enc (xs ! i)) p" for i ys p
    using value_codec.rd_ok [OF c _ good [OF that(3)] that(4)] r [of i ys "xs ! i" p] ok that(1,2,3) by (metis nth_mem)
  have ne: "enc x \<noteq> []" if "x \<in> set xs" for x using value_codec.enc_nonempty [OF c] ok that by blast
  note er = elements_read [of xs E enc r d p, OF each ne d rd]
  from er(1) show "\<exists>q. AParcel_readParcelableArray E ext r d p = Inr ((OK, wrap xs), q) \<and> advanced E p (length (enc_vector enc xs)) q"
    by (auto simp: AParcel_readParcelableArray_def)
  show "\<exists>q. ReadArray_setter rd' E ext setter d p = Inr ((OK, wrap xs), q) \<and> advanced E p (length (enc_vector enc xs)) q"
    if "r = (\<lambda>i d p. pruned_into (rd' E p) d (setter d i))"
    using er(1) that by (cases "xs = []") (auto simp: ReadArray_setter_def)
  show "\<exists>q. ReadArray_char16 E con store' d p = Inr ((OK, wrap xs), q) \<and> advanced E p (length (enc_vector enc xs)) q"
    if "r = (\<lambda>i d p. pruned_into (readChar E p) d (store' d i))" "2 * length xs \<le> length (concat (map enc xs))"
    using er(2) that by (cases "xs = []") (auto simp: ReadArray_char16_def)
qed

end

text \<open>A string that is read into a part of the data.\<close>

lemma readString_part:
  assumes al: "\<And>n. al' (g d) n = (case al d n of (ok, b, d') \<Rightarrow> (ok, b, g d'))"
    and put: "\<And>n d' s. al d n = (True, True, d') \<Longrightarrow> put' (g d') s = g (put d' s)"
  shows "AParcel_readString U E al' put' (g d) p =
    bind_run (AParcel_readString U E al put d p) (\<lambda>((status, x), p). Inr ((status, g x), p))"
  by (auto simp: AParcel_readString_def bind_run_def al put Let_def split: sum.splits option.splits prod.splits)

end
