(* ===== verification/Ndk_Values.thy ===== *)
theory Ndk_Values
  imports Ndk_Codec
begin

text \<open>
  Values of every type that the C++ layer of the NDK handles: what a value of a type is, which types the templates can be instantiated
  for, and the bytes of a value. The two directions of AParcel_writeData and AParcel_readData, and of their nullable variants, form a codec
  for each of the types, by induction on the type from the codecs and containers of the theory Ndk_Codec.
\<close>

section \<open>Values of a type\<close>

primrec has_type :: "ndk_type \<Rightarrow> 'p ndk_value \<Rightarrow> bool" where
  "has_type TBool v = (\<exists>b. v = VBool b)"
| "has_type TInt8 v = (\<exists>b. v = VByte b)"
| "has_type TUint8 v = (\<exists>b. v = VByte b)"
| "has_type TChar16 v = (\<exists>c. v = VChar c)"
| "has_type TInt32 v = (\<exists>w. v = VWord w)"
| "has_type TUint32 v = (\<exists>w. v = VWord w)"
| "has_type TInt64 v = (\<exists>l. v = VLong l)"
| "has_type TUint64 v = (\<exists>l. v = VLong l)"
| "has_type TFloat v = (\<exists>w. v = VWord w)"
| "has_type TDouble v = (\<exists>l. v = VLong l)"
| "has_type TEnum8 v = (\<exists>b. v = VByte b)"
| "has_type TEnum32 v = (\<exists>w. v = VWord w)"
| "has_type TEnum64 v = (\<exists>l. v = VLong l)"
| "has_type TString v = (\<exists>s. v = VText s)"
| "has_type (TParcelable k) v = (\<exists>x. v = VStruct x)"
| "has_type (TVector P) v = (\<exists>xs. v = VSeq xs \<and> (\<forall>x\<in>set xs. has_type P x))"
| "has_type (TArray P n) v = (\<exists>xs. v = VSeq xs \<and> length xs = n \<and> (\<forall>x\<in>set xs. has_type P x))"
| "has_type (TOptional P) v = (v = VNull \<or> has_type P v)"

text \<open>The values that can be sent: the texts in them are texts and the parcelables are as their code wants them.\<close>

primrec can_send :: "unicode \<Rightarrow> (nat \<Rightarrow> 'p \<Rightarrow> bool) \<Rightarrow> ndk_type \<Rightarrow> 'p ndk_value \<Rightarrow> bool" where
  "can_send U S TBool v = True"
| "can_send U S TInt8 v = True"
| "can_send U S TUint8 v = True"
| "can_send U S TChar16 v = True"
| "can_send U S TInt32 v = True"
| "can_send U S TUint32 v = True"
| "can_send U S TInt64 v = True"
| "can_send U S TUint64 v = True"
| "can_send U S TFloat v = True"
| "can_send U S TDouble v = True"
| "can_send U S TEnum8 v = True"
| "can_send U S TEnum32 v = True"
| "can_send U S TEnum64 v = True"
| "can_send U S TString v = unicode_text U (text_of v)"
| "can_send U S (TParcelable k) v = S k (struct_of v)"
| "can_send U S (TVector P) v = (\<forall>x\<in>set (seq_of v). can_send U S P x)"
| "can_send U S (TArray P n) v = (\<forall>x\<in>set (seq_of v). can_send U S P x)"
| "can_send U S (TOptional P) v = (v = VNull \<or> can_send U S P v)"

definition fit :: "unicode \<Rightarrow> (nat \<Rightarrow> 'p \<Rightarrow> bool) \<Rightarrow> ndk_type \<Rightarrow> 'p ndk_value \<Rightarrow> bool" where
  "fit U S P v \<longleftrightarrow> has_type P v \<and> can_send U S P v"

text \<open>The types for which the templates can be instantiated.\<close>

definition vector_element :: "ndk_type \<Rightarrow> bool" where
  "vector_element P \<longleftrightarrow> packed P \<or> P \<in> {TBool, TChar16, TString} \<or> (\<exists>k. P = TParcelable k)"

definition optional_vector_element :: "ndk_type \<Rightarrow> bool" where
  "optional_vector_element P \<longleftrightarrow> packed P \<or> P \<in> {TBool, TChar16, TOptional TString} \<or> (\<exists>k. P = TOptional (TParcelable k))"

primrec data_type :: "ndk_type \<Rightarrow> bool" where
  "data_type TBool = True"
| "data_type TInt8 = True"
| "data_type TUint8 = True"
| "data_type TChar16 = True"
| "data_type TInt32 = True"
| "data_type TUint32 = False"
| "data_type TInt64 = True"
| "data_type TUint64 = False"
| "data_type TFloat = True"
| "data_type TDouble = True"
| "data_type TEnum8 = True"
| "data_type TEnum32 = True"
| "data_type TEnum64 = True"
| "data_type TString = True"
| "data_type (TParcelable k) = True"
| "data_type (TVector P) = vector_element P"
| "data_type (TArray P n) = data_type P"
| "data_type (TOptional P) = False"

fun nullable_type :: "ndk_type \<Rightarrow> bool" where
  "nullable_type (TOptional (TVector P)) = optional_vector_element P"
| "nullable_type (TOptional (TArray P n)) = (P \<noteq> TString \<and> nullable_type P)"
| "nullable_type (TArray P n) = nullable_type P"
| "nullable_type (TOptional TString) = True"
| "nullable_type (TOptional (TParcelable k)) = True"
| "nullable_type P = data_type P"

section \<open>The bytes of a value\<close>

definition array_packed :: "ndk_type \<Rightarrow> bool" where
  "array_packed P \<longleftrightarrow> P \<in> {TUint8, TInt32, TInt64, TFloat, TDouble}"

primrec wire :: "unicode \<Rightarrow> (nat \<Rightarrow> 'p \<Rightarrow> byte list) \<Rightarrow> ndk_type \<Rightarrow> 'p ndk_value \<Rightarrow> byte list" where
  "wire U enc TBool v = enc_bool (bool_of v)"
| "wire U enc TInt8 v = enc_byte (byte_of v)"
| "wire U enc TUint8 v = enc_byte (byte_of v)"
| "wire U enc TChar16 v = enc_char (char_of v)"
| "wire U enc TInt32 v = enc32 (word_of v)"
| "wire U enc TUint32 v = enc32 (word_of v)"
| "wire U enc TInt64 v = enc64 (long_of v)"
| "wire U enc TUint64 v = enc64 (long_of v)"
| "wire U enc TFloat v = enc32 (word_of v)"
| "wire U enc TDouble v = enc64 (long_of v)"
| "wire U enc TEnum8 v = enc_byte (byte_of v)"
| "wire U enc TEnum32 v = enc32 (word_of v)"
| "wire U enc TEnum64 v = enc64 (long_of v)"
| "wire U enc TString v = wire_text U (Some (text_of v))"
| "wire U enc (TParcelable k) v = enc32 1 @ enc k (struct_of v)"
| "wire U enc (TVector P) v = (if packed P then enc_pod (elem_enc P) (seq_of v) else enc_vector (wire U enc P) (seq_of v))"
| "wire U enc (TArray P n) v = (if array_packed P then enc_pod (elem_enc P) (seq_of v) else enc_vector (wire U enc P) (seq_of v))"
| "wire U enc (TOptional P) v = []"

fun wire_null :: "unicode \<Rightarrow> (nat \<Rightarrow> 'p \<Rightarrow> byte list) \<Rightarrow> ndk_type \<Rightarrow> 'p ndk_value \<Rightarrow> byte list" where
  "wire_null U enc (TOptional (TVector P)) v =
     (if v = VNull then enc32 (- 1)
      else if packed P then enc_pod (elem_enc P) (seq_of v) else enc_vector (wire_null U enc P) (seq_of v))"
| "wire_null U enc (TOptional (TArray P n)) v =
     (if v = VNull then enc32 (- 1)
      else if array_packed P then enc_pod (elem_enc P) (seq_of v) else enc_vector (wire_null U enc P) (seq_of v))"
| "wire_null U enc (TArray P n) v =
     (if array_packed P then enc_pod (elem_enc P) (seq_of v) else enc_vector (wire_null U enc P) (seq_of v))"
| "wire_null U enc (TOptional TString) v = wire_text U (opt_of text_of v)"
| "wire_null U enc (TOptional (TParcelable k)) v = wire_nullable (enc k) (opt_of struct_of v)"
| "wire_null U enc P v = wire U enc P v"

section \<open>Scalars, strings and parcelables\<close>

abbreviation data_codec ::
  "unicode \<Rightarrow> 'p parcelables \<Rightarrow> (nat \<Rightarrow> 'p \<Rightarrow> bool) \<Rightarrow> (nat \<Rightarrow> 'p \<Rightarrow> byte list) \<Rightarrow> ndk_type \<Rightarrow> bool" where
  "data_codec U O' S enc P \<equiv> value_codec (fit U S P) (has_type P) (\<lambda>E. AParcel_writeData U O' E P) (\<lambda>E. AParcel_readData U O' E P)
     (wire U enc P)"

abbreviation null_codec ::
  "unicode \<Rightarrow> 'p parcelables \<Rightarrow> (nat \<Rightarrow> 'p \<Rightarrow> bool) \<Rightarrow> (nat \<Rightarrow> 'p \<Rightarrow> byte list) \<Rightarrow> ndk_type \<Rightarrow> bool" where
  "null_codec U O' S enc P \<equiv> value_codec (fit U S P) (has_type P) (\<lambda>E. AParcel_writeNullableData U O' E P)
     (\<lambda>E. AParcel_readNullableData U O' E P) (wire_null U enc P)"

lemma bool_data_codec: "data_codec U O' S enc TBool"
  by (rule boolean.scalar_codec [of bool_of VBool]) (auto simp: fit_def)

lemma byte_data_codecs: "data_codec U O' S enc TInt8" "data_codec U O' S enc TUint8" "data_codec U O' S enc TEnum8"
  by (rule byte8.scalar_codec [of byte_of VByte]; auto simp: fit_def)+

lemma char_data_codec: "data_codec U O' S enc TChar16"
  by (rule char16.scalar_codec [of char_of VChar]) (auto simp: fit_def)

lemma word_data_codecs: "data_codec U O' S enc TInt32" "data_codec U O' S enc TEnum32"
  by (rule int32.scalar_codec [of word_of VWord]; auto simp: fit_def)+

lemma float_data_codec: "data_codec U O' S enc TFloat"
  by (rule float32.scalar_codec [of word_of VWord]) (auto simp: fit_def)

lemma long_data_codecs: "data_codec U O' S enc TInt64" "data_codec U O' S enc TEnum64"
  by (rule int64.scalar_codec [of long_of VLong]; auto simp: fit_def)+

lemma double_data_codec: "data_codec U O' S enc TDouble"
  by (rule float64.scalar_codec [of long_of VLong]) (auto simp: fit_def)

lemmas scalar_data_codecs = bool_data_codec byte_data_codecs char_data_codec word_data_codecs float_data_codec long_data_codecs
  double_data_codec

lemma string_data_codec: "data_codec U O' S enc TString"
  by (rule value_codec.change [OF value_codec.under [OF string_codec, of text_of VText]]) (auto simp: fit_def)

lemma parcelable_data_codec: "parcelables_ok O' S enc \<Longrightarrow> data_codec U O' S enc (TParcelable k)"
  by (rule value_codec.change [OF value_codec.under [OF parcelable_codec, of _ _ _ struct_of VStruct k]]) (auto simp: fit_def)

section \<open>Elements of vectors and arrays\<close>

lemma elem_typed: "packed P \<Longrightarrow> has_type P x \<Longrightarrow> length (elem_enc P x) = elem_size P \<and> elem_dec P (elem_enc P x) = x"
  by (auto simp: packed_def elem_enc_def elem_dec_def elem_size_def)

lemma pods_typed: "packed P \<Longrightarrow> \<forall>x\<in>set xs. has_type P x \<Longrightarrow> pods (elem_enc P) (elem_dec P) (elem_size P) xs"
  using elem_typed by (fastforce simp: pods_def elem_size_def)

lemma same_update [simp]: "ys ! i = v \<Longrightarrow> ys[i := v] = ys"
  by (metis list_update_id)

lemma array_packed_packed: "array_packed P \<Longrightarrow> packed P"
  by (auto simp: array_packed_def packed_def)

lemma blank_typed: "has_type P (blank O' P)"
  by (induction P) auto

lemma chars_length: "2 * length xs \<le> length (concat (map (wire U enc TChar16) xs))"
  by (induction xs) (auto simp: enc_char_def)

lemma bools_written:
  assumes "\<forall>x\<in>set xs. has_type TBool x" "writable E (length (enc_vector (wire U enc TBool) xs)) p"
  shows "\<exists>q. WriteArray_getter writeBool E (int32_of (length xs)) (\<lambda>i. bool_of (xs ! i)) p = Inr (OK, q) \<and>
    wrote E p (enc_vector (wire U enc TBool) xs) q"
  unfolding WriteArray_getter_eq
  by (rule value_codec.writeParcelableArray_ok(1) [OF bool_data_codec]) (use assms in \<open>auto simp: fit_def\<close>)

lemma chars_written:
  assumes "\<forall>x\<in>set xs. has_type TChar16 x" "writable E (length (enc_vector (wire U enc TChar16) xs)) p"
    "a = None \<and> xs = [] \<or> a = Some (map char_of xs)"
  shows "\<exists>q. WriteArray_char16 E a (int32_of (length xs)) p = Inr (OK, q) \<and> wrote E p (enc_vector (wire U enc TChar16) xs) q"
  by (rule value_codec.writeParcelableArray_ok(2) [OF char_data_codec _ _ _ chars_length refl])
    (use assms in \<open>auto simp: fit_def AParcel_write_def\<close>)

lemma strings_written:
  assumes "\<forall>x\<in>set xs. fit U S TString x" "writable E (length (enc_vector (wire U enc TString) xs)) p"
  shows "\<exists>q. AParcel_writeStringArray U E (int32_of (length xs)) (AParcel_stdVectorStringElementGetter xs) p = Inr (OK, q) \<and>
    wrote E p (enc_vector (wire U enc TString) xs) q"
  unfolding AParcel_writeStringArray_eq
  by (rule value_codec.writeParcelableArray_ok(1) [OF string_data_codec [where S = S]])
    (use assms in \<open>auto simp: AParcel_stdVectorStringElementGetter_def AParcel_writeString_std_def\<close>)

lemma bools_read:
  assumes con: "container wrap elems store dst fits good con ext" "\<And>y. good y \<Longrightarrow> has_type TBool y"
    and xs: "\<forall>x\<in>set xs. has_type TBool x" "dst d" "fits (length xs)" "readable E (enc_vector (wire U enc TBool) xs) p"
  shows "\<exists>q. ReadArray_setter readBool E ext (\<lambda>d i b. store d i (VBool b)) d p = Inr ((OK, wrap xs), q) \<and>
    advanced E p (length (enc_vector (wire U enc TBool) xs)) q"
  by (rule container.arrays_read(2) [OF con(1) bool_data_codec con(2) _ xs(2-4) _ refl])
    (use xs(1) in \<open>auto simp: fit_def AParcel_read_def pruned_into_def into_value_def bind_run_def container.store_wrap [OF con(1)]
      dest!: con(2) split: sum.splits\<close>)

lemma chars_read:
  assumes con: "container wrap elems store dst fits good con ext" "\<And>y. good y \<Longrightarrow> has_type TChar16 y"
    and xs: "\<forall>x\<in>set xs. has_type TChar16 x" "dst d" "fits (length xs)" "readable E (enc_vector (wire U enc TChar16) xs) p"
  shows "\<exists>q. ReadArray_char16 E con (\<lambda>d i c. store d i (VChar c)) d p = Inr ((OK, wrap xs), q) \<and>
    advanced E p (length (enc_vector (wire U enc TChar16) xs)) q"
  by (rule container.arrays_read(3) [OF con(1) char_data_codec con(2) _ xs(2-4) _ refl chars_length])
    (use xs(1) in \<open>auto simp: fit_def AParcel_read_def pruned_into_def into_value_def bind_run_def container.store_wrap [OF con(1)]
      dest!: con(2) split: sum.splits\<close>)

lemma strings_read:
  assumes con: "container id elems store dst fits good con ext" "\<And>y. good y \<Longrightarrow> has_type TString y"
    and xs: "\<forall>x\<in>set xs. fit U S TString x" "dst d" "fits (length xs)" "readable E (enc_vector (wire U enc TString) xs) p"
  shows "\<exists>q. AParcel_readStringArray U E ext AParcel_stdVectorStringElementAllocator put_element d p = Inr ((OK, xs), q) \<and>
    advanced E p (length (enc_vector (wire U enc TString) xs)) q"
proof -
  have "AParcel_readString U E (AParcel_stdVectorStringElementAllocator i) (put_element i) ys p = Inr ((OK, ys[i := x]), q)"
    if i: "i < length ys" and g: "good (ys ! i)" and r: "AParcel_readData U O' E TString (ys ! i) p = Inr ((OK, x), q)" for i ys p x q O'
  proof -
    obtain s where s: "ys ! i = VText s" using con(2) [OF g] by auto
    then have "ys = ys[i := VText s]" by simp
    then show ?thesis
      using readString_part [of "AParcel_stdVectorStringElementAllocator i" "\<lambda>s. ys[i := VText s]" s AParcel_stdStringAllocator "put_element i"
          put_text U E p] i r s
      by (auto simp: AParcel_stdVectorStringElementAllocator_def put_element_def AParcel_readString_std_def into_value_def bind_run_def
          split: sum.splits prod.splits)
  qed
  then show ?thesis unfolding AParcel_readStringArray_eq
    using container.arrays_read(1) [OF con(1) string_data_codec con(2) xs,
        where r = "\<lambda>i d p. AParcel_readString U E (AParcel_stdVectorStringElementAllocator i) (put_element i) d p"]
    by simp
qed

text \<open>Elements that are sent one by one by the code for their type.\<close>

lemma each_written:
  assumes c: "value_codec ok dst wr rd enc" and "\<forall>x\<in>set xs. ok x" "writable E (length (enc_vector enc xs)) p"
  shows "\<exists>q. AParcel_writeParcelableArray E (int32_of (length xs)) (\<lambda>i p. wr E (xs ! i) p) p = Inr (OK, q) \<and> wrote E p (enc_vector enc xs) q"
  by (rule value_codec.writeParcelableArray_ok(1) [OF c]) (use assms in auto)

lemma each_read:
  assumes c: "value_codec ok dst' wr rd enc" and con: "container id elems store dst fits good con ext" "\<And>y. good y \<Longrightarrow> dst' y"
    and xs: "\<forall>x\<in>set xs. ok x" "dst d" "fits (length xs)" "readable E (enc_vector enc xs) p"
  shows "\<exists>q. AParcel_readParcelableArray E ext (at_index (rd E)) d p = Inr ((OK, xs), q) \<and> advanced E p (length (enc_vector enc xs)) q"
  using container.arrays_read(1) [OF con(1) c con(2) xs, where r = "at_index (rd E)"] by (simp add: at_index_def)

lemma each_read_optional:
  assumes c: "value_codec ok dst' wr rd enc" and con: "container Some elems store dst fits good con ext" "\<And>y. good y \<Longrightarrow> dst' y"
    and xs: "\<forall>x\<in>set xs. ok x" "dst d" "fits (length xs)" "readable E (enc_vector enc xs) p"
  shows "\<exists>q. AParcel_readParcelableArray E ext
      (\<lambda>i d p. bind_run (at_index (rd E) i (the d) p) (\<lambda>((status, xs), p). Inr ((status, Some xs), p))) d p = Inr ((OK, Some xs), q) \<and>
    advanced E p (length (enc_vector enc xs)) q"
  by (rule container.arrays_read(1) [OF con(1) c con(2) xs]) (simp_all add: at_index_def)

section \<open>Vectors\<close>

lemma enc_counted_nonempty [simp]: "enc_vector enc xs \<noteq> []" "enc_pod enc xs \<noteq> []"
  by (simp_all add: enc_vector_def enc_pod_def enc_scalar_nonempty)

lemma setters: "(\<lambda>d i v. d[i := v]) = AParcel_stdVectorSetter" "(\<lambda>d i v. map_option (\<lambda>xs. xs[i := v]) d) = AParcel_nullableStdVectorSetter"
  by (simp_all add: fun_eq_iff AParcel_stdVectorSetter_def AParcel_nullableStdVectorSetter_def)

abbreviation wire_vector :: "unicode \<Rightarrow> (nat \<Rightarrow> 'p \<Rightarrow> byte list) \<Rightarrow> ndk_type \<Rightarrow> 'p ndk_value list \<Rightarrow> byte list" where
  "wire_vector U enc P xs \<equiv> if packed P then enc_pod (elem_enc P) xs else enc_vector (wire U enc P) xs"

lemma vector_written:
  assumes ok: "parcelables_ok O' S enc" and P: "vector_element P" and xs: "\<forall>x\<in>set xs. fit U S P x"
    and w: "writable E (length (wire_vector U enc P xs)) p"
  shows "\<exists>q. AParcel_writeVector U O' E P xs p = Inr (OK, q) \<and> wrote E p (wire_vector U enc P xs) q"
proof -
  consider "packed P" | "P = TBool" | "P = TChar16" | "P = TString" | k where "P = TParcelable k" using P by (auto simp: vector_element_def)
  then show ?thesis
  proof cases
    case 1
    then have eq: "AParcel_writeVector U O' E P xs p =
        WriteArray (elem_enc P) (elem_size P) E (if xs = [] then None else Some xs) (int32_of (length xs)) p"
      by (auto simp: packed_def AParcel_writeVector_def Let_def)
    have "\<exists>q. WriteArray (elem_enc P) (elem_size P) E (if xs = [] then None else Some xs) (int32_of (length xs)) p = Inr (OK, q) \<and>
        wrote E p (enc_pod (elem_enc P) xs) q"
      by (rule WriteArray_ok [OF pods_typed [OF 1]]) (use 1 xs w in \<open>auto simp: fit_def\<close>)
    with 1 show ?thesis unfolding eq by simp
  next
    case 2
    with bools_written [of xs E U enc p] xs w show ?thesis by (simp add: AParcel_writeVector_def packed_def fit_def)
  next
    case 3
    with chars_written [of xs E U enc p "if xs = [] then None else Some (map char_of xs)"] xs w show ?thesis
      by (simp add: AParcel_writeVector_def packed_def fit_def)
  next
    case 4
    with strings_written [of xs U S E enc p] xs w show ?thesis by (simp add: AParcel_writeVector_def packed_def)
  next
    case (5 k)
    with each_written [OF parcelable_data_codec [OF ok], of xs U k E p] xs w show ?thesis by (simp add: AParcel_writeVector_def packed_def)
  qed
qed

lemma structs_in_place:
  "(\<lambda>i d p. bind_run (AParcel_readParcelable O' E k (struct_of (d ! i)) p) (\<lambda>((status, x), p). Inr ((status, d[i := VStruct x]), p))) =
    at_index (AParcel_readData U O' E (TParcelable k))"
  by (intro ext) (simp add: at_index_def into_value_def bind_run_def split: sum.split)

lemma vector_read:
  assumes ok: "parcelables_ok O' S enc" and P: "vector_element P" and xs: "\<forall>x\<in>set xs. fit U S P x" and d: "\<forall>y\<in>set d. has_type P y"
    and r: "readable E (wire_vector U enc P xs) p"
  shows "\<exists>q. AParcel_readVector U O' E P d p = Inr ((OK, xs), q) \<and> advanced E p (length (wire_vector U enc P xs)) q"
proof -
  note con = vec.container_axioms [of "blank O' P" "has_type P"]
  have good: "has_type P y" if "y = blank O' P \<or> has_type P y" for y using that blank_typed by blast
  have dst: "\<forall>y\<in>set d. y = blank O' P \<or> has_type P y" using d by blast
  have typed: "\<forall>x\<in>set xs. has_type P x" using xs by (simp add: fit_def)
  consider "packed P" | "P = TBool" | "P = TChar16" | "P = TString" | k where "P = TParcelable k" using P by (auto simp: vector_element_def)
  then show ?thesis
  proof cases
    case 1
    then have eq: "AParcel_readVector U O' E P d p =
        ReadArray (elem_dec P) (elem_size P) E (AParcel_stdVectorAllocator (blank O' P)) AParcel_stdVectorSetter d p"
      by (auto simp: packed_def AParcel_readVector_def Let_def setters)
    from container.ReadArray_ok [OF con pods_typed [OF 1 typed] dst TrueI, of E p] 1 r show ?thesis unfolding eq by simp
  next
    case 2
    from bools_read [OF con [unfolded 2] good [unfolded 2], of xs d E U enc p] typed dst r show ?thesis
      by (simp add: 2 AParcel_readVector_def packed_def)
  next
    case 3
    from chars_read [OF con [unfolded 3] good [unfolded 3], of xs d E U enc p] typed dst r show ?thesis
      by (simp add: 3 AParcel_readVector_def packed_def AParcel_stdVectorSetter_def)
  next
    case 4
    from strings_read [OF con [unfolded 4] good [unfolded 4], of xs U S d E enc p] xs dst r show ?thesis by (simp add: 4 AParcel_readVector_def packed_def)
  next
    case (5 k)
    from each_read [OF parcelable_data_codec [OF ok] con [unfolded 5] good [unfolded 5], of xs U d E p] xs dst r show ?thesis
      by (simp add: 5 AParcel_readVector_def packed_def structs_in_place [where U = U])
  qed
qed

lemma std_vector_codec:
  assumes ok: "parcelables_ok O' S enc" and P: "vector_element P"
  shows "data_codec U O' S enc (TVector P)"
proof -
  have c: "value_codec (\<lambda>xs. \<forall>x\<in>set xs. fit U S P x) (\<lambda>d. \<forall>y\<in>set d. has_type P y) (\<lambda>E. AParcel_writeVector U O' E P)
    (\<lambda>E. AParcel_readVector U O' E P) (wire_vector U enc P)"
    by unfold_locales (erule (1) vector_written [OF ok P], erule (2) vector_read [OF ok P], simp)
  show ?thesis by (rule value_codec.change [OF value_codec.under [OF c, of seq_of VSeq]]) (auto simp: fit_def)
qed

section \<open>Nullable strings and parcelables\<close>

lemma opt_of_of_opt [simp]: "opt_of text_of (of_opt VText x) = x" "opt_of struct_of (of_opt VStruct y) = y" "opt_of seq_of (of_opt VSeq z) = z"
  by (auto simp: opt_of_def of_opt_def split: option.split)

lemma opt_of_simps [simp]: "opt_of f VNull = None" "opt_of f (VSeq xs) = Some (f (VSeq xs))"
  by (simp_all add: opt_of_def)

lemma of_opt_simps [simp]: "of_opt f None = VNull" "of_opt f (Some x) = f x"
  by (simp_all add: of_opt_def)

lemma optionalE: "v = VNull \<or> (\<exists>x. v = f x \<and> Q x) \<Longrightarrow> \<exists>x. v = of_opt f x \<and> (\<forall>y. x = Some y \<longrightarrow> Q y)"
  by (metis of_opt_simps option.inject option.distinct(1))

lemma optional_string_null_codec: "null_codec U O' S enc (TOptional TString)"
  by (rule value_codec.change [OF value_codec.under [OF optional_string_codec, of "opt_of text_of" "of_opt VText"]])
    (auto simp: fit_def intro!: optionalE)

lemma optional_parcelable_null_codec: "parcelables_ok O' S enc \<Longrightarrow> null_codec U O' S enc (TOptional (TParcelable k))"
  by (rule value_codec.change [OF value_codec.under [OF nullable_parcelable_codec, of _ _ _ "opt_of struct_of" "of_opt VStruct" k]])
    (auto simp: fit_def intro!: optionalE)

lemma opt_strings_written:
  assumes "\<forall>x\<in>set xs. fit U S (TOptional TString) x" "writable E (length (enc_vector (wire_null U enc (TOptional TString)) xs)) p"
  shows "\<exists>q. AParcel_writeStringArray U E (int32_of (length xs)) (AParcel_nullableStdVectorStringElementGetter xs) p = Inr (OK, q) \<and>
    wrote E p (enc_vector (wire_null U enc (TOptional TString)) xs) q"
  unfolding AParcel_writeStringArray_eq
  by (rule value_codec.writeParcelableArray_ok(1) [OF optional_string_null_codec [where S = S]])
    (use assms in \<open>auto simp: AParcel_nullableStdVectorStringElementGetter_def AParcel_writeString_optional_def split: option.split\<close>)

lemma opt_string_in_place:
  assumes i: "i < length ys" and t: "has_type (TOptional TString) (ys ! i)"
    and r: "AParcel_readNullableData U O' E (TOptional TString) (ys ! i) p = Inr ((OK, x), q)"
  shows "AParcel_readString U E (AParcel_stdArrayNullableStringElementAllocator i) (put_element i) ys p = Inr ((OK, ys[i := x]), q)"
    "AParcel_readString U E (AParcel_nullableStdVectorStringElementAllocator i) (\<lambda>d s. map_option (\<lambda>xs. put_element i xs s) d) (Some ys) p =
      Inr ((OK, Some (ys[i := x])), q)"
proof -
  obtain s where s: "ys ! i = of_opt VText s" using t optionalE [of "ys ! i" VText "\<lambda>_. True"] by auto
  then have ys: "ys[i := of_opt VText s] = ys" by simp
  have put: "put_element i (ys[i := of_opt VText d']) t = ys[i := of_opt VText (map_option (\<lambda>b. put_text b t) d')]"
    if "AParcel_nullableStdStringAllocator s n = (True, True, d')" for n d' t
    using that i by (auto simp: AParcel_nullableStdStringAllocator_def put_element_def split: if_splits)
  have al: "AParcel_stdArrayNullableStringElementAllocator i (ys[i := of_opt VText s]) n =
      (case AParcel_nullableStdStringAllocator s n of (ok, b, d') \<Rightarrow> (ok, b, ys[i := of_opt VText d']))" for n
    using i by (simp add: AParcel_stdArrayNullableStringElementAllocator_def)
  have "AParcel_readString U E (AParcel_stdArrayNullableStringElementAllocator i) (put_element i) (ys[i := of_opt VText s]) p =
    bind_run (AParcel_readString U E AParcel_nullableStdStringAllocator (\<lambda>d s. map_option (\<lambda>b. put_text b s) d) s p)
      (\<lambda>((status, x), p). Inr ((status, ys[i := of_opt VText x]), p))"
    by (rule readString_part) (rule al, erule put)
  with r s ys
  show in_place: "AParcel_readString U E (AParcel_stdArrayNullableStringElementAllocator i) (put_element i) ys p = Inr ((OK, ys[i := x]), q)"
    by (auto simp: AParcel_readString_optional_def into_value_def bind_run_def split: sum.splits)
  show "AParcel_readString U E (AParcel_nullableStdVectorStringElementAllocator i) (\<lambda>d s. map_option (\<lambda>xs. put_element i xs s) d) (Some ys) p =
      Inr ((OK, Some (ys[i := x])), q)"
    using readString_part [of "AParcel_nullableStdVectorStringElementAllocator i" Some ys "AParcel_stdArrayNullableStringElementAllocator i"
        "\<lambda>d s. map_option (\<lambda>xs. put_element i xs s) d" "put_element i" U E p] in_place
    by (simp add: AParcel_nullableStdVectorStringElementAllocator_def)
qed

section \<open>Arrays of fixed size\<close>

text \<open>An array is sent by the code of its element type, of which the codec is given.\<close>

definition wire_array :: "ndk_type \<Rightarrow> ('p ndk_value \<Rightarrow> byte list) \<Rightarrow> 'p ndk_value list \<Rightarrow> byte list" where
  "wire_array P en xs = (if array_packed P then enc_pod (elem_enc P) xs else enc_vector en xs)"

lemma fixed_array_written:
  assumes c: "value_codec (fit U S P) dst wr rd en" and special: "P \<in> {TBool, TChar16, TString} \<Longrightarrow> en = wire U enc P"
    and xs: "\<forall>x\<in>set xs. fit U S P x" and w: "writable E (length (wire_array P en xs)) p"
  shows "\<exists>q. AParcel_writeFixedArray U E P (wr E) xs p = Inr (OK, q) \<and> wrote E p (wire_array P en xs) q"
proof -
  have typed: "\<forall>x\<in>set xs. has_type P x" using xs by (simp add: fit_def)
  consider "P = TBool" | "P = TChar16" | "array_packed P" | "P = TString" | "P \<notin> {TBool, TChar16, TString}" "\<not> array_packed P" by auto
  then show ?thesis
  proof cases
    case 1
    with bools_written [of xs E U enc p] typed special w show ?thesis by (simp add: AParcel_writeFixedArray_def wire_array_def array_packed_def)
  next
    case 2
    with chars_written [of xs E U enc p "Some (map char_of xs)"] typed special w show ?thesis
      by (simp add: AParcel_writeFixedArray_def wire_array_def array_packed_def)
  next
    case 3
    then have eq: "AParcel_writeFixedArray U E P (wr E) xs p = WriteArray (elem_enc P) (elem_size P) E (Some xs) (int32_of (length xs)) p"
      by (auto simp: array_packed_def AParcel_writeFixedArray_def Let_def)
    from WriteArray_ok [OF pods_typed [OF array_packed_packed [OF 3] typed], of E p "Some xs"] w 3 show ?thesis
      unfolding eq by (simp add: wire_array_def)
  next
    case 4
    with strings_written [of xs U S E enc p] xs special w show ?thesis by (simp add: AParcel_writeFixedArray_def wire_array_def array_packed_def)
  next
    case 5
    then have eq: "AParcel_writeFixedArray U E P (wr E) xs p =
        AParcel_writeParcelableArray E (int32_of (length xs)) (\<lambda>i p. wr E (xs ! i) p) p"
      by (auto simp: array_packed_def AParcel_writeFixedArray_def Let_def)
    from each_written [OF c xs, of E p] 5 w show ?thesis unfolding eq by (simp add: wire_array_def)
  qed
qed

lemma fixed_array_read:
  assumes c: "value_codec (fit U S P) (has_type P) wr rd en" and special: "P \<in> {TBool, TChar16, TString} \<Longrightarrow> en = wire U enc P"
    and xs: "\<forall>x\<in>set xs. fit U S P x" "length xs = n" and d: "\<forall>y\<in>set d. has_type P y" "length d = n"
    and r: "readable E (wire_array P en xs) p"
  shows "\<exists>q. AParcel_readFixedArray U E P n (rd E) d p = Inr ((OK, xs), q) \<and> advanced E p (length (wire_array P en xs)) q"
proof -
  note con = arr.container_axioms [of n "has_type P"]
  have dst: "length d = n \<and> (\<forall>y\<in>set d. has_type P y)" using d by blast
  have typed: "\<forall>x\<in>set xs. has_type P x" using xs by (simp add: fit_def)
  consider "P = TBool" | "P = TChar16" | "array_packed P" | "P = TString" | "P \<notin> {TBool, TChar16, TString}" "\<not> array_packed P" by auto
  then show ?thesis
  proof cases
    case 1
    from bools_read [OF con [unfolded 1], of xs d E U enc p] typed special dst xs(2) r show ?thesis
      by (simp add: 1 AParcel_readFixedArray_def wire_array_def array_packed_def AParcel_stdVectorSetter_def)
  next
    case 2
    from chars_read [OF con [unfolded 2], of xs d E U enc p] typed special dst xs(2) r show ?thesis
      by (simp add: 2 AParcel_readFixedArray_def wire_array_def array_packed_def AParcel_stdVectorSetter_def)
  next
    case 3
    then have eq: "AParcel_readFixedArray U E P n (rd E) d p = ReadArray (elem_dec P) (elem_size P) E (AParcel_stdArrayAllocator n) AParcel_stdVectorSetter d p"
      by (auto simp: array_packed_def AParcel_readFixedArray_def setters)
    from container.ReadArray_ok [OF con pods_typed [OF array_packed_packed [OF 3] typed] dst xs(2), of E p] 3 r show ?thesis
      unfolding eq by (simp add: wire_array_def)
  next
    case 4
    from strings_read [OF con [unfolded 4], of xs U S d E enc p] xs special dst r show ?thesis
      by (simp add: 4 AParcel_readFixedArray_def wire_array_def array_packed_def)
  next
    case 5
    then have eq: "AParcel_readFixedArray U E P n (rd E) d p = AParcel_readParcelableArray E (AParcel_stdArrayExternalAllocator n) (at_index (rd E)) d p"
      by (auto simp: array_packed_def AParcel_readFixedArray_def)
    from each_read [OF c con _ xs(1) dst xs(2), of E p] 5 r show ?thesis unfolding eq by (simp add: wire_array_def)
  qed
qed

lemma array_codec:
  assumes c: "value_codec (fit U S P) (has_type P :: 'p ndk_value \<Rightarrow> bool) wr rd en" and special: "P \<in> {TBool, TChar16, TString} \<Longrightarrow> en = wire U enc P"
  shows "value_codec (\<lambda>xs. length xs = n \<and> (\<forall>x\<in>set xs. fit U S P x)) (\<lambda>d. length d = n \<and> (\<forall>y\<in>set d. has_type P y))
    (\<lambda>E. AParcel_writeFixedArray U E P (wr E)) (\<lambda>E. AParcel_readFixedArray U E P n (rd E)) (wire_array P en)"
proof
  fix v E p assume v: "length v = n \<and> (\<forall>x\<in>set v. fit U S P x)" and "writable E (length (wire_array P en v)) p"
  with fixed_array_written [OF c special, of v E p] show "\<exists>q. AParcel_writeFixedArray U E P (wr E) v p = Inr (OK, q) \<and> wrote E p (wire_array P en v) q"
    by blast
next
  fix v d :: "'p ndk_value list" and E p
  assume "length v = n \<and> (\<forall>x\<in>set v. fit U S P x)" "length d = n \<and> (\<forall>y\<in>set d. has_type P y)" "readable E (wire_array P en v) p"
  with fixed_array_read [OF c special, of v n d E p]
  show "\<exists>q. AParcel_readFixedArray U E P n (rd E) d p = Inr ((OK, v), q) \<and> advanced E p (length (wire_array P en v)) q" by blast
qed (simp add: wire_array_def)

lemma all_data_codecs: "parcelables_ok O' S enc \<Longrightarrow> data_type P \<Longrightarrow> data_codec U O' S enc P"
proof (induction P)
  case (TArray P n)
  from TArray have c: "data_codec U O' S enc P" by simp
  show ?case by (rule value_codec.change [OF value_codec.under [OF array_codec [OF c], of enc seq_of VSeq n]]) (auto simp: fit_def wire_array_def)
qed (simp_all add: scalar_data_codecs string_data_codec parcelable_data_codec std_vector_codec)

section \<open>Null vectors and arrays\<close>

lemma null_written:
  assumes "writable E (length (enc32 (- 1))) p"
  shows "\<exists>q. AParcel_write writeInt32 E (- 1) p = Inr (OK, q) \<and> wrote E p (enc32 (- 1)) q"
    "\<exists>q. WriteAndValidateArraySize E True (- 1) p = Inr (OK, q) \<and> wrote E p (enc32 (- 1)) q"
  using writeInt32_ok [of E p "- 1"] assms by (auto simp: AParcel_write_def WriteAndValidateArraySize_def)

lemma null_arrays_written:
  assumes "writable E (length (enc32 (- 1))) p"
  shows "\<exists>q. WriteArray_getter wr E (- 1) g p = Inr (OK, q) \<and> wrote E p (enc32 (- 1)) q"
    "\<exists>q. WriteArray_char16 E None (- 1) p = Inr (OK, q) \<and> wrote E p (enc32 (- 1)) q"
    "\<exists>q. WriteArray en sz E None (- 1) p = Inr (OK, q) \<and> wrote E p (enc32 (- 1)) q"
    "\<exists>q. AParcel_writeStringArray U E (- 1) g' p = Inr (OK, q) \<and> wrote E p (enc32 (- 1)) q"
  using null_written(2) [OF assms]
  by (auto simp: WriteArray_getter_def WriteArray_char16_def WriteArray_def AParcel_writeStringArray_def)

lemma null_arrays_read:
  assumes "readable E (enc32 (- 1)) p"
  shows "ext d (- 1) = (True, x) \<Longrightarrow> \<exists>q. AParcel_readParcelableArray E ext r d p = Inr ((OK, x), q) \<and> advanced E p 4 q"
    "ext d (- 1) = (True, x) \<Longrightarrow> \<exists>q. ReadArray_setter rd E ext setter d p = Inr ((OK, x), q) \<and> advanced E p 4 q"
    "con d (- 1) = (True, b, x) \<Longrightarrow> \<exists>q. ReadArray_char16 E con store d p = Inr ((OK, x), q) \<and> advanced E p 4 q"
    "con d (- 1) = (True, b, x) \<Longrightarrow> \<exists>q. ReadArray dec sz E con store' d p = Inr ((OK, x), q) \<and> advanced E p 4 q"
  using null_array_read [OF assms]
  by (auto simp: AParcel_readParcelableArray_def ReadArray_setter_def ReadArray_char16_def ReadArray_def)

abbreviation wire_opt_vector :: "unicode \<Rightarrow> (nat \<Rightarrow> 'p \<Rightarrow> byte list) \<Rightarrow> ndk_type \<Rightarrow> 'p ndk_value list option \<Rightarrow> byte list" where
  "wire_opt_vector U enc P v \<equiv> case v of None \<Rightarrow> enc32 (- 1)
     | Some xs \<Rightarrow> if packed P then enc_pod (elem_enc P) xs else enc_vector (wire_null U enc P) xs"

lemma wire_null_plain [simp]: "wire_null U enc TBool = wire U enc TBool" "wire_null U enc TChar16 = wire U enc TChar16"
  "wire_null U enc TString = wire U enc TString"
  by (simp_all add: fun_eq_iff)

lemma opt_vector_cases:
  assumes "optional_vector_element P"
  obtains "packed P" | "P = TBool" | "P = TChar16" | "P = TOptional TString" | k where "P = TOptional (TParcelable k)"
  using assms by (auto simp: optional_vector_element_def)

lemma opt_vector_written:
  assumes ok: "parcelables_ok O' S enc" and P: "optional_vector_element P" and v: "\<And>xs. v = Some xs \<Longrightarrow> \<forall>x\<in>set xs. fit U S P x"
    and w: "writable E (length (wire_opt_vector U enc P v)) p"
  shows "\<exists>q. AParcel_writeVector_optional U O' E P v p = Inr (OK, q) \<and> wrote E p (wire_opt_vector U enc P v) q"
proof (cases v)
  case None
  with w have w: "writable E (length (enc32 (- 1))) p" by simp
  from P show ?thesis unfolding None
    by (cases rule: opt_vector_cases)
      (auto simp: AParcel_writeVector_optional_def packed_def intro!: null_arrays_written [OF w] null_written [OF w])
next
  case (Some xs)
  from v Some have xs: "\<forall>x\<in>set xs. fit U S P x" by blast
  have plain: ?thesis if "vector_element P" "wire_null U enc P = wire U enc P"
      "AParcel_writeVector_optional U O' E P (Some xs) p = AParcel_writeVector U O' E P xs p"
    using vector_written [OF ok that(1) xs, of E p] w unfolding Some option.case that(2,3) by blast
  from P show ?thesis
  proof (cases rule: opt_vector_cases)
    case 1
    then show ?thesis by (intro plain) (auto simp: vector_element_def packed_def AParcel_writeVector_optional_def fun_eq_iff)
  next
    case 2
    then show ?thesis by (intro plain) (auto simp: vector_element_def AParcel_writeVector_optional_def fun_eq_iff)
  next
    case 3
    then show ?thesis by (intro plain) (auto simp: vector_element_def AParcel_writeVector_optional_def fun_eq_iff)
  next
    case 4
    with opt_strings_written [of xs U S E enc p] xs w show ?thesis by (simp add: Some AParcel_writeVector_optional_def packed_def)
  next
    case (5 k)
    with each_written [OF optional_parcelable_null_codec [OF ok], of xs U k E p] xs w show ?thesis
      by (simp add: Some AParcel_writeVector_optional_def packed_def)
  qed
qed

lemma opt_allocators_null:
  "AParcel_nullableStdVectorExternalAllocator z d (- 1) = (True, None)" "AParcel_nullableStdVectorAllocator z d (- 1) = (True, False, None)"
  "AParcel_nullableStdArrayExternalAllocator z n d (- 1) = (True, None)" "AParcel_nullableStdArrayAllocator z n d (- 1) = (True, False, None)"
  by (simp_all add: AParcel_nullableStdVectorExternalAllocator_def AParcel_nullableStdVectorAllocator_def
      AParcel_nullableStdArrayExternalAllocator_def AParcel_nullableStdArrayAllocator_def)

lemma opt_vector_read:
  assumes ok: "parcelables_ok O' S enc" and P: "optional_vector_element P" and v: "\<And>xs. v = Some xs \<Longrightarrow> \<forall>x\<in>set xs. fit U S P x"
    and r: "readable E (wire_opt_vector U enc P v) p"
  shows "\<exists>q. AParcel_readVector_optional U O' E P d p = Inr ((OK, v), q) \<and> advanced E p (length (wire_opt_vector U enc P v)) q"
proof (cases v)
  case None
  with r have r: "readable E (enc32 (- 1)) p" by simp
  from P show ?thesis unfolding None option.case
    by (cases rule: opt_vector_cases)
      (auto simp: AParcel_readVector_optional_def AParcel_readStringArray_eq packed_def Let_def opt_allocators_null intro!: null_arrays_read [OF r])
next
  case (Some xs)
  note con = opt_vec.container_axioms [of "blank O' P"]
  have good: "has_type P y" if "y = blank O' P" for y using that blank_typed by blast
  from v Some have xs: "\<forall>x\<in>set xs. fit U S P x" "\<forall>x\<in>set xs. has_type P x" by (auto simp: fit_def)
  from P show ?thesis
  proof (cases rule: opt_vector_cases)
    case 1
    then have eq: "AParcel_readVector_optional U O' E P d p =
        ReadArray (elem_dec P) (elem_size P) E (AParcel_nullableStdVectorAllocator (blank O' P)) AParcel_nullableStdVectorSetter d p"
      by (auto simp: packed_def AParcel_readVector_optional_def Let_def setters(2))
    from container.ReadArray_ok [OF con pods_typed [OF 1 xs(2)] TrueI TrueI, where d = d and E = E and p = p] 1 r show ?thesis unfolding eq by (simp add: Some)
  next
    case 2
    from bools_read [OF con [unfolded 2] good [unfolded 2], where xs = xs and d = d and E = E and U = U and enc = enc and p = p] xs r show ?thesis
      by (simp add: 2 Some AParcel_readVector_optional_def packed_def)
  next
    case 3
    from chars_read [OF con [unfolded 3] good [unfolded 3], where xs = xs and d = d and E = E and U = U and enc = enc and p = p] xs r show ?thesis
      by (simp add: 3 Some AParcel_readVector_optional_def packed_def AParcel_nullableStdVectorSetter_def)
  next
    case 4
    have "\<exists>q. AParcel_readVector_optional U O' E P d p = Inr ((OK, Some xs), q) \<and>
        advanced E p (length (enc_vector (wire_null U enc (TOptional TString)) xs)) q"
      unfolding 4 AParcel_readVector_optional_def AParcel_readStringArray_eq Let_def ndk_type.case
      by (rule container.arrays_read(1) [OF con [unfolded 4] optional_string_null_codec good [unfolded 4] xs(1) [unfolded 4]])
        (use r in \<open>auto simp: 4 Some packed_def opt_string_in_place(2)\<close>)
    then show ?thesis by (simp add: 4 Some packed_def)
  next
    case (5 k)
    have "\<exists>q. AParcel_readVector_optional U O' E P d p = Inr ((OK, Some xs), q) \<and>
        advanced E p (length (enc_vector (wire_null U enc (TOptional (TParcelable k))) xs)) q"
      unfolding 5 AParcel_readVector_optional_def Let_def ndk_type.case
      by (rule container.arrays_read(1) [OF con [unfolded 5] optional_parcelable_null_codec [OF ok] good [unfolded 5] xs(1) [unfolded 5]])
        (use r in \<open>auto simp: 5 Some packed_def into_value_def bind_run_def split: sum.splits\<close>)
    then show ?thesis by (simp add: 5 Some packed_def)
  qed
qed

lemma opt_vector_codec:
  assumes ok: "parcelables_ok O' S enc" and P: "optional_vector_element P"
  shows "null_codec U O' S enc (TOptional (TVector P))"
proof -
  have c: "value_codec (\<lambda>v. \<forall>xs. v = Some xs \<longrightarrow> (\<forall>x\<in>set xs. fit U S P x)) (\<lambda>_. True) (\<lambda>E. AParcel_writeVector_optional U O' E P)
    (\<lambda>E. AParcel_readVector_optional U O' E P) (wire_opt_vector U enc P)"
    by unfold_locales (rule opt_vector_written [OF ok P], simp_all, rule opt_vector_read [OF ok P], simp_all,
      simp add: enc_scalar_nonempty split: option.split)
  show ?thesis
    by (rule value_codec.change [OF value_codec.under [OF c, of "opt_of seq_of" "of_opt VSeq"]])
      (auto simp: fit_def intro!: optionalE)
qed

lemma nullable_array_codec:
  assumes c: "null_codec U O' S enc P"
  shows "value_codec (\<lambda>xs. length xs = n \<and> (\<forall>x\<in>set xs. fit U S P x)) (\<lambda>d. length d = n \<and> (\<forall>y\<in>set d. has_type P y))
    (\<lambda>E. AParcel_writeFixedArrayWithNullableData U E P (AParcel_writeNullableData U O' E P))
    (\<lambda>E. AParcel_readFixedArrayWithNullableData U E P n (AParcel_readNullableData U O' E P)) (wire_array P (wire_null U enc P))"
proof (cases "P = TOptional TString")
  case True
  note con = arr.container_axioms [of n "has_type (TOptional TString)"]
  show ?thesis unfolding True
  proof
    fix v E p assume "length v = n \<and> (\<forall>x\<in>set v. fit U S (TOptional TString) x)"
      and "writable E (length (wire_array (TOptional TString) (wire_null U enc (TOptional TString)) v)) p"
    then show "\<exists>q. AParcel_writeFixedArrayWithNullableData U E (TOptional TString) (AParcel_writeNullableData U O' E (TOptional TString)) v p =
        Inr (OK, q) \<and> wrote E p (wire_array (TOptional TString) (wire_null U enc (TOptional TString)) v) q"
      using opt_strings_written [of v U S E enc p] by (simp add: AParcel_writeFixedArrayWithNullableData_def plain_def wire_array_def array_packed_def)
  next
    fix v d :: "'a ndk_value list" and E p
    assume v: "length v = n \<and> (\<forall>x\<in>set v. fit U S (TOptional TString) x)" and d: "length d = n \<and> (\<forall>y\<in>set d. has_type (TOptional TString) y)"
      and r: "readable E (wire_array (TOptional TString) (wire_null U enc (TOptional TString)) v) p"
    have "\<exists>q. AParcel_readStringArray U E (AParcel_stdArrayExternalAllocator n) AParcel_stdArrayNullableStringElementAllocator put_element d p =
        Inr ((OK, id v), q) \<and> advanced E p (length (enc_vector (wire_null U enc (TOptional TString)) v)) q"
      unfolding AParcel_readStringArray_eq
      by (rule container.arrays_read(1) [OF con optional_string_null_codec])
        (use v d r in \<open>auto simp: wire_array_def array_packed_def opt_string_in_place(1)\<close>)
    then show "\<exists>q. AParcel_readFixedArrayWithNullableData U E (TOptional TString) n (AParcel_readNullableData U O' E (TOptional TString)) d p =
        Inr ((OK, v), q) \<and> advanced E p (length (wire_array (TOptional TString) (wire_null U enc (TOptional TString)) v)) q"
      by (simp add: AParcel_readFixedArrayWithNullableData_def plain_def wire_array_def array_packed_def)
  qed (simp add: wire_array_def)
next
  case False
  then have w: "AParcel_writeFixedArrayWithNullableData U E P elem xs p = AParcel_writeFixedArray U E P elem xs p"
      and r: "AParcel_readFixedArrayWithNullableData U E P n el d p = AParcel_readFixedArray U E P n el d p" for E elem xs p el d
    by (auto simp: AParcel_writeFixedArrayWithNullableData_def AParcel_readFixedArrayWithNullableData_def AParcel_writeFixedArray_def
        AParcel_readFixedArray_def plain_def Let_def)
  show ?thesis by (rule value_codec.change [OF array_codec [OF c]]) (auto simp: w r fun_eq_iff)
qed

lemma optional_array_codec:
  assumes c: "null_codec U O' S enc P" and P: "P \<noteq> TString"
  shows "value_codec (\<lambda>v. \<forall>xs. v = Some xs \<longrightarrow> length xs = n \<and> (\<forall>x\<in>set xs. fit U S P x)) (\<lambda>_. True)
    (\<lambda>E. AParcel_writeNullableFixedArrayWithNullableData U E P (AParcel_writeNullableData U O' E P))
    (\<lambda>E. AParcel_readNullableFixedArrayWithNullableData U E (blank O' P) P n (AParcel_readNullableData U O' E P))
    (\<lambda>v. case v of None \<Rightarrow> enc32 (- 1) | Some xs \<Rightarrow> wire_array P (wire_null U enc P) xs)"
    (is "value_codec ?ok _ ?wr ?rd ?en")
proof
  fix v E p assume v: "?ok v" and w: "writable E (length (?en v)) p"
  show "\<exists>q. ?wr E v p = Inr (OK, q) \<and> wrote E p (?en v) q"
    using null_written(1) [of E p] value_codec.wr_ok [OF nullable_array_codec [OF c, of n], of "the v" E p] v w
    by (cases v) (simp_all add: AParcel_writeNullableFixedArrayWithNullableData_def)
next
  fix v d E p assume v: "?ok v" and r: "readable E (?en v) p"
  note con = opt_arr.container_axioms [of n "blank O' P"]
  have good: "has_type P y" if "y = blank O' P" for y :: "'a ndk_value" using that blank_typed by blast
  show "\<exists>q. ?rd E d p = Inr ((OK, v), q) \<and> advanced E p (length (?en v)) q"
  proof (cases v)
    case None
    with r have r: "readable E (enc32 (- 1)) p" by simp
    show ?thesis unfolding None option.case
      by (auto simp: AParcel_readNullableFixedArrayWithNullableData_def opt_allocators_null intro!: null_arrays_read [OF r])
  next
    case (Some xs)
    with v have xs: "\<forall>x\<in>set xs. fit U S P x" "\<forall>x\<in>set xs. has_type P x" and n: "length xs = n" by (auto simp: fit_def)
    consider "P = TBool" | "P = TChar16" | "array_packed P" | "P \<notin> {TBool, TChar16}" "\<not> array_packed P" by auto
    then show ?thesis
    proof cases
      case 1
      from bools_read [OF con [unfolded 1] good [unfolded 1], where xs = xs and d = d and E = E and U = U and enc = enc and p = p] xs n r
      show ?thesis by (simp add: 1 Some AParcel_readNullableFixedArrayWithNullableData_def wire_array_def array_packed_def
          AParcel_nullableStdVectorSetter_def)
    next
      case 2
      from chars_read [OF con [unfolded 2] good [unfolded 2], where xs = xs and d = d and E = E and U = U and enc = enc and p = p] xs n r
      show ?thesis by (simp add: 2 Some AParcel_readNullableFixedArrayWithNullableData_def wire_array_def array_packed_def
          AParcel_nullableStdVectorSetter_def)
    next
      case 3
      then have eq: "?rd E d p = ReadArray (elem_dec P) (elem_size P) E (AParcel_nullableStdArrayAllocator (blank O' P) n)
          AParcel_nullableStdVectorSetter d p"
        by (auto simp: array_packed_def AParcel_readNullableFixedArrayWithNullableData_def setters(2))
      from container.ReadArray_ok [OF con pods_typed [OF array_packed_packed [OF 3] xs(2)] TrueI n, where d = d and E = E and p = p] 3 r
      show ?thesis unfolding eq by (simp add: Some wire_array_def)
    next
      case 4
      with each_read_optional [OF c con good xs(1), where d = d and E = E and p = p] n r P show ?thesis
        by (auto simp: Some wire_array_def array_packed_def AParcel_readNullableFixedArrayWithNullableData_def)
    qed
  qed
qed (simp add: wire_array_def enc_scalar_nonempty split: option.split)

lemma all_null_codecs: "parcelables_ok O' S enc \<Longrightarrow> nullable_type P \<Longrightarrow> null_codec U O' S enc P"
proof (induction P rule: nullable_type.induct)
  case (2 P n)
  then have c: "null_codec U O' S enc P" and P: "P \<noteq> TString" by simp_all
  show ?case
    by (rule value_codec.change [OF value_codec.under [OF optional_array_codec [OF c P], of "opt_of seq_of" "of_opt VSeq" n]])
      (auto simp: fit_def wire_array_def intro!: optionalE)
next
  case (3 P n)
  then have c: "null_codec U O' S enc P" by simp
  show ?case by (rule value_codec.change [OF value_codec.under [OF nullable_array_codec [OF c], of seq_of VSeq n]])
    (auto simp: fit_def wire_array_def)
qed (simp_all add: opt_vector_codec optional_string_null_codec optional_parcelable_null_codec,
    auto intro!: value_codec.change [OF all_data_codecs])

end
