(* ===== verification/Ndk_Safe.thy ===== *)
theory Ndk_Safe
  imports Ndk_Values
begin

text \<open>
  Reading through the C++ layer from a parcel with arbitrary contents: every reader returns, stays inside the data of the parcel, and leaves a
  value of the type that was asked for in the destination, whatever status it returns. The locale \<open>safe_container\<close> is what the
  allocators promise for that, and is interpreted on the four kinds of containers.
\<close>

section \<open>Readers that return\<close>

definition steady :: "env \<Rightarrow> parcel \<Rightarrow> bool" where
  "steady E p \<longleftrightarrow> parcel_inv E p \<and> read_inv E p"

definition safe_run :: "env \<Rightarrow> parcel \<Rightarrow> 'a parcel_run \<Rightarrow> bool" where
  "safe_run E p r \<longleftrightarrow> (\<exists>x q. r = Inr (x, q) \<and> read_frame p q \<and> steady E q)"

definition safe_into :: "env \<Rightarrow> parcel \<Rightarrow> ('d \<Rightarrow> bool) \<Rightarrow> 'd into_run \<Rightarrow> bool" where
  "safe_into E p T r \<longleftrightarrow> (\<exists>st d q. r = Inr ((st, d), q) \<and> T d \<and> read_frame p q \<and> steady E q)"

lemma safe_into_done [intro]: "T d \<Longrightarrow> steady E p \<Longrightarrow> safe_into E p T (Inr ((st, d), p))"
  by (simp add: safe_into_def)

lemma safe_into_frame: "read_frame p q \<Longrightarrow> safe_into E q T r \<Longrightarrow> safe_into E p T r"
  by (auto simp: safe_into_def intro: read_frame_trans)

lemma safe_bind_run:
  assumes "safe_run E p r" and "\<And>x q. r = Inr (x, q) \<Longrightarrow> steady E q \<Longrightarrow> safe_into E q T (f (x, q))"
  shows "safe_into E p T (bind_run r f)"
  using assms by (auto simp: safe_run_def intro: safe_into_frame)

lemma safe_bind_into:
  assumes "safe_into E p T r" and "\<And>st d q. T d \<Longrightarrow> steady E q \<Longrightarrow> safe_into E q T' (f ((st, d), q))"
  shows "safe_into E p T' (bind_run r f)"
proof -
  obtain st d q where "r = Inr ((st, d), q)" "T d" "read_frame p q" "steady E q" using assms(1) by (auto simp: safe_into_def)
  with assms(2) [of d q st] safe_into_frame [of p q] show ?thesis by simp
qed

lemma safe_into_mono: "safe_into E p T r \<Longrightarrow> (\<And>d. T d \<Longrightarrow> T' d) \<Longrightarrow> safe_into E p T' r"
  by (auto simp: safe_into_def)

lemma readAligned_steady: "steady E p \<Longrightarrow> n \<le> INT32_MAX \<Longrightarrow> safe_run E p (readAligned E n p)"
  using readAligned_correct [of E p n] by (auto simp: steady_def safe_run_def)

lemma map_read_steady: "safe_run E p r \<Longrightarrow> safe_run E p (map_read f r)"
  by (auto simp: safe_run_def map_read_def)

lemma scalars_steady:
  assumes "steady E p"
  shows "safe_run E p (readInt32 E p)" "safe_run E p (readInt64 E p)" "safe_run E p (readFloat E p)" "safe_run E p (readDouble E p)"
    "safe_run E p (readBool E p)" "safe_run E p (readChar E p)" "safe_run E p (readByte E p)"
  using assms
  by (simp_all add: readInt32_def readInt64_def readFloat_def readDouble_def readBool_def readChar_def readByte_def map_read_steady readAligned_steady)

lemma pruned_into_safe: "safe_run E p r \<Longrightarrow> T d \<Longrightarrow> (\<And>x. T (put x)) \<Longrightarrow> safe_into E p T (pruned_into r d put)"
  by (auto simp: safe_run_def safe_into_def pruned_into_def split: sum.split)

lemma into_value_safe: "safe_into E p T r \<Longrightarrow> (\<And>x. T x \<Longrightarrow> T' (f x)) \<Longrightarrow> safe_into E p T' (into_value f r)"
  by (auto simp: safe_into_def into_value_def)

lemma array_size_safe:
  assumes "steady E p"
  shows "\<exists>x q. ReadAndValidateArraySize E p = Inr (x, q) \<and> read_frame p q \<and> steady E q \<and>
    (\<forall>len. x = Inr len \<longrightarrow> - 1 \<le> len \<and> len \<le> int INT32_MAX)"
proof -
  obtain x q where q: "readInt32 E p = Inr (x, q)" "read_frame p q" "steady E q" using scalars_steady(1) [OF assms] by (auto simp: safe_run_def)
  have "dataAvail q = Inr (dataSize q - mDataPos q)" using q(3) dataAvail_ok [of E q] by (simp add: steady_def)
  moreover have "sint w \<le> int INT32_MAX" for w :: u32 using sint_lt [of w] by simp
  ultimately show ?thesis using q by (cases x) (auto simp: ReadAndValidateArraySize_def Let_def)
qed

lemma read_each_safe:
  assumes r: "\<And>i d p. i < k + n \<Longrightarrow> T d \<Longrightarrow> steady E p \<Longrightarrow> safe_into E p T (r i d p)" and "T d" "steady E p"
  shows "safe_into E p T (read_each r k n d p)"
  using assms
proof (induction n arbitrary: k d p)
  case (Suc n)
  have "safe_into E q T (read_each r (Suc k) n d' q)" if "T d'" "steady E q" for d' q
    using Suc.IH [of "Suc k" d' q] Suc.prems(1) that by simp
  then show ?case using Suc.prems by (auto intro!: safe_bind_into [where T = T])
qed auto

section \<open>Strings\<close>

lemma readString16Inplace_safe:
  assumes "steady E p"
  shows "\<exists>x q. readString16Inplace E p = Inr (x, q) \<and> read_frame p q \<and> steady E q \<and> (\<forall>d n. x = Some (d, n) \<longrightarrow> window q d (n * 2))"
proof -
  obtain v q where q: "readInt32_value E p = Inr (v, q)" "read_frame p q" "parcel_inv E q" "read_inv E q"
    using scalars_steady(1) [OF assms] by (auto simp: safe_run_def readInt32_value_def steady_def)
  let ?n = "nat (sint v)"
  obtain d r where r: "readInplace E ((?n + 1) * 2) q = Inr (d, r)" "read_frame q r" "parcel_inv E r" "read_inv E r"
    and w: "\<And>x. d = Some x \<Longrightarrow> window r x ((?n + 1) * 2)"
    using readInplace_safe [OF q(3,4), of "(?n + 1) * 2"] by blast
  have z: "memcpy_out (x + ?n * 2) 2 r = Inr (peek (x + ?n * 2) 2 (contents r))" "window r x (?n * 2)" if "d = Some x" for x
    using windowD [OF w [OF that], of "?n * 2" 2] w [OF that] by (simp_all add: window_def)
  from q r read_frame_trans [OF q(2) r(2)] z show ?thesis
    by (cases d) (auto simp: readString16Inplace_def Let_def steady_def)
qed

lemma readString_safe:
  assumes p: "steady E p" and d: "T d" and al: "\<And>len ok b d'. al d len = (ok, b, d') \<Longrightarrow> T d'"
    and put: "\<And>len d' s. al d len = (True, True, d') \<Longrightarrow> T (put d' s)"
  shows "safe_into E p T (AParcel_readString U E al put d p)"
proof -
  obtain x q where q: "readString16Inplace E p = Inr (x, q)" "read_frame p q" "steady E q" "\<And>d n. x = Some (d, n) \<Longrightarrow> window q d (n * 2)"
    using readString16Inplace_safe [OF p] by blast
  have "memcpy_out d (n * 2) q = Inr (peek d (n * 2) (contents q))" if "x = Some (d, n)" for d n using windowD0 [OF q(4) [OF that]] by simp
  with q d al put show ?thesis by (cases x) (auto simp: AParcel_readString_def Let_def safe_into_def split: prod.splits)
qed

section \<open>Containers\<close>

text \<open>\<open>T\<close> holds of the data at all times, \<open>F n\<close> once memory for \<open>n\<close> elements was allocated; \<open>Q\<close> is the type of an element.\<close>

locale safe_container =
  fixes T :: "'d \<Rightarrow> bool" and F :: "nat \<Rightarrow> 'd \<Rightarrow> bool" and Q :: "'a \<Rightarrow> bool" and store :: "'d \<Rightarrow> nat \<Rightarrow> 'a \<Rightarrow> 'd"
    and con :: "'d contiguous" and ext :: "'d external"
  assumes full: "F n d \<Longrightarrow> T d"
    and store_typed: "i < n \<Longrightarrow> F n d \<Longrightarrow> Q v \<Longrightarrow> F n (store d i v)"
    and ext_typed: "T d \<Longrightarrow> ext d len = (ok, d') \<Longrightarrow> T d'"
    and ext_full: "T d \<Longrightarrow> 0 \<le> len \<Longrightarrow> ext d len = (True, d') \<Longrightarrow> F (nat len) d'"
    and con_typed: "T d \<Longrightarrow> con d len = (ok, b, d') \<Longrightarrow> T d'"
    and con_full: "T d \<Longrightarrow> 0 \<le> len \<Longrightarrow> con d len = (True, b, d') \<Longrightarrow> F (nat len) d'"
begin

lemma each_safe:
  assumes "\<And>i d p. i < n \<Longrightarrow> F n d \<Longrightarrow> steady E p \<Longrightarrow> safe_into E p (F n) (r i d p)" "F n d" "steady E p"
  shows "safe_into E p T (read_each r 0 n d p)"
  using read_each_safe [of 0 n "F n" E r d p] assms safe_into_mono full by fastforce

lemma scalars_each_safe:
  assumes "\<And>p. steady E p \<Longrightarrow> safe_run E p (rd E p)" and "\<And>x. Q (f x)" and "F n d" "steady E p"
  shows "safe_into E p T (read_each (\<lambda>i d p. pruned_into (rd E p) d (\<lambda>x. store d i (f x))) 0 n d p)"
  using assms by (intro each_safe) (auto intro!: pruned_into_safe store_typed)

lemma readParcelableArray_safe:
  assumes "\<And>n i d p. i < n \<Longrightarrow> F n d \<Longrightarrow> steady E p \<Longrightarrow> safe_into E p (F n) (r i d p)" "T d" "steady E p"
  shows "safe_into E p T (AParcel_readParcelableArray E ext r d p)"
proof -
  obtain x q where q: "ReadAndValidateArraySize E p = Inr (x, q)" "read_frame p q" "steady E q" "\<And>len. x = Inr len \<Longrightarrow> - 1 \<le> len"
    using array_size_safe [OF assms(3)] by blast
  have "safe_into E q T (if \<not> ok then Inr ((NO_MEMORY, d'), q) else if len = - 1 then Inr ((OK, d'), q) else read_each r 0 (nat len) d' q)"
    if "x = Inr len" "ext d len = (ok, d')" for len ok d'
    using q(3) q(4) [OF that(1)] ext_typed [OF assms(2) that(2)] ext_full [OF assms(2), of len d'] that(2) each_safe [of "nat len" E r d' q] assms(1)
    by auto
  with q(1,3) assms(2) show ?thesis
    by (intro safe_into_frame [OF q(2)]) (auto simp: AParcel_readParcelableArray_def split: sum.split prod.split)
qed

lemma ReadArray_setter_safe:
  assumes rd: "\<And>p. steady E p \<Longrightarrow> safe_run E p (rd E p)" and Q: "\<And>x. Q (f x)" and "T d" "steady E p"
  shows "safe_into E p T (ReadArray_setter rd E ext (\<lambda>d i x. store d i (f x)) d p)"
proof -
  let ?r = "\<lambda>i d p. pruned_into (rd E p) d (\<lambda>x. store d i (f x))"
  obtain x q where q: "ReadAndValidateArraySize E p = Inr (x, q)" "read_frame p q" "steady E q" using array_size_safe [OF assms(4)] by blast
  have "safe_into E q T (if \<not> ok then Inr ((NO_MEMORY, d'), q) else if len \<le> 0 then Inr ((OK, d'), q) else read_each ?r 0 (nat len) d' q)"
    if "x = Inr len" "ext d len = (ok, d')" for len ok d'
    using q(3) ext_typed [OF assms(3) that(2)] ext_full [OF assms(3), of len d'] that(2) scalars_each_safe [of E rd f "nat len" d' q] rd Q
    by auto
  with q(1,3) assms(3) show ?thesis
    by (intro safe_into_frame [OF q(2)]) (auto simp: ReadArray_setter_def split: sum.split prod.split)
qed

lemma ReadArray_char16_safe:
  assumes Q: "\<And>x. Q (f x)" and "T d" "steady E p"
  shows "safe_into E p T (ReadArray_char16 E con (\<lambda>d i x. store d i (f x)) d p)"
proof -
  let ?r = "\<lambda>i d p. pruned_into (readChar E p) d (\<lambda>x. store d i (f x))"
  obtain x q where q: "ReadAndValidateArraySize E p = Inr (x, q)" "read_frame p q" "steady E q" using array_size_safe [OF assms(3)] by blast
  have "safe_into E q T (if \<not> ok then Inr ((NO_MEMORY, d'), q) else if len \<le> 0 then Inr ((OK, d'), q) else if \<not> b then Inr ((NO_MEMORY, d'), q)
      else if 2 * nat len > INT32_MAX then Inr ((NO_MEMORY, d'), q) else read_each ?r 0 (nat len) d' q)"
    if "x = Inr len" "con d len = (ok, b, d')" for len ok b d'
    using q(3) con_typed [OF assms(2) that(2)] con_full [OF assms(2), of len b d'] that(2) scalars_each_safe [of E readChar f "nat len" d' q] scalars_steady(6) Q
    by auto
  with q(1,3) assms(2) show ?thesis
    by (intro safe_into_frame [OF q(2)]) (auto simp: ReadArray_char16_def split: sum.split prod.split)
qed

lemma fill_typed:
  assumes d: "F n d" and xs: "length xs = n" "\<And>x. x \<in> set xs \<Longrightarrow> Q x"
  shows "F n (fill store xs d)"
proof -
  have "F n (fold (\<lambda>i d. store d i (xs ! i)) [0..<k] d)" if "k \<le> n" for k using that
    by (induction k) (auto simp: d xs store_typed)
  from this [of "length xs"] xs(1) show ?thesis by (simp add: fill_def)
qed

lemma ReadArray_safe:
  assumes Q: "\<And>bs. Q (dec bs)" and d: "T d" and p: "steady E p"
  shows "safe_into E p T (ReadArray dec sz E con store d p)"
proof -
  have len: "length (dec_seq sz dec n bs) = n" "x \<in> set (dec_seq sz dec n bs) \<Longrightarrow> Q x" for n bs x
    by (induction n arbitrary: bs) (auto simp: Q)
  obtain x q where q: "ReadAndValidateArraySize E p = Inr (x, q)" "read_frame p q" "steady E q" using array_size_safe [OF p] by blast
  have "safe_into E q T (bind_run (readInplace E (sz * nat len) q) (\<lambda>(dat, p). case dat of None \<Rightarrow> Inr ((NO_MEMORY, d'), p)
      | Some d \<Rightarrow> bind_run (memcpy_out d (sz * nat len) p) (\<lambda>bs. Inr ((OK, fill store (dec_seq sz dec (nat len) bs) d'), p))))"
    if "F (nat len) d'" for len d'
  proof -
    obtain r s where s: "readInplace E (sz * nat len) q = Inr (r, s)" "read_frame q s" "steady E s" "\<And>x. r = Some x \<Longrightarrow> window s x (sz * nat len)"
      using readInplace_safe [of E q "sz * nat len"] q(3) by (auto simp: steady_def)
    show ?thesis using s windowD0 [OF s(4)] full [OF that] full [OF fill_typed [OF that len(1) len(2)]]
      by (intro safe_into_frame [OF s(2)]) (auto split: option.split)
  qed
  then have "safe_into E q T (if \<not> ok then Inr ((NO_MEMORY, d'), q) else if len \<le> 0 then Inr ((OK, d'), q) else if \<not> b then Inr ((NO_MEMORY, d'), q)
      else if sz * nat len > INT32_MAX then Inr ((NO_MEMORY, d'), q)
      else bind_run (readInplace E (sz * nat len) q) (\<lambda>(dat, p). case dat of None \<Rightarrow> Inr ((NO_MEMORY, d'), p)
      | Some d \<Rightarrow> bind_run (memcpy_out d (sz * nat len) p) (\<lambda>bs. Inr ((OK, fill store (dec_seq sz dec (nat len) bs) d'), p))))"
    if "x = Inr len" "con d len = (ok, b, d')" for len ok b d'
    using q(3) con_typed [OF d that(2)] con_full [OF d, of len b d'] that(2) by auto
  with q(1,3) d show ?thesis
    by (intro safe_into_frame [OF q(2)]) (auto simp: ReadArray_def split: sum.split prod.split)
qed

end

lemma int32_of_le: "0 \<le> int32_of n \<Longrightarrow> nat (int32_of n) \<le> n"
proof -
  assume "0 \<le> int32_of n"
  moreover have "int32_of n = signed_take_bit 31 (int n)" by (simp add: int32_of_def signed_of_nat)
  ultimately have "int32_of n = take_bit 31 (int n)" by (simp add: signed_take_bit_nonnegative_iff signed_take_bit_eq_if_positive)
  moreover have "take_bit 31 (int n) \<le> int n" using take_bit_int_less_eq_self_iff [of 31 "int n"] by simp
  ultimately show ?thesis by linarith
qed

interpretation safe_vec: safe_container "\<lambda>d. \<forall>y\<in>set d. has_type P y" "\<lambda>n d. length d = n \<and> (\<forall>y\<in>set d. has_type P y)" "has_type P"
    AParcel_stdVectorSetter "AParcel_stdVectorAllocator (blank O' P)" "AParcel_stdVectorExternalAllocator (blank O' P)" for P O'
  by unfold_locales (auto simp: AParcel_stdVectorSetter_def AParcel_stdVectorAllocator_def AParcel_stdVectorExternalAllocator_def blank_typed
      dest!: resized_set set_update_subset_insert [THEN subsetD] split: if_splits)

interpretation safe_arr: safe_container "\<lambda>d. length d = N \<and> (\<forall>y\<in>set d. has_type P y)"
    "\<lambda>n d. n \<le> N \<and> length d = N \<and> (\<forall>y\<in>set d. has_type P y)" "has_type P"
    AParcel_stdVectorSetter "AParcel_stdArrayAllocator N" "AParcel_stdArrayExternalAllocator N" for P N
  by unfold_locales (auto simp: AParcel_stdVectorSetter_def AParcel_stdArrayAllocator_def AParcel_stdArrayExternalAllocator_def int32_of_le
      dest!: set_update_subset_insert [THEN subsetD] split: if_splits)

interpretation safe_opt_vec: safe_container "\<lambda>d. \<forall>ys. d = Some ys \<longrightarrow> (\<forall>y\<in>set ys. has_type P y)"
    "\<lambda>n d. \<exists>ys. d = Some ys \<and> length ys = n \<and> (\<forall>y\<in>set ys. has_type P y)" "has_type P"
    AParcel_nullableStdVectorSetter "AParcel_nullableStdVectorAllocator (blank O' P)" "AParcel_nullableStdVectorExternalAllocator (blank O' P)" for P O'
  by unfold_locales (auto simp: AParcel_nullableStdVectorSetter_def AParcel_nullableStdVectorAllocator_def AParcel_nullableStdVectorExternalAllocator_def
      blank_typed dest!: resized_set set_update_subset_insert [THEN subsetD] split: if_splits)

interpretation safe_opt_arr: safe_container "\<lambda>d. \<forall>ys. d = Some ys \<longrightarrow> length ys = N \<and> (\<forall>y\<in>set ys. has_type P y)"
    "\<lambda>n d. n \<le> N \<and> (\<exists>ys. d = Some ys \<and> length ys = N \<and> (\<forall>y\<in>set ys. has_type P y))" "has_type P"
    AParcel_nullableStdVectorSetter "AParcel_nullableStdArrayAllocator (blank O' P) N" "AParcel_nullableStdArrayExternalAllocator (blank O' P) N" for P O' N
  by unfold_locales (auto simp: AParcel_nullableStdVectorSetter_def AParcel_nullableStdArrayAllocator_def AParcel_nullableStdArrayExternalAllocator_def
      blank_typed int32_of_le dest!: set_update_subset_insert [THEN subsetD] split: if_splits)

section \<open>Elements\<close>

lemma typed_update: "\<forall>y\<in>set ys. Q y \<Longrightarrow> Q v \<Longrightarrow> y \<in> set (ys[i := v]) \<Longrightarrow> Q y"
  using set_update_subset_insert [of ys i v] by blast

lemma elem_dec_typed: "packed P \<Longrightarrow> has_type P (elem_dec P bs)"
  by (auto simp: packed_def elem_dec_def elem_size_def)

lemma string_element_safe:
  assumes "steady E p" "length d = m" "\<forall>y\<in>set d. has_type TString y"
  shows "safe_into E p (\<lambda>d. length d = m \<and> (\<forall>y\<in>set d. has_type TString y))
    (AParcel_readString U E (AParcel_stdVectorStringElementAllocator i) (put_element i) d p)"
  using assms by (intro readString_safe)
    (auto simp: AParcel_stdVectorStringElementAllocator_def put_element_def dest!: typed_update [rotated 2, of _ _ _ _ "\<lambda>y. \<exists>s. y = VText s"]
      split: prod.splits)

lemma opt_string_element_safe:
  assumes "steady E p" "length d = m" "\<forall>y\<in>set d. has_type (TOptional TString) y"
  shows "safe_into E p (\<lambda>d. length d = m \<and> (\<forall>y\<in>set d. has_type (TOptional TString) y))
      (AParcel_readString U E (AParcel_stdArrayNullableStringElementAllocator i) (put_element i) d p)"
    "safe_into E p (\<lambda>d. \<exists>ys. d = Some ys \<and> length ys = m \<and> (\<forall>y\<in>set ys. has_type (TOptional TString) y))
      (AParcel_readString U E (AParcel_nullableStdVectorStringElementAllocator i) (\<lambda>d s. map_option (\<lambda>xs. put_element i xs s) d) (Some d) p)"
proof -
  have typed: "has_type (TOptional TString) (of_opt VText x)" for x :: "byte list option" by (cases x) simp_all
  have up: "\<forall>y\<in>set (ys[i := v]). has_type (TOptional TString) y" if "\<forall>y\<in>set ys. has_type (TOptional TString) y" "has_type (TOptional TString) v"
    for ys and v :: "'a ndk_value" using typed_update [OF that] by blast
  have put: "length ys = m \<and> (\<forall>y\<in>set ys. has_type (TOptional TString) y) \<Longrightarrow>
      length (put_element i ys s) = m \<and> (\<forall>y\<in>set (put_element i ys s). has_type (TOptional TString) y)" for ys :: "'a ndk_value list" and s
    using up [of ys "VText (put_text (text_of (ys ! i)) s)"] by (simp add: put_element_def)
  have al: "length ys = m \<and> (\<forall>y\<in>set ys. has_type (TOptional TString) y)"
    if "AParcel_stdArrayNullableStringElementAllocator i d len = (ok, b, ys)" for len ok b ys
    using that assms(2,3) up [OF assms(3) typed] by (auto simp: AParcel_stdArrayNullableStringElementAllocator_def split: prod.splits)
  show "safe_into E p (\<lambda>d. length d = m \<and> (\<forall>y\<in>set d. has_type (TOptional TString) y))
      (AParcel_readString U E (AParcel_stdArrayNullableStringElementAllocator i) (put_element i) d p)"
    by (intro readString_safe) (use assms al put in blast)+
  show "safe_into E p (\<lambda>d. \<exists>ys. d = Some ys \<and> length ys = m \<and> (\<forall>y\<in>set ys. has_type (TOptional TString) y))
      (AParcel_readString U E (AParcel_nullableStdVectorStringElementAllocator i) (\<lambda>d s. map_option (\<lambda>xs. put_element i xs s) d) (Some d) p)"
    by (intro readString_safe)
      (use assms al put in \<open>auto simp: AParcel_nullableStdVectorStringElementAllocator_def simp del: has_type.simps split: prod.splits
        intro: put [OF al, THEN conjunct2, THEN bspec]\<close>)
qed

text \<open>What is assumed of the code of parcelables: it returns, and reads with the same care.\<close>

definition parcelables_safe :: "'p parcelables \<Rightarrow> bool" where
  "parcelables_safe O' \<longleftrightarrow> (\<forall>k E x p. steady E p \<longrightarrow> safe_into E p (\<lambda>_. True) (p_read O' k E x p))"

lemma flag_safe: "steady E p \<Longrightarrow> safe_into E p (\<lambda>_. True) (AParcel_read readInt32 E 0 p)"
  by (simp add: AParcel_read_def pruned_into_safe scalars_steady)

lemma struct_safe: "parcelables_safe O' \<Longrightarrow> steady E p \<Longrightarrow> safe_into E p (\<lambda>_. True) (AParcel_readParcelable O' E k x p)"
  unfolding AParcel_readParcelable_def by (rule safe_bind_into [OF flag_safe]) (auto simp: parcelables_safe_def)

lemma opt_struct_safe: "parcelables_safe O' \<Longrightarrow> steady E p \<Longrightarrow> safe_into E p (\<lambda>_. True) (AParcel_readNullableParcelable O' E k x p)"
  unfolding AParcel_readNullableParcelable_def
  by (rule safe_bind_into [OF flag_safe])
    (auto simp: parcelables_safe_def intro!: safe_bind_into [where T = "\<lambda>_. True" and r = "p_read O' k _ _ _"])

lemma at_index_safe:
  assumes el: "\<And>d p. has_type P d \<Longrightarrow> steady E p \<Longrightarrow> safe_into E p (has_type P) (elem d p)" and "i < length d" "\<forall>y\<in>set d. has_type P y" "steady E p"
  shows "safe_into E p (\<lambda>d'. length d' = length d \<and> (\<forall>y\<in>set d'. has_type P y)) (at_index elem i d p)"
  unfolding at_index_def
  by (rule safe_bind_into [where T = "has_type P"]) (use assms in \<open>auto dest: typed_update [of d "has_type P"]\<close>)

section \<open>Vectors and arrays\<close>

lemma vector_safe:
  assumes O': "parcelables_safe O'" and p: "steady E p" and d: "\<forall>y\<in>set d. has_type P y"
  shows "safe_into E p (\<lambda>d. \<forall>y\<in>set d. has_type P y) (AParcel_readVector U O' E P d p)"
proof -
  consider "packed P" | "P = TBool" | "P = TChar16" | "P = TString" | k where "P = TParcelable k"
    | "AParcel_readVector U O' E P d p = Inr ((OK, d), p)"
    by (cases P) (auto simp: packed_def AParcel_readVector_def)
  then show ?thesis
  proof cases
    case 1
    then have eq: "AParcel_readVector U O' E P d p =
        ReadArray (elem_dec P) (elem_size P) E (AParcel_stdVectorAllocator (blank O' P)) AParcel_stdVectorSetter d p"
      by (auto simp: packed_def AParcel_readVector_def Let_def setters)
    show ?thesis unfolding eq by (intro safe_vec.ReadArray_safe elem_dec_typed 1 d p)
  next
    case 2
    from safe_vec.ReadArray_setter_safe [of E readBool TBool VBool d p O'] d p show ?thesis
      by (simp add: 2 AParcel_readVector_def scalars_steady)
  next
    case 3
    from safe_vec.ReadArray_char16_safe [of TChar16 VChar d E p O'] d p show ?thesis
      by (simp add: 3 AParcel_readVector_def AParcel_stdVectorSetter_def)
  next
    case 4
    show ?thesis using d p unfolding 4 AParcel_readVector_def Let_def ndk_type.case AParcel_readStringArray_eq
      by (intro safe_vec.readParcelableArray_safe string_element_safe) auto
  next
    case (5 k)
    have el: "has_type (TParcelable k) x \<Longrightarrow> steady E q \<Longrightarrow> safe_into E q (has_type (TParcelable k)) (AParcel_readData U O' E (TParcelable k) x q)" for x q
      using struct_safe [OF O'] by (auto intro!: into_value_safe)
    have "safe_into E q (\<lambda>d. length d = n \<and> (\<forall>y\<in>set d. has_type (TParcelable k) y)) (at_index (AParcel_readData U O' E (TParcelable k)) i xs q)"
      if "i < n" "length xs = n \<and> (\<forall>y\<in>set xs. has_type (TParcelable k) y)" "steady E q" for n i xs q
      using at_index_safe [of "TParcelable k" E "AParcel_readData U O' E (TParcelable k)" i xs q] el that by auto
    from safe_vec.readParcelableArray_safe [where r = "at_index (AParcel_readData U O' E (TParcelable k))", OF this] d p show ?thesis
      by (simp add: 5 AParcel_readVector_def structs_in_place [where U = U])
  next
    case 6
    with d p show ?thesis by auto
  qed
qed

lemma opt_vector_safe:
  assumes O': "parcelables_safe O'" and p: "steady E p" and d: "\<And>ys. d = Some ys \<Longrightarrow> \<forall>y\<in>set ys. has_type P y"
  shows "safe_into E p (\<lambda>d. \<forall>ys. d = Some ys \<longrightarrow> (\<forall>y\<in>set ys. has_type P y)) (AParcel_readVector_optional U O' E P d p)"
proof -
  have d: "\<forall>ys. d = Some ys \<longrightarrow> (\<forall>y\<in>set ys. has_type P y)" using d by blast
  consider "packed P" | "P = TBool" | "P = TChar16" | "P = TOptional TString" | k where "P = TOptional (TParcelable k)"
    | "AParcel_readVector_optional U O' E P d p = Inr ((OK, d), p)"
    by (cases P rule: nullable_type.cases) (auto simp: packed_def AParcel_readVector_optional_def)
  then show ?thesis
  proof cases
    case 1
    then have eq: "AParcel_readVector_optional U O' E P d p =
        ReadArray (elem_dec P) (elem_size P) E (AParcel_nullableStdVectorAllocator (blank O' P)) AParcel_nullableStdVectorSetter d p"
      by (auto simp: packed_def AParcel_readVector_optional_def Let_def setters(2))
    show ?thesis unfolding eq by (intro safe_opt_vec.ReadArray_safe elem_dec_typed 1 d p)
  next
    case 2
    from safe_opt_vec.ReadArray_setter_safe [of E readBool TBool VBool d p O'] d p show ?thesis
      by (simp add: 2 AParcel_readVector_optional_def scalars_steady)
  next
    case 3
    from safe_opt_vec.ReadArray_char16_safe [of TChar16 VChar d E p O'] d p show ?thesis
      by (simp add: 3 AParcel_readVector_optional_def AParcel_nullableStdVectorSetter_def)
  next
    case 4
    show ?thesis using d p unfolding 4 AParcel_readVector_optional_def Let_def ndk_type.case AParcel_readStringArray_eq
      by (intro safe_opt_vec.readParcelableArray_safe) (auto simp del: has_type.simps intro!: opt_string_element_safe(2))
  next
    case (5 k)
    have typed: "has_type (TOptional (TParcelable k)) (of_opt VStruct x)" for x :: "'a option" by (cases x) simp_all
    have "safe_into E q (\<lambda>d. \<exists>ys. d = Some ys \<and> length ys = n \<and> (\<forall>y\<in>set ys. has_type (TOptional (TParcelable k)) y))
        (bind_run (AParcel_readNullableParcelable O' E k z q) (\<lambda>((status, x), p). Inr ((status, map_option (\<lambda>xs. xs[i := of_opt VStruct x]) (Some ys)), p)))"
      if "length ys = n" "\<forall>y\<in>set ys. has_type (TOptional (TParcelable k)) y" "steady E q" for n i ys q z
      by (rule safe_bind_into [OF opt_struct_safe [OF O']])
        (use that typed_update [OF that(2) typed] in \<open>auto simp del: has_type.simps\<close>)
    then show ?thesis using d p unfolding 5 AParcel_readVector_optional_def Let_def ndk_type.case
      by (intro safe_opt_vec.readParcelableArray_safe) (auto simp del: has_type.simps)
  next
    case 6
    with d p show ?thesis by auto
  qed
qed

lemma fixed_array_safe:
  assumes el: "\<And>d p. has_type P d \<Longrightarrow> steady E p \<Longrightarrow> safe_into E p (has_type P) (elem d p)" and p: "steady E p"
    and d: "length d = N \<and> (\<forall>y\<in>set d. has_type P y)"
  shows "safe_into E p (\<lambda>d. length d = N \<and> (\<forall>y\<in>set d. has_type P y)) (AParcel_readFixedArray U E P N elem d p)"
proof -
  consider "P = TBool" | "P = TChar16" | "array_packed P" | "P = TString" | "P \<notin> {TBool, TChar16, TString}" "\<not> array_packed P" by auto
  then show ?thesis
  proof cases
    case 1
    from safe_arr.ReadArray_setter_safe [of E readBool TBool VBool d N p] d p show ?thesis
      by (simp add: 1 AParcel_readFixedArray_def AParcel_stdVectorSetter_def scalars_steady)
  next
    case 2
    from safe_arr.ReadArray_char16_safe [of TChar16 VChar d N E p] d p show ?thesis
      by (simp add: 2 AParcel_readFixedArray_def AParcel_stdVectorSetter_def)
  next
    case 3
    then have eq: "AParcel_readFixedArray U E P N elem d p = ReadArray (elem_dec P) (elem_size P) E (AParcel_stdArrayAllocator N) AParcel_stdVectorSetter d p"
      by (auto simp: array_packed_def AParcel_readFixedArray_def setters)
    show ?thesis unfolding eq by (intro safe_arr.ReadArray_safe elem_dec_typed array_packed_packed 3 d p)
  next
    case 4
    have "safe_into E q (\<lambda>d. n \<le> N \<and> length d = N \<and> (\<forall>y\<in>set d. has_type TString y))
        (AParcel_readString U E (AParcel_stdVectorStringElementAllocator i) (put_element i) xs q)"
      if "n \<le> N \<and> length xs = N \<and> (\<forall>y\<in>set xs. has_type TString y)" "steady E q" for n i q and xs :: "'a ndk_value list"
      using string_element_safe [OF that(2), of xs N U i] that(1) by (auto intro: safe_into_mono simp del: has_type.simps)
    then show ?thesis using d p unfolding 4 AParcel_readFixedArray_def AParcel_readStringArray_eq
      by (auto intro!: safe_arr.readParcelableArray_safe simp del: has_type.simps)
  next
    case 5
    have "safe_into E q (\<lambda>d. n \<le> N \<and> length d = N \<and> (\<forall>y\<in>set d. has_type P y)) (at_index elem i xs q)"
      if "i < n" "n \<le> N \<and> length xs = N \<and> (\<forall>y\<in>set xs. has_type P y)" "steady E q" for n i xs q
      using at_index_safe [of P E elem i xs q] el that by (auto intro: safe_into_mono)
    with 5 d p show ?thesis by (auto simp: AParcel_readFixedArray_def array_packed_def intro!: safe_arr.readParcelableArray_safe)
  qed
qed

lemma nullable_array_safe:
  assumes el: "\<And>d p. has_type P d \<Longrightarrow> steady E p \<Longrightarrow> safe_into E p (has_type P) (elem d p)" and p: "steady E p"
    and d: "length d = N \<and> (\<forall>y\<in>set d. has_type P y)"
  shows "safe_into E p (\<lambda>d. length d = N \<and> (\<forall>y\<in>set d. has_type P y)) (AParcel_readFixedArrayWithNullableData U E P N elem d p)"
proof (cases "P = TOptional TString")
  case True
  have "safe_into E q (\<lambda>d. n \<le> N \<and> length d = N \<and> (\<forall>y\<in>set d. has_type (TOptional TString) y))
      (AParcel_readString U E (AParcel_stdArrayNullableStringElementAllocator i) (put_element i) xs q)"
    if "n \<le> N \<and> length xs = N \<and> (\<forall>y\<in>set xs. has_type (TOptional TString) y)" "steady E q" for n i q and xs :: "'a ndk_value list"
    using opt_string_element_safe(1) [OF that(2), of xs N U i] that(1) by (auto intro: safe_into_mono simp del: has_type.simps)
  then show ?thesis using d p unfolding True AParcel_readFixedArrayWithNullableData_def AParcel_readStringArray_eq
    by (auto intro!: safe_arr.readParcelableArray_safe simp: plain_def simp del: has_type.simps)
next
  case False
  then have "AParcel_readFixedArrayWithNullableData U E P N elem d p = AParcel_readFixedArray U E P N elem d p"
    by (auto simp: AParcel_readFixedArrayWithNullableData_def AParcel_readFixedArray_def plain_def)
  with fixed_array_safe [OF el p d] show ?thesis by simp
qed

lemma optional_array_safe:
  assumes el: "\<And>d p. has_type P d \<Longrightarrow> steady E p \<Longrightarrow> safe_into E p (has_type P) (elem d p)" and p: "steady E p"
    and d: "\<forall>ys. d = Some ys \<longrightarrow> length ys = N \<and> (\<forall>y\<in>set ys. has_type P y)"
  shows "safe_into E p (\<lambda>d. \<forall>ys. d = Some ys \<longrightarrow> length ys = N \<and> (\<forall>y\<in>set ys. has_type P y))
    (AParcel_readNullableFixedArrayWithNullableData U E (blank O' P) P N elem d p)"
proof -
  consider "P = TBool" | "P = TChar16" | "array_packed P" | "P \<notin> {TBool, TChar16}" "\<not> array_packed P" by auto
  then show ?thesis
  proof cases
    case 1
    from safe_opt_arr.ReadArray_setter_safe [of E readBool TBool VBool d N p O'] d p show ?thesis
      by (simp add: 1 AParcel_readNullableFixedArrayWithNullableData_def AParcel_nullableStdVectorSetter_def scalars_steady)
  next
    case 2
    from safe_opt_arr.ReadArray_char16_safe [of TChar16 VChar d N E p O'] d p show ?thesis
      by (simp add: 2 AParcel_readNullableFixedArrayWithNullableData_def AParcel_nullableStdVectorSetter_def)
  next
    case 3
    then have eq: "AParcel_readNullableFixedArrayWithNullableData U E (blank O' P) P N elem d p =
        ReadArray (elem_dec P) (elem_size P) E (AParcel_nullableStdArrayAllocator (blank O' P) N) AParcel_nullableStdVectorSetter d p"
      by (auto simp: array_packed_def AParcel_readNullableFixedArrayWithNullableData_def setters(2))
    show ?thesis unfolding eq by (intro safe_opt_arr.ReadArray_safe elem_dec_typed array_packed_packed 3 d p)
  next
    case 4
    have "safe_into E q (\<lambda>d. n \<le> N \<and> (\<exists>ys. d = Some ys \<and> length ys = N \<and> (\<forall>y\<in>set ys. has_type P y)))
        (bind_run (at_index elem i (the (Some xs)) q) (\<lambda>((status, xs), p). Inr ((status, Some xs), p)))"
      if "i < n" "n \<le> N" "length xs = N" "\<forall>y\<in>set xs. has_type P y" "steady E q" for n i xs q
      unfolding option.sel by (rule safe_bind_into [OF at_index_safe [of P E elem i xs q]]) (use that el in auto)
    with 4 d p show ?thesis
      by (auto simp: AParcel_readNullableFixedArrayWithNullableData_def array_packed_def intro!: safe_opt_arr.readParcelableArray_safe)
  qed
qed

section \<open>Values of any type\<close>

lemma scalar_safe: "steady E p \<Longrightarrow> safe_run E p (rd E p) \<Longrightarrow> (\<And>x. T (f x)) \<Longrightarrow> safe_into E p T (into_value f (AParcel_read rd E x p))"
  by (rule into_value_safe [where T = "\<lambda>_. True"]) (auto simp: AParcel_read_def intro: pruned_into_safe)

lemma text_safe:
  assumes "steady E p"
  shows "safe_into E p (has_type TString) (into_value VText (AParcel_readString_std U E s p))"
    "safe_into E p (has_type (TOptional TString)) (into_value (of_opt VText) (AParcel_readString_optional U E z p))"
proof -
  have typed: "has_type (TOptional TString) (of_opt VText x)" for x :: "byte list option" by (cases x) simp_all
  show "safe_into E p (has_type TString) (into_value VText (AParcel_readString_std U E s p))"
    by (rule into_value_safe [where T = "\<lambda>_. True"]) (use assms in \<open>auto simp: AParcel_readString_std_def intro!: readString_safe\<close>)
  show "safe_into E p (has_type (TOptional TString)) (into_value (of_opt VText) (AParcel_readString_optional U E z p))"
    by (rule into_value_safe [where T = "\<lambda>_. True"])
      (use assms typed in \<open>auto simp: AParcel_readString_optional_def simp del: has_type.simps intro!: readString_safe\<close>)
qed

lemma data_safe:
  "parcelables_safe O' \<Longrightarrow> has_type P v \<Longrightarrow> steady E p \<Longrightarrow> safe_into E p (has_type P) (AParcel_readData U O' E P v p)"
proof (induction P arbitrary: v p)
  case TString
  then show ?case using text_safe(1) [OF TString(3)] by (simp del: has_type.simps)
next
  case (TParcelable k)
  then show ?case using struct_safe by (auto intro!: into_value_safe)
next
  case (TVector P)
  then obtain xs where xs: "v = VSeq xs" "\<forall>x\<in>set xs. has_type P x" by auto
  from vector_safe [OF TVector.prems(1,3) xs(2), of U] xs(1) show ?case by (auto intro!: into_value_safe)
next
  case (TArray P n)
  then obtain xs where xs: "v = VSeq xs" "length xs = n \<and> (\<forall>x\<in>set xs. has_type P x)" by auto
  from fixed_array_safe [of P E "AParcel_readData U O' E P" p xs n U] TArray xs show ?case by (auto intro!: into_value_safe)
qed (auto intro!: scalar_safe scalars_steady)

lemma nullable_safe:
  "parcelables_safe O' \<Longrightarrow> has_type P v \<Longrightarrow> steady E p \<Longrightarrow> safe_into E p (has_type P) (AParcel_readNullableData U O' E P v p)"
proof (induction P arbitrary: v p rule: nullable_type.induct)
  case (1 P)
  then obtain x where x: "v = of_opt VSeq x" "\<And>xs. x = Some xs \<Longrightarrow> \<forall>y\<in>set xs. has_type P y"
    using optionalE [of v VSeq "\<lambda>xs. \<forall>y\<in>set xs. has_type P y"] by auto
  from opt_vector_safe [OF 1(1,3), of x P U] x show ?case
    by (auto intro!: into_value_safe simp: of_opt_def split: option.splits)
next
  case (2 P n)
  then obtain x where x: "v = of_opt VSeq x" "\<forall>xs. x = Some xs \<longrightarrow> length xs = n \<and> (\<forall>y\<in>set xs. has_type P y)"
    using optionalE [of v VSeq "\<lambda>xs. length xs = n \<and> (\<forall>y\<in>set xs. has_type P y)"] by auto
  from optional_array_safe [of P E "AParcel_readNullableData U O' E P" p x n U O'] 2 x show ?case
    by (auto intro!: into_value_safe simp: of_opt_def split: option.splits)
next
  case (3 P n)
  then obtain xs where xs: "v = VSeq xs" "length xs = n \<and> (\<forall>x\<in>set xs. has_type P x)" by auto
  from nullable_array_safe [of P E "AParcel_readNullableData U O' E P" p xs n U] 3 xs show ?case by (auto intro!: into_value_safe)
next
  case 4
  then show ?case using text_safe(2) [OF 4(3)] by (simp del: has_type.simps)
next
  case (5 k)
  have typed: "has_type (TOptional (TParcelable k)) (of_opt VStruct x)" for x :: "'a option" by (cases x) simp_all
  from 5 opt_struct_safe show ?case by (auto intro!: into_value_safe typed simp del: has_type.simps)
qed (use data_safe in \<open>fastforce simp del: has_type.simps\<close>)+

end
