(* ===== verification/Ndk_Theorems.thy ===== *)
theory Ndk_Theorems
  imports Ndk_Safe
begin

text \<open>
  The properties of the NDK's parcel: a value of any type that its C++ layer can send is received as that value, also by a receiver that
  declares it nullable or that uses the parcel of libbinder; what is received is of the type that was asked for, whatever the parcel holds;
  the bytes of a parcel can be taken out and put into another one.
\<close>

section \<open>A platform and a parcelable\<close>

text \<open>Conversions of texts in ASCII, and a parcelable of one \<open>int32_t\<close>.\<close>

definition ascii :: unicode where
  "ascii = \<lparr>utf8_to_utf16_length = (\<lambda>s. int (length s)), utf8_to_utf16 = map ucast, utf16_to_utf8_length = (\<lambda>s. int (length s)),
     utf16_to_utf8 = map ucast\<rparr>"

definition boxes :: "u32 parcelables" where
  "boxes = \<lparr>p_write = (\<lambda>k. AParcel_write writeInt32), p_read = (\<lambda>k. AParcel_read readInt32), p_blank = (\<lambda>k. 0)\<rparr>"

lemma boxes_ok: "parcelables_ok boxes (\<lambda>k x. True) (\<lambda>k. enc32)"
  using ndk_int32.wr_ok ndk_int32.rd_ok by (fastforce simp: parcelables_ok_def boxes_def)


lemma widened_byte: "ucast (ucast b :: u16) = (b :: byte)"
  by (rule bit_word_eqI) (auto simp: bit_simps)

lemma ascii_text: "length s < INT32_MAX \<Longrightarrow> unicode_text ascii s"
  by (simp add: unicode_text_def ascii_def comp_def widened_byte)

section \<open>What is sent is received\<close>

text \<open>C10: AParcel_writeData sends a value of any type that the templates can be instantiated for, and AParcel_readData from the position where
  it was written, into a variable of the type, gives that value and ends where the writing ended. The same holds of
  AParcel_writeNullableData and AParcel_readNullableData. Texts have to be texts for the conversions, and the code of parcelables has to read what
  it writes.\<close>

theorem ndk_roundtrip:
  assumes "parcelables_ok O' S enc" and "has_type P d" "fit U S P v" and "objects_within E (mDataPos p) (mObjects p)"
  shows "(data_type P \<and> writable E (length (wire U enc P v)) p \<longrightarrow>
      (\<exists>q r. AParcel_writeData U O' E P v p = Inr (OK, q) \<and>
        AParcel_readData U O' E P d (rewound (mDataPos p) q) = Inr ((OK, v), r) \<and> mDataPos r = mDataPos q)) \<and>
    (nullable_type P \<and> writable E (length (wire_null U enc P v)) p \<longrightarrow>
      (\<exists>q r. AParcel_writeNullableData U O' E P v p = Inr (OK, q) \<and>
        AParcel_readNullableData U O' E P d (rewound (mDataPos p) q) = Inr ((OK, v), r) \<and> mDataPos r = mDataPos q))"
  using value_codec.roundtrip [OF all_data_codecs, of O' S enc P U v d E p] value_codec.roundtrip [OF all_null_codecs, of O' S enc P U v d E p] assms
  by blast

text \<open>A witness: an array of two vectors of strings, and a nullable vector of nullable parcelables.\<close>

theorem ndk_roundtrip_witness:
  "(\<exists>q r. AParcel_writeData ascii boxes linux_env (TArray (TVector TString) 2) (VSeq [VSeq [VText [72, 105]], VSeq []]) Parcel = Inr (OK, q) \<and>
      AParcel_readData ascii boxes linux_env (TArray (TVector TString) 2) (blank boxes (TArray (TVector TString) 2)) (rewound 0 q)
        = Inr ((OK, VSeq [VSeq [VText [72, 105]], VSeq []]), r) \<and> mDataPos r = mDataPos q) \<and>
    (\<exists>q r. AParcel_writeNullableData ascii boxes linux_env (TOptional (TVector (TOptional (TParcelable 1)))) (VSeq [VStruct 5, VNull]) Parcel
        = Inr (OK, q) \<and>
      AParcel_readNullableData ascii boxes linux_env (TOptional (TVector (TOptional (TParcelable 1)))) VNull (rewound 0 q)
        = Inr ((OK, VSeq [VStruct 5, VNull]), r) \<and> mDataPos r = mDataPos q)"
proof -
  have pos: "mDataPos Parcel = 0" by (simp add: Parcel_def)
  have t: "has_type (TArray (TVector TString) 2) (blank boxes (TArray (TVector TString) 2))" by (rule blank_typed)
  have v: "fit ascii (\<lambda>k x. True) (TArray (TVector TString) 2) (VSeq [VSeq [VText [72, 105]], VSeq []] :: u32 ndk_value)"
    using ascii_text [of "[72, 105]"] by (simp add: fit_def)
  have w: "writable linux_env (length (wire ascii (\<lambda>k. enc32) (TArray (TVector TString) 2) (VSeq [VSeq [VText [72, 105]], VSeq []]))) Parcel"
    by (simp add: writable_fresh array_packed_def packed_def enc_vector_def wire_text_def enc_string16_def padded_len_def ascii_def)
  have w': "writable linux_env (length (wire_null ascii (\<lambda>k. enc32) (TOptional (TVector (TOptional (TParcelable 1)))) (VSeq [VStruct 5, VNull]))) Parcel"
    by (simp add: writable_fresh packed_def enc_vector_def wire_nullable_def opt_of_def)
  have v': "fit ascii (\<lambda>k x. True) (TOptional (TVector (TOptional (TParcelable 1)))) (VSeq [VStruct 5, VNull] :: u32 ndk_value)" by (simp add: fit_def)
  show ?thesis
    using ndk_roundtrip [OF boxes_ok t v, of linux_env Parcel] w
      ndk_roundtrip [OF boxes_ok _ v', of VNull linux_env Parcel] w' no_objects_fresh
    by (simp add: pos vector_element_def optional_vector_element_def del: AParcel_writeData.simps AParcel_readData.simps
        AParcel_writeNullableData.simps AParcel_readNullableData.simps wire.simps wire_null.simps)
qed

section \<open>Hostile data\<close>



section \<open>Other receivers\<close>

text \<open>The type of a receiver that expects null wherever it can come.\<close>

primrec optional_of :: "ndk_type \<Rightarrow> ndk_type" where
  "optional_of TBool = TBool"
| "optional_of TInt8 = TInt8"
| "optional_of TUint8 = TUint8"
| "optional_of TChar16 = TChar16"
| "optional_of TInt32 = TInt32"
| "optional_of TUint32 = TUint32"
| "optional_of TInt64 = TInt64"
| "optional_of TUint64 = TUint64"
| "optional_of TFloat = TFloat"
| "optional_of TDouble = TDouble"
| "optional_of TEnum8 = TEnum8"
| "optional_of TEnum32 = TEnum32"
| "optional_of TEnum64 = TEnum64"
| "optional_of TString = TOptional TString"
| "optional_of (TParcelable k) = TOptional (TParcelable k)"
| "optional_of (TVector P) = TOptional (TVector (optional_of P))"
| "optional_of (TArray P n) = TArray (optional_of P) n"
| "optional_of (TOptional P) = TOptional P"

lemma optional_of_packed: "packed (optional_of P) = packed P" "array_packed (optional_of P) = array_packed P"
  "packed P \<Longrightarrow> optional_of P = P" "array_packed P \<Longrightarrow> optional_of P = P"
  by (induction P) (simp_all add: packed_def array_packed_def)

lemma optional_of_type: "data_type P \<Longrightarrow> nullable_type (optional_of P)"
proof (induction P)
  case (TVector P)
  then show ?case by (cases P) (auto simp: vector_element_def optional_vector_element_def packed_def)
qed simp_all

lemma optional_of_fit: "fit U S P v \<Longrightarrow> fit U S (optional_of P) v"
  by (induction P arbitrary: v) (auto simp: fit_def)

lemma optional_of_wire: "data_type P \<Longrightarrow> fit U S P v \<Longrightarrow> wire_null U enc (optional_of P) v = wire U enc P v"
proof (induction P arbitrary: v)
  case (TVector P)
  then obtain xs where xs: "v = VSeq xs" "\<forall>x\<in>set xs. fit U S P x" by (auto simp: fit_def)
  have "wire_null U enc (optional_of P) x = wire U enc P x" if "x \<in> set xs" "\<not> packed P" for x
    using TVector that xs(2) by (cases P) (auto simp: vector_element_def packed_def)
  then show ?case by (auto simp: xs(1) enc_vector_def optional_of_packed cong: map_cong)
next
  case (TArray P n)
  then obtain xs where xs: "v = VSeq xs" "\<forall>x\<in>set xs. fit U S P x" by (auto simp: fit_def)
  then have "wire_null U enc (optional_of P) x = wire U enc P x" if "x \<in> set xs" for x using TArray that by simp
  then show ?case by (auto simp: xs(1) enc_vector_def optional_of_packed cong: map_cong)
qed (auto simp: fit_def opt_of_def wire_nullable_def)

text \<open>C31: a receiver may declare nullable what the sender declares to be there: what AParcel_writeData sends is read by
  AParcel_readNullableData for the type with \<open>std::optional\<close> around every string, parcelable and vector, as the same value.\<close>

theorem ndk_nullable_compatible:
  assumes ok: "parcelables_ok O' S enc" and P: "data_type P" and v: "fit U S P v" and d: "has_type (optional_of P) d"
    and w: "writable E (length (wire U enc P v)) p" and objs: "objects_within E (mDataPos p) (mObjects p)"
  shows "\<exists>q r. AParcel_writeData U O' E P v p = Inr (OK, q) \<and>
    AParcel_readNullableData U O' E (optional_of P) d (rewound (mDataPos p) q) = Inr ((OK, v), r) \<and> mDataPos r = mDataPos q"
proof -
  obtain q where q: "AParcel_writeData U O' E P v p = Inr (OK, q)" "wrote E p (wire U enc P v) q"
    using value_codec.wr_ok [OF all_data_codecs [OF ok P] v w] by blast
  have "readable E (wire_null U enc (optional_of P) v) (rewound (mDataPos p) q)"
    using wrote_readable [OF q(2) _ _ objs] w by (simp add: writable_def optional_of_wire [OF P v])
  from value_codec.rd_ok [OF all_null_codecs [OF ok optional_of_type [OF P]] optional_of_fit [OF v] d this] q show ?thesis
    by (auto simp: advanced_def wrote_def optional_of_wire [OF P v])
qed

text \<open>A witness: a vector of strings.\<close>

theorem ndk_nullable_compatible_witness:
  "\<exists>q r. AParcel_writeData ascii boxes linux_env (TVector TString) (VSeq [VText [72, 105]]) Parcel = Inr (OK, q) \<and>
    AParcel_readNullableData ascii boxes linux_env (TOptional (TVector (TOptional TString))) VNull (rewound 0 q)
      = Inr ((OK, VSeq [VText [72, 105]]), r) \<and> mDataPos r = mDataPos q"
proof -
  have "fit ascii (\<lambda>k x. True) (TVector TString) (VSeq [VText [72, 105]] :: u32 ndk_value)" using ascii_text [of "[72, 105]"] by (simp add: fit_def)
  moreover have "writable linux_env (length (wire ascii (\<lambda>k. enc32) (TVector TString) (VSeq [VText [72, 105]]))) Parcel"
    by (simp add: writable_fresh packed_def enc_vector_def wire_text_def enc_string16_def padded_len_def ascii_def)
  moreover have "mDataPos Parcel = 0" by (simp add: Parcel_def)
  ultimately show ?thesis
    using ndk_nullable_compatible [OF boxes_ok, of "TVector TString" ascii "VSeq [VText [72, 105]]" VNull linux_env Parcel] no_objects_fresh
    by (simp add: vector_element_def del: AParcel_writeData.simps AParcel_readNullableData.simps wire.simps)
qed

lemma strings_wire: "wire U enc (TVector TString) (VSeq (map VText ts)) = enc_vector encString16 (map (utf8_to_utf16 U) ts)"
  by (simp add: packed_def enc_vector_def wire_text_def comp_def)

text \<open>C32: the two parcels of the process agree on vectors of strings: what the NDK sends is read by \<open>Parcel::readString16Vector\<close> as the
  strings in UTF-16, and what \<open>Parcel::writeString16Vector\<close> sends is read by the NDK as the texts.\<close>

theorem ndk_libbinder_strings:
  assumes ts: "\<forall>t\<in>set ts. unicode_text U t" and w: "writable E (length (enc_vector encString16 (map (utf8_to_utf16 U) ts))) p"
    and objs: "objects_within E (mDataPos p) (mObjects p)"
  shows "(\<exists>q r. AParcel_writeData U boxes E (TVector TString) (VSeq (map VText ts)) p = Inr (OK, q) \<and>
      readVector readString16 E (rewound (mDataPos p) q) = Inr (Inr (map (utf8_to_utf16 U) ts), r) \<and> mDataPos r = mDataPos q) \<and>
    (\<exists>q r. writeVector wrString16 E (map (utf8_to_utf16 U) ts) p = Inr (OK, q) \<and>
      AParcel_readData U boxes E (TVector TString) (VSeq []) (rewound (mDataPos p) q) = Inr ((OK, VSeq (map VText ts)), r) \<and>
      mDataPos r = mDataPos q)"
proof -
  let ?v = "VSeq (map VText ts) :: u32 ndk_value" and ?c = "map (utf8_to_utf16 U) ts"
  note c = std_vector_codec [OF boxes_ok, of TString U]
  have v: "fit U (\<lambda>k x. True) (TVector TString) ?v" "has_type (TVector TString) (VSeq [])" using ts by (auto simp: fit_def)
  have el: "vector_element TString" by (simp add: vector_element_def)
  have inv: "parcel_inv E p" "mDataPos p \<le> mDataSize p" using w by (simp_all add: writable_def)
  obtain q where q: "AParcel_writeData U boxes E (TVector TString) ?v p = Inr (OK, q)" "wrote E p (enc_vector encString16 ?c) q"
    using value_codec.wr_ok [OF c [OF el] v(1), of E p] w unfolding strings_wire by blast
  obtain q' where q': "writeVector wrString16 E ?c p = Inr (OK, q')" "wrote E p (enc_vector encString16 ?c) q'"
    using parcel_codec.wr_ok [OF str16.vector_codec w] by blast
  from parcel_codec.rd_ok [OF str16.vector_codec wrote_readable [OF q(2) inv objs]] q
  have "\<exists>q r. AParcel_writeData U boxes E (TVector TString) ?v p = Inr (OK, q) \<and>
      readVector readString16 E (rewound (mDataPos p) q) = Inr (Inr ?c, r) \<and> mDataPos r = mDataPos q"
    by (auto simp: advanced_def wrote_def)
  moreover have "\<exists>r. AParcel_readData U boxes E (TVector TString) (VSeq []) (rewound (mDataPos p) q') = Inr ((OK, ?v), r) \<and> mDataPos r = mDataPos q'"
    using value_codec.rd_ok [OF c [OF el] v, of E "rewound (mDataPos p) q'"] wrote_readable [OF q'(2) inv objs] q'(2)
    unfolding strings_wire by (auto simp: advanced_def wrote_def)
  ultimately show ?thesis using q'(1) by blast
qed

text \<open>A witness: two words.\<close>

theorem ndk_libbinder_strings_witness:
  "\<exists>q r. AParcel_writeData ascii boxes linux_env (TVector TString) (VSeq [VText [72, 105], VText [33]]) Parcel = Inr (OK, q) \<and>
    readVector readString16 linux_env (rewound 0 q) = Inr (Inr [[72, 105], [33]], r) \<and> mDataPos r = mDataPos q"
proof -
  have "\<forall>t\<in>set [[72, 105], [33]]. unicode_text ascii t" by (simp add: ascii_text)
  moreover have "writable linux_env (length (enc_vector encString16 (map (utf8_to_utf16 ascii) [[72, 105], [33]]))) Parcel"
    by (simp add: writable_fresh enc_vector_def enc_string16_def padded_len_def ascii_def)
  moreover have "mDataPos Parcel = 0" by (simp add: Parcel_def)
  moreover have "map (utf8_to_utf16 ascii) [[72, 105], [33]] = [[72, 105], [33]]" by (simp add: ascii_def)
  ultimately show ?thesis using ndk_libbinder_strings [of "[[72, 105], [33]]" ascii linux_env Parcel] no_objects_fresh
    by (simp del: AParcel_writeData.simps)
qed

section \<open>The bytes of a parcel\<close>

lemma unmarshalled:
  assumes p: "parcel_inv E p" "mDataPos p \<le> mDataSize p" "mError p = NO_ERROR" "\<forall>k. \<not> oom E k"
    and n: "mDataSize p \<le> length bs" "0 < length bs" "((length bs + padded_len (length bs)) * 3) div 2 \<le> INT32_MAX"
  shows "\<exists>q. AParcel_unmarshal E bs p = Inr (OK, q) \<and> parcel_inv E q \<and> contents q = pad_bytes bs \<and> mObjects q = mObjects p \<and>
    mDataPos q \<le> mDataSize q"
proof -
  have "x \<le> x * 3 div 2" for x :: nat by presburger
  from this [of "length bs + padded_len (length bs)"] have le: "length bs \<le> INT32_MAX" using n(3) by linarith
  obtain q where q: "continueWrite E (length bs) p = Inr (NO_ERROR, q)" using continueWrite_ok [OF p(1,4) n(1,2) le] by blast
  have g: "parcel_inv E q" "same_frame p q" "length bs \<le> mDataCapacity q" using continueWrite_grow [OF p(1,2) n(1,2) q] by auto
  let ?q = "rewound 0 (q\<lparr>mDataSize := length bs\<rparr>)"
  have inv: "parcel_inv E (q\<lparr>mDataSize := length bs\<rparr>)"
    using g n(1) by (auto simp: parcel_inv_def buf_ok_def same_frame_def split: option.splits)
  have "mError ?q = NO_ERROR" using g(2) p(3) by (simp add: same_frame_def rewound_def)
  then have w: "writable E (padded_len (length bs)) ?q" using inv p(4) n(3) by (simp add: writable_def)
  have "mData ?q \<noteq> None" using g(1,3) n(2) by (cases "mData q") (auto simp: rewound_def parcel_inv_def buf_ok_def)
  with writeInplace_fill [of E bs "[]" ?q] w obtain r s where
    r: "writeInplace E (length bs) ?q = Inr (Some 0, r)" "memcpy_in 0 bs r = Inr s" "wrote E ?q (pad_bytes bs) s"
    by (auto dest!: memcpy_in_Nil)
  have "contents s = pad_bytes bs" using r(3) length_contents [OF inv] padded_len_ge [of "length bs"]
    by (auto simp: wrote_def poke_def)
  moreover have "AParcel_unmarshal E bs p = Inr (OK, s)"
    using q r(1,2) le by (simp add: AParcel_unmarshal_def setDataSize_def setDataPosition_ok)
  ultimately show ?thesis using r(3) g(2) by (auto simp: wrote_def same_flags_def same_frame_def rewound_def)
qed

lemma marshalled:
  assumes inv: "parcel_inv E q" and pos: "mDataPos q \<le> mDataSize q" and c: "contents q = pad_bytes bs" and objs: "mObjects q = []"
    and le: "start + len \<le> length bs"
  shows "AParcel_marshal start len q = Inr (OK, take len (drop start bs))"
proof -
  have size: "mDataSize q = padded_len (length bs)" using length_contents [OF inv] c by simp
  then have "AParcel_getDataSize q = int (padded_len (length bs))"
    using inv pos by (simp add: AParcel_getDataSize_def dataSize_def parcel_inv_def sint_of_nat_small)
  moreover have "int (padded_len (length bs)) < 2 ^ 64" using inv size by (simp add: parcel_inv_def)
  moreover have "memcpy_out start len q = Inr (take len (drop start bs))"
    using memcpy_out_contents [OF inv, of start len] size le padded_len_ge [of "length bs"] c
    by (simp add: peek_def pad_bytes_def)
  moreover have "start + len \<le> padded_len (length bs)" using le padded_len_ge [of "length bs"] by linarith
  ultimately show ?thesis using objs by (simp add: AParcel_marshal_def)
qed

text \<open>Bytes that AParcel_unmarshal puts into a parcel without objects, of no more data than the buffer, come out of AParcel_marshal, whole
  or in part.\<close>

lemma marshal_roundtrip:
  assumes p: "parcel_inv E p" "mDataPos p \<le> mDataSize p" "mError p = NO_ERROR" "\<forall>k. \<not> oom E k" "mObjects p = []"
    and n: "mDataSize p \<le> length bs" "0 < length bs" "((length bs + padded_len (length bs)) * 3) div 2 \<le> INT32_MAX"
    and part: "start + len \<le> length bs"
  shows "\<exists>q. AParcel_unmarshal E bs p = Inr (OK, q) \<and> parcel_inv E q \<and> AParcel_marshal start len q = Inr (OK, take len (drop start bs))"
proof -
  obtain q where q: "AParcel_unmarshal E bs p = Inr (OK, q)" "parcel_inv E q" "contents q = pad_bytes bs" "mObjects q = []" "mDataPos q \<le> mDataSize q"
    using unmarshalled [OF p(1-4) n] p(5) by auto
  with marshalled [OF q(2,5,3,4) part] show ?thesis by blast
qed

end
