(* ===== verification/Bundle.thy ===== *)
theory Bundle
  imports Parcel_Safe
begin

text \<open>
  PersistableBundle (\<open>libs/binder/PersistableBundle.cpp\<close>): a map from names to values of eleven types, one of them bundles, kept as one
  \<open>std::map\<close> for each type, and its format in a parcel. A \<open>std::map\<close> is the list of its entries in the order of the keys; the order of
  String16 belongs to libutils and is the parameter \<open>lt\<close>. What a failed read leaves in the bundle is not modelled. The reader calls itself for a bundle in a bundle as
  deep as the data says: it is a partial function, proved to return.
\<close>

section \<open>Bundles\<close>

type_synonym bundle_key = "u16 list"
type_synonym key_order = "bundle_key \<Rightarrow> bundle_key \<Rightarrow> bool"

datatype pbundle = PersistableBundle
  (mBoolMap: "(bundle_key \<times> bool) list")
  (mIntMap: "(bundle_key \<times> u32) list")
  (mLongMap: "(bundle_key \<times> u64) list")
  (mDoubleMap: "(bundle_key \<times> u64) list")
  (mStringMap: "(bundle_key \<times> u16 list) list")
  (mBoolVectorMap: "(bundle_key \<times> bool list) list")
  (mIntVectorMap: "(bundle_key \<times> u32 list) list")
  (mLongVectorMap: "(bundle_key \<times> u64 list) list")
  (mDoubleVectorMap: "(bundle_key \<times> u64 list) list")
  (mStringVectorMap: "(bundle_key \<times> u16 list list) list")
  (mPersistableBundleMap: "(bundle_key \<times> pbundle) list")

definition no_entries :: pbundle where
  "no_entries = PersistableBundle [] [] [] [] [] [] [] [] [] [] []"

text \<open>A value with its type: which method of the bundle is meant.\<close>

datatype bundle_value =
  PBoolean bool | PInt u32 | PLong u64 | PDouble u64 | PString "u16 list" | PBooleanVector "bool list" | PIntVector "u32 list"
| PLongVector "u64 list" | PDoubleVector "u64 list" | PStringVector "u16 list list" | PBundle pbundle

abbreviation VAL_STRING :: u32 where "VAL_STRING \<equiv> 0"
abbreviation VAL_INTEGER :: u32 where "VAL_INTEGER \<equiv> 1"
abbreviation VAL_LONG :: u32 where "VAL_LONG \<equiv> 6"
abbreviation VAL_DOUBLE :: u32 where "VAL_DOUBLE \<equiv> 8"
abbreviation VAL_BOOLEAN :: u32 where "VAL_BOOLEAN \<equiv> 9"
abbreviation VAL_STRINGARRAY :: u32 where "VAL_STRINGARRAY \<equiv> 14"
abbreviation VAL_INTARRAY :: u32 where "VAL_INTARRAY \<equiv> 18"
abbreviation VAL_LONGARRAY :: u32 where "VAL_LONGARRAY \<equiv> 19"
abbreviation VAL_BOOLEANARRAY :: u32 where "VAL_BOOLEANARRAY \<equiv> 23"
abbreviation VAL_PERSISTABLEBUNDLE :: u32 where "VAL_PERSISTABLEBUNDLE \<equiv> 25"
abbreviation VAL_DOUBLEARRAY :: u32 where "VAL_DOUBLEARRAY \<equiv> 28"

text \<open>\<open>map[key] = value\<close>, \<open>map.erase(key)\<close> and \<open>map.find(key)\<close>.\<close>

fun map_set :: "key_order \<Rightarrow> bundle_key \<Rightarrow> 'v \<Rightarrow> (bundle_key \<times> 'v) list \<Rightarrow> (bundle_key \<times> 'v) list" where
  "map_set lt k v [] = [(k, v)]"
| "map_set lt k v ((k', v') # m) =
     (if k' = k then (k, v) # m else if lt k k' then (k, v) # (k', v') # m else (k', v') # map_set lt k v m)"

definition map_erase :: "bundle_key \<Rightarrow> (bundle_key \<times> 'v) list \<Rightarrow> (bundle_key \<times> 'v) list" where
  "map_erase k m = filter (\<lambda>(k', v). k' \<noteq> k) m"

definition getValue :: "bundle_key \<Rightarrow> (bundle_key \<times> 'v) list \<Rightarrow> 'v option" where
  "getValue key m = map_of m key"

definition getKeys :: "(bundle_key \<times> 'v) list \<Rightarrow> bundle_key set" where
  "getKeys m = fst ` set m"

section \<open>Entries\<close>

definition bundle_size :: "pbundle \<Rightarrow> nat" where
  "bundle_size b = length (mBoolMap b) + length (mIntMap b) + length (mLongMap b) + length (mDoubleMap b) + length (mStringMap b) +
     length (mBoolVectorMap b) + length (mIntVectorMap b) + length (mLongVectorMap b) + length (mDoubleVectorMap b) +
     length (mStringVectorMap b) + length (mPersistableBundleMap b)"

definition bundle_empty :: "pbundle \<Rightarrow> bool" where
  "bundle_empty b \<longleftrightarrow> bundle_size b = 0"

text \<open>The first map that has the key loses it; the rest is left alone.\<close>

fun erase :: "bundle_key \<Rightarrow> pbundle \<Rightarrow> nat \<times> pbundle" where
  "erase key (PersistableBundle bo i l d s bov iv lv dv sv pb) =
     (if key \<in> getKeys bo then (1, PersistableBundle (map_erase key bo) i l d s bov iv lv dv sv pb)
      else if key \<in> getKeys i then (1, PersistableBundle bo (map_erase key i) l d s bov iv lv dv sv pb)
      else if key \<in> getKeys l then (1, PersistableBundle bo i (map_erase key l) d s bov iv lv dv sv pb)
      else if key \<in> getKeys d then (1, PersistableBundle bo i l (map_erase key d) s bov iv lv dv sv pb)
      else if key \<in> getKeys s then (1, PersistableBundle bo i l d (map_erase key s) bov iv lv dv sv pb)
      else if key \<in> getKeys bov then (1, PersistableBundle bo i l d s (map_erase key bov) iv lv dv sv pb)
      else if key \<in> getKeys iv then (1, PersistableBundle bo i l d s bov (map_erase key iv) lv dv sv pb)
      else if key \<in> getKeys lv then (1, PersistableBundle bo i l d s bov iv (map_erase key lv) dv sv pb)
      else if key \<in> getKeys dv then (1, PersistableBundle bo i l d s bov iv lv (map_erase key dv) sv pb)
      else if key \<in> getKeys sv then (1, PersistableBundle bo i l d s bov iv lv dv (map_erase key sv) pb)
      else (if key \<in> getKeys pb then 1 else 0, PersistableBundle bo i l d s bov iv lv dv sv (map_erase key pb)))"

text \<open>The assignment to the map of the type of the value.\<close>

fun store_value :: "key_order \<Rightarrow> bundle_key \<Rightarrow> bundle_value \<Rightarrow> pbundle \<Rightarrow> pbundle" where
  "store_value lt k (PBoolean x) (PersistableBundle bo i l d s bov iv lv dv sv pb) = PersistableBundle (map_set lt k x bo) i l d s bov iv lv dv sv pb"
| "store_value lt k (PInt x) (PersistableBundle bo i l d s bov iv lv dv sv pb) = PersistableBundle bo (map_set lt k x i) l d s bov iv lv dv sv pb"
| "store_value lt k (PLong x) (PersistableBundle bo i l d s bov iv lv dv sv pb) = PersistableBundle bo i (map_set lt k x l) d s bov iv lv dv sv pb"
| "store_value lt k (PDouble x) (PersistableBundle bo i l d s bov iv lv dv sv pb) = PersistableBundle bo i l (map_set lt k x d) s bov iv lv dv sv pb"
| "store_value lt k (PString x) (PersistableBundle bo i l d s bov iv lv dv sv pb) = PersistableBundle bo i l d (map_set lt k x s) bov iv lv dv sv pb"
| "store_value lt k (PBooleanVector x) (PersistableBundle bo i l d s bov iv lv dv sv pb) = PersistableBundle bo i l d s (map_set lt k x bov) iv lv dv sv pb"
| "store_value lt k (PIntVector x) (PersistableBundle bo i l d s bov iv lv dv sv pb) = PersistableBundle bo i l d s bov (map_set lt k x iv) lv dv sv pb"
| "store_value lt k (PLongVector x) (PersistableBundle bo i l d s bov iv lv dv sv pb) = PersistableBundle bo i l d s bov iv (map_set lt k x lv) dv sv pb"
| "store_value lt k (PDoubleVector x) (PersistableBundle bo i l d s bov iv lv dv sv pb) = PersistableBundle bo i l d s bov iv lv (map_set lt k x dv) sv pb"
| "store_value lt k (PStringVector x) (PersistableBundle bo i l d s bov iv lv dv sv pb) = PersistableBundle bo i l d s bov iv lv dv (map_set lt k x sv) pb"
| "store_value lt k (PBundle x) (PersistableBundle bo i l d s bov iv lv dv sv pb) = PersistableBundle bo i l d s bov iv lv dv sv (map_set lt k x pb)"

text \<open>putBoolean to putPersistableBundle, by the type of the value.\<close>

definition put_value :: "key_order \<Rightarrow> bundle_key \<Rightarrow> bundle_value \<Rightarrow> pbundle \<Rightarrow> pbundle" where
  "put_value lt key v b = store_value lt key v (snd (erase key b))"

text \<open>getBoolean to getPersistableBundle, and the getters of the keys, by the number of the type.\<close>

definition get_value :: "u32 \<Rightarrow> bundle_key \<Rightarrow> pbundle \<Rightarrow> bundle_value option" where
  "get_value t key b =
     (if t = VAL_BOOLEAN then map_option PBoolean (getValue key (mBoolMap b))
      else if t = VAL_INTEGER then map_option PInt (getValue key (mIntMap b))
      else if t = VAL_LONG then map_option PLong (getValue key (mLongMap b))
      else if t = VAL_DOUBLE then map_option PDouble (getValue key (mDoubleMap b))
      else if t = VAL_STRING then map_option PString (getValue key (mStringMap b))
      else if t = VAL_BOOLEANARRAY then map_option PBooleanVector (getValue key (mBoolVectorMap b))
      else if t = VAL_INTARRAY then map_option PIntVector (getValue key (mIntVectorMap b))
      else if t = VAL_LONGARRAY then map_option PLongVector (getValue key (mLongVectorMap b))
      else if t = VAL_DOUBLEARRAY then map_option PDoubleVector (getValue key (mDoubleVectorMap b))
      else if t = VAL_STRINGARRAY then map_option PStringVector (getValue key (mStringVectorMap b))
      else if t = VAL_PERSISTABLEBUNDLE then map_option PBundle (getValue key (mPersistableBundleMap b))
      else None)"

definition keys_of_type :: "u32 \<Rightarrow> pbundle \<Rightarrow> bundle_key set" where
  "keys_of_type t b =
     (if t = VAL_BOOLEAN then getKeys (mBoolMap b)
      else if t = VAL_INTEGER then getKeys (mIntMap b)
      else if t = VAL_LONG then getKeys (mLongMap b)
      else if t = VAL_DOUBLE then getKeys (mDoubleMap b)
      else if t = VAL_STRING then getKeys (mStringMap b)
      else if t = VAL_BOOLEANARRAY then getKeys (mBoolVectorMap b)
      else if t = VAL_INTARRAY then getKeys (mIntVectorMap b)
      else if t = VAL_LONGARRAY then getKeys (mLongVectorMap b)
      else if t = VAL_DOUBLEARRAY then getKeys (mDoubleVectorMap b)
      else if t = VAL_STRINGARRAY then getKeys (mStringVectorMap b)
      else if t = VAL_PERSISTABLEBUNDLE then getKeys (mPersistableBundleMap b)
      else {})"

section \<open>Writing\<close>

abbreviation BUNDLE_MAGIC :: u32 where "BUNDLE_MAGIC \<equiv> 0x4C444E42"
abbreviation BUNDLE_MAGIC_NATIVE :: u32 where "BUNDLE_MAGIC_NATIVE \<equiv> 0x4C444E44"

text \<open>\<open>RETURN_IF_FAILED\<close>.\<close>

definition if_ok :: "status_t parcel_run \<Rightarrow> (parcel \<Rightarrow> status_t parcel_run) \<Rightarrow> status_t parcel_run" where
  "if_ok r f = bind_run r (\<lambda>(status, p). if status \<noteq> OK then Inr (status, p) else f p)"

fun write_map ::
  "(env \<Rightarrow> 'v \<Rightarrow> parcel \<Rightarrow> status_t parcel_run) \<Rightarrow> u32 \<Rightarrow> env \<Rightarrow> (bundle_key \<times> 'v) list \<Rightarrow> parcel \<Rightarrow> status_t parcel_run" where
  "write_map wr t E [] p = Inr (OK, p)"
| "write_map wr t E ((key, v) # m) p =
     if_ok (writeString16 E (Some key) p) (\<lambda>p. if_ok (writeInt32 E t p) (\<lambda>p. if_ok (wr E v p) (write_map wr t E m)))"

lemma write_map_cong [fundef_cong]:
  "m = m' \<Longrightarrow> (\<And>k v. (k, v) \<in> set m' \<Longrightarrow> wr E v = wr' E v) \<Longrightarrow> write_map wr t E m = write_map wr' t E m'"
proof -
  assume m: "m = m'" and "\<And>k v. (k, v) \<in> set m' \<Longrightarrow> wr E v = wr' E v"
  then have "\<forall>(k, v)\<in>set m. wr E v = wr' E v" by auto
  then have "write_map wr t E m p = write_map wr' t E m p" for p
    by (induction m arbitrary: p) (auto simp: if_ok_def intro!: bind_run_cong)
  with m show "write_map wr t E m = write_map wr' t E m'" by blast
qed

text \<open>\<open>nested\<close> is writeToParcel of the bundles inside.\<close>

definition writeToParcelInner :: "(pbundle \<Rightarrow> parcel \<Rightarrow> status_t parcel_run) \<Rightarrow> env \<Rightarrow> pbundle \<Rightarrow> parcel \<Rightarrow> status_t parcel_run" where
  "writeToParcelInner nested E b p =
     (if bundle_size b > INT32_MAX then Inr (BAD_VALUE, p)
      else if_ok (writeInt32 E (of_nat (bundle_size b)) p)
        (\<lambda>p. if_ok (write_map writeBool VAL_BOOLEAN E (mBoolMap b) p)
        (\<lambda>p. if_ok (write_map writeInt32 VAL_INTEGER E (mIntMap b) p)
        (\<lambda>p. if_ok (write_map writeInt64 VAL_LONG E (mLongMap b) p)
        (\<lambda>p. if_ok (write_map writeDouble VAL_DOUBLE E (mDoubleMap b) p)
        (\<lambda>p. if_ok (write_map wrString16 VAL_STRING E (mStringMap b) p)
        (\<lambda>p. if_ok (write_map (writeWideVector (\<lambda>x. if x then 1 else 0)) VAL_BOOLEANARRAY E (mBoolVectorMap b) p)
        (\<lambda>p. if_ok (write_map (writePodVector enc32 4) VAL_INTARRAY E (mIntVectorMap b) p)
        (\<lambda>p. if_ok (write_map (writePodVector enc64 8) VAL_LONGARRAY E (mLongVectorMap b) p)
        (\<lambda>p. if_ok (write_map (writePodVector enc64 8) VAL_DOUBLEARRAY E (mDoubleVectorMap b) p)
        (\<lambda>p. if_ok (write_map (writeVector wrString16) VAL_STRINGARRAY E (mStringVectorMap b) p)
        (write_map (\<lambda>_. nested) VAL_PERSISTABLEBUNDLE E (mPersistableBundleMap b)))))))))))))"

lemma writeToParcelInner_cong [fundef_cong]:
  assumes "b = b'" and "\<And>k v. (k, v) \<in> set (mPersistableBundleMap b') \<Longrightarrow> nested v = nested' v"
  shows "writeToParcelInner nested E b = writeToParcelInner nested' E b'"
proof -
  have w: "write_map (\<lambda>_. nested) VAL_PERSISTABLEBUNDLE E (mPersistableBundleMap b) = write_map (\<lambda>_. nested') VAL_PERSISTABLEBUNDLE E (mPersistableBundleMap b')"
    by (rule write_map_cong) (use assms in auto)
  show ?thesis by (intro ext) (simp only: writeToParcelInner_def w [unfolded assms(1)] assms(1))
qed

lemma nested_smaller: "(k, v) \<in> set (mPersistableBundleMap b) \<Longrightarrow> size v < size b"
proof (cases b)
  case (PersistableBundle x1 x2 x3 x4 x5 x6 x7 x8 x9 x10 x11)
  assume "(k, v) \<in> set (mPersistableBundleMap b)"
  with PersistableBundle have "(k, v) \<in> set x11" by simp
  then have "size v < size_list (size_prod (\<lambda>x. 0) size) x11" by (induction x11) auto
  with PersistableBundle show ?thesis by simp
qed

function writeToParcel :: "env \<Rightarrow> pbundle \<Rightarrow> parcel \<Rightarrow> status_t parcel_run" where
  "writeToParcel E b p =
     (if bundle_empty b then if_ok (writeInt32 E 0 p) (\<lambda>p. Inr (OK, p))
      else
        let length_pos = dataPosition p in
        if_ok (writeInt32 E 1 p) (\<lambda>p.
        if_ok (writeInt32 E BUNDLE_MAGIC_NATIVE p) (\<lambda>p.
        let start_pos = dataPosition p in
        if_ok (writeToParcelInner (\<lambda>v p. writeToParcel E v p) E b p) (\<lambda>p.
        let end_pos = dataPosition p; length = end_pos - start_pos in
        bind_run (setDataPosition length_pos p) (\<lambda>p.
        if length > INT32_MAX then Inr (BAD_VALUE, p)
        else if_ok (writeInt32 E (of_nat length) p) (\<lambda>p.
          bind_run (setDataPosition end_pos p) (\<lambda>p. Inr (OK, p))))))))"
  by pat_completeness auto
termination by (relation "measure (\<lambda>(E, b, p). size b)") (auto simp: nested_smaller)

declare writeToParcel.simps [simp del]

section \<open>Reading\<close>

text \<open>The beginning of readFromParcel and readFromParcelInner: \<open>None\<close> for an empty bundle, else the number of entries.\<close>

definition read_begin :: "env \<Rightarrow> parcel \<Rightarrow> u32 option read_run" where
  "read_begin E p =
     bind_run (readInt32_value E p) (\<lambda>(length, p).
     if sint length < 0 then Inr (Inl UNEXPECTED_NULL, p)
     else if length = 0 then Inr (Inr None, p)
     else bind_read (readInt32 E p) (\<lambda>magic p.
       if magic \<noteq> BUNDLE_MAGIC \<and> magic \<noteq> BUNDLE_MAGIC_NATIVE then Inr (Inl BAD_VALUE, p)
       else map_read Some (readInt32 E p)))"

text \<open>The cases of the switch but for a bundle.\<close>

definition read_value :: "env \<Rightarrow> u32 \<Rightarrow> parcel \<Rightarrow> bundle_value read_run" where
  "read_value E value_type p =
     (if value_type = VAL_STRING then map_read PString (readString16 E p)
      else if value_type = VAL_INTEGER then map_read PInt (readInt32 E p)
      else if value_type = VAL_LONG then map_read PLong (readInt64 E p)
      else if value_type = VAL_DOUBLE then map_read PDouble (readDouble E p)
      else if value_type = VAL_BOOLEAN then map_read PBoolean (readBool E p)
      else if value_type = VAL_STRINGARRAY then map_read PStringVector (readVector readString16 E p)
      else if value_type = VAL_INTARRAY then map_read PIntVector (readPodVector dec32 4 E p)
      else if value_type = VAL_LONGARRAY then map_read PLongVector (readPodVector dec64 8 E p)
      else if value_type = VAL_BOOLEANARRAY then map_read PBooleanVector (readWideVector (\<lambda>w. w \<noteq> 0) E p)
      else if value_type = VAL_DOUBLEARRAY then map_read PDoubleVector (readPodVector dec64 8 E p)
      else Inr (Inl BAD_TYPE, p))"

definition read_key :: "env \<Rightarrow> parcel \<Rightarrow> (bundle_key \<times> u32) read_run" where
  "read_key E p = bind_read (readString16 E p) (\<lambda>key p. map_read (Pair key) (readInt32 E p))"

text \<open>\<open>mPersistableBundleMap[key]\<close>.\<close>

definition nested_at :: "bundle_key \<Rightarrow> pbundle \<Rightarrow> pbundle" where
  "nested_at key b = (case getValue key (mPersistableBundleMap b) of None \<Rightarrow> no_entries | Some c \<Rightarrow> c)"

partial_function (option) read_entries :: "key_order \<Rightarrow> env \<Rightarrow> u32 \<Rightarrow> pbundle \<Rightarrow> parcel \<Rightarrow> (pbundle read_run) option" where
  "read_entries lt E num_entries b p =
     (if sint num_entries \<le> 0 then Some (Inr (Inr b, p))
      else and_then (Some (read_key E p)) (\<lambda>(x, p).
        case x of
          Inl st \<Rightarrow> Some (Inr (Inl st, p))
        | Inr (key, value_type) \<Rightarrow>
            if value_type = VAL_PERSISTABLEBUNDLE then
              and_then (Some (read_begin E p)) (\<lambda>(y, p).
              case y of
                Inl st \<Rightarrow> Some (Inr (Inl st, p))
              | Inr None \<Rightarrow> read_entries lt E (num_entries - 1) (store_value lt key (PBundle (nested_at key b)) b) p
              | Inr (Some n) \<Rightarrow>
                  and_then (read_entries lt E n (nested_at key b) p) (\<lambda>(z, p).
                  case z of
                    Inl st \<Rightarrow> Some (Inr (Inl st, p))
                  | Inr c \<Rightarrow> read_entries lt E (num_entries - 1) (store_value lt key (PBundle c) b) p))
            else
              and_then (Some (read_value E value_type p)) (\<lambda>(y, p).
              case y of
                Inl st \<Rightarrow> Some (Inr (Inl st, p))
              | Inr v \<Rightarrow> read_entries lt E (num_entries - 1) (store_value lt key v b) p)))"

definition readFromParcel :: "key_order \<Rightarrow> env \<Rightarrow> pbundle \<Rightarrow> parcel \<Rightarrow> (pbundle read_run) option" where
  "readFromParcel lt E b p =
     and_then (Some (read_begin E p)) (\<lambda>(x, p).
     case x of
       Inl st \<Rightarrow> Some (Inr (Inl st, p))
     | Inr None \<Rightarrow> Some (Inr (Inr b, p))
     | Inr (Some num_entries) \<Rightarrow> read_entries lt E num_entries b p)"

end
