(* ===== verification/Bundle_Codec.thy ===== *)
theory Bundle_Codec
  imports Bundle
begin

text \<open>
  The format of a bundle in a parcel. The entries of the eleven maps, in the order in which they are written, are one list; the writer and the
  reader of a bundle are those of its entries, and the induction over bundles in bundles uses the two shapes \<open>puts\<close> and \<open>gets\<close> of a step
  that writes, or reads, given bytes.
\<close>

section \<open>The entries of a bundle\<close>

primrec type_code :: "bundle_value \<Rightarrow> u32" where
  "type_code (PBoolean x) = VAL_BOOLEAN"
| "type_code (PInt x) = VAL_INTEGER"
| "type_code (PLong x) = VAL_LONG"
| "type_code (PDouble x) = VAL_DOUBLE"
| "type_code (PString x) = VAL_STRING"
| "type_code (PBooleanVector x) = VAL_BOOLEANARRAY"
| "type_code (PIntVector x) = VAL_INTARRAY"
| "type_code (PLongVector x) = VAL_LONGARRAY"
| "type_code (PDoubleVector x) = VAL_DOUBLEARRAY"
| "type_code (PStringVector x) = VAL_STRINGARRAY"
| "type_code (PBundle x) = VAL_PERSISTABLEBUNDLE"

abbreviation tagged :: "('v \<Rightarrow> bundle_value) \<Rightarrow> (bundle_key \<times> 'v) list \<Rightarrow> (bundle_key \<times> bundle_value) list" where
  "tagged C m \<equiv> map (\<lambda>(k, x). (k, C x)) m"

definition entries :: "pbundle \<Rightarrow> (bundle_key \<times> bundle_value) list" where
  "entries b = tagged PBoolean (mBoolMap b) @ tagged PInt (mIntMap b) @ tagged PLong (mLongMap b) @ tagged PDouble (mDoubleMap b) @
     tagged PString (mStringMap b) @ tagged PBooleanVector (mBoolVectorMap b) @ tagged PIntVector (mIntVectorMap b) @
     tagged PLongVector (mLongVectorMap b) @ tagged PDoubleVector (mDoubleVectorMap b) @ tagged PStringVector (mStringVectorMap b) @
     tagged PBundle (mPersistableBundleMap b)"

lemma length_entries [simp]: "length (entries b) = bundle_size b"
  by (simp add: entries_def bundle_size_def)

lemma bundle_entries: "(k, PBundle c) \<in> set (entries b) \<longleftrightarrow> (k, c) \<in> set (mPersistableBundleMap b)"
  by (auto simp: entries_def)

primrec write_value :: "(pbundle \<Rightarrow> parcel \<Rightarrow> status_t parcel_run) \<Rightarrow> env \<Rightarrow> bundle_value \<Rightarrow> parcel \<Rightarrow> status_t parcel_run" where
  "write_value nested E (PBoolean x) = writeBool E x"
| "write_value nested E (PInt x) = writeInt32 E x"
| "write_value nested E (PLong x) = writeInt64 E x"
| "write_value nested E (PDouble x) = writeDouble E x"
| "write_value nested E (PString x) = wrString16 E x"
| "write_value nested E (PBooleanVector x) = writeWideVector (\<lambda>x. if x then 1 else 0) E x"
| "write_value nested E (PIntVector x) = writePodVector enc32 4 E x"
| "write_value nested E (PLongVector x) = writePodVector enc64 8 E x"
| "write_value nested E (PDoubleVector x) = writePodVector enc64 8 E x"
| "write_value nested E (PStringVector x) = writeVector wrString16 E x"
| "write_value nested E (PBundle x) = nested x"

fun write_entries :: "(pbundle \<Rightarrow> parcel \<Rightarrow> status_t parcel_run) \<Rightarrow> env \<Rightarrow> (bundle_key \<times> bundle_value) list \<Rightarrow> parcel \<Rightarrow> status_t parcel_run" where
  "write_entries nested E [] p = Inr (OK, p)"
| "write_entries nested E ((key, v) # es) p =
     if_ok (writeString16 E (Some key) p) (\<lambda>p. if_ok (writeInt32 E (type_code v) p) (\<lambda>p. if_ok (write_value nested E v p) (write_entries nested E es)))"

lemma if_ok_assoc: "if_ok (if_ok r f) g = if_ok r (\<lambda>p. if_ok (f p) g)"
  by (auto simp: if_ok_def bind_run_def split: sum.split)

lemma if_ok_done [simp]: "if_ok (Inr (OK, p)) f = f p"
  by (simp add: if_ok_def)

lemma write_entries_append: "write_entries nested E (xs @ ys) p = if_ok (write_entries nested E xs p) (write_entries nested E ys)"
proof (induction xs arbitrary: p)
  case (Cons e xs)
  have "write_entries nested E (xs @ ys) = (\<lambda>p. if_ok (write_entries nested E xs p) (write_entries nested E ys))" by (rule ext) (rule Cons)
  then show ?case by (cases e) (simp add: if_ok_assoc)
qed simp

lemma write_map_entries:
  assumes "\<And>x. type_code (C x) = t" "\<And>x. write_value nested E (C x) = wr E x"
  shows "write_map wr t E m = write_entries nested E (tagged C m)"
proof (induction m)
  case Nil
  show ?case by (rule ext) simp
next
  case (Cons e m)
  show ?case by (rule ext) (cases e, simp add: assms Cons)
qed

lemma writeToParcelInner_entries:
  "writeToParcelInner nested E b p =
    (if bundle_size b > INT32_MAX then Inr (BAD_VALUE, p)
     else if_ok (writeInt32 E (of_nat (bundle_size b)) p) (write_entries nested E (entries b)))"
proof -
  have append: "write_entries nested E (xs @ ys) = (\<lambda>p. if_ok (write_entries nested E xs p) (write_entries nested E ys))" for xs ys
    by (rule ext) (rule write_entries_append)
  note m = write_map_entries [where nested = nested]
  show ?thesis
    unfolding writeToParcelInner_def entries_def append
      m [of PBoolean VAL_BOOLEAN E writeBool, OF type_code.simps(1) write_value.simps(1)]
      m [of PInt VAL_INTEGER E writeInt32, OF type_code.simps(2) write_value.simps(2)]
      m [of PLong VAL_LONG E writeInt64, OF type_code.simps(3) write_value.simps(3)]
      m [of PDouble VAL_DOUBLE E writeDouble, OF type_code.simps(4) write_value.simps(4)]
      m [of PString VAL_STRING E wrString16, OF type_code.simps(5) write_value.simps(5)]
      m [of PBooleanVector VAL_BOOLEANARRAY E "writeWideVector (\<lambda>x. if x then 1 else 0)", OF type_code.simps(6) write_value.simps(6)]
      m [of PIntVector VAL_INTARRAY E "writePodVector enc32 4", OF type_code.simps(7) write_value.simps(7)]
      m [of PLongVector VAL_LONGARRAY E "writePodVector enc64 8", OF type_code.simps(8) write_value.simps(8)]
      m [of PDoubleVector VAL_DOUBLEARRAY E "writePodVector enc64 8", OF type_code.simps(9) write_value.simps(9)]
      m [of PStringVector VAL_STRINGARRAY E "writeVector wrString16", OF type_code.simps(10) write_value.simps(10)]
      m [of PBundle VAL_PERSISTABLEBUNDLE E "\<lambda>_. nested", OF type_code.simps(11) write_value.simps(11)]
    by (rule refl)
qed

section \<open>The bytes of a bundle\<close>

primrec enc_value :: "(pbundle \<Rightarrow> byte list) \<Rightarrow> bundle_value \<Rightarrow> byte list" where
  "enc_value nested (PBoolean x) = enc_bool x"
| "enc_value nested (PInt x) = enc32 x"
| "enc_value nested (PLong x) = enc64 x"
| "enc_value nested (PDouble x) = enc64 x"
| "enc_value nested (PString x) = encString16 x"
| "enc_value nested (PBooleanVector x) = enc_pod (\<lambda>x. enc32 (if x then 1 else 0)) x"
| "enc_value nested (PIntVector x) = enc_pod enc32 x"
| "enc_value nested (PLongVector x) = enc_pod enc64 x"
| "enc_value nested (PDoubleVector x) = enc_pod enc64 x"
| "enc_value nested (PStringVector x) = enc_vector encString16 x"
| "enc_value nested (PBundle x) = nested x"

lemma enc_value_cong [fundef_cong]: "v = v' \<Longrightarrow> (\<And>c. v' = PBundle c \<Longrightarrow> nested c = nested' c) \<Longrightarrow> enc_value nested v = enc_value nested' v'"
  by (cases v) auto

definition enc_entry :: "(pbundle \<Rightarrow> byte list) \<Rightarrow> bundle_key \<times> bundle_value \<Rightarrow> byte list" where
  "enc_entry nested e = encString16 (fst e) @ enc32 (type_code (snd e)) @ enc_value nested (snd e)"

lemma enc_entry_cong [fundef_cong]:
  "e = e' \<Longrightarrow> (\<And>k c. e' = (k, PBundle c) \<Longrightarrow> nested c = nested' c) \<Longrightarrow> enc_entry nested e = enc_entry nested' e'"
  using enc_value_cong [of "snd e" "snd e'" nested nested'] by (cases e') (auto simp: enc_entry_def)

function enc_bundle :: "pbundle \<Rightarrow> byte list" where
  "enc_bundle b =
     (if bundle_empty b then enc32 0
      else
        let inner = enc32 (of_nat (bundle_size b)) @ concat (map (enc_entry (\<lambda>c. enc_bundle c)) (entries b)) in
        enc32 (of_nat (length inner)) @ enc32 BUNDLE_MAGIC_NATIVE @ inner)"
  by pat_completeness auto
termination by (relation "measure size") (auto simp: bundle_entries nested_smaller)

declare enc_bundle.simps [simp del]

section \<open>Writing a bundle\<close>

text \<open>A step that appends given bytes; four more are left, for the length that is written over at the end.\<close>

definition puts :: "env \<Rightarrow> byte list \<Rightarrow> (parcel \<Rightarrow> status_t parcel_run) \<Rightarrow> bool" where
  "puts E bs f \<longleftrightarrow> (\<forall>p. writable E (length bs + 4) p \<longrightarrow> (\<exists>q. f p = Inr (OK, q) \<and> wrote E p bs q))"

lemma puts_seq:
  assumes "puts E as f" "puts E bs g"
  shows "puts E (as @ bs) (\<lambda>p. if_ok (f p) g)"
  unfolding puts_def
proof (intro allI impI)
  fix p
  assume w: "writable E (length (as @ bs) + 4) p"
  obtain q where q: "f p = Inr (OK, q)" "wrote E p as q"
    using assms(1) writable_mono [OF w, of "length as + 4"] by (auto simp: puts_def)
  have "writable E (length bs + 4) q" using wrote_writable [OF q(2), of "length bs + 4"] w by (simp add: add.assoc)
  with assms(2) obtain r where "g q = Inr (OK, r)" "wrote E q bs r" by (auto simp: puts_def)
  with q w show "\<exists>r. if_ok (f p) g = Inr (OK, r) \<and> wrote E p (as @ bs) r" by (auto simp: writable_def intro: wrote_trans)
qed

lemma puts_then:
  assumes "puts E as f" "writable E (length as + n + 4) p"
  shows "\<exists>q. f p = Inr (OK, q) \<and> wrote E p as q \<and> writable E (n + 4) q"
proof -
  obtain q where "f p = Inr (OK, q)" "wrote E p as q" using assms writable_mono [OF assms(2), of "length as + 4"] by (auto simp: puts_def)
  then show ?thesis using wrote_writable [of E p as q "n + 4"] assms(2) by (auto simp: add.assoc)
qed

lemma puts_done: "puts E [] (\<lambda>p. Inr (OK, p))"
  by (auto simp: puts_def writable_def intro: wrote_refl)

context parcel_codec
begin

lemma wr_puts: "puts E (enc v) (wr E v)"
  unfolding puts_def using wr_ok writable_mono le_add1 by blast

end

interpretation int32_vec: parcel_codec "writePodVector enc32 4" "readPodVector dec32 4" "enc_pod enc32"
  by (rule pod32.pod_codec)

interpretation str16_vec: parcel_codec "writeVector wrString16" "readVector readString16" "enc_vector encString16"
  by (rule str16.vector_codec)

lemma write_value_puts:
  assumes "\<And>c. v = PBundle c \<Longrightarrow> puts E (enc c) (nested c)"
  shows "puts E (enc_value enc v) (write_value nested E v)"
  using assms by (cases v) (simp_all add: boolean.wr_puts int32.wr_puts int64.wr_puts float64.wr_puts str16.wr_puts
      bool_vec.wr_puts int32_vec.wr_puts int64_vec.wr_puts str16_vec.wr_puts)

lemma write_entries_puts:
  assumes "\<And>k c. (k, PBundle c) \<in> set es \<Longrightarrow> puts E (enc c) (nested c)"
  shows "puts E (concat (map (enc_entry enc) es)) (write_entries nested E es)"
  using assms
proof (induction es)
  case Nil
  have "write_entries nested E [] = (\<lambda>p. Inr (OK, p))" by (rule ext) simp
  then show ?case by (simp add: puts_done)
next
  case (Cons e es)
  obtain k v where e: "e = (k, v)" by fastforce
  have rest: "puts E (concat (map (enc_entry enc) es)) (write_entries nested E es)" by (rule Cons.IH) (use Cons.prems in \<open>auto intro: list.set_intros\<close>)
  have v: "puts E (enc_value enc v) (write_value nested E v)" by (rule write_value_puts) (use Cons.prems e in \<open>auto intro: list.set_intros\<close>)
  have "puts E (concat (map (enc_entry enc) (e # es))) (\<lambda>p. if_ok (wrString16 E k p) (\<lambda>p. if_ok (writeInt32 E (type_code v) p)
      (\<lambda>p. if_ok (write_value nested E v p) (write_entries nested E es))))"
    using puts_seq [OF str16.wr_puts puts_seq [OF int32.wr_puts puts_seq [OF v rest]]] by (simp add: enc_entry_def e)
  moreover have "write_entries nested E (e # es) = (\<lambda>p. if_ok (wrString16 E k p) (\<lambda>p. if_ok (writeInt32 E (type_code v) p)
      (\<lambda>p. if_ok (write_value nested E v p) (write_entries nested E es))))"
    by (rule ext) (simp add: e)
  ultimately show ?case by simp
qed

lemma bundle_size_le: "bundle_size b \<le> length (concat (map (enc_entry enc) (entries b)))"
proof -
  have e: "1 \<le> length (enc_entry enc e)" for e by (simp add: enc_entry_def)
  have "length es \<le> length (concat (map (enc_entry enc) es))" for es
  proof (induction es)
    case (Cons a es)
    with e [of a] show ?case by simp
  qed simp
  from this [of "entries b"] show ?thesis by simp
qed

abbreviation enc_inner :: "pbundle \<Rightarrow> byte list" where
  "enc_inner b \<equiv> enc32 (of_nat (bundle_size b)) @ concat (map (enc_entry enc_bundle) (entries b))"

lemma writeToParcelInner_puts:
  assumes "\<And>k c. (k, c) \<in> set (mPersistableBundleMap b) \<Longrightarrow> puts E (enc_bundle c) (nested c)"
  shows "puts E (enc_inner b) (writeToParcelInner nested E b)"
proof -
  have "puts E (enc_inner b) (\<lambda>p. if_ok (writeInt32 E (of_nat (bundle_size b)) p) (write_entries nested E (entries b)))"
    by (intro puts_seq int32.wr_puts write_entries_puts) (use assms in \<open>auto simp: bundle_entries\<close>)
  moreover have "bundle_size b \<le> INT32_MAX" if "writable E (length (enc_inner b) + 4) p" for p
    using writable_small [OF that] bundle_size_le [of b enc_bundle] by simp
  ultimately show ?thesis unfolding puts_def writeToParcelInner_entries by (metis not_less)
qed

text \<open>The length is written over the place that was left for it.\<close>

lemma rewound_error [simp]: "mError (rewound pos q) = mError q"
  by (simp add: rewound_def)

lemma length_patched:
  assumes w: "writable E (length (enc32 n @ bs) + 4) p" and q: "wrote E p (enc32 m @ bs) q"
  shows "\<exists>r. writeInt32 E n (rewound (mDataPos p) q) = Inr (OK, r) \<and> wrote E p (enc32 n @ bs) (rewound (mDataPos q) r)"
proof -
  have len: "length (contents p) = mDataSize p" "mDataPos p \<le> mDataSize p" using w length_contents by (auto simp: writable_def)
  have "writable E 4 q" using wrote_writable [OF q] w by simp
  then have "writable E 4 (rewound (mDataPos p) q)" using q by (auto simp: writable_def wrote_def)
  then obtain r where r: "writeInt32 E n (rewound (mDataPos p) q) = Inr (OK, r)" "wrote E (rewound (mDataPos p) q) (enc32 n) r"
    using writeInt32_ok by force
  have "poke (mDataPos p) (enc32 n) (contents q) = poke (mDataPos p) (poke 0 (enc32 n) (enc32 m @ bs)) (contents p)"
    using poke_inside_poke [of "mDataPos p" "contents p" 0 "enc32 n" "enc32 m @ bs"] len q by (simp add: wrote_def)
  also have "poke 0 (enc32 n) (enc32 m @ bs) = enc32 n @ bs" by (simp add: poke_def)
  finally have "contents r = poke (mDataPos p) (enc32 n @ bs) (contents p)" using r by (simp add: wrote_def)
  with r q have "wrote E p (enc32 n @ bs) (rewound (mDataPos q) r)"
    by (simp add: wrote_def same_flags_def) (simp add: rewound_def)
  with r show ?thesis by blast
qed

lemma enc_bundle_empty: "bundle_empty b \<Longrightarrow> enc_bundle b = enc32 0"
  by (simp add: enc_bundle.simps)

lemma enc_bundle_entries:
  "\<not> bundle_empty b \<Longrightarrow> enc_bundle b = enc32 (of_nat (length (enc_inner b))) @ enc32 BUNDLE_MAGIC_NATIVE @ enc_inner b"
  by (subst enc_bundle.simps) (simp only: if_False Let_def)

lemma writeToParcel_entries:
  assumes b: "\<not> bundle_empty b" and inner: "puts E (enc_inner b) (writeToParcelInner (\<lambda>v p. writeToParcel E v p) E b)"
    and wp: "writable E (length (enc_bundle b) + 4) p"
  shows "\<exists>q. writeToParcel E b p = Inr (OK, q) \<and> wrote E p (enc_bundle b) q"
proof -
  let ?n = "of_nat (length (enc_inner b)) :: u32" and ?bs = "enc32 BUNDLE_MAGIC_NATIVE @ enc_inner b"
  have w: "writable E (length (enc32 ?n @ ?bs) + 4) p" using wp by (simp only: enc_bundle_entries [OF b])
  obtain p1 where p1: "writeInt32 E 1 p = Inr (OK, p1)" "wrote E p (enc32 1) p1" "writable E (length ?bs + 4) p1"
    using puts_then [OF int32.wr_puts [of E 1], of "length ?bs" p] w by auto
  obtain p2 where p2: "writeInt32 E BUNDLE_MAGIC_NATIVE p1 = Inr (OK, p2)" "wrote E p1 (enc32 BUNDLE_MAGIC_NATIVE) p2"
    "writable E (length (enc_inner b) + 4) p2"
    using puts_then [OF int32.wr_puts [of E BUNDLE_MAGIC_NATIVE], of "length (enc_inner b)" p1] p1(3) by auto
  obtain p3 where p3: "writeToParcelInner (\<lambda>v p. writeToParcel E v p) E b p2 = Inr (OK, p3)" "wrote E p2 (enc_inner b) p3"
    using inner p2(3) by (auto simp: puts_def)
  have inv: "parcel_inv E p" "mDataPos p \<le> mDataSize p" "parcel_inv E p1" "mDataPos p1 \<le> mDataSize p1"
    using w p1(3) by (auto simp: writable_def)
  have "wrote E p1 ?bs p3" using wrote_trans [OF p2(2) p3(2)] inv by simp
  then have q: "wrote E p (enc32 1 @ ?bs) p3" using wrote_trans [OF p1(2)] inv by simp
  obtain r where r: "writeInt32 E ?n (rewound (mDataPos p) p3) = Inr (OK, r)" "wrote E p (enc32 ?n @ ?bs) (rewound (mDataPos p3) r)"
    using length_patched [OF w q] by blast
  have pos: "mDataPos p \<le> INT32_MAX" "mDataPos p3 \<le> INT32_MAX" "length (enc_inner b) \<le> INT32_MAX"
    using writable_small [OF w] q by (auto simp: wrote_def)
  have len: "mDataPos p3 - mDataPos p2 = length (enc_inner b)" using p3(2) by (simp add: wrote_def)
  have "writeToParcel E b p = Inr (OK, rewound (mDataPos p3) r)"
    using r(1) p1(1) p2(1) p3(1) pos len b
    by (subst writeToParcel.simps) (simp add: dataPosition_def setDataPosition_ok Let_def del: length_append)
  with r(2) show ?thesis by (simp only: enc_bundle_entries [OF b]) blast
qed

lemma writeToParcel_puts: "puts E (enc_bundle b) (writeToParcel E b)"
proof (induction "size b" arbitrary: b rule: less_induct)
  case less
  have "puts E (enc_bundle c) (writeToParcel E c)" if "(k, c) \<in> set (mPersistableBundleMap b)" for k c
    using less nested_smaller that by blast
  then have inner: "puts E (enc_inner b) (writeToParcelInner (\<lambda>v p. writeToParcel E v p) E b)" by (rule writeToParcelInner_puts)
  show ?case
  proof (cases "bundle_empty b")
    case True
    with int32.wr_puts [of E 0] show ?thesis by (auto simp: puts_def writeToParcel.simps enc_bundle_empty)
  next
    case False
    from writeToParcel_entries [OF this inner] show ?thesis by (simp add: puts_def)
  qed
qed

section \<open>Reading a bundle\<close>

lemma read_value_ok:
  assumes "readable E (enc_value enc v) p" "type_code v \<noteq> VAL_PERSISTABLEBUNDLE"
  shows "\<exists>q. read_value E (type_code v) p = Inr (Inr v, q) \<and> advanced E p (length (enc_value enc v)) q"
  using assms by (cases v) (auto simp: read_value_def map_read_def dest: boolean.rd_ok int32.rd_ok int64.rd_ok float64.rd_ok str16.rd_ok
      bool_vec.rd_ok int32_vec.rd_ok int64_vec.rd_ok str16_vec.rd_ok)

lemma read_key_ok:
  assumes "readable E (encString16 k @ enc32 t @ bs) p"
  shows "\<exists>q. read_key E p = Inr (Inr (k, t), q) \<and> advanced E p (length (encString16 k) + 4) q \<and> readable E bs q"
proof -
  obtain q where q: "readString16 E p = Inr (Inr k, q)" "advanced E p (length (encString16 k)) q"
    using str16.rd_ok [OF readable_append(1) [OF assms]] by blast
  note r = readable_append(2) [OF assms q(2)]
  obtain s where s: "readInt32 E q = Inr (Inr t, s)" "advanced E q 4 s" using readInt32_ok [OF readable_append(1) [OF r]] by blast
  with q advanced_trans [OF q(2) s(2)] readable_append(2) [OF r, of s] show ?thesis by (auto simp: read_key_def bind_read_def map_read_def)
qed

lemma read_begin_empty:
  assumes "readable E (enc_bundle b) p" "bundle_empty b"
  shows "\<exists>q. read_begin E p = Inr (Inr None, q) \<and> advanced E p (length (enc_bundle b)) q"
  using assms readInt32_value_ok [of E 0 p] by (auto simp: read_begin_def enc_bundle_empty)

lemma read_begin_entries:
  assumes r: "readable E (enc_bundle b) p" and b: "\<not> bundle_empty b"
  shows "\<exists>q. read_begin E p = Inr (Inr (Some (of_nat (bundle_size b))), q) \<and> advanced E p 12 q \<and>
    readable E (concat (map (enc_entry enc_bundle) (entries b))) q"
proof -
  let ?n = "length (enc_inner b)" and ?es = "concat (map (enc_entry enc_bundle) (entries b))"
  have r: "readable E (enc32 (of_nat ?n) @ enc32 BUNDLE_MAGIC_NATIVE @ enc32 (of_nat (bundle_size b)) @ ?es) p"
    using r by (simp only: enc_bundle_entries [OF b])
  then have n: "?n \<le> INT32_MAX" by (auto simp: readable_def parcel_inv_def)
  then have "sint (of_nat ?n :: u32) = int ?n" by (rule sint_of_nat_small)
  moreover have "0 < ?n" by simp
  ultimately have pos: "0 < sint (of_nat ?n :: u32)" by linarith
  obtain q1 where q1: "readInt32_value E p = Inr (of_nat ?n, q1)" "advanced E p 4 q1"
    using readInt32_value_ok [OF readable_append(1) [OF r]] by blast
  note r1 = readable_append(2) [OF r, of q1]
  obtain q2 where q2: "readInt32 E q1 = Inr (Inr BUNDLE_MAGIC_NATIVE, q2)" "advanced E q1 4 q2"
    using readInt32_ok [OF readable_append(1) [OF r1]] q1 by auto
  note r2 = readable_append(2) [OF r1, of q2]
  obtain q3 where q3: "readInt32 E q2 = Inr (Inr (of_nat (bundle_size b)), q3)" "advanced E q2 4 q3"
    using readInt32_ok [OF readable_append(1) [OF r2]] q1 q2 by auto
  have "advanced E p 12 q3" using advanced_trans [OF q1(2) advanced_trans [OF q2(2) q3(2)]] by simp
  moreover have "readable E ?es q3" using readable_append(2) [OF r2, of q3] q1 q2 q3 by simp
  ultimately show ?thesis using q1(1) q2(1) q3(1) pos by (auto simp: read_begin_def bind_read_def map_read_def)
qed

text \<open>What the loop of the reader leaves in the bundle; a bundle in a bundle is read into a new one when its key is new.\<close>

abbreviation store_entries :: "key_order \<Rightarrow> (bundle_key \<times> bundle_value) list \<Rightarrow> pbundle \<Rightarrow> pbundle" where
  "store_entries lt es b \<equiv> fold (\<lambda>(k, v). store_value lt k v) es b"

definition bundle_keys :: "(bundle_key \<times> bundle_value) list \<Rightarrow> bundle_key list" where
  "bundle_keys es = map fst (filter (\<lambda>(k, v). type_code v = VAL_PERSISTABLEBUNDLE) es)"

lemma bundle_keys_simps [simp]:
  "bundle_keys [] = []" "bundle_keys ((k, v) # es) = (if type_code v = VAL_PERSISTABLEBUNDLE then k # bundle_keys es else bundle_keys es)"
  by (simp_all add: bundle_keys_def)

lemma type_code_bundle: "type_code v = VAL_PERSISTABLEBUNDLE \<longleftrightarrow> (\<exists>c. v = PBundle c)"
  by (cases v) auto

lemma getKeys_map_set: "getKeys (map_set lt k v m) = insert k (getKeys m)"
  by (induction lt k v m rule: map_set.induct) (simp_all add: getKeys_def insert_commute)

lemma bundle_keys_store:
  "getKeys (mPersistableBundleMap (store_value lt k v b)) =
    (if type_code v = VAL_PERSISTABLEBUNDLE then insert k (getKeys (mPersistableBundleMap b)) else getKeys (mPersistableBundleMap b))"
  by (cases b; cases v) (simp_all add: getKeys_map_set)

lemma nested_at_fresh: "k \<notin> getKeys (mPersistableBundleMap b) \<Longrightarrow> nested_at k b = no_entries"
  by (simp add: nested_at_def getValue_def getKeys_def map_of_eq_None_iff [symmetric])

text \<open>\<open>gets\<close>: the reader returns the bundle and goes past its bytes.\<close>

definition gets :: "key_order \<Rightarrow> env \<Rightarrow> pbundle \<Rightarrow> bool" where
  "gets lt E c \<longleftrightarrow> (\<forall>p. readable E (enc_bundle c) p \<longrightarrow>
     (\<exists>q. readFromParcel lt E no_entries p = Some (Inr (Inr c, q)) \<and> advanced E p (length (enc_bundle c)) q))"

lemma read_nested:
  assumes key: "read_key E p = Inr (Inr (k, VAL_PERSISTABLEBUNDLE), q)" "nested_at k b = no_entries" "0 < sint n"
    and c: "readFromParcel lt E no_entries q = Some (Inr (Inr c, r))"
  shows "read_entries lt E n b p = read_entries lt E (n - 1) (store_value lt k (PBundle c) b) r"
proof -
  obtain x s where x: "read_begin E q = Inr (x, s)" using c by (auto simp: readFromParcel_def and_then_eq_Inr)
  show ?thesis using key c by (subst read_entries.simps) (auto simp: readFromParcel_def x split: sum.splits option.splits)
qed

lemma read_plain:
  "read_key E p = Inr (Inr (k, type_code v), q) \<Longrightarrow> type_code v \<noteq> VAL_PERSISTABLEBUNDLE \<Longrightarrow> read_value E (type_code v) q = Inr (Inr v, r) \<Longrightarrow>
   0 < sint n \<Longrightarrow> read_entries lt E n b p = read_entries lt E (n - 1) (store_value lt k v b) r"
  by (subst read_entries.simps) simp

lemma read_entry:
  assumes r: "readable E (enc_entry enc_bundle (k, v)) p" and n: "0 < sint n"
    and nested: "\<And>c. v = PBundle c \<Longrightarrow> gets lt E c \<and> k \<notin> getKeys (mPersistableBundleMap b)"
  shows "\<exists>q. read_entries lt E n b p = read_entries lt E (n - 1) (store_value lt k v b) q \<and>
    advanced E p (length (enc_entry enc_bundle (k, v))) q"
proof -
  obtain q where q: "read_key E p = Inr (Inr (k, type_code v), q)" "advanced E p (length (encString16 k) + 4) q"
    "readable E (enc_value enc_bundle v) q"
    using read_key_ok [of E k "type_code v" "enc_value enc_bundle v" p] r by (auto simp: enc_entry_def)
  obtain s where s: "read_entries lt E n b p = read_entries lt E (n - 1) (store_value lt k v b) s"
    "advanced E q (length (enc_value enc_bundle v)) s"
  proof (cases "type_code v = VAL_PERSISTABLEBUNDLE")
    case True
    then obtain c where v: "v = PBundle c" by (auto simp: type_code_bundle)
    obtain s where "readFromParcel lt E no_entries q = Some (Inr (Inr c, s))" "advanced E q (length (enc_bundle c)) s"
      using nested [OF v] q(3) v by (auto simp: gets_def)
    with read_nested [of E p k q b n lt c s] q(1) n nested [OF v] v show thesis by (auto intro: that simp: nested_at_fresh)
  next
    case False
    with read_value_ok [OF q(3)] read_plain [OF q(1)] n show thesis by (auto intro: that)
  qed
  have "advanced E p (length (enc_entry enc_bundle (k, v))) s" using advanced_trans [OF q(2) s(2)] by (simp add: enc_entry_def add.assoc)
  with s(1) show ?thesis by blast
qed

lemma read_entries_ok:
  assumes "readable E (concat (map (enc_entry enc_bundle) es)) p" "length es \<le> INT32_MAX"
    and "\<And>k c. (k, PBundle c) \<in> set es \<Longrightarrow> gets lt E c"
    and "distinct (bundle_keys es)" "set (bundle_keys es) \<inter> getKeys (mPersistableBundleMap b) = {}"
  shows "\<exists>q. read_entries lt E (of_nat (length es)) b p = Some (Inr (Inr (store_entries lt es b), q)) \<and>
    advanced E p (length (concat (map (enc_entry enc_bundle) es))) q"
  using assms
proof (induction es arbitrary: b p)
  case Nil
  then show ?case by (subst read_entries.simps) (simp add: readable_def advanced_def)
next
  case (Cons e es)
  obtain k v where e: "e = (k, v)" by fastforce
  have r: "readable E (enc_entry enc_bundle (k, v) @ concat (map (enc_entry enc_bundle) es)) p" using Cons.prems(1) e by simp
  have n: "0 < sint (of_nat (length (e # es)) :: u32)" using sint_of_nat_small [OF Cons.prems(2)] by simp
  have nested: "gets lt E c \<and> k \<notin> getKeys (mPersistableBundleMap b)" if "v = PBundle c" for c
    using Cons.prems(3) [of k c] Cons.prems(5) e that by auto
  obtain q where q: "read_entries lt E (of_nat (length (e # es))) b p =
      read_entries lt E (of_nat (length (e # es)) - 1) (store_value lt k v b) q"
    "advanced E p (length (enc_entry enc_bundle (k, v))) q"
    using read_entry [where b = b and lt = lt, OF readable_append(1) [OF r] n nested] by blast
  have "\<exists>s. read_entries lt E (of_nat (length es)) (store_value lt k v b) q = Some (Inr (Inr (store_entries lt es (store_value lt k v b)), s)) \<and>
    advanced E q (length (concat (map (enc_entry enc_bundle) es))) s"
  proof (rule Cons.IH [OF readable_append(2) [OF r q(2)]])
    show "gets lt E c" if "(k, PBundle c) \<in> set es" for k c using Cons.prems(3) [of k c] that by simp
    show "set (bundle_keys es) \<inter> getKeys (mPersistableBundleMap (store_value lt k v b)) = {}"
      using Cons.prems(4,5) e by (auto simp: bundle_keys_store split: if_splits)
  qed (use Cons.prems(2,4) e in \<open>auto split: if_splits\<close>)
  with q advanced_trans [OF q(2)] e show ?case by auto
qed

section \<open>Bundles with ordered maps\<close>

text \<open>Every \<open>std::map\<close> has its keys in ascending order, those of the bundles inside included.\<close>

abbreviation sorted_keys :: "key_order \<Rightarrow> (bundle_key \<times> 'v) list \<Rightarrow> bool" where
  "sorted_keys lt m \<equiv> sorted_wrt lt (map fst m)"

function ordered :: "key_order \<Rightarrow> pbundle \<Rightarrow> bool" where
  "ordered lt b \<longleftrightarrow> sorted_keys lt (mBoolMap b) \<and> sorted_keys lt (mIntMap b) \<and> sorted_keys lt (mLongMap b) \<and> sorted_keys lt (mDoubleMap b) \<and>
     sorted_keys lt (mStringMap b) \<and> sorted_keys lt (mBoolVectorMap b) \<and> sorted_keys lt (mIntVectorMap b) \<and> sorted_keys lt (mLongVectorMap b) \<and>
     sorted_keys lt (mDoubleVectorMap b) \<and> sorted_keys lt (mStringVectorMap b) \<and> sorted_keys lt (mPersistableBundleMap b) \<and>
     (\<forall>(k, c) \<in> set (mPersistableBundleMap b). ordered lt c)"
  by pat_completeness auto
termination by (relation "measure (\<lambda>(lt, b). size b)") (auto simp: nested_smaller)

declare ordered.simps [simp del]

lemma map_set_last: "asymp lt \<Longrightarrow> \<forall>k' \<in> fst ` set m. lt k' k \<Longrightarrow> map_set lt k v m = m @ [(k, v)]"
  by (induction m) (auto dest: asympD)

lemma map_set_sorted: "asymp lt \<Longrightarrow> sorted_keys lt (m' @ m) \<Longrightarrow> fold (\<lambda>(k, v). map_set lt k v) m m' = m' @ m"
proof (induction m arbitrary: m')
  case (Cons e m)
  then have "map_set lt (fst e) (snd e) m' = m' @ [e]" using map_set_last [of lt m' "fst e" "snd e"] by (auto simp: sorted_wrt_append)
  with Cons show ?case by (cases e) simp
qed simp

lemma map_set_all: "asymp lt \<Longrightarrow> sorted_keys lt m \<Longrightarrow> fold (\<lambda>(k, v). map_set lt k v) m [] = m"
  using map_set_sorted [of lt "[]" m] by simp

lemma store_tagged:
  assumes "\<And>k x m. store_value lt k (C x) (F m) = F (map_set lt k x m)"
  shows "store_entries lt (tagged C es) (F m) = F (fold (\<lambda>(k, v). map_set lt k v) es m)"
  using assms by (induction es arbitrary: m) auto

lemma store_entries_all:
  assumes "asymp lt" "ordered lt b"
  shows "store_entries lt (entries b) no_entries = b"
proof (cases b)
  case (PersistableBundle bo i l d s bov iv lv dv sv pb)
  note m = map_set_all [OF assms(1)] store_tagged [where lt = lt]
  show ?thesis using assms(2) [unfolded ordered.simps [of lt b]]
    by (simp add: PersistableBundle entries_def no_entries_def m(1)
        m(2) [where C = PBoolean and F = "\<lambda>m. PersistableBundle m i l d s bov iv lv dv sv pb" for i l d s bov iv lv dv sv pb]
        m(2) [where C = PInt and F = "\<lambda>m. PersistableBundle bo m l d s bov iv lv dv sv pb" for bo l d s bov iv lv dv sv pb]
        m(2) [where C = PLong and F = "\<lambda>m. PersistableBundle bo i m d s bov iv lv dv sv pb" for bo i d s bov iv lv dv sv pb]
        m(2) [where C = PDouble and F = "\<lambda>m. PersistableBundle bo i l m s bov iv lv dv sv pb" for bo i l s bov iv lv dv sv pb]
        m(2) [where C = PString and F = "\<lambda>m. PersistableBundle bo i l d m bov iv lv dv sv pb" for bo i l d bov iv lv dv sv pb]
        m(2) [where C = PBooleanVector and F = "\<lambda>m. PersistableBundle bo i l d s m iv lv dv sv pb" for bo i l d s iv lv dv sv pb]
        m(2) [where C = PIntVector and F = "\<lambda>m. PersistableBundle bo i l d s bov m lv dv sv pb" for bo i l d s bov lv dv sv pb]
        m(2) [where C = PLongVector and F = "\<lambda>m. PersistableBundle bo i l d s bov iv m dv sv pb" for bo i l d s bov iv dv sv pb]
        m(2) [where C = PDoubleVector and F = "\<lambda>m. PersistableBundle bo i l d s bov iv lv m sv pb" for bo i l d s bov iv lv sv pb]
        m(2) [where C = PStringVector and F = "\<lambda>m. PersistableBundle bo i l d s bov iv lv dv m pb" for bo i l d s bov iv lv dv pb]
        m(2) [where C = PBundle and F = "\<lambda>m. PersistableBundle bo i l d s bov iv lv dv sv m" for bo i l d s bov iv lv dv sv])
qed

lemma bundle_keys_entries: "bundle_keys (entries b) = map fst (mPersistableBundleMap b)"
proof -
  have none: "filter (\<lambda>(k, v). type_code v = VAL_PERSISTABLEBUNDLE) (tagged C m) = []" if "\<And>x. type_code (C x) \<noteq> VAL_PERSISTABLEBUNDLE" for C m
    using that by (induction m) auto
  have all: "filter (\<lambda>(k, v). type_code v = VAL_PERSISTABLEBUNDLE) (tagged PBundle m) = tagged PBundle m" for m by (induction m) auto
  show ?thesis by (simp add: bundle_keys_def entries_def none all) (simp add: case_prod_beta comp_def)
qed

lemma sorted_distinct: "asymp lt \<Longrightarrow> sorted_wrt lt ks \<Longrightarrow> distinct ks"
  by (induction ks) (auto dest: asympD)

text \<open>A bundle that was written is read back.\<close>

lemma readFromParcel_gets: "asymp lt \<Longrightarrow> ordered lt b \<Longrightarrow> gets lt E b"
proof (induction "size b" arbitrary: b rule: less_induct)
  case less
  have nested: "gets lt E c" if "(k, PBundle c) \<in> set (entries b)" for k c
    using less.hyps [of c] that less.prems nested_smaller ordered.simps [of lt b] by (auto simp: bundle_entries)
  have store: "store_entries lt (entries b) no_entries = b" using store_entries_all less.prems by blast
  show ?case unfolding gets_def
  proof (intro allI impI)
    fix p
    assume r: "readable E (enc_bundle b) p"
    show "\<exists>q. readFromParcel lt E no_entries p = Some (Inr (Inr b, q)) \<and> advanced E p (length (enc_bundle b)) q"
    proof (cases "bundle_empty b")
      case True
      then have "b = no_entries" by (cases b) (simp add: bundle_empty_def bundle_size_def no_entries_def)
      with read_begin_empty [OF r True] show ?thesis by (auto simp: readFromParcel_def)
    next
      case False
      let ?es = "concat (map (enc_entry enc_bundle) (entries b))"
      obtain q where q: "read_begin E p = Inr (Inr (Some (of_nat (bundle_size b))), q)" "advanced E p 12 q" "readable E ?es q"
        using read_begin_entries [OF r False] by blast
      have "length (entries b) \<le> INT32_MAX" using bundle_size_le [of b enc_bundle] q(3) by (auto simp: readable_def parcel_inv_def)
      moreover have "distinct (bundle_keys (entries b))"
        using sorted_distinct [OF less.prems(1)] less.prems(2) by (simp add: bundle_keys_entries ordered.simps [of lt b])
      moreover have "set (bundle_keys (entries b)) \<inter> getKeys (mPersistableBundleMap no_entries) = {}" by (simp add: getKeys_def no_entries_def)
      ultimately have "\<exists>s. read_entries lt E (of_nat (length (entries b))) no_entries q = Some (Inr (Inr (store_entries lt (entries b) no_entries), s)) \<and>
          advanced E q (length ?es) s"
        by (intro read_entries_ok [OF q(3)]) (auto intro: nested)
      then obtain s where s: "read_entries lt E (of_nat (bundle_size b)) no_entries q = Some (Inr (Inr b, s))" "advanced E q (length ?es) s"
        using store by auto
      have "advanced E p (12 + length ?es) s" using advanced_trans [OF q(2) s(2)] .
      with q(1) s(1) show ?thesis by (auto simp: readFromParcel_def enc_bundle_entries [OF False])
    qed
  qed
qed

end
