(* ===== verification/Bundle_Safe.thy ===== *)
theory Bundle_Safe
  imports Bundle_Codec
begin

text \<open>
  Reading a bundle from a parcel with arbitrary contents. \<open>steps\<close> adds to the contract of a safe reader how far it moves on: the name of an
  entry takes at least four bytes, so the loop and the recursion of the reader end.
\<close>

section \<open>Readers that move on\<close>

definition steps :: "env \<Rightarrow> nat \<Rightarrow> parcel \<Rightarrow> 'a read_run \<Rightarrow> bool" where
  "steps E n p r \<longleftrightarrow> safe_read E p r \<and> (\<forall>v q. r = Inr (Inr v, q) \<longrightarrow> mDataPos p + n \<le> mDataPos q)"

lemma steps_less: "steps E n p r \<Longrightarrow> m \<le> n \<Longrightarrow> steps E m p r"
  by (fastforce simp: steps_def)

lemma steps_fail: "read_ok E p \<Longrightarrow> st \<noteq> OK \<Longrightarrow> steps E n p (Inr (Inl st, p))"
  by (simp add: steps_def safe_read_fail)

lemma steps_done: "read_ok E p \<Longrightarrow> steps E 0 p (Inr (Inr v, p))"
  by (simp add: steps_def safe_read_done)

lemma map_sum_Inr: "map_sum g f x = Inr v \<Longrightarrow> (\<And>u. x = Inr u \<Longrightarrow> f u = v \<Longrightarrow> P) \<Longrightarrow> P"
  by (cases x) auto

lemma map_read_Inr: "map_read f r = Inr (Inr v, q) \<Longrightarrow> \<exists>u. r = Inr (Inr u, q)"
  by (auto simp: map_read_def bind_run_eq_Inr elim!: map_sum_Inr)

lemma bind_read_Inr: "bind_read r f = Inr (Inr v, q) \<longleftrightarrow> (\<exists>u p. r = Inr (Inr u, p) \<and> f u p = Inr (Inr v, q))"
proof (cases r)
  case (Inr x)
  then show ?thesis by (cases x; cases "fst x") (auto simp: bind_read_def)
qed (simp add: bind_read_def)

lemma steps_map: "steps E n p r \<Longrightarrow> steps E n p (map_read f r)"
  using safe_map_read [of E p r f] map_read_Inr [of f r] by (force simp: steps_def)

lemma steps_if: "steps E n p r \<Longrightarrow> steps E n p s \<Longrightarrow> steps E n p (if c then r else s)"
  by simp

lemma steps_frame: "read_frame p q \<Longrightarrow> mDataPos p + m \<le> mDataPos q \<Longrightarrow> steps E n q r \<Longrightarrow> steps E (m + n) p r"
  by (fastforce simp: steps_def intro: safe_read_frame)

lemma steps_bind:
  assumes r: "steps E m p r" and f: "\<And>v q. r = Inr (Inr v, q) \<Longrightarrow> read_ok E q \<Longrightarrow> steps E n q (f v q)"
  shows "steps E (m + n) p (bind_read r f)"
proof -
  obtain x q where q: "r = Inr (x, q)" "read_frame p q" "parcel_inv E q" "read_inv E q"
    "case x of Inl st \<Rightarrow> st \<noteq> OK | Inr v \<Rightarrow> mDataPos q \<le> mDataSize q"
    using r unfolding steps_def safe_read_def by blast
  show ?thesis
  proof (cases x)
    case (Inl st)
    with q show ?thesis by (auto simp: steps_def safe_read_def bind_read_def)
  next
    case (Inr v)
    then have "mDataPos p + m \<le> mDataPos q" using r q(1) by (simp add: steps_def)
    moreover have "steps E n q (f v q)" using f q Inr by (simp add: read_ok_def)
    ultimately show ?thesis using steps_frame [OF q(2)] q(1) Inr by (simp add: bind_read_def)
  qed
qed

lemma steps_bind0: "steps E 0 p r \<Longrightarrow> (\<And>v q. read_ok E q \<Longrightarrow> steps E 0 q (f v q)) \<Longrightarrow> steps E 0 p (bind_read r f)"
  using steps_bind [of E 0 p r 0 f] by simp

lemma readAligned_steps: "read_ok E p \<Longrightarrow> n \<le> INT32_MAX \<Longrightarrow> steps E n p (readAligned E n p)"
  using readAligned_safe [of E p n] readAligned_correct [of E p n] by (fastforce simp: steps_def read_ok_def)

lemma readInt32_steps: "read_ok E p \<Longrightarrow> steps E 4 p (readInt32 E p)"
  by (simp add: readInt32_def steps_map readAligned_steps)

lemma readAligned_end:
  assumes "read_ok E p" "n \<le> INT32_MAX"
  shows "\<exists>x q. readAligned E n p = Inr (x, q) \<and> read_frame p q \<and> read_ok E q \<and> mDataPos p \<le> mDataPos q"
proof (cases "mDataPos p + n \<le> mDataSize p")
  case False
  with assms show ?thesis by (auto simp: readAligned_def read_ok_def read_inv_def)
next
  case True
  have inv: "parcel_inv E p" "read_inv E p" using assms by (simp_all add: read_ok_def)
  obtain x q where q: "readAligned E n p = Inr (x, q)" "read_frame p q" "parcel_inv E q" "read_inv E q"
    using readAligned_safe [OF assms] by (auto simp: safe_read_def)
  obtain st p' where c: "check_objects E n p = (st, p')" by force
  have "mDataPos q \<in> {mDataPos p, mDataPos p + n}"
    using check_objects_correct [OF inv True c] q(1) c True inv
    by (auto simp: readAligned_def bind_run_def parcel_inv_def split: if_splits sum.splits)
  with q True read_frameD(3) [OF q(2)] show ?thesis by (auto simp: read_ok_def)
qed

lemma readInt32_value_end:
  "read_ok E p \<Longrightarrow> \<exists>v q. readInt32_value E p = Inr (v, q) \<and> read_frame p q \<and> read_ok E q \<and> mDataPos p \<le> mDataPos q"
  using readAligned_end [of E p 4] by (fastforce simp: readInt32_value_def readInt32_def map_read_def)

lemma readVectorSize_steps: "read_ok E p \<Longrightarrow> steps E 0 p (readVectorSize E p)"
  unfolding readVectorSize_def
  by (intro steps_bind0 steps_less [OF readInt32_steps]) (auto simp: read_ok_avail intro: steps_fail steps_done)

lemma readInplace_steps:
  assumes "read_ok E p" "readInplace E n p = Inr (Some d, q)"
  shows "mDataPos p + n \<le> mDataPos q"
  using readInplace_correct [of E p n] assms padded_len_ge [of n] by (auto simp: read_ok_def)

lemma readPodVector_steps:
  assumes "read_ok E p"
  shows "steps E 0 p (readPodVector dec sz E p)"
  unfolding steps_def
proof (intro conjI allI impI)
  show "safe_read E p (readPodVector dec sz E p)" using assms by (rule readPodVector_safe)
  fix v q
  assume "readPodVector dec sz E p = Inr (Inr v, q)"
  then obtain n p' d where r: "readVectorSize E p = Inr (Inr n, p')" "readInplace E (n * sz) p' = Inr (Some d, q)"
    unfolding readPodVector_def bind_read_Inr by (auto simp: bind_run_eq_Inr split: option.split_asm)
  have "safe_read E p (readVectorSize E p)" "mDataPos p \<le> mDataPos p'" using readVectorSize_steps [OF assms] r(1) by (simp_all add: steps_def)
  with r(1) have "read_ok E p'" by (simp add: safe_read_def read_ok_def)
  from readInplace_steps [OF this r(2)] \<open>mDataPos p \<le> mDataPos p'\<close> show "mDataPos p + 0 \<le> mDataPos q" by simp
qed

lemma readString16_steps:
  assumes "read_ok E p"
  shows "steps E 2 p (readString16 E p)"
  unfolding steps_def
proof (intro conjI allI impI)
  show "safe_read E p (readString16 E p)" using assms by (rule readString16_safe)
  fix v q
  assume s: "readString16 E p = Inr (Inr v, q)"
  obtain l p' where p': "readInt32_value E p = Inr (l, p')" "read_ok E p'" "mDataPos p \<le> mDataPos p'"
    using readInt32_value_end [OF assms] by blast
  obtain d where "readInplace E ((nat (sint l) + 1) * 2) p' = Inr (Some d, q)"
    using s p'(1) by (auto simp: readString16_def readString16Inplace_def bind_run_eq_Inr Let_def split: option.split_asm if_split_asm)
  from readInplace_steps [OF p'(2) this] p'(3) show "mDataPos p + 2 \<le> mDataPos q" by simp
qed

lemma readElements_steps: "(\<And>p. read_ok E p \<Longrightarrow> steps E 0 p (rd E p)) \<Longrightarrow> read_ok E p \<Longrightarrow> steps E 0 p (readElements rd E n p)"
proof (induction n arbitrary: p)
  case (Suc n)
  then show ?case by (auto intro!: steps_bind0 steps_map)
qed (simp add: steps_done)

lemma readVector_steps: "(\<And>p. read_ok E p \<Longrightarrow> steps E 0 p (rd E p)) \<Longrightarrow> read_ok E p \<Longrightarrow> steps E 0 p (readVector rd E p)"
  unfolding readVector_def by (intro steps_bind0 readVectorSize_steps readElements_steps)

section \<open>The parts of the reader of a bundle\<close>

lemma read_value_steps: "read_ok E p \<Longrightarrow> steps E 0 p (read_value E t p)"
proof -
  assume p: "read_ok E p"
  have "steps E 0 p (readString16 E p)" if "read_ok E p" for p using readString16_steps [OF that] by (rule steps_less) simp
  moreover have "steps E 0 p (readInt32 E p)" "steps E 0 p (readInt64 E p)" "steps E 0 p (readDouble E p)"
    using steps_less [OF readInt32_steps [OF p]] steps_less [OF readAligned_steps [OF p, of 8]] by (simp_all add: readInt64_def readDouble_def steps_map)
  ultimately show ?thesis using p unfolding read_value_def readBool_def readWideVector_def
    by (intro steps_if steps_map readPodVector_steps readVector_steps steps_fail) simp_all
qed

lemma read_key_steps: "read_ok E p \<Longrightarrow> steps E 6 p (read_key E p)"
  using steps_bind [OF readString16_steps, of E p 4 "\<lambda>key p. map_read (Pair key) (readInt32 E p)"] by (simp add: read_key_def steps_map readInt32_steps)

lemma read_begin_steps:
  assumes "read_ok E p"
  shows "steps E 0 p (read_begin E p)"
proof -
  obtain l q where q: "readInt32_value E p = Inr (l, q)" "read_frame p q" "read_ok E q" "mDataPos p \<le> mDataPos q"
    using readInt32_value_end [OF assms] by blast
  have int: "steps E 0 p (readInt32 E p)" if "read_ok E p" for p using readInt32_steps [OF that] by (rule steps_less) simp
  have "steps E 0 q (bind_read (readInt32 E q) (\<lambda>magic p.
      if magic \<noteq> BUNDLE_MAGIC \<and> magic \<noteq> BUNDLE_MAGIC_NATIVE then Inr (Inl BAD_VALUE, p) else map_read Some (readInt32 E p)))"
    by (intro steps_bind0 steps_if steps_map int steps_fail q(3)) simp_all
  with q(3) have "steps E 0 q (read_begin E p)" by (simp add: read_begin_def q(1) steps_fail steps_done)
  with steps_frame [OF q(2), of 0 E 0] q(4) show ?thesis by simp
qed

section \<open>The loop\<close>

definition returns :: "env \<Rightarrow> parcel \<Rightarrow> ('a read_run) option \<Rightarrow> bool" where
  "returns E p x \<longleftrightarrow> (\<exists>r. x = Some r \<and> steps E 0 p r)"

lemma returns_then:
  assumes r: "steps E m p r"
    and f: "\<And>v q. r = Inr (Inr v, q) \<Longrightarrow> read_ok E q \<Longrightarrow> mDataSize q = mDataSize p \<Longrightarrow> mDataPos p + m \<le> mDataPos q \<Longrightarrow> returns E q (f (Inr v, q))"
    and fail: "\<And>st q. f (Inl st, q) = Some (Inr (Inl st, q))"
  shows "returns E p (and_then (Some r) f)"
proof -
  obtain x q where q: "r = Inr (x, q)" "read_frame p q" "parcel_inv E q" "read_inv E q"
    "case x of Inl st \<Rightarrow> st \<noteq> OK | Inr v \<Rightarrow> mDataPos q \<le> mDataSize q"
    using r unfolding steps_def safe_read_def by blast
  show ?thesis
  proof (cases x)
    case (Inl st)
    with q show ?thesis by (auto simp: returns_def steps_def safe_read_def fail)
  next
    case (Inr v)
    then have pos: "mDataPos p + m \<le> mDataPos q" using r q(1) by (simp add: steps_def)
    have "returns E q (f (Inr v, q))" by (rule f) (use q Inr pos read_frameD(3) [OF q(2)] in \<open>auto simp: read_ok_def\<close>)
    then show ?thesis using steps_frame [OF q(2), of 0 E 0] pos q(1) Inr by (auto simp: returns_def)
  qed
qed

lemma returns_nested:
  assumes "returns E p x"
    and "\<And>v q. read_ok E q \<Longrightarrow> mDataSize q = mDataSize p \<Longrightarrow> mDataPos p \<le> mDataPos q \<Longrightarrow> returns E q (f (Inr v, q))"
    and "\<And>st q. f (Inl st, q) = Some (Inr (Inl st, q))"
  shows "returns E p (and_then x f)"
proof -
  obtain r where "x = Some r" "steps E 0 p r" using assms(1) by (auto simp: returns_def)
  with returns_then [of E 0 p r f] assms(2,3) show ?thesis by simp
qed

lemma entry_returns:
  assumes later: "\<And>q n b. read_ok E q \<Longrightarrow> mDataSize q = mDataSize p \<Longrightarrow> mDataPos p < mDataPos q \<Longrightarrow> returns E q (read_entries lt E n b q)"
    and p: "read_ok E p"
  shows "returns E p (read_entries lt E n b p)"
proof (cases "sint n \<le> 0")
  case True
  with p show ?thesis by (subst read_entries.simps) (simp add: returns_def steps_done)
next
  case False
  then show ?thesis
    apply (subst read_entries.simps)
    apply (simp only: if_False)
    apply (rule returns_then [OF read_key_steps [OF p]])
     apply (clarsimp split: prod.split)
     apply (intro conjI impI)
      apply (rule returns_then [OF read_begin_steps], assumption)
       apply (simp split: option.split)
       apply (intro conjI impI allI)
        apply (rule later, assumption, simp, simp)
       apply (rule returns_nested)
         apply (rule later, assumption, simp, simp)
        apply simp
        apply (rule later, assumption, simp, simp)
       apply simp
      apply simp
     apply (rule returns_then [OF read_value_steps], assumption)
      apply simp
      apply (rule later, assumption, simp, simp)
     apply simp
    apply simp
    done
qed

lemma read_entries_returns: "read_ok E p \<Longrightarrow> returns E p (read_entries lt E n b p)"
proof (induction "mDataSize p - mDataPos p" arbitrary: p n b rule: less_induct)
  case less
  show ?case by (rule entry_returns) (use less in \<open>auto simp: read_ok_def\<close>)
qed

lemma readFromParcel_returns: "read_ok E p \<Longrightarrow> returns E p (readFromParcel lt E b p)"
  unfolding readFromParcel_def
  by (rule returns_then [OF read_begin_steps]) (auto simp: returns_def steps_done read_entries_returns [unfolded returns_def] split: option.split)

end
