(* ===== verification/Bundle_Map.thy ===== *)
theory Bundle_Map
  imports Bundle_Codec "HOL-Library.Multiset"
begin

text \<open>
  A bundle as a map from names to typed values. The eleven maps of a bundle together are one map as long as no name is in two of them; the
  methods that put, erase and get keep that and act as update, removal and lookup. The locale \<open>typed_map\<close> is that contract.
\<close>

section \<open>Names and entries\<close>

definition lookup :: "pbundle \<Rightarrow> bundle_key \<rightharpoonup> bundle_value" where
  "lookup b = map_of (entries b)"

definition one_type_each :: "pbundle \<Rightarrow> bool" where
  "one_type_each b \<longleftrightarrow> distinct (map fst (entries b))"

lemma map_of_tagged: "map_of (tagged C m) k = map_option C (map_of m k)"
  by (induction m) auto

lemma tagged_entry: "(k, v) \<in> (\<lambda>(k, x). (k, C x)) ` set m \<longleftrightarrow> (\<exists>x. v = C x \<and> (k, x) \<in> set m)"
  by force

lemma map_of_map_set: "map_of (map_set lt k v m) = (map_of m)(k \<mapsto> v)"
  by (induction lt k v m rule: map_set.induct) (auto simp: fun_eq_iff)

lemma filter_tagged: "filter (\<lambda>(k', v). k' \<noteq> k) (tagged C m) = tagged C (map_erase k m)"
  by (induction m) (auto simp: map_erase_def)

lemma keys_tagged [simp]: "map fst (tagged C m) = map fst m" "fst ` set (tagged C m) = getKeys m"
  by (simp_all add: getKeys_def case_prod_beta comp_def image_image)

lemma getKeys_None: "k \<notin> getKeys m \<longleftrightarrow> map_of m k = None"
  by (simp add: getKeys_def map_of_eq_None_iff)

text \<open>How often a name occurs in a map.\<close>

abbreviation occurs :: "bundle_key \<Rightarrow> (bundle_key \<times> 'v) list \<Rightarrow> nat" where
  "occurs k m \<equiv> count_list (map fst m) k"

lemma occurs_keys: "k \<in> getKeys m \<longleftrightarrow> 0 < occurs k m"
  by (induction m) (auto simp: getKeys_def)

lemma occurs_once: "distinct (map fst es) \<Longrightarrow> occurs k es \<le> 1"
  by (induction es) (auto simp: count_list_0_iff)

lemma map_erase_absent: "occurs k m = 0 \<Longrightarrow> map_erase k m = m"
  by (induction m) (auto simp: map_erase_def split: if_splits)

section \<open>Erasing\<close>

lemma entries_erase:
  assumes "one_type_each b"
  shows "entries (snd (erase k b)) = filter (\<lambda>(k', v). k' \<noteq> k) (entries b)"
proof (cases b)
  case (PersistableBundle bo i l d s bov iv lv dv sv pb)
  have "occurs k (entries b) \<le> 1" using assms occurs_once by (simp add: one_type_each_def)
  then have "occurs k bo + occurs k i + occurs k l + occurs k d + occurs k s + occurs k bov + occurs k iv + occurs k lv + occurs k dv +
      occurs k sv + occurs k pb \<le> 1"
    by (simp add: PersistableBundle entries_def del: map_map)
  then show ?thesis
    by (simp add: PersistableBundle entries_def filter_tagged occurs_keys map_erase_absent)
qed

lemma lookup_erase:
  assumes "one_type_each b"
  shows "lookup (snd (erase k b)) = (lookup b)(k := None)" "one_type_each (snd (erase k b))"
proof -
  have "map_of (filter (\<lambda>(k', v). k' \<noteq> k) es) = (map_of es)(k := None)" for es :: "(bundle_key \<times> bundle_value) list"
    by (induction es) (auto simp: fun_eq_iff)
  then show "lookup (snd (erase k b)) = (lookup b)(k := None)" by (simp add: lookup_def entries_erase [OF assms])
  show "one_type_each (snd (erase k b))" using assms by (simp add: one_type_each_def entries_erase distinct_map_filter)
qed

lemma erase_result: "fst (erase k b) = (if k \<in> dom (lookup b) then 1 else 0)"
proof (cases b)
  case (PersistableBundle bo i l d s bov iv lv dv sv pb)
  have "k \<in> dom (lookup b) \<longleftrightarrow> k \<in> getKeys bo \<or> k \<in> getKeys i \<or> k \<in> getKeys l \<or> k \<in> getKeys d \<or> k \<in> getKeys s \<or> k \<in> getKeys bov \<or>
      k \<in> getKeys iv \<or> k \<in> getKeys lv \<or> k \<in> getKeys dv \<or> k \<in> getKeys sv \<or> k \<in> getKeys pb"
    by (simp only: lookup_def dom_map_of_conv_image_fst PersistableBundle entries_def pbundle.sel set_append image_Un Un_iff keys_tagged)
  then show ?thesis by (simp add: PersistableBundle)
qed

section \<open>Storing\<close>

lemma lookup_store:
  assumes "k \<notin> dom (lookup b)"
  shows "lookup (store_value lt k v b) = (lookup b)(k \<mapsto> v)"
proof (cases b)
  case (PersistableBundle bo i l d s bov iv lv dv sv pb)
  have none: "map_of bo k = None" "map_of i k = None" "map_of l k = None" "map_of d k = None" "map_of s k = None" "map_of bov k = None"
    "map_of iv k = None" "map_of lv k = None" "map_of dv k = None" "map_of sv k = None" "map_of pb k = None"
    using assms by (simp_all add: PersistableBundle lookup_def entries_def map_of_tagged domIff)
  have "lookup (store_value lt k v b) x = ((lookup b)(k \<mapsto> v)) x" for x
    by (cases v; cases "x = k") (simp_all add: PersistableBundle lookup_def entries_def map_add_def map_of_tagged map_of_map_set none cong: option.case_cong)
  then show ?thesis by blast
qed

lemma mset_map_set: "k \<notin> getKeys m \<Longrightarrow> mset (map fst (map_set lt k v m)) = add_mset k (mset (map fst m))"
  by (induction lt k v m rule: map_set.induct) (auto simp: getKeys_def)

lemma store_one_type_each:
  assumes "k \<notin> dom (lookup b)" "one_type_each b"
  shows "one_type_each (store_value lt k v b)"
proof -
  have k: "k \<notin> fst ` set (entries b)" using assms(1) by (simp add: lookup_def dom_map_of_conv_image_fst)
  then have "mset (map fst (entries (store_value lt k v b))) = mset (k # map fst (entries b))"
    by (cases b; cases v) (simp_all add: entries_def mset_map_set image_Un del: mset_map set_map map_map)
  then have "distinct (map fst (entries (store_value lt k v b))) \<longleftrightarrow> distinct (k # map fst (entries b))" by (rule mset_eq_imp_distinct_iff)
  with k assms(2) show ?thesis by (simp add: one_type_each_def)
qed

section \<open>Getting\<close>

lemma get_value_type: "get_value t k b = Some v \<Longrightarrow> type_code v = t"
  by (auto simp: get_value_def split: if_split_asm)

lemma get_value_entry:
  assumes "one_type_each b"
  shows "get_value (type_code v) k b = Some v \<longleftrightarrow> (k, v) \<in> set (entries b)"
proof (cases b)
  case (PersistableBundle bo i l d s bov iv lv dv sv pb)
  have "distinct (map fst bo)" "distinct (map fst i)" "distinct (map fst l)" "distinct (map fst d)" "distinct (map fst s)" "distinct (map fst bov)"
    "distinct (map fst iv)" "distinct (map fst lv)" "distinct (map fst dv)" "distinct (map fst sv)" "distinct (map fst pb)"
    using assms by (simp_all add: PersistableBundle one_type_each_def entries_def del: map_map)
  then show ?thesis
    by (cases v) (simp_all add: PersistableBundle get_value_def getValue_def entries_def tagged_entry)
qed

lemma get_value_lookup:
  assumes "one_type_each b"
  shows "get_value t k b = (case lookup b k of Some v \<Rightarrow> if type_code v = t then Some v else None | None \<Rightarrow> None)"
proof -
  have l: "lookup b k = Some v \<longleftrightarrow> (k, v) \<in> set (entries b)" for v using assms by (simp add: lookup_def one_type_each_def)
  have g: "get_value t k b = Some v \<longleftrightarrow> lookup b k = Some v \<and> type_code v = t" for v
    using get_value_entry [OF assms, of v k] get_value_type [of t k b v] by (cases "type_code v = t") (auto simp only: l)
  show ?thesis
  proof (cases "get_value t k b")
    case None
    then have "\<not> (lookup b k = Some v \<and> type_code v = t)" for v using g [of v] by simp
    with None show ?thesis by (simp split: option.split)
  next
    case (Some v)
    then have "lookup b k = Some v" "type_code v = t" using g [of v] by simp_all
    with Some show ?thesis by simp
  qed
qed

section \<open>The contract\<close>

locale typed_map =
  fixes invar :: "'m \<Rightarrow> bool"
    and update :: "'k \<Rightarrow> 'v \<Rightarrow> 'm \<Rightarrow> 'm"
    and delete :: "'k \<Rightarrow> 'm \<Rightarrow> 'm"
    and find :: "'m \<Rightarrow> 'k \<rightharpoonup> 'v"
    and get :: "'t \<Rightarrow> 'k \<Rightarrow> 'm \<Rightarrow> 'v option"
    and type_of :: "'v \<Rightarrow> 't"
  assumes invar_update: "invar m \<Longrightarrow> invar (update k v m)"
    and invar_delete: "invar m \<Longrightarrow> invar (delete k m)"
    and find_update: "invar m \<Longrightarrow> find (update k v m) = (find m)(k \<mapsto> v)"
    and find_delete: "invar m \<Longrightarrow> find (delete k m) = (find m)(k := None)"
    and get_find: "invar m \<Longrightarrow> get t k m = (case find m k of Some v \<Rightarrow> if type_of v = t then Some v else None | None \<Rightarrow> None)"
begin

lemma invar_updates: "invar m \<Longrightarrow> invar (fold (\<lambda>(k, v). update k v) kvs m)"
  by (induction kvs arbitrary: m) (auto simp: invar_update)

lemma find_updates: "invar m \<Longrightarrow> find (fold (\<lambda>(k, v). update k v) kvs m) = find m ++ map_of (rev kvs)"
  by (induction kvs arbitrary: m) (auto simp: invar_update find_update)

text \<open>A value that was put is what the method of its type gets; the methods of the other types get nothing.\<close>

lemma get_update: "invar m \<Longrightarrow> get t k' (update k v m) = (if k' = k then if type_of v = t then Some v else None else get t k' m)"
  by (simp add: get_find invar_update find_update)

lemma get_delete: "invar m \<Longrightarrow> get t k' (delete k m) = (if k' = k then None else get t k' m)"
  by (simp add: get_find invar_delete find_delete)

end

lemma absent_erased: "one_type_each b \<Longrightarrow> k \<notin> dom (lookup (snd (erase k b)))"
  by (simp add: lookup_erase)

interpretation bundle_map: typed_map one_type_each "put_value lt" "\<lambda>k b. snd (erase k b)" lookup get_value type_code for lt
proof
  show "one_type_each (put_value lt k v b)" "lookup (put_value lt k v b) = (lookup b)(k \<mapsto> v)" if "one_type_each b" for k v b
    using that absent_erased lookup_erase [OF that, of k]
    by (auto simp: put_value_def store_one_type_each lookup_store)
qed (auto simp: lookup_erase get_value_lookup)

section \<open>Order\<close>

text \<open>What \<open>std::map\<close> needs of the order of its keys.\<close>

definition strict_order :: "key_order \<Rightarrow> bool" where
  "strict_order lt \<longleftrightarrow> asymp lt \<and> transp lt \<and> totalp lt"

lemma sorted_map_set: "strict_order lt \<Longrightarrow> sorted_keys lt m \<Longrightarrow> sorted_keys lt (map_set lt k v m)"
proof (induction lt k v m rule: map_set.induct)
  case (2 lt k v k' v' m)
  have keys: "set (map fst (map_set lt k v m)) = insert k (set (map fst m))" using getKeys_map_set [of lt k v m] by (simp add: getKeys_def)
  show ?case
  proof (cases "k' = k \<or> lt k k'")
    case True
    with 2(2,3) show ?thesis by (auto simp: strict_order_def dest: transpD)
  next
    case False
    then have "lt k' k" using 2(2) by (auto simp: strict_order_def dest: totalpD)
    with False 2 keys show ?thesis by (auto simp del: set_map)
  qed
qed simp

lemma sorted_erase: "sorted_keys lt m \<Longrightarrow> sorted_keys lt (map_erase k m)"
  by (induction m) (auto simp: map_erase_def)

definition ordered_value :: "key_order \<Rightarrow> bundle_value \<Rightarrow> bool" where
  "ordered_value lt v \<longleftrightarrow> (case v of PBundle c \<Rightarrow> ordered lt c | _ \<Rightarrow> True)"

lemma set_map_set: "set (map_set lt k v m) \<subseteq> insert (k, v) (set m)"
  by (induction lt k v m rule: map_set.induct) auto

definition nested_ordered :: "key_order \<Rightarrow> (bundle_key \<times> pbundle) list \<Rightarrow> bool" where
  "nested_ordered lt m \<longleftrightarrow> (\<forall>(k, c) \<in> set m. ordered lt c)"

lemma nested_ordered_set: "nested_ordered lt m \<Longrightarrow> ordered lt c \<Longrightarrow> nested_ordered lt (map_set lt k c m)"
  using set_map_set [of lt k c m] by (auto simp: nested_ordered_def)

lemma nested_ordered_erase: "nested_ordered lt m \<Longrightarrow> nested_ordered lt (map_erase k m)"
  by (auto simp: nested_ordered_def map_erase_def)

lemma ordered_bundle:
  "ordered lt (PersistableBundle bo i l d s bov iv lv dv sv pb) \<longleftrightarrow> sorted_keys lt bo \<and> sorted_keys lt i \<and> sorted_keys lt l \<and> sorted_keys lt d \<and>
     sorted_keys lt s \<and> sorted_keys lt bov \<and> sorted_keys lt iv \<and> sorted_keys lt lv \<and> sorted_keys lt dv \<and> sorted_keys lt sv \<and> sorted_keys lt pb \<and>
     nested_ordered lt pb"
  unfolding nested_ordered_def by (subst ordered.simps) simp

lemma ordered_store:
  assumes "strict_order lt" "ordered lt b" "ordered_value lt v"
  shows "ordered lt (store_value lt k v b)"
  using assms(2,3)
  by (cases b; cases v) (simp_all add: ordered_bundle ordered_value_def sorted_map_set [OF assms(1)] nested_ordered_set)

lemma ordered_erase: "ordered lt b \<Longrightarrow> ordered lt (snd (erase k b))"
  by (cases b) (simp add: ordered_bundle sorted_erase nested_ordered_erase)

lemma ordered_put: "strict_order lt \<Longrightarrow> ordered lt b \<Longrightarrow> ordered_value lt v \<Longrightarrow> ordered lt (put_value lt k v b)"
  by (simp add: put_value_def ordered_store ordered_erase)

lemma ordered_puts:
  "strict_order lt \<Longrightarrow> ordered lt b \<Longrightarrow> \<forall>(k, v) \<in> set kvs. ordered_value lt v \<Longrightarrow> ordered lt (fold (\<lambda>(k, v). put_value lt k v) kvs b)"
  by (induction kvs arbitrary: b) (auto simp: ordered_put)

end
