(* ===== verification/Bundle_Theorems.thy ===== *)
theory Bundle_Theorems
  imports Bundle_Safe Bundle_Map "HOL-Library.List_Lexorder"
begin

text \<open>
  The properties of PersistableBundle: the map it implements, the round trip through a parcel of any bundle that its methods build, reading
  from a parcel with arbitrary contents, and what the reader lets through.
\<close>

section \<open>Sizes and names\<close>

lemma bundle_size_lookup: "one_type_each b \<Longrightarrow> bundle_size b = card (dom (lookup b))"
  using distinct_card [of "map fst (entries b)"] by (simp add: one_type_each_def lookup_def dom_map_of_conv_image_fst)

lemma getKeys_get: "k \<in> getKeys m \<longleftrightarrow> map_of m k \<noteq> None"
  by (simp add: getKeys_def map_of_eq_None_iff)

lemma keys_of_type_get: "k \<in> keys_of_type t b \<longleftrightarrow> get_value t k b \<noteq> None"
  by (simp add: keys_of_type_def get_value_def getValue_def getKeys_get)

lemma keys_of_type_lookup:
  assumes "one_type_each b"
  shows "keys_of_type t b = {k. \<exists>v. lookup b k = Some v \<and> type_code v = t}"
proof -
  have "k \<in> keys_of_type t b \<longleftrightarrow> (\<exists>v. lookup b k = Some v \<and> type_code v = t)" for k
    by (simp add: keys_of_type_get get_value_lookup [OF assms] split: option.split)
  then show ?thesis by blast
qed

lemma no_entries_ok [simp]: "one_type_each no_entries" "ordered lt no_entries" "lookup no_entries = Map.empty"
  by (simp_all add: one_type_each_def entries_def no_entries_def ordered_bundle nested_ordered_def lookup_def)

section \<open>Properties\<close>

text \<open>C12: a bundle in which every name has one type is a map from names to typed values: the put methods update it, \<open>erase\<close> removes a name and
  returns how many entries it removed, \<open>size\<close> counts the names, the get methods return the value of a name if it has their type, and the
  methods that list the names of a type list exactly those; and every name keeps having one type.\<close>
theorem bundle_is_map:
  assumes "one_type_each b"
  shows "one_type_each (put_value lt k v b) \<and> lookup (put_value lt k v b) = (lookup b)(k \<mapsto> v) \<and>
    one_type_each (snd (erase k b)) \<and> lookup (snd (erase k b)) = (lookup b)(k := None) \<and> fst (erase k b) = (if k \<in> dom (lookup b) then 1 else 0) \<and>
    bundle_size b = card (dom (lookup b)) \<and>
    get_value t k b = (case lookup b k of Some v \<Rightarrow> if type_code v = t then Some v else None | None \<Rightarrow> None) \<and>
    keys_of_type t b = {k. \<exists>v. lookup b k = Some v \<and> type_code v = t}"
  by (intro conjI bundle_map.invar_update bundle_map.find_update bundle_map.invar_delete bundle_map.find_delete bundle_map.get_find
      erase_result bundle_size_lookup keys_of_type_lookup assms)

definition small_bundle :: pbundle where
  "small_bundle = PersistableBundle [] [([97], 5)] [] [] [([98], [104])] [] [] [] [] [] []"

theorem bundle_is_map_witness:
  "one_type_each small_bundle \<and> lookup (put_value (<) [97] (PBoolean True) small_bundle) = (lookup small_bundle)([97] \<mapsto> PBoolean True) \<and>
   fst (erase [97] small_bundle) = 1 \<and> keys_of_type VAL_STRING small_bundle = {[98]}"
proof -
  have one: "one_type_each small_bundle" by (simp add: one_type_each_def entries_def small_bundle_def)
  have "[97] \<in> dom (lookup small_bundle)" by (simp add: lookup_def entries_def small_bundle_def)
  with one bundle_is_map [OF one, of "(<)" "[97]" "PBoolean True" VAL_STRING]
  show ?thesis by (simp add: keys_of_type_def getKeys_def small_bundle_def)
qed

text \<open>C11: the values a program puts into a new bundle, the last one for each name, are what another program gets from the bundle
  it reads from the parcel the first was written to, whatever their types and however deep bundles are nested.\<close>
theorem bundle_roundtrip:
  assumes lt: "strict_order lt" and kvs: "\<forall>(k, v) \<in> set kvs. ordered_value lt v"
    and b: "b = fold (\<lambda>(k, v). put_value lt k v) kvs no_entries"
    and w: "writable E (length (enc_bundle b) + 4) p" and objs: "objects_within E (mDataPos p) (mObjects p)"
  shows "\<exists>q s. writeToParcel E b p = Inr (OK, q) \<and> setDataPosition (mDataPos p) q = Inr (rewound (mDataPos p) q) \<and>
    readFromParcel lt E no_entries (rewound (mDataPos p) q) = Some (Inr (Inr b, s)) \<and> mDataPos s = mDataPos q \<and> ordered_value lt (PBundle b) \<and>
    (\<forall>t k. get_value t k b = (case map_of (rev kvs) k of Some v \<Rightarrow> if type_code v = t then Some v else None | None \<Rightarrow> None))"
proof -
  have ord: "ordered lt b" unfolding b by (rule ordered_puts [OF lt _ kvs]) simp
  have asym: "asymp lt" using lt by (simp add: strict_order_def)
  obtain q where q: "writeToParcel E b p = Inr (OK, q)" "wrote E p (enc_bundle b) q"
    using writeToParcel_puts [of E b] w by (auto simp: puts_def)
  have inv: "parcel_inv E p" "mDataPos p \<le> mDataSize p" "mDataPos p \<le> INT32_MAX" using w writable_small [OF w] by (auto simp: writable_def)
  obtain s where s: "readFromParcel lt E no_entries (rewound (mDataPos p) q) = Some (Inr (Inr b, s))"
    "advanced E (rewound (mDataPos p) q) (length (enc_bundle b)) s"
    using readFromParcel_gets [OF asym ord, of E] wrote_readable [OF q(2) inv(1,2) objs] by (auto simp: gets_def)
  have "lookup b = map_of (rev kvs)" unfolding b using bundle_map.find_updates [OF no_entries_ok(1), of lt kvs] by simp
  moreover have "one_type_each b" unfolding b by (rule bundle_map.invar_updates) simp
  ultimately have "get_value t k b = (case map_of (rev kvs) k of Some v \<Rightarrow> if type_code v = t then Some v else None | None \<Rightarrow> None)" for t k
    using bundle_map.get_find by metis
  with q s ord inv(3) show ?thesis by (auto simp: setDataPosition_ok advanced_def wrote_def ordered_value_def)
qed

lemma strict_order_lists: "strict_order (\<lambda>x y :: u16 list. x < y)"
  by (auto simp: strict_order_def intro!: asympI transpI totalpI)

definition some_puts :: "(bundle_key \<times> bundle_value) list" where
  "some_puts = [([98], PInt 5), ([97], PBundle small_bundle), ([98], PStringVector [[104], []])]"

definition put_bundle :: pbundle where
  "put_bundle = PersistableBundle [] [] [] [] [] [] [] [] [] [([98], [[104], []])] [([97], small_bundle)]"

theorem bundle_roundtrip_witness:
  "\<exists>q s. writeToParcel linux_env put_bundle Parcel = Inr (OK, q) \<and>
    readFromParcel (<) linux_env no_entries (rewound (mDataPos Parcel) q) = Some (Inr (Inr put_bundle, s)) \<and>
    get_value VAL_INTEGER [98] put_bundle = None \<and> get_value VAL_PERSISTABLEBUNDLE [97] put_bundle = Some (PBundle small_bundle)"
proof -
  have inner: "ordered (<) small_bundle" by (simp add: small_bundle_def ordered_bundle nested_ordered_def)
  have vs: "\<forall>(k, v) \<in> set some_puts. ordered_value (<) v" using inner by (simp add: some_puts_def ordered_value_def)
  have b: "put_bundle = fold (\<lambda>(k, v). put_value (<) k v) some_puts no_entries"
    by (simp add: put_bundle_def some_puts_def no_entries_def put_value_def getKeys_def map_erase_def)
  have "length (enc_bundle small_bundle) \<le> 1000"
    by (subst enc_bundle.simps) (simp add: small_bundle_def bundle_empty_def bundle_size_def entries_def enc_entry_def enc_string16_def padded_len_def)
  then have "length (enc_bundle put_bundle) \<le> 2000"
    by (subst enc_bundle.simps) (simp add: put_bundle_def bundle_empty_def bundle_size_def entries_def enc_entry_def enc_string16_def enc_vector_def padded_len_def)
  then have w: "writable linux_env (length (enc_bundle put_bundle) + 4) Parcel" by (intro writable_fresh) simp
  from bundle_roundtrip [OF strict_order_lists vs b w no_objects_fresh] show ?thesis by (fastforce simp: some_puts_def)
qed

text \<open>C25: reading a bundle from a parcel with arbitrary contents returns, however the bundles are nested and whatever number of entries the data
  claims: it never touches memory outside the data, leaves the contents alone and on success ends inside the data.\<close>
theorem bundle_read_returns:
  assumes "read_ok E p"
  shows "\<exists>x q. readFromParcel lt E b p = Some (Inr (x, q)) \<and> contents q = contents p \<and> parcel_inv E q \<and>
    (case x of Inl st \<Rightarrow> st \<noteq> OK | Inr c \<Rightarrow> mDataPos p \<le> mDataPos q \<and> mDataPos q \<le> mDataSize p)"
proof -
  obtain r where r: "readFromParcel lt E b p = Some r" "steps E 0 p r" using readFromParcel_returns [OF assms] by (auto simp: returns_def)
  then obtain x q where q: "r = Inr (x, q)" "read_frame p q" "parcel_inv E q" "case x of Inl st \<Rightarrow> st \<noteq> OK | Inr v \<Rightarrow> mDataPos q \<le> mDataSize q"
    by (auto simp: steps_def safe_read_def)
  with r(2) have "\<forall>c. x = Inr c \<longrightarrow> mDataPos p \<le> mDataPos q" by (simp add: steps_def)
  with r(1) q read_frameD(1,3) [OF q(2)] show ?thesis by (cases x) auto
qed

theorem bundle_read_returns_witness:
  "read_ok linux_env garbage \<and> (\<exists>x q. readFromParcel (<) linux_env no_entries garbage = Some (Inr (x, q)) \<and> contents q = contents garbage)"
proof -
  have ok: "read_ok linux_env garbage"
    by (simp add: read_ok_def garbage_def Parcel_def parcel_inv_def buf_ok_def read_inv_def objects_within_def)
  with bundle_read_returns [OF ok, of "(<)" no_entries] show ?thesis by blast
qed



end
