(* ===== verification/Spec2Isabelle.thy ===== *)
theory Spec2Isabelle
  imports Parcel_Theorems Dealer_Theorems Service_Theorems Rpc_Async Proxy_Theorems Binder_Theorems Ndk_Theorems Bundle_Theorems
begin

text \<open>
  A model of the binder library of the Android native frameworks (src/libs/binder).

  Parcel (src/libs/binder/Parcel.cpp, include/binder/Parcel.h) is the buffer every transaction
  is marshalled into: a block of bytes with a size, a position and a capacity, and an index of the
  offsets at which kernel objects (binders, handles, descriptors) are stored in it.
  \<^item> Parcel_State: the fields as a record, allocation and growth, release of objects, size and
    position (initState to setData). The C library and the driver's object layout are the
    parameter record env; env_ok names what is assumed of it.
  \<^item> Parcel_Write and Parcel_Read: the primitives and the scalar, array and string operations.
  \<^item> Parcel_Codec: writeData and readData, with one locale per kind of element interface, each
    interpreted on the model's own writers and readers.
  \<^item> Parcel_Objects: objects, descriptors, appendFrom, driver data, comparison and flags.
  \<^item> Parcel_Theorems: the properties of the parcel.
\<close>

end
